(* ===== verification/Prelude.thy ===== *)
theory Prelude
  imports Main "HOL-Library.AList" "HOL-Library.Multiset" "HOL-Library.Char_ord"
    "HOL-Library.List_Lexorder" "HOL-Library.Sublist"
begin

text \<open>
  The shared base of the development: the Go values every component uses and the lemmas that
  carry the component proofs.

  \<^item> A Go \<open>map[K]V\<close> is an association list \<open>('k, 'v) gomap\<close> with distinct keys
    (\<open>gomap_ok\<close>). The list order stands for the iteration order, which Go leaves open; what the
    code computes from an iteration is shown independent of it where the code relies on that.
  \<^item> \<open>sort.Slice\<close> is \<open>sort_Slice\<close>, with the lemma that every sorted rearrangement of the
    same elements is equal to its result when the comparison is a strict total order on them.
  \<^item> Go's \<open>error\<close> values are \<open>goerror\<close>: package-level sentinels, \<open>errors.New\<close>,
    \<open>fmt.Errorf\<close> with its \<open>%w\<close> operand, and connect errors with their code; \<open>errors_Is\<close>
    walks the wrapping chain.
  \<^item> Conversions \<open>int32(x)\<close> wrap around: \<open>to_int32\<close>.
\<close>

named_theorems go_map "rewrite rules for Go maps"
named_theorems inv_intros "introduction rules for component invariants"
named_theorems handler_defs "the definitions of the request handlers"

subsection \<open>Errors\<close>

datatype ConnectCode =
    CodeCanceled | CodeUnknown | CodeInvalidArgument | CodeNotFound | CodePermissionDenied
  | CodeUnimplemented | CodeInternal | CodeUnauthenticated

datatype goerror =
    Sentinel string
  | New string
  | Errorf string "string list" "goerror option"
  | Connect ConnectCode goerror

fun errors_Is :: "goerror \<Rightarrow> goerror \<Rightarrow> bool" where
  "errors_Is (Sentinel a) t \<longleftrightarrow> t = Sentinel a"
| "errors_Is (New a) t \<longleftrightarrow> False"
| "errors_Is (Errorf f as None) t \<longleftrightarrow> False"
| "errors_Is (Errorf f as (Some e)) t \<longleftrightarrow> errors_Is e t"
| "errors_Is (Connect c e) t \<longleftrightarrow> errors_Is e t"

fun CodeOf :: "goerror \<Rightarrow> ConnectCode option" where
  "CodeOf (Connect c e) = Some c"
| "CodeOf (Errorf f as (Some e)) = CodeOf e"
| "CodeOf _ = None"

subsection \<open>Fixed-width conversions\<close>

definition to_int32 :: "int \<Rightarrow> int" where
  "to_int32 x = signed_take_bit 31 x"

lemma to_int32_id: "- (2 ^ 31) \<le> x \<Longrightarrow> x < 2 ^ 31 \<Longrightarrow> to_int32 x = x"
  by (simp add: to_int32_def signed_take_bit_int_eq_self)

lemma to_int32_range: "- (2 ^ 31) \<le> to_int32 x \<and> to_int32 x < 2 ^ 31"
  using signed_take_bit_int_greater_eq_minus_exp [of 31 x] signed_take_bit_int_less_exp [of 31 x]
  by (simp add: to_int32_def)

abbreviation int64_min :: int where "int64_min \<equiv> - (2 ^ 63)"
abbreviation int64_max :: int where "int64_max \<equiv> 2 ^ 63 - 1"

definition is_int64 :: "int \<Rightarrow> bool" where
  "is_int64 x \<longleftrightarrow> int64_min \<le> x \<and> x \<le> int64_max"

subsection \<open>Go maps\<close>

type_synonym ('k, 'v) gomap = "('k \<times> 'v) list"

definition gomap_ok :: "('k, 'v) gomap \<Rightarrow> bool" where
  "gomap_ok m \<longleftrightarrow> distinct (map fst m)"

lemma gomap_ok_Nil [simp, inv_intros]: "gomap_ok []"
  by (simp add: gomap_ok_def)

lemma gomap_ok_update [inv_intros]: "gomap_ok m \<Longrightarrow> gomap_ok (AList.update k v m)"
  by (simp add: gomap_ok_def distinct_update)

lemma gomap_ok_delete [inv_intros]: "gomap_ok m \<Longrightarrow> gomap_ok (AList.delete k m)"
  by (simp add: gomap_ok_def distinct_delete)

lemma map_of_update_iff [go_map]:
  "map_of (AList.update k v m) k' = (if k' = k then Some v else map_of m k')"
  by (simp add: update_conv)

lemma map_of_delete_iff [go_map]:
  "map_of (AList.delete k m) k' = (if k' = k then None else map_of m k')"
  by (simp add: delete_conv)

lemma gomap_in_set: "gomap_ok m \<Longrightarrow> (k, v) \<in> set m \<longleftrightarrow> map_of m k = Some v"
  by (auto simp: gomap_ok_def map_of_is_SomeI dest: map_of_SomeD)

lemma gomap_ok_distinct: "gomap_ok m \<Longrightarrow> distinct m"
  by (auto simp: gomap_ok_def distinct_map)

lemma gomap_eq_mset:
  assumes "gomap_ok m" "gomap_ok m'" "map_of m = map_of m'"
  shows "mset m = mset m'"
proof -
  have "set m = set m'"
    using assms by (auto simp: gomap_in_set)
  with assms show ?thesis
    by (simp add: set_eq_iff_mset_eq_distinct gomap_ok_distinct)
qed

lemma gomap_values: "gomap_ok m \<Longrightarrow> v \<in> snd ` set m \<longleftrightarrow> (\<exists>k. map_of m k = Some v)"
proof -
  assume ok: "gomap_ok m"
  have "v \<in> snd ` set m \<longleftrightarrow> (\<exists>k. (k, v) \<in> set m)" by force
  with ok show ?thesis by (simp add: gomap_in_set)
qed

lemma update_same: "map_of m k = Some v \<Longrightarrow> AList.update k v m = m"
  by (induction m) (auto split: if_splits)

subsection \<open>sort.Slice\<close>

fun insert_by :: "('a \<Rightarrow> 'a \<Rightarrow> bool) \<Rightarrow> 'a \<Rightarrow> 'a list \<Rightarrow> 'a list" where
  "insert_by lt x [] = [x]"
| "insert_by lt x (y # ys) = (if lt x y then x # y # ys else y # insert_by lt x ys)"

primrec sort_Slice :: "('a \<Rightarrow> 'a \<Rightarrow> bool) \<Rightarrow> 'a list \<Rightarrow> 'a list" where
  "sort_Slice lt [] = []"
| "sort_Slice lt (x # xs) = insert_by lt x (sort_Slice lt xs)"

text \<open>A strict total order on a set: what makes the result of \<open>sort.Slice\<close> unique.\<close>

definition strict_total_on :: "'a set \<Rightarrow> ('a \<Rightarrow> 'a \<Rightarrow> bool) \<Rightarrow> bool" where
  "strict_total_on A lt \<longleftrightarrow>
     (\<forall>x\<in>A. \<not> lt x x) \<and>
     (\<forall>x\<in>A. \<forall>y\<in>A. \<forall>z\<in>A. lt x y \<longrightarrow> lt y z \<longrightarrow> lt x z) \<and>
     (\<forall>x\<in>A. \<forall>y\<in>A. x = y \<or> lt x y \<or> lt y x)"

lemma strict_total_on_subset: "strict_total_on A lt \<Longrightarrow> B \<subseteq> A \<Longrightarrow> strict_total_on B lt"
  unfolding strict_total_on_def by blast

lemma strict_total_onD:
  assumes "strict_total_on A lt"
  shows strict_irrefl: "x \<in> A \<Longrightarrow> \<not> lt x x"
    and strict_trans: "x \<in> A \<Longrightarrow> y \<in> A \<Longrightarrow> z \<in> A \<Longrightarrow> lt x y \<Longrightarrow> lt y z \<Longrightarrow> lt x z"
    and strict_cases: "x \<in> A \<Longrightarrow> y \<in> A \<Longrightarrow> x = y \<or> lt x y \<or> lt y x"
  using assms unfolding strict_total_on_def by blast+

lemma mset_insert_by [simp]: "mset (insert_by lt x xs) = add_mset x (mset xs)"
  by (induction xs) auto

lemma mset_sort_Slice [simp]: "mset (sort_Slice lt xs) = mset xs"
  by (induction xs) auto

lemma set_insert_by [simp]: "set (insert_by lt x xs) = insert x (set xs)"
  by (induction xs) auto

lemma set_sort_Slice [simp]: "set (sort_Slice lt xs) = set xs"
  by (induction xs) auto

lemma length_sort_Slice [simp]: "length (sort_Slice lt xs) = length xs"
proof -
  have "size (mset (sort_Slice lt xs)) = size (mset xs)" by simp
  then show ?thesis unfolding size_mset .
qed

lemma distinct_sort_Slice [simp]: "distinct (sort_Slice lt xs) \<longleftrightarrow> distinct xs"
  using mset_sort_Slice by (rule mset_eq_imp_distinct_iff)

lemma sorted_insert_by:
  assumes "strict_total_on (insert x (set xs)) lt" and "x \<notin> set xs" and "sorted_wrt lt xs"
  shows "sorted_wrt lt (insert_by lt x xs)"
  using assms
proof (induction xs)
  case Nil
  then show ?case by simp
next
  case (Cons y ys)
  note st = Cons.prems(1)
  from st have st': "strict_total_on (insert x (set ys)) lt"
    by (rule strict_total_on_subset) auto
  show ?case
  proof (cases "lt x y")
    case True
    have "lt x z" if "z \<in> set ys" for z
      using strict_trans [OF st, of x y z] True that Cons.prems(3) by simp
    with True Cons.prems(3) show ?thesis by simp
  next
    case False
    with Cons.prems(2) strict_cases [OF st, of x y] have "lt y x" by simp
    with False Cons.IH [OF st'] Cons.prems show ?thesis by simp
  qed
qed

lemma sorted_sort_Slice:
  "strict_total_on (set xs) lt \<Longrightarrow> distinct xs \<Longrightarrow> sorted_wrt lt (sort_Slice lt xs)"
proof (induction xs)
  case (Cons x xs)
  from Cons.prems(1) have "strict_total_on (set xs) lt"
    by (rule strict_total_on_subset) auto
  with Cons have "sorted_wrt lt (sort_Slice lt xs)" by simp
  with Cons.prems show ?case
    by (simp add: sorted_insert_by)
qed simp

lemma sorted_wrt_unique:
  assumes "strict_total_on (set xs) lt" "mset xs = mset ys"
    and "sorted_wrt lt xs" "sorted_wrt lt ys"
  shows "xs = ys"
  using assms
proof (induction xs arbitrary: ys)
  case (Cons x xs ys)
  from Cons.prems obtain y zs where ys: "ys = y # zs"
    by (cases ys) auto
  have sets: "insert x (set xs) = insert y (set zs)"
    using Cons.prems(2) ys by (metis list.set(2) set_mset_mset)
  have "x = y"
  proof (rule ccontr)
    assume "x \<noteq> y"
    with sets have "y \<in> set xs" and "x \<in> set zs" by auto
    with Cons.prems ys have "lt x y" and "lt y x" by auto
    with \<open>y \<in> set xs\<close> have "lt x x"
      by (intro strict_trans [OF Cons.prems(1), of x y x]) auto
    with strict_irrefl [OF Cons.prems(1), of x] show False by simp
  qed
  moreover from Cons.prems(1) have "strict_total_on (set xs) lt"
    by (rule strict_total_on_subset) auto
  ultimately have "xs = zs" using Cons.prems ys by (intro Cons.IH) auto
  with \<open>x = y\<close> ys show ?case by simp
qed simp

text \<open>The contract of \<open>sort.Slice\<close>: any sorted rearrangement is the result.\<close>

lemma sort_Slice_unique:
  assumes "strict_total_on (set xs) lt" "distinct xs" "mset ys = mset xs" "sorted_wrt lt ys"
  shows "sort_Slice lt xs = ys"
proof (rule sorted_wrt_unique)
  show "strict_total_on (set (sort_Slice lt xs)) lt" using assms(1) by simp
  show "mset (sort_Slice lt xs) = mset ys" using assms(3) by simp
  show "sorted_wrt lt (sort_Slice lt xs)" using assms by (intro sorted_sort_Slice)
qed (rule assms(4))

lemma sort_Slice_cong_mset:
  assumes "strict_total_on (set xs) lt" "distinct xs" "mset xs = mset ys"
  shows "sort_Slice lt xs = sort_Slice lt ys"
proof (rule sort_Slice_unique [OF assms(1,2)])
  show "mset (sort_Slice lt ys) = mset xs" using assms(3) by simp
  have "set xs = set ys" "distinct ys"
    using assms(2,3) by (auto dest: mset_eq_setD mset_eq_imp_distinct_iff)
  with assms(1) show "sorted_wrt lt (sort_Slice lt ys)"
    by (auto intro: sorted_sort_Slice)
qed

lemma sorted_wrt_filter_imp: "sorted_wrt P xs \<Longrightarrow> sorted_wrt P (filter Q xs)"
  by (induction xs) auto

lemma sort_Slice_filter:
  assumes "strict_total_on (set xs) lt" "distinct xs"
  shows "sort_Slice lt (filter P xs) = filter P (sort_Slice lt xs)"
  using assms
  by (intro sort_Slice_unique)
     (auto intro!: sorted_wrt_filter_imp sorted_sort_Slice elim: strict_total_on_subset)

lemma insert_by_map: "insert_by lt (f x) (map f xs) = map f (insert_by (\<lambda>a b. lt (f a) (f b)) x xs)"
  by (induction xs) auto

lemma sort_Slice_map: "sort_Slice lt (map f xs) = map f (sort_Slice (\<lambda>a b. lt (f a) (f b)) xs)"
  by (induction xs) (auto simp: insert_by_map)

subsection \<open>Indexed lists\<close>

text \<open>A list of records read as a map from a key of the records.\<close>

definition index_by :: "('a \<Rightarrow> 'k) \<Rightarrow> 'a list \<Rightarrow> 'k \<Rightarrow> 'a option" where
  "index_by f xs = map_of (map (\<lambda>x. (f x, x)) xs)"

lemma finite_dom_index [simp]: "finite (dom (index_by f xs))"
  by (simp add: index_by_def finite_dom_map_of)

lemma index_by_iff:
  assumes "distinct (map f xs)"
  shows "index_by f xs k = Some x \<longleftrightarrow> x \<in> set xs \<and> f x = k"
proof -
  have "distinct (map fst (map (\<lambda>x. (f x, x)) xs))" using assms by (simp add: comp_def)
  from map_of_eq_Some_iff [OF this] show ?thesis by (auto simp: index_by_def)
qed

lemma index_by_None: "index_by f xs k = None \<longleftrightarrow> k \<notin> f ` set xs"
  by (auto simp: index_by_def map_of_eq_None_iff image_image)

lemma index_by_ran: "distinct (map f xs) \<Longrightarrow> ran (index_by f xs) = set xs"
  by (auto simp: ran_def index_by_iff)

lemma find_unique:
  "x \<in> set xs \<Longrightarrow> f x = k \<Longrightarrow> distinct (map f xs) \<Longrightarrow> find (\<lambda>y. f y = k) xs = Some x"
  by (induction xs) auto

lemma index_by_eqI:
  assumes "distinct (map f xs)" "\<And>k x. m k = Some x \<longleftrightarrow> x \<in> set xs \<and> f x = k"
  shows "index_by f xs = m"
proof (rule ext)
  fix k show "index_by f xs k = m k"
    using index_by_iff [OF assms(1)] assms(2) by (metis not_Some_eq)
qed

lemma index_by_snoc:
  assumes "distinct (map f xs)" "f x \<notin> f ` set xs"
  shows "index_by f (xs @ [x]) = (index_by f xs)(f x \<mapsto> x)"
proof (rule index_by_eqI)
  show "distinct (map f (xs @ [x]))" using assms by simp
  show "((index_by f xs)(f x \<mapsto> x)) k = Some y \<longleftrightarrow> y \<in> set (xs @ [x]) \<and> f y = k" for k y
    using assms(2) index_by_iff [OF assms(1)] by (auto, metis imageI)
qed

lemma index_by_map:
  assumes "distinct (map f xs)" "x \<in> set xs" "\<And>y. y \<in> set xs \<Longrightarrow> f (g y) = f y" "\<And>y. y \<in> set xs \<Longrightarrow> y \<noteq> x \<Longrightarrow> g y = y"
  shows "index_by f (map g xs) = (index_by f xs)(f x \<mapsto> g x)"
proof (rule index_by_eqI)
  have "map f (map g xs) = map f xs" using assms(3) by simp
  then show "distinct (map f (map g xs))" using assms(1) by (simp only:)
  have inj: "\<And>y. y \<in> set xs \<Longrightarrow> f y = f x \<Longrightarrow> y = x" using assms(1,2) by (auto simp: distinct_map inj_on_def)
  show "((index_by f xs)(f x \<mapsto> g x)) k = Some y \<longleftrightarrow> y \<in> set (map g xs) \<and> f y = k" for k y
  proof (cases "k = f x")
    case True
    with assms(2,3) inj show ?thesis by (auto simp: image_iff) blast
  next
    case False
    then have "y \<in> set (map g xs) \<and> f y = k \<longleftrightarrow> y \<in> set xs \<and> f y = k"
      using assms(3,4) by (auto simp: image_iff) metis+
    with False index_by_iff [OF assms(1)] show ?thesis by simp
  qed
qed

subsection \<open>Lists\<close>

lemma distinct_map_iff_cong:
  "(\<And>x y. x \<in> set xs \<Longrightarrow> y \<in> set xs \<Longrightarrow> f x = f y \<longleftrightarrow> g x = g y) \<Longrightarrow> distinct (map f xs) \<longleftrightarrow> distinct (map g xs)"
  by (auto simp: distinct_map inj_on_def)

lemma filter_unique:
  "distinct xs \<Longrightarrow> x \<in> set xs \<Longrightarrow> (\<And>y. y \<in> set xs \<Longrightarrow> P y \<longleftrightarrow> y = x) \<Longrightarrow> filter P xs = [x]"
  by (induction xs) (auto simp: filter_empty_conv)

lemma sorted_wrt_mono_distinct:
  assumes "\<And>x y. x \<in> set xs \<Longrightarrow> y \<in> set xs \<Longrightarrow> x \<noteq> y \<Longrightarrow> P x y \<Longrightarrow> Q x y" "distinct xs" "sorted_wrt P xs"
  shows "sorted_wrt Q xs"
  using assms by (induction xs) auto

lemma sorted_wrt_take_drop_disjoint:
  "sorted_wrt P xs \<Longrightarrow> x \<in> set (take n xs) \<Longrightarrow> y \<in> set (drop n xs) \<Longrightarrow> P x y"
  using sorted_wrt_append [of P "take n xs" "drop n xs"] by simp

end
