(* ===== verification/GoStrings.thy ===== *)
theory GoStrings
  imports Prelude
begin

text \<open>
  The parts of Go's standard library the sources use on strings: \<open>strings\<close>
  (\<open>TrimSpace\<close>, \<open>ToLower\<close>, \<open>HasPrefix\<close>, \<open>TrimPrefix\<close>, \<open>TrimRight\<close>,
  \<open>Split\<close>, \<open>IndexByte\<close>) and \<open>strconv\<close> (\<open>FormatInt\<close>, \<open>ParseInt\<close>,
  \<open>Atoi\<close>, \<open>ParseBool\<close>). A Go string is a sequence of bytes, here a \<open>char list\<close>.
  The main result is the round trip \<open>ParseInt (FormatInt i) = Inr i\<close> on the 64-bit range,
  on which the paging cursor of the stores and of \<open>decodeCursor\<close> rests.
\<close>

subsection \<open>Package strings\<close>

abbreviation HasPrefix :: "string \<Rightarrow> string \<Rightarrow> bool" where
  "HasPrefix s p \<equiv> prefix p s"

definition TrimPrefix :: "string \<Rightarrow> string \<Rightarrow> string" where
  "TrimPrefix s p = (if HasPrefix s p then drop (length p) s else s)"

text \<open>The UTF-8 encodings of the code points with Unicode's White\_Space property
  (\<open>unicode.IsSpace\<close>): six ASCII ones, U+0085, U+00A0, U+1680, U+2000 to U+200A, U+2028,
  U+2029, U+202F, U+205F and U+3000.\<close>

definition space_seqs :: "string list" where
  "space_seqs =
     [[CHR 0x20], [CHR 0x09], [CHR 0x0A], [CHR 0x0B], [CHR 0x0C], [CHR 0x0D],
      [CHR 0xC2, CHR 0x85], [CHR 0xC2, CHR 0xA0], [CHR 0xE1, CHR 0x9A, CHR 0x80],
      [CHR 0xE2, CHR 0x80, CHR 0x80], [CHR 0xE2, CHR 0x80, CHR 0x81],
      [CHR 0xE2, CHR 0x80, CHR 0x82], [CHR 0xE2, CHR 0x80, CHR 0x83],
      [CHR 0xE2, CHR 0x80, CHR 0x84], [CHR 0xE2, CHR 0x80, CHR 0x85],
      [CHR 0xE2, CHR 0x80, CHR 0x86], [CHR 0xE2, CHR 0x80, CHR 0x87],
      [CHR 0xE2, CHR 0x80, CHR 0x88], [CHR 0xE2, CHR 0x80, CHR 0x89],
      [CHR 0xE2, CHR 0x80, CHR 0x8A], [CHR 0xE2, CHR 0x80, CHR 0xA8],
      [CHR 0xE2, CHR 0x80, CHR 0xA9], [CHR 0xE2, CHR 0x80, CHR 0xAF],
      [CHR 0xE2, CHR 0x81, CHR 0x9F], [CHR 0xE3, CHR 0x80, CHR 0x80]]"

text \<open>Strip any of the given sequences from the front, as often as one of them is there.\<close>

function strip_seqs :: "string list \<Rightarrow> string \<Rightarrow> string" where
  "strip_seqs seqs s =
     (case find (\<lambda>p. p \<noteq> [] \<and> prefix p s) seqs of
        None \<Rightarrow> s
      | Some p \<Rightarrow> strip_seqs seqs (drop (length p) s))"
  by pat_completeness auto
termination
  by (relation "measure (\<lambda>(seqs, s). length s)")
     (auto simp: find_Some_iff prefix_def)

declare strip_seqs.simps [simp del]

definition TrimSpace :: "string \<Rightarrow> string" where
  "TrimSpace s = rev (strip_seqs (map rev space_seqs) (rev (strip_seqs space_seqs s)))"

lemma strip_seqs_suffix: "suffix (strip_seqs seqs s) s"
proof (induction seqs s rule: strip_seqs.induct)
  case (1 seqs s)
  show ?case
  proof (cases "find (\<lambda>p. p \<noteq> [] \<and> prefix p s) seqs")
    case None
    then show ?thesis by (simp add: strip_seqs.simps [of seqs s])
  next
    case (Some p)
    with 1 have "suffix (strip_seqs seqs (drop (length p) s)) (drop (length p) s)" by blast
    then show ?thesis
      using Some by (simp add: strip_seqs.simps [of seqs s])
        (meson suffix_drop suffix_order.trans)
  qed
qed

lemma strip_seqs_clean: "p \<in> set seqs \<Longrightarrow> p \<noteq> [] \<Longrightarrow> \<not> prefix p (strip_seqs seqs s)"
proof (induction seqs s rule: strip_seqs.induct)
  case (1 seqs s)
  show ?case
  proof (cases "find (\<lambda>p. p \<noteq> [] \<and> prefix p s) seqs")
    case None
    then have "strip_seqs seqs s = s" by (simp add: strip_seqs.simps [of seqs s])
    with None 1 show ?thesis by (auto simp: find_None_iff)
  next
    case (Some q)
    with 1 show ?thesis by (simp add: strip_seqs.simps [of seqs s])
  qed
qed

lemma strip_seqs_id: "(\<And>p. p \<in> set seqs \<Longrightarrow> p \<noteq> [] \<Longrightarrow> \<not> prefix p s) \<Longrightarrow> strip_seqs seqs s = s"
proof -
  assume "\<And>p. p \<in> set seqs \<Longrightarrow> p \<noteq> [] \<Longrightarrow> \<not> prefix p s"
  then have "find (\<lambda>p. p \<noteq> [] \<and> prefix p s) seqs = None" by (auto simp: find_None_iff)
  then show ?thesis by (simp add: strip_seqs.simps [of seqs s])
qed

lemma strip_seqs_Nil [simp]: "strip_seqs seqs [] = []"
  by (rule strip_seqs_id) auto

lemma TrimSpace_Nil [simp]: "TrimSpace [] = []"
  by (simp add: TrimSpace_def)

lemma TrimSpace_idem [simp]: "TrimSpace (TrimSpace s) = TrimSpace s"
proof -
  let ?l = "strip_seqs space_seqs s"
  let ?r = "strip_seqs (map rev space_seqs) (rev ?l)"
  have "prefix (rev ?r) ?l"
    using strip_seqs_suffix [of "map rev space_seqs" "rev ?l"] by (simp add: suffix_to_prefix)
  then have "strip_seqs space_seqs (rev ?r) = rev ?r"
    by (intro strip_seqs_id) (meson prefix_order.trans strip_seqs_clean)
  moreover have "strip_seqs (map rev space_seqs) ?r = ?r"
    by (intro strip_seqs_id strip_seqs_clean)
  ultimately show ?thesis by (simp add: TrimSpace_def)
qed

definition is_ascii :: "char \<Rightarrow> bool" where
  "is_ascii c \<longleftrightarrow> (of_char c :: nat) < 128"

definition lower_char :: "char \<Rightarrow> char" where
  "lower_char c = (let n = (of_char c :: nat) in if 65 \<le> n \<and> n \<le> 90 then char_of (n + 32) else c)"

text \<open>\<open>strings.ToLower\<close> maps an ASCII string byte by byte; on any other string it maps the
  code points through Unicode's case tables, which are the parameter \<open>uni\<close>.\<close>

definition ToLower :: "(string \<Rightarrow> string) \<Rightarrow> string \<Rightarrow> string" where
  "ToLower uni s = (if list_all is_ascii s then map lower_char s else uni s)"

definition TrimRight_byte :: "string \<Rightarrow> char \<Rightarrow> string" where
  "TrimRight_byte s c = rev (dropWhile (\<lambda>x. x = c) (rev s))"

text \<open>\<open>strings.Split\<close> with a one-byte separator.\<close>

fun Split :: "string \<Rightarrow> char \<Rightarrow> string list" where
  "Split [] c = [[]]"
| "Split (x # xs) c =
     (if x = c then [] # Split xs c
      else (case Split xs c of [] \<Rightarrow> [[x]] | p # ps \<Rightarrow> (x # p) # ps))"

lemma Split_not_Nil [simp]: "Split s c \<noteq> []"
  by (induction s c rule: Split.induct) (auto split: list.splits)

lemma Split_no_sep: "p \<in> set (Split s c) \<Longrightarrow> c \<notin> set p"
  by (induction s c arbitrary: p rule: Split.induct) (auto split: if_splits list.splits)

text \<open>Joining the parts with the separator gives the string back.\<close>

fun Join :: "string list \<Rightarrow> char \<Rightarrow> string" where
  "Join [] c = []"
| "Join [p] c = p"
| "Join (p # q # ps) c = p @ c # Join (q # ps) c"

lemma Join_Cons_head: "Join ((x # p) # ps) c = x # Join (p # ps) c"
  by (cases ps) auto

lemma Join_Split: "Join (Split s c) c = s"
proof (induction s c rule: Split.induct)
  case (2 x xs c)
  then show ?case
    by (cases "Split xs c") (auto simp: Join_Cons_head)
qed simp

lemma Split_Join: "ps \<noteq> [] \<Longrightarrow> (\<And>p. p \<in> set ps \<Longrightarrow> c \<notin> set p) \<Longrightarrow> Split (Join ps c) c = ps"
proof (induction ps c rule: Join.induct)
  case (2 p c)
  have "c \<notin> set p \<Longrightarrow> Split p c = [p]" by (induction p) auto
  with 2 show ?case by simp
next
  case (3 p q ps c)
  have "c \<notin> set p \<Longrightarrow> Split (p @ c # r) c = p # Split r c" for r by (induction p) auto
  with 3 show ?case by simp
qed simp

fun IndexByte :: "string \<Rightarrow> char \<Rightarrow> int" where
  "IndexByte [] c = -1"
| "IndexByte (x # xs) c =
     (if x = c then 0 else (let i = IndexByte xs c in if i < 0 then -1 else i + 1))"

subsection \<open>Package log/slog\<close>

datatype slogLevel = LevelDebug | LevelInfo | LevelWarn | LevelError

subsection \<open>Package strconv\<close>

definition ErrSyntax :: goerror where "ErrSyntax = Sentinel ''invalid syntax''"
definition ErrRange :: goerror where "ErrRange = Sentinel ''value out of range''"

definition digit_char :: "nat \<Rightarrow> char" where
  "digit_char d = char_of (48 + d)"

fun format_uint :: "nat \<Rightarrow> string" where
  "format_uint n =
     (if n < 10 then [digit_char n] else format_uint (n div 10) @ [digit_char (n mod 10)])"

declare format_uint.simps [simp del]

definition FormatInt :: "int \<Rightarrow> string" where
  "FormatInt i = (if i < 0 then CHR ''-'' # format_uint (nat (- i)) else format_uint (nat i))"

definition digit_of :: "char \<Rightarrow> nat option" where
  "digit_of c = (let n = (of_char c :: nat) in if 48 \<le> n \<and> n \<le> 57 then Some (n - 48) else None)"

definition max_uint64 :: nat where "max_uint64 = 2 ^ 64 - 1"

text \<open>The loop of \<open>strconv.ParseUint\<close> in base 10: a byte that is not a digit is a syntax
  error, and the first digit that leaves the 64-bit range stops the loop with a range error.\<close>

fun parse_uint :: "nat \<Rightarrow> string \<Rightarrow> goerror + nat" where
  "parse_uint n [] = Inr n"
| "parse_uint n (c # cs) =
     (case digit_of c of
        None \<Rightarrow> Inl ErrSyntax
      | Some d \<Rightarrow>
          if n \<ge> max_uint64 div 10 + 1 then Inl ErrRange
          else if n * 10 + d > max_uint64 then Inl ErrRange
          else parse_uint (n * 10 + d) cs)"

definition ParseUint :: "string \<Rightarrow> goerror + nat" where
  "ParseUint s = (if s = [] then Inl ErrSyntax else parse_uint 0 s)"

definition num_error :: "string \<Rightarrow> string \<Rightarrow> goerror \<Rightarrow> goerror" where
  "num_error f s e = Errorf ''strconv.%s: parsing %q: %w'' [f, s] (Some e)"

definition parse_int64 :: "string \<Rightarrow> string \<Rightarrow> goerror + int" where
  "parse_int64 f s0 =
     (if s0 = [] then Inl (num_error f s0 ErrSyntax)
      else let neg = (hd s0 = CHR ''-'');
               s = (if hd s0 = CHR ''+'' \<or> hd s0 = CHR ''-'' then tl s0 else s0)
           in case ParseUint s of
                Inl e \<Rightarrow> Inl (num_error f s0 e)
              | Inr un \<Rightarrow>
                  if \<not> neg \<and> un \<ge> 2 ^ 63 then Inl (num_error f s0 ErrRange)
                  else if neg \<and> un > 2 ^ 63 then Inl (num_error f s0 ErrRange)
                  else Inr (if neg then - int un else int un))"

definition ParseInt :: "string \<Rightarrow> goerror + int" where
  "ParseInt s = parse_int64 ''ParseInt'' s"

definition Atoi :: "string \<Rightarrow> goerror + int" where
  "Atoi s = parse_int64 ''Atoi'' s"

definition ParseBool :: "string \<Rightarrow> goerror + bool" where
  "ParseBool s =
     (if s \<in> set [''1'', ''t'', ''T'', ''true'', ''TRUE'', ''True''] then Inr True
      else if s \<in> set [''0'', ''f'', ''F'', ''false'', ''FALSE'', ''False''] then Inr False
      else Inl (num_error ''ParseBool'' s ErrSyntax))"

subsection \<open>Round trip of FormatInt and ParseInt\<close>

lemma digit_of_digit_char [simp]: "d < 10 \<Longrightarrow> digit_of (digit_char d) = Some d"
  by (simp add: digit_of_def digit_char_def)

text \<open>The number a digit string denotes, continuing from \<open>n\<close>.\<close>

definition digits_value :: "nat \<Rightarrow> string \<Rightarrow> nat" where
  "digits_value n s = foldl (\<lambda>a c. a * 10 + the (digit_of c)) n s"

lemma digits_value_ge: "n \<le> digits_value n s"
proof (induction s arbitrary: n)
  case (Cons c s)
  have "n * 10 + the (digit_of c) \<le> digits_value (n * 10 + the (digit_of c)) s" by (rule Cons.IH)
  then show ?case by (simp add: digits_value_def)
qed (simp add: digits_value_def)

lemma parse_uint_digits:
  "\<forall>c \<in> set s. digit_of c \<noteq> None \<Longrightarrow> digits_value n s \<le> max_uint64 \<Longrightarrow>
   parse_uint n s = Inr (digits_value n s)"
proof (induction s arbitrary: n)
  case (Cons c s)
  then obtain d where d: "digit_of c = Some d" by auto
  have v: "digits_value n (c # s) = digits_value (n * 10 + d) s"
    by (simp add: digits_value_def d)
  with Cons.prems(2) digits_value_ge [of "n * 10 + d" s] have "n * 10 + d \<le> max_uint64" by simp
  moreover then have "n \<le> max_uint64 div 10" by linarith
  ultimately show ?case
    using Cons d v by simp
qed (simp add: digits_value_def)

lemma format_uint_digits: "c \<in> set (format_uint n) \<Longrightarrow> digit_of c \<noteq> None"
proof (induction n rule: format_uint.induct)
  case (1 n)
  then show ?case
    by (subst (asm) format_uint.simps) (auto split: if_splits)
qed

lemma format_uint_not_Nil [simp]: "format_uint n \<noteq> []"
  by (subst format_uint.simps) simp

lemma digits_value_format_uint: "digits_value 0 (format_uint n) = n"
proof (induction n rule: format_uint.induct)
  case (1 n)
  show ?case
  proof (cases "n < 10")
    case True
    then show ?thesis by (subst format_uint.simps) (simp add: digits_value_def)
  next
    case False
    with 1 have "digits_value 0 (format_uint (n div 10)) = n div 10" by simp
    with False show ?thesis
      by (subst format_uint.simps) (simp add: digits_value_def)
  qed
qed

lemma ParseUint_format_uint: "n \<le> max_uint64 \<Longrightarrow> ParseUint (format_uint n) = Inr n"
  using parse_uint_digits [of "format_uint n" 0]
  by (auto simp: ParseUint_def digits_value_format_uint dest: format_uint_digits)

lemma format_uint_hd: "hd (format_uint n) \<noteq> CHR ''-'' \<and> hd (format_uint n) \<noteq> CHR ''+''"
proof -
  have "digit_of (hd (format_uint n)) \<noteq> None"
    by (rule format_uint_digits [of _ n]) simp
  then show ?thesis by (auto simp: digit_of_def)
qed

lemma ParseInt_FormatInt:
  assumes "is_int64 i"
  shows "ParseInt (FormatInt i) = Inr i"
proof (cases "i < 0")
  case True
  with assms have b: "nat (- i) \<le> 2 ^ 63" by (simp add: is_int64_def)
  then have "ParseUint (format_uint (nat (- i))) = Inr (nat (- i))"
    by (intro ParseUint_format_uint) (simp add: max_uint64_def)
  with True b show ?thesis by (simp add: ParseInt_def parse_int64_def FormatInt_def)
next
  case False
  with assms have b: "nat i < 2 ^ 63" by (simp add: is_int64_def)
  then have "ParseUint (format_uint (nat i)) = Inr (nat i)"
    by (intro ParseUint_format_uint) (simp add: max_uint64_def)
  with False b format_uint_hd [of "nat i"] show ?thesis
    by (simp add: ParseInt_def parse_int64_def FormatInt_def)
qed

lemma FormatInt_not_Nil [simp]: "FormatInt i \<noteq> []"
  by (simp add: FormatInt_def)

lemma FormatInt_nat: "FormatInt (int n) = format_uint n"
  by (simp add: FormatInt_def)

lemma format_uint_inj: "format_uint m = format_uint n \<longleftrightarrow> m = n"
  by (metis digits_value_format_uint)

text \<open>Text every service takes: ASCII without the zero byte.\<close>

definition plain_text :: "string \<Rightarrow> bool" where
  "plain_text s \<longleftrightarrow> list_all (\<lambda>ch. is_ascii ch \<and> ch \<noteq> CHR 0x00) s"

lemma plain_text_simps [simp]:
  "plain_text []" "plain_text (c # s) \<longleftrightarrow> is_ascii c \<and> c \<noteq> CHR 0x00 \<and> plain_text s"
  "plain_text (s @ t) \<longleftrightarrow> plain_text s \<and> plain_text t" "plain_text (replicate k c) \<longleftrightarrow> k = 0 \<or> is_ascii c \<and> c \<noteq> CHR 0x00"
  by (auto simp: plain_text_def list_all_iff)

lemma plain_format_uint [simp]: "plain_text (format_uint n)"
proof -
  have "is_ascii ch \<and> ch \<noteq> CHR 0x00" if "ch \<in> set (format_uint n)" for ch
    using format_uint_digits [OF that] by (auto simp: digit_of_def is_ascii_def Let_def split: if_splits)
  then show ?thesis by (simp add: plain_text_def list_all_iff)
qed

text \<open>Every successful parse is in the 64-bit range.\<close>

lemma parse_int64_range: "parse_int64 f s = Inr i \<Longrightarrow> is_int64 i"
  by (auto simp: parse_int64_def is_int64_def Let_def split: if_splits sum.splits)

end
