(* ===== verification/Model.thy ===== *)
theory Model
  imports GoStrings
begin

text \<open>
  The domain types and contracts of package \<open>notify\<close>: \<open>model.go\<close> (channels, statuses,
  \<open>Notification\<close>, \<open>Device\<close>), \<open>store.go\<close> (the \<open>Store\<close> interface, \<open>Query\<close>,
  the page bounds and sentinel errors) and the message types of \<open>channel.go\<close>. Channel kinds
  and statuses are Go string types, so any string is a value of them and the constants are
  named strings. Timestamps are \<open>int64\<close> values the code only stores and compares; they are
  integers here, with \<open>is_int64\<close> where their decimal form is parsed back.

  A Go interface is a record of functions: \<open>'s StoreOps\<close> over the driver's state \<open>'s\<close>. A method
  that writes through a pointer argument returns the argument's new value too.
\<close>

subsection \<open>model.go\<close>

type_synonym ChannelKind = string

definition ChannelInApp :: ChannelKind where "ChannelInApp = ''in_app''"
definition ChannelEmail :: ChannelKind where "ChannelEmail = ''email''"
definition ChannelWebPush :: ChannelKind where "ChannelWebPush = ''web_push''"
definition ChannelMobilePush :: ChannelKind where "ChannelMobilePush = ''mobile_push''"
definition ChannelSMS :: ChannelKind where "ChannelSMS = ''sms''"
definition ChannelWhatsApp :: ChannelKind where "ChannelWhatsApp = ''whatsapp''"

lemmas channel_defs = ChannelInApp_def ChannelEmail_def ChannelWebPush_def
  ChannelMobilePush_def ChannelSMS_def ChannelWhatsApp_def

lemma channels_distinct:
  "distinct [ChannelInApp, ChannelEmail, ChannelWebPush, ChannelMobilePush, ChannelSMS,
     ChannelWhatsApp, '''']"
  by (simp add: channel_defs)

lemmas channel_neqs [simp] = channels_distinct [simplified, simplified eq_commute]

type_synonym DeliveryStatus = string

definition StatusPending :: DeliveryStatus where "StatusPending = ''pending''"
definition StatusDelivered :: DeliveryStatus where "StatusDelivered = ''delivered''"
definition StatusAcked :: DeliveryStatus where "StatusAcked = ''acked''"
definition StatusRead :: DeliveryStatus where "StatusRead = ''read''"
definition StatusFailed :: DeliveryStatus where "StatusFailed = ''failed''"

lemmas status_defs = StatusPending_def StatusDelivered_def StatusAcked_def StatusRead_def
  StatusFailed_def

record Notification =
  ID :: string
  NotificationID :: string
  TenantID :: string
  UserID :: string
  SubjectRef :: string
  SubjectType :: string
  Title :: string
  Body :: string
  Channel :: ChannelKind
  Status :: DeliveryStatus
  CreatedAtMS :: int
  DeliveredAtMS :: int
  AckAtMS :: int
  ReadAtMS :: int

record Device =
  dev_ID :: string
  dev_TenantID :: string
  dev_UserID :: string
  dev_DeviceType :: string
  dev_Token :: string
  dev_CreatedAtMS :: int
  dev_LastActiveMS :: int

subsection \<open>store.go\<close>

definition ErrNotFound :: goerror where "ErrNotFound = Sentinel ''notify: not found''"
definition ErrConflict :: goerror where "ErrConflict = Sentinel ''notify: conflict''"

lemma errors_Is_sentinels [simp]:
  "errors_Is ErrNotFound ErrNotFound" "errors_Is ErrConflict ErrConflict"
  "\<not> errors_Is ErrConflict ErrNotFound" "\<not> errors_Is ErrNotFound ErrConflict"
  by (simp_all add: ErrNotFound_def ErrConflict_def)

record Query =
  q_TenantID :: string
  q_UserID :: string
  q_CursorMS :: "int option"
  q_Limit :: int
  q_UnreadOnly :: bool

definition DefaultPageLimit :: int where "DefaultPageLimit = 20"
definition MaxPageLimit :: int where "MaxPageLimit = 100"

definition ClampLimit :: "int \<Rightarrow> int" where
  "ClampLimit limit =
     (if limit \<le> 0 then DefaultPageLimit
      else if limit > MaxPageLimit then MaxPageLimit
      else limit)"

lemma ClampLimit_bounds: "1 \<le> ClampLimit l \<and> ClampLimit l \<le> MaxPageLimit"
  by (simp add: ClampLimit_def DefaultPageLimit_def MaxPageLimit_def)

record 's StoreOps =
  CreateNotification :: "'s \<Rightarrow> Notification \<Rightarrow> 's \<times> Notification \<times> (goerror + bool)"
  GetNotification :: "'s \<Rightarrow> string \<Rightarrow> string \<Rightarrow> string \<Rightarrow> goerror + Notification"
  UpdateStatus :: "'s \<Rightarrow> string \<Rightarrow> string \<Rightarrow> DeliveryStatus \<Rightarrow> int \<Rightarrow> 's \<times> goerror option"
  QueryUserNotifications :: "'s \<Rightarrow> Query \<Rightarrow> goerror + (Notification list \<times> string \<times> int)"
  UpsertDevice :: "'s \<Rightarrow> Device \<Rightarrow> 's \<times> Device \<times> (goerror + Device)"
  ListDevices :: "'s \<Rightarrow> string \<Rightarrow> string \<Rightarrow> goerror + Device list"

subsection \<open>channel.go\<close>

record Message =
  msg_Notification :: "Notification option"
  msg_To :: string
  msg_Title :: string
  msg_Body :: string
  msg_Data :: "(string, string) gomap"

record Receipt =
  rc_ProviderMessageID :: string
  rc_Status :: DeliveryStatus

text \<open>A provider works on the world \<open>'w\<close> outside the store (network, live connections).
  \<open>Send\<close> returns both results of the Go method, the receipt and the error.\<close>

record 'w Provider =
  Kind :: ChannelKind
  Name :: string
  Send :: "'w \<Rightarrow> Message \<Rightarrow> 'w \<times> Receipt \<times> goerror option"

type_synonym 'w ProviderRegistry = "(ChannelKind, 'w Provider) gomap"

definition NewProviderRegistry :: "'w ProviderRegistry" where
  "NewProviderRegistry = []"

definition Register_provider :: "'w ProviderRegistry \<Rightarrow> 'w Provider \<Rightarrow> 'w ProviderRegistry" where
  "Register_provider r p = AList.update (Kind p) p r"

definition Get_provider :: "'w ProviderRegistry \<Rightarrow> ChannelKind \<Rightarrow> 'w Provider option" where
  "Get_provider r kind = map_of r kind"

definition Enabled :: "'w ProviderRegistry \<Rightarrow> ChannelKind list" where
  "Enabled r = map fst r"

text \<open>A registry built by \<open>Register\<close> files every provider under its own kind.\<close>

definition registry_ok :: "'w ProviderRegistry \<Rightarrow> bool" where
  "registry_ok r \<longleftrightarrow> gomap_ok r \<and> (\<forall>k p. map_of r k = Some p \<longrightarrow> Kind p = k)"

lemma registry_ok_New [inv_intros]: "registry_ok NewProviderRegistry"
  by (simp add: registry_ok_def NewProviderRegistry_def)

lemma registry_ok_Register [inv_intros]: "registry_ok r \<Longrightarrow> registry_ok (Register_provider r p)"
  by (auto simp: registry_ok_def Register_provider_def go_map intro: inv_intros)

lemma Get_Register:
  "Get_provider (Register_provider r p) k = (if k = Kind p then Some p else Get_provider r k)"
  by (simp add: Get_provider_def Register_provider_def go_map)

lemma set_Enabled: "set (Enabled r) = {k. Get_provider r k \<noteq> None}"
  by (force simp: Enabled_def Get_provider_def map_of_eq_None_iff)

end
