(* ===== verification/Store_Spec.thy ===== *)
theory Store_Spec
  imports Model
begin

text \<open>
  The contract of the \<open>Store\<close> interface (\<open>store.go\<close>) as two locales, one for the
  notification rows and one for the device rows, with the client lemmas every driver gets by
  interpretation. The abstract state of a driver is a finite map from row ids to rows; the
  pages of \<open>QueryUserNotifications\<close> are specified as a relation on that map (\<open>is_page\<close>).
  A driver need not hold every byte
  string: \<open>row_ok\<close> and \<open>dev_ok\<close> are the rows it accepts, \<open>arg_ok\<close> the strings it accepts as
  tenant, user and status, \<open>id_arg\<close> the ids it compares exactly.
  \<open>walk_pages\<close> is the client's loop over the pages (the loop of
  \<open>store/conformance/queryedge.go\<close>), and the locale proves when it sees every row.
\<close>

subsection \<open>Rows, keys and the page order\<close>

record notifKey =
  nk_Tenant :: string
  nk_User :: string
  nk_NotificationID :: string

record devKey =
  dk_Tenant :: string
  dk_User :: string
  dk_DeviceType :: string

definition notif_key :: "Notification \<Rightarrow> notifKey" where
  "notif_key n = \<lparr>nk_Tenant = TenantID n, nk_User = UserID n, nk_NotificationID = NotificationID n\<rparr>"

definition dev_key :: "Device \<Rightarrow> devKey" where
  "dev_key d = \<lparr>dk_Tenant = dev_TenantID d, dk_User = dev_UserID d, dk_DeviceType = dev_DeviceType d\<rparr>"

text \<open>The comparison of the stores' \<open>sort.Slice\<close>: newest first, ties broken by the id.\<close>

definition newest_first :: "Notification \<Rightarrow> Notification \<Rightarrow> bool" where
  "newest_first a b =
     (if CreatedAtMS a \<noteq> CreatedAtMS b then CreatedAtMS a > CreatedAtMS b else ID a > ID b)"

lemma newest_first_total: "inj_on ID A \<Longrightarrow> strict_total_on A newest_first"
  unfolding strict_total_on_def newest_first_def
  by (auto simp: inj_on_def dest: less_trans split: if_splits) (metis linorder_less_linear)

text \<open>Setting the status stamps the timestamp field that goes with it.\<close>

definition stamp_status :: "DeliveryStatus \<Rightarrow> int \<Rightarrow> Notification \<Rightarrow> Notification" where
  "stamp_status status atMS n =
     (let n = n\<lparr>Status := status\<rparr> in
      if status = StatusDelivered then n\<lparr>DeliveredAtMS := atMS\<rparr>
      else if status = StatusAcked then n\<lparr>AckAtMS := atMS\<rparr>
      else if status = StatusRead then n\<lparr>ReadAtMS := atMS\<rparr>
      else n)"

lemma stamp_status_simps [simp]:
  "ID (stamp_status st ms n) = ID n" "NotificationID (stamp_status st ms n) = NotificationID n"
  "TenantID (stamp_status st ms n) = TenantID n" "UserID (stamp_status st ms n) = UserID n"
  "Title (stamp_status st ms n) = Title n" "Body (stamp_status st ms n) = Body n"
  "SubjectRef (stamp_status st ms n) = SubjectRef n"
  "SubjectType (stamp_status st ms n) = SubjectType n"
  "Channel (stamp_status st ms n) = Channel n" "Status (stamp_status st ms n) = st"
  "CreatedAtMS (stamp_status st ms n) = CreatedAtMS n"
  "notif_key (stamp_status st ms n) = notif_key n"
  by (simp_all add: stamp_status_def Let_def notif_key_def)

lemma stamp_status_times:
  "DeliveredAtMS (stamp_status st ms n) = (if st = StatusDelivered then ms else DeliveredAtMS n)"
  "AckAtMS (stamp_status st ms n) = (if st = StatusAcked then ms else AckAtMS n)"
  "ReadAtMS (stamp_status st ms n) = (if st = StatusRead then ms else ReadAtMS n)"
  by (simp_all add: stamp_status_def Let_def status_defs)

lemma notif_key_ID [simp]: "notif_key (n\<lparr>ID := i\<rparr>) = notif_key n"
  by (simp add: notif_key_def)

definition owned_by :: "string \<Rightarrow> string \<Rightarrow> Notification \<Rightarrow> bool" where
  "owned_by t u n \<longleftrightarrow> TenantID n = t \<and> UserID n = u"

definition query_match :: "Query \<Rightarrow> Notification \<Rightarrow> bool" where
  "query_match q n \<longleftrightarrow> owned_by (q_TenantID q) (q_UserID q) n \<and>
     (q_UnreadOnly q \<longrightarrow> Status n \<noteq> StatusRead) \<and>
     (case q_CursorMS q of None \<Rightarrow> True | Some c \<Rightarrow> CreatedAtMS n < c)"

definition cursor_of :: "Notification list \<Rightarrow> nat \<Rightarrow> string" where
  "cursor_of xs lim = (if lim < length xs then FormatInt (CreatedAtMS (last (take lim xs))) else '''')"

text \<open>What a page is: the first \<open>ClampLimit\<close> matching rows in page order, the cursor when more
  rows match, and the number of the user's unread rows whatever the window and the filter.\<close>

definition is_page :: "Notification set \<Rightarrow> Query \<Rightarrow> Notification list \<times> string \<times> int \<Rightarrow> bool" where
  "is_page R q p \<longleftrightarrow>
     (\<exists>xs. distinct xs \<and> set xs = {n \<in> R. query_match q n} \<and> sorted_wrt newest_first xs \<and>
        p = (take (nat (ClampLimit (q_Limit q))) xs, cursor_of xs (nat (ClampLimit (q_Limit q))),
             int (card {n \<in> R. owned_by (q_TenantID q) (q_UserID q) n \<and> Status n \<noteq> StatusRead})))"

text \<open>How the drivers compute a page: cut the sorted matches, the cursor from the last row kept.\<close>

lemma page_cut:
  assumes "0 < l"
  shows "(if int (length xs) > l then let m = take (nat l) xs in (m, FormatInt (CreatedAtMS (m ! (length m - 1))))
          else (xs, '''')) = (take (nat l) xs, cursor_of xs (nat l))"
proof (cases "l < int (length xs)")
  case True
  with assms have "take (nat l) xs \<noteq> []" by (cases xs) auto
  with True show ?thesis by (simp add: cursor_of_def last_conv_nth Let_def nat_less_iff)
next
  case False
  then show ?thesis using assms by (simp add: cursor_of_def nat_less_iff)
qed

lemma is_page_sort:
  assumes "distinct ns" "inj_on ID (set ns)" "\<And>n. owned_by (q_TenantID q) (q_UserID q) n \<Longrightarrow> n \<in> R \<longleftrightarrow> n \<in> set ns"
    and "xs = sort_Slice newest_first (filter (query_match q) ns)" "lim = nat (ClampLimit (q_Limit q))"
    and "u = length (filter (\<lambda>n. owned_by (q_TenantID q) (q_UserID q) n \<and> Status n \<noteq> StatusRead) ns)"
  shows "is_page R q (take lim xs, cursor_of xs lim, int u)"
proof -
  have "strict_total_on (set (filter (query_match q) ns)) newest_first"
    using assms(2) by (intro newest_first_total) (auto intro: inj_on_subset)
  then have "sorted_wrt newest_first xs" "distinct xs"
    unfolding assms(4) using assms(1) by (simp_all add: sorted_sort_Slice)
  moreover have "set xs = {n \<in> R. query_match q n}" by (auto simp: assms(3,4) query_match_def)
  moreover have "u = card {n \<in> R. owned_by (q_TenantID q) (q_UserID q) n \<and> Status n \<noteq> StatusRead}"
    unfolding assms(6) distinct_length_filter [OF assms(1)] by (rule arg_cong [of _ _ card]) (use assms(3) in auto)
  ultimately show ?thesis unfolding is_page_def assms(5) by blast
qed

text \<open>How the drivers list devices.\<close>

lemma device_list_sort:
  assumes "distinct ds" "\<And>k d. dk_Tenant k = t \<Longrightarrow> dk_User k = u \<Longrightarrow> dev k = Some d \<longleftrightarrow> d \<in> set ds \<and> dev_key d = k"
    and "out = sort_Slice (\<lambda>a b. dev_DeviceType a < dev_DeviceType b)
      (filter (\<lambda>d. dev_TenantID d = t \<and> dev_UserID d = u) ds)"
  shows "distinct out \<and> set out = {d. \<exists>dt. dev \<lparr>dk_Tenant = t, dk_User = u, dk_DeviceType = dt\<rparr> = Some d} \<and>
    sorted_wrt (\<lambda>a b. dev_DeviceType a < dev_DeviceType b) out"
proof -
  let ?lt = "\<lambda>a b. dev_DeviceType a < dev_DeviceType b"
  let ?xs = "filter (\<lambda>d. dev_TenantID d = t \<and> dev_UserID d = u) ds"
  have inj: "inj_on dev_DeviceType (set ?xs)"
  proof (rule inj_onI)
    fix a b assume ab: "a \<in> set ?xs" "b \<in> set ?xs" "dev_DeviceType a = dev_DeviceType b"
    then have "dev_key a = dev_key b" by (simp add: dev_key_def)
    with ab assms(2) [of "dev_key a" a] assms(2) [of "dev_key b" b] show "a = b" by (simp add: dev_key_def)
  qed
  then have "strict_total_on (set ?xs) ?lt"
    by (auto simp: strict_total_on_def inj_on_def) (metis linorder_less_linear)
  then have "sorted_wrt ?lt out" unfolding assms(3) using assms(1) by (intro sorted_sort_Slice) auto
  moreover have "distinct out" using assms(1) by (simp add: assms(3))
  moreover have "set out = {d. \<exists>dt. dev \<lparr>dk_Tenant = t, dk_User = u, dk_DeviceType = dt\<rparr> = Some d}"
    by (auto simp: assms(2,3) dev_key_def)
  ultimately show ?thesis by blast
qed

text \<open>The rows after a page are those strictly older than its last row, when no two share a creation time.\<close>

lemma rows_after_page:
  assumes "distinct xs" "set xs = {n \<in> R. query_match q n}" "sorted_wrt newest_first xs" "inj_on CreatedAtMS (set xs)"
    and "0 < lim" "lim < length xs" "l = last (take lim xs)"
  shows "l \<in> set xs" "set (drop lim xs) = {n \<in> R. query_match (q\<lparr>q_CursorMS := Some (CreatedAtMS l)\<rparr>) n}"
proof -
  have ne: "take lim xs \<noteq> []" using assms(5,6) by auto
  then have l: "l \<in> set (take lim xs)" unfolding assms(7) by (rule last_in_set)
  then show lx: "l \<in> set xs" by (rule in_set_takeD)
  have older: "CreatedAtMS n < CreatedAtMS l" if n: "n \<in> set (drop lim xs)" for n
  proof -
    have "newest_first l n" using sorted_wrt_take_drop_disjoint [OF assms(3) l n] .
    moreover have "l \<noteq> n" using assms(1) l n set_take_disj_set_drop_if_distinct [of xs lim lim] by blast
    then have "CreatedAtMS l \<noteq> CreatedAtMS n" using assms(4) lx in_set_dropD [OF n] by (auto dest: inj_onD)
    ultimately show ?thesis by (simp add: newest_first_def)
  qed
  have newer: "\<not> CreatedAtMS n < CreatedAtMS l" if n: "n \<in> set (take lim xs)" for n
  proof (cases "n = l")
    case False
    obtain ys where ys: "take lim xs = ys @ [l]" using ne assms(7) append_butlast_last_id by metis
    have "sorted_wrt newest_first (take lim xs)" by (rule sorted_wrt_take [OF assms(3)])
    with ys n False have "newest_first n l" by (auto simp: sorted_wrt_append)
    then show ?thesis by (auto simp: newest_first_def split: if_splits)
  qed simp
  have "query_match q l" using lx assms(2) by blast
  then have "query_match (q\<lparr>q_CursorMS := Some (CreatedAtMS l)\<rparr>) n \<longleftrightarrow> query_match q n \<and> CreatedAtMS n < CreatedAtMS l" for n
    by (auto simp: query_match_def split: option.splits)
  moreover have "set xs = set (take lim xs) \<union> set (drop lim xs)" by (metis append_take_drop_id set_append)
  ultimately show "set (drop lim xs) = {n \<in> R. query_match (q\<lparr>q_CursorMS := Some (CreatedAtMS l)\<rparr>) n}"
    using older newer assms(2) by blast
qed

subsection \<open>The client's loop over the pages\<close>

primrec walk_pages :: "'s StoreOps \<Rightarrow> 's \<Rightarrow> Query \<Rightarrow> nat \<Rightarrow> goerror + Notification list option" where
  "walk_pages ops s q 0 = Inr None"
| "walk_pages ops s q (Suc fuel) =
     (case QueryUserNotifications ops s q of
        Inl e \<Rightarrow> Inl e
      | Inr (items, cursor, unread) \<Rightarrow>
          if cursor = '''' then Inr (Some items)
          else (case ParseInt cursor of
                  Inl e \<Rightarrow> Inl e
                | Inr v \<Rightarrow>
                    (case walk_pages ops s (q\<lparr>q_CursorMS := Some v\<rparr>) fuel of
                       Inl e \<Rightarrow> Inl e
                     | Inr None \<Rightarrow> Inr None
                     | Inr (Some rest) \<Rightarrow> Inr (Some (items @ rest)))))"

subsection \<open>The contract for notification rows\<close>

locale notification_store =
  fixes ops :: "'s StoreOps"
    and inv :: "'s \<Rightarrow> bool"
    and row :: "'s \<Rightarrow> string \<Rightarrow> Notification option"
    and id_ok :: "'s \<Rightarrow> string \<Rightarrow> bool"
    and row_ok :: "Notification \<Rightarrow> bool"
    and arg_ok :: "string \<Rightarrow> bool"
    and id_arg :: "string \<Rightarrow> bool"
  assumes finite_rows: "inv s \<Longrightarrow> finite (dom (row s))"
    and row_ID: "inv s \<Longrightarrow> row s i = Some n \<Longrightarrow> ID n = i"
    and row_key: "inv s \<Longrightarrow> row s i = Some n \<Longrightarrow> row s j = Some m \<Longrightarrow>
      notif_key n = notif_key m \<Longrightarrow> i = j"
    and id_ok_empty: "inv s \<Longrightarrow> id_ok s ''''"
    and row_id_arg: "inv s \<Longrightarrow> row s i = Some n \<Longrightarrow> id_arg i"
    and own_status_ok: "st \<in> {StatusPending, StatusDelivered, StatusAcked, StatusRead, StatusFailed} \<Longrightarrow> arg_ok st"
    and create_new: "inv s \<Longrightarrow> id_ok s (ID n) \<Longrightarrow> row_ok n \<Longrightarrow> (\<And>i m. row s i = Some m \<Longrightarrow> notif_key m \<noteq> notif_key n) \<Longrightarrow>
      \<exists>s' i. CreateNotification ops s n = (s', n\<lparr>ID := i\<rparr>, Inr True) \<and> inv s' \<and> i \<noteq> '''' \<and>
        row s i = None \<and> row s' = (row s)(i \<mapsto> n\<lparr>ID := i\<rparr>)"
    and create_existing: "inv s \<Longrightarrow> id_ok s (ID n) \<Longrightarrow> row_ok n \<Longrightarrow> row s i = Some m \<Longrightarrow>
      notif_key m = notif_key n \<Longrightarrow>
      \<exists>s'. CreateNotification ops s n = (s', n\<lparr>ID := i\<rparr>, Inr False) \<and> inv s' \<and> row s' = row s"
    and get_spec: "inv s \<Longrightarrow> id_arg i \<Longrightarrow> GetNotification ops s t u i =
      (case row s i of None \<Rightarrow> Inl ErrNotFound
       | Some n \<Rightarrow> if owned_by t u n then Inr n else Inl ErrNotFound)"
    and update_missing: "inv s \<Longrightarrow> id_arg i \<Longrightarrow> (\<And>n. row s i = Some n \<Longrightarrow> TenantID n \<noteq> t) \<Longrightarrow>
      UpdateStatus ops s t i st ms = (s, Some ErrNotFound)"
    and update_found: "inv s \<Longrightarrow> arg_ok st \<Longrightarrow> row s i = Some n \<Longrightarrow> TenantID n = t \<Longrightarrow>
      \<exists>s'. UpdateStatus ops s t i st ms = (s', None) \<and> inv s' \<and>
        row s' = (row s)(i \<mapsto> stamp_status st ms n)"
    and query_page: "inv s \<Longrightarrow> arg_ok (q_TenantID q) \<Longrightarrow> arg_ok (q_UserID q) \<Longrightarrow> \<exists>p. QueryUserNotifications ops s q = Inr p \<and> is_page (ran (row s)) q p"
begin

text \<open>A create that returns leaves a row under the key, with the id it reports.\<close>

lemma create_total:
  assumes "inv s" "id_ok s (ID n)" "row_ok n"
  obtains s' i b where "CreateNotification ops s n = (s', n\<lparr>ID := i\<rparr>, Inr b)" "inv s'"
    "\<exists>m. row s' i = Some m \<and> notif_key m = notif_key n"
    "\<And>j m. row s j = Some m \<Longrightarrow> row s' j = Some m"
    "\<And>j. j \<noteq> i \<Longrightarrow> row s' j = row s j"
    "b \<longleftrightarrow> \<not> (\<exists>j m. row s j = Some m \<and> notif_key m = notif_key n)"
proof (cases "\<exists>j m. row s j = Some m \<and> notif_key m = notif_key n")
  case True
  then obtain j m where jm: "row s j = Some m" "notif_key m = notif_key n" by blast
  from create_existing [OF assms jm] obtain s' where
    "CreateNotification ops s n = (s', n\<lparr>ID := j\<rparr>, Inr False)" "inv s'" "row s' = row s" by blast
  with jm True show ?thesis by (intro that [of s' j False]) auto
next
  case False
  then obtain s' i where *: "CreateNotification ops s n = (s', n\<lparr>ID := i\<rparr>, Inr True)" "inv s'"
    "row s i = None" "row s' = (row s)(i \<mapsto> n\<lparr>ID := i\<rparr>)"
    using create_new [OF assms] by blast
  with False show ?thesis by (intro that [of s' i True]) auto
qed

text \<open>Read your writes: a created row is found by its owner under the reported id.\<close>

lemma get_after_create:
  assumes "inv s" "id_ok s (ID n)" "row_ok n" "CreateNotification ops s n = (s', n', r)"
  shows "\<exists>m. GetNotification ops s' (TenantID n) (UserID n) (ID n') = Inr m \<and> notif_key m = notif_key n"
proof -
  from create_total [OF assms(1-3)] obtain i b m where
    i: "n' = n\<lparr>ID := i\<rparr>" "inv s'" "row s' i = Some m" "notif_key m = notif_key n"
    using assms(4) by (metis prod.inject)
  then have "id_arg i" by (blast intro: row_id_arg)
  with i show ?thesis by (auto simp: get_spec owned_by_def notif_key_def)
qed

lemma inj_on_ID_rows: "inv s \<Longrightarrow> inj_on ID (ran (row s))"
  by (auto simp: inj_on_def ran_def) (metis option.inject row_ID)

lemma finite_ran_rows: "inv s \<Longrightarrow> finite (ran (row s))"
  by (intro finite_ran finite_rows)

text \<open>One page against the list of all rows that match, in page order.\<close>

lemma query_sorted:
  assumes "inv s" "distinct xs" "set xs = {n \<in> ran (row s). query_match q n}"
    "sorted_wrt newest_first xs" "arg_ok (q_TenantID q)" "arg_ok (q_UserID q)"
  shows "\<exists>unread. QueryUserNotifications ops s q =
    Inr (take (nat (ClampLimit (q_Limit q))) xs, cursor_of xs (nat (ClampLimit (q_Limit q))), unread)"
proof -
  from query_page [OF assms(1,5,6)] obtain p where
    p: "QueryUserNotifications ops s q = Inr p" "is_page (ran (row s)) q p" by blast
  then obtain ys where ys: "distinct ys" "set ys = {n \<in> ran (row s). query_match q n}"
    "sorted_wrt newest_first ys"
    "\<exists>unread. p = (take (nat (ClampLimit (q_Limit q))) ys, cursor_of ys (nat (ClampLimit (q_Limit q))), unread)"
    unfolding is_page_def by blast
  have "inj_on ID (set xs)"
    using inj_on_ID_rows [OF assms(1)] by (rule inj_on_subset) (auto simp: assms(3))
  moreover have "mset xs = mset ys"
    using assms(2,3) ys(1,2) by (simp add: set_eq_iff_mset_eq_distinct [symmetric])
  ultimately have "xs = ys"
    using assms(4) ys(3) by (intro sorted_wrt_unique [OF newest_first_total])
  with p ys(4) show ?thesis by auto
qed

text \<open>The loop over the pages returns every matching row, newest first, when no two of them
  share a creation time: the cursor is that time, and the next page starts strictly below it.\<close>

lemma walk_pages_all:
  assumes "inv s" "distinct xs" "set xs = {n \<in> ran (row s). query_match q n}"
    "sorted_wrt newest_first xs" "inj_on CreatedAtMS (set xs)"
    "\<And>n. n \<in> set xs \<Longrightarrow> is_int64 (CreatedAtMS n)" "length xs < fuel"
    "arg_ok (q_TenantID q)" "arg_ok (q_UserID q)"
  shows "walk_pages ops s q fuel = Inr (Some xs)"
  using assms
proof (induction fuel arbitrary: q xs)
  case (Suc fuel)
  let ?lim = "nat (ClampLimit (q_Limit q))"
  have lim: "0 < ?lim" using ClampLimit_bounds [of "q_Limit q"] by simp
  from query_sorted [OF Suc.prems(1-4,8,9)] obtain unread where
    Q: "QueryUserNotifications ops s q = Inr (take ?lim xs, cursor_of xs ?lim, unread)" by blast
  show ?case
  proof (cases "?lim < length xs")
    case False
    with Q show ?thesis by (simp add: cursor_of_def)
  next
    case True
    define l where "l = last (take ?lim xs)"
    define q' where "q' = q\<lparr>q_CursorMS := Some (CreatedAtMS l)\<rparr>"
    note rest = rows_after_page [OF Suc.prems(2-5) lim True l_def]
    have "walk_pages ops s q' fuel = Inr (Some (drop ?lim xs))"
    proof (rule Suc.IH [OF Suc.prems(1) _ rest(2) [folded q'_def]])
      show "distinct (drop ?lim xs)" using Suc.prems(2) by simp
      show "sorted_wrt newest_first (drop ?lim xs)" by (rule sorted_wrt_drop [OF Suc.prems(4)])
      show "inj_on CreatedAtMS (set (drop ?lim xs))"
        using Suc.prems(5) by (rule inj_on_subset) (rule set_drop_subset)
      show "is_int64 (CreatedAtMS n)" if "n \<in> set (drop ?lim xs)" for n
        using that Suc.prems(6) by (blast dest: in_set_dropD)
      show "length (drop ?lim xs) < fuel" using Suc.prems(7) lim True by simp
      show "arg_ok (q_TenantID q')" "arg_ok (q_UserID q')" using Suc.prems(8,9) by (simp_all add: q'_def)
    qed
    moreover have "cursor_of xs ?lim = FormatInt (CreatedAtMS l)"
      using True by (simp add: cursor_of_def l_def)
    moreover have "ParseInt (FormatInt (CreatedAtMS l)) = Inr (CreatedAtMS l)"
      by (rule ParseInt_FormatInt) (rule Suc.prems(6) [OF rest(1)])
    ultimately show ?thesis using Q by (simp add: q'_def)
  qed
qed simp

end

subsection \<open>The contract for device rows\<close>

definition fresh_dev_id :: "(devKey \<Rightarrow> Device option) \<Rightarrow> string \<Rightarrow> bool" where
  "fresh_dev_id devs i \<longleftrightarrow> i \<noteq> '''' \<and> (\<forall>e \<in> ran devs. dev_ID e \<noteq> i)"

locale device_store =
  fixes ops :: "'s StoreOps"
    and inv :: "'s \<Rightarrow> bool"
    and dev :: "'s \<Rightarrow> devKey \<Rightarrow> Device option"
    and dev_id_ok :: "'s \<Rightarrow> string \<Rightarrow> bool"
    and dev_ok :: "Device \<Rightarrow> bool"
    and arg_ok :: "string \<Rightarrow> bool"
  assumes dev_key_of: "inv s \<Longrightarrow> dev s k = Some d \<Longrightarrow> dev_key d = k"
    and dev_id_ok_empty: "inv s \<Longrightarrow> dev_id_ok s ''''"
    and upsert_new: "inv s \<Longrightarrow> dev_id_ok s (dev_ID d) \<Longrightarrow> dev_ok d \<Longrightarrow> dev s (dev_key d) = None \<Longrightarrow>
      \<exists>s' d' i. UpsertDevice ops s d = (s', d', Inr (d\<lparr>dev_ID := i\<rparr>)) \<and> inv s' \<and> fresh_dev_id (dev s) i \<and>
        dev s' = (dev s)(dev_key d \<mapsto> d\<lparr>dev_ID := i\<rparr>)"
    and upsert_existing: "inv s \<Longrightarrow> dev_id_ok s (dev_ID d) \<Longrightarrow> dev_ok d \<Longrightarrow> dev s (dev_key d) = Some e \<Longrightarrow>
      \<exists>s' d'. UpsertDevice ops s d =
          (s', d', Inr (e\<lparr>dev_Token := dev_Token d, dev_LastActiveMS := dev_LastActiveMS d\<rparr>)) \<and> inv s' \<and>
        dev s' = (dev s)(dev_key d \<mapsto> e\<lparr>dev_Token := dev_Token d, dev_LastActiveMS := dev_LastActiveMS d\<rparr>)"
    and list_spec: "inv s \<Longrightarrow> arg_ok t \<Longrightarrow> arg_ok u \<Longrightarrow> \<exists>ds. ListDevices ops s t u = Inr ds \<and> distinct ds \<and>
      set ds = {d. \<exists>dt. dev s \<lparr>dk_Tenant = t, dk_User = u, dk_DeviceType = dt\<rparr> = Some d} \<and>
      sorted_wrt (\<lambda>a b. dev_DeviceType a < dev_DeviceType b) ds"
begin

text \<open>After an upsert the user has exactly one row of that device type, and it carries the new
  token; the rows of every other key are untouched.\<close>

lemma upsert_last_write_wins:
  assumes "inv s" "dev_id_ok s (dev_ID d)" "dev_ok d"
  obtains s' d' r where "UpsertDevice ops s d = (s', d', Inr r)" "inv s'"
    "dev_key r = dev_key d" "dev_Token r = dev_Token d" "dev_LastActiveMS r = dev_LastActiveMS d"
    "dev s' = (dev s)(dev_key d \<mapsto> r)"
    "\<And>e. dev s (dev_key d) = Some e \<Longrightarrow> dev_ID r = dev_ID e \<and> dev_CreatedAtMS r = dev_CreatedAtMS e"
proof (cases "dev s (dev_key d)")
  case None
  from upsert_new [OF assms None] obtain s' d' i where
    u: "UpsertDevice ops s d = (s', d', Inr (d\<lparr>dev_ID := i\<rparr>))" "inv s'"
    "dev s' = (dev s)(dev_key d \<mapsto> d\<lparr>dev_ID := i\<rparr>)" by blast
  show ?thesis by (rule that [OF u(1,2)]) (use u(3) None in \<open>simp_all add: dev_key_def\<close>)
next
  case (Some e)
  from upsert_existing [OF assms Some] obtain s' d' where
    u: "UpsertDevice ops s d =
      (s', d', Inr (e\<lparr>dev_Token := dev_Token d, dev_LastActiveMS := dev_LastActiveMS d\<rparr>))" "inv s'"
    "dev s' = (dev s)(dev_key d \<mapsto> e\<lparr>dev_Token := dev_Token d, dev_LastActiveMS := dev_LastActiveMS d\<rparr>)"
    by blast
  have "dev_key e = dev_key d" by (rule dev_key_of [OF assms(1) Some])
  with u Some show ?thesis by (intro that [OF u(1,2)]) (simp_all add: dev_key_def)
qed

end

end
