(* ===== verification/Notifier.thy ===== *)
theory Notifier
  imports Store_Spec
begin

text \<open>
  \<open>notifier.go\<close>: the orchestrator. \<open>Notify\<close> runs over recipients and channels, stores one
  row per (tenant, user, notification id), hands the message to the channel's provider and
  records the outcome. The clock and the providers act on a world \<open>'w\<close> that is threaded
  through every call, the store on its own state \<open>'s\<close>. The client lemmas are proved once
  against the store contract.
\<close>

subsection \<open>Types\<close>

record ('s, 'w) Notifier =
  nt_store :: "'s StoreOps"
  nt_providers :: "'w ProviderRegistry option"
  nt_now :: "'w \<Rightarrow> int \<times> 'w"

type_synonym ('s, 'w) NotifierOption = "('s, 'w) Notifier \<Rightarrow> ('s, 'w) Notifier"

definition WithClock :: "('w \<Rightarrow> int \<times> 'w) \<Rightarrow> ('s, 'w) NotifierOption" where
  "WithClock c = (\<lambda>n. n\<lparr>nt_now := c\<rparr>)"

text \<open>\<open>time_Now\<close> is the process clock the constructor installs by default; a nil registry
  is replaced by an empty one after the options have run.\<close>

definition NewNotifier ::
  "('w \<Rightarrow> int \<times> 'w) \<Rightarrow> 's StoreOps \<Rightarrow> 'w ProviderRegistry option \<Rightarrow> ('s, 'w) NotifierOption list \<Rightarrow>
   ('s, 'w) Notifier" where
  "NewNotifier time_Now store providers opts =
     (let n = \<lparr>nt_store = store, nt_providers = providers, nt_now = time_Now\<rparr>;
          n = fold (\<lambda>opt n. opt n) opts n
      in case nt_providers n of
           None \<Rightarrow> n\<lparr>nt_providers := Some NewProviderRegistry\<rparr>
         | Some r \<Rightarrow> n)"

record NotifyRequest =
  nr_TenantID :: string
  nr_NotificationID :: string
  nr_UserIDs :: "string list"
  nr_Channels :: "ChannelKind list"
  nr_SubjectRef :: string
  nr_SubjectType :: string
  nr_Title :: string
  nr_Body :: string
  nr_Addresses :: "(string, (ChannelKind, string) gomap) gomap"

record NotifyResult =
  Delivered :: int
  Pending :: int
  Failed :: int

subsection \<open>Notify\<close>

definition addressFor :: "NotifyRequest \<Rightarrow> string \<Rightarrow> ChannelKind \<Rightarrow> string" where
  "addressFor req userID kind =
     (case (case map_of (nr_Addresses req) userID of
              None \<Rightarrow> None | Some byChannel \<Rightarrow> map_of byChannel kind) of
        Some to \<Rightarrow> to
      | None \<Rightarrow> if kind = ChannelInApp then userID else '''')"

definition registry_of :: "('s, 'w) Notifier \<Rightarrow> 'w ProviderRegistry" where
  "registry_of n = (case nt_providers n of None \<Rightarrow> [] | Some r \<Rightarrow> r)"

text \<open>The part of the inner loop after a provider and a destination have been found: send, then
  record the outcome. The last component is the error of an early \<open>return res, err\<close>;
  \<open>None\<close> continues the loop.\<close>

definition notify_dispatch ::
  "('s, 'w) Notifier \<Rightarrow> NotifyRequest \<Rightarrow> 'w Provider \<Rightarrow> string \<Rightarrow> Notification \<Rightarrow> NotifyResult \<Rightarrow> 's \<Rightarrow> 'w \<Rightarrow>
   's \<times> 'w \<times> NotifyResult \<times> goerror option" where
  "notify_dispatch n req provider to row res s w =
     (let (w, receipt, err) = Send provider w
            \<lparr>msg_Notification = Some row, msg_To = to, msg_Title = nr_Title req,
             msg_Body = nr_Body req, msg_Data = []\<rparr>
      in case err of
           Some _ \<Rightarrow>
             let res = res\<lparr>Failed := Failed res + 1\<rparr>;
                 (ms, w) = nt_now n w;
                 (s, _) = UpdateStatus (nt_store n) s (nr_TenantID req) (ID row) StatusFailed ms
             in (s, w, res, None)
         | None \<Rightarrow>
             let status = (if rc_Status receipt = '''' then StatusDelivered else rc_Status receipt);
                 (ms, w) = nt_now n w;
                 (s, uerr) = UpdateStatus (nt_store n) s (nr_TenantID req) (ID row) status ms
             in case uerr of
                  Some e \<Rightarrow> (s, w, res, Some e)
                | None \<Rightarrow> (s, w, res\<lparr>Delivered := Delivered res + 1\<rparr>, None))"

definition new_row :: "NotifyRequest \<Rightarrow> string \<Rightarrow> ChannelKind \<Rightarrow> int \<Rightarrow> Notification" where
  "new_row req userID kind ms =
     \<lparr>ID = '''', NotificationID = nr_NotificationID req, TenantID = nr_TenantID req,
      UserID = userID, SubjectRef = nr_SubjectRef req, SubjectType = nr_SubjectType req,
      Title = nr_Title req, Body = nr_Body req, Channel = kind, Status = StatusPending,
      CreatedAtMS = ms, DeliveredAtMS = 0, AckAtMS = 0, ReadAtMS = 0\<rparr>"

text \<open>One iteration of the inner loop.\<close>

definition notify_body ::
  "('s, 'w) Notifier \<Rightarrow> NotifyRequest \<Rightarrow> string \<Rightarrow> ChannelKind \<Rightarrow> NotifyResult \<Rightarrow> 's \<Rightarrow> 'w \<Rightarrow>
   's \<times> 'w \<times> NotifyResult \<times> goerror option" where
  "notify_body n req userID kind res s w =
     (let (ms, w) = nt_now n w;
          (s, row, created) = CreateNotification (nt_store n) s (new_row req userID kind ms)
      in case created of
           Inl err \<Rightarrow> (s, w, res, Some err)
         | Inr _ \<Rightarrow>
             let to = addressFor req userID kind in
             (case Get_provider (registry_of n) kind of
                None \<Rightarrow> (s, w, res\<lparr>Pending := Pending res + 1\<rparr>, None)
              | Some provider \<Rightarrow>
                  if to = '''' then (s, w, res\<lparr>Pending := Pending res + 1\<rparr>, None)
                  else notify_dispatch n req provider to row res s w))"

fun notify_channels ::
  "('s, 'w) Notifier \<Rightarrow> NotifyRequest \<Rightarrow> string \<Rightarrow> ChannelKind list \<Rightarrow> NotifyResult \<Rightarrow> 's \<Rightarrow> 'w \<Rightarrow>
   's \<times> 'w \<times> NotifyResult \<times> goerror option" where
  "notify_channels n req userID [] res s w = (s, w, res, None)"
| "notify_channels n req userID (kind # kinds) res s w =
     (case notify_body n req userID kind res s w of
        (s, w, res, Some e) \<Rightarrow> (s, w, res, Some e)
      | (s, w, res, None) \<Rightarrow> notify_channels n req userID kinds res s w)"

fun notify_users ::
  "('s, 'w) Notifier \<Rightarrow> NotifyRequest \<Rightarrow> ChannelKind list \<Rightarrow> string list \<Rightarrow> NotifyResult \<Rightarrow> 's \<Rightarrow> 'w \<Rightarrow>
   's \<times> 'w \<times> NotifyResult \<times> goerror option" where
  "notify_users n req channels [] res s w = (s, w, res, None)"
| "notify_users n req channels (userID # us) res s w =
     (case notify_channels n req userID channels res s w of
        (s, w, res, Some e) \<Rightarrow> (s, w, res, Some e)
      | (s, w, res, None) \<Rightarrow> notify_users n req channels us res s w)"

definition notify_targets :: "('s, 'w) Notifier \<Rightarrow> NotifyRequest \<Rightarrow> ChannelKind list" where
  "notify_targets n req = (if nr_Channels req = [] then Enabled (registry_of n) else nr_Channels req)"

definition Notify ::
  "('s, 'w) Notifier \<Rightarrow> NotifyRequest \<Rightarrow> 's \<Rightarrow> 'w \<Rightarrow> 's \<times> 'w \<times> NotifyResult \<times> goerror option" where
  "Notify n req s w =
     notify_users n req (notify_targets n req) (nr_UserIDs req)
       \<lparr>Delivered = 0, Pending = 0, Failed = 0\<rparr> s w"

lemma NewNotifier_default:
  "NewNotifier tn st r [] = \<lparr>nt_store = st, nt_providers = Some (case r of None \<Rightarrow> [] | Some r \<Rightarrow> r), nt_now = tn\<rparr>"
  by (simp add: NewNotifier_def NewProviderRegistry_def split: option.split)

subsection \<open>What a request is about\<close>

definition total_of :: "NotifyResult \<Rightarrow> int" where
  "total_of r = Delivered r + Pending r + Failed r"

definition request_key :: "NotifyRequest \<Rightarrow> string \<Rightarrow> notifKey" where
  "request_key req u = \<lparr>nk_Tenant = nr_TenantID req, nk_User = u, nk_NotificationID = nr_NotificationID req\<rparr>"

text \<open>Two versions of a row that differ in the delivery status and its timestamps only.\<close>

definition same_content :: "Notification \<Rightarrow> Notification \<Rightarrow> bool" where
  "same_content a b \<longleftrightarrow>
     b = a\<lparr>Status := Status b, DeliveredAtMS := DeliveredAtMS b, AckAtMS := AckAtMS b, ReadAtMS := ReadAtMS b\<rparr>"

lemma same_content_refl [simp]: "same_content a a"
  by (simp add: same_content_def)

lemma same_content_trans: "same_content a b \<Longrightarrow> same_content b c \<Longrightarrow> same_content a c"
  unfolding same_content_def by (cases a, cases b, cases c) simp

lemma same_content_stamp [simp]: "same_content a (stamp_status st ms a)"
  by (cases a) (simp add: same_content_def stamp_status_def Let_def)

lemma same_content_key: "same_content a b \<Longrightarrow> notif_key b = notif_key a"
  unfolding same_content_def by (cases a, cases b) (simp add: notif_key_def)

subsection \<open>Extension of the stored rows\<close>

text \<open>What a call for the keys \<open>K\<close> may do to the rows: rows under other keys are untouched,
  rows under \<open>K\<close> keep their content, and new rows are under \<open>K\<close>.\<close>

definition rows_extend ::
  "notifKey set \<Rightarrow> (string \<Rightarrow> Notification option) \<Rightarrow> (string \<Rightarrow> Notification option) \<Rightarrow> bool" where
  "rows_extend K r r' \<longleftrightarrow>
     (\<forall>i m. r i = Some m \<longrightarrow> (\<exists>m'. r' i = Some m' \<and> same_content m m' \<and> (notif_key m \<notin> K \<longrightarrow> m' = m))) \<and>
     (\<forall>i m. r' i = Some m \<longrightarrow> r i = None \<longrightarrow> notif_key m \<in> K)"

lemma rows_extend_refl [simp]: "rows_extend K r r"
  by (simp add: rows_extend_def)

lemma rows_extendD:
  assumes "rows_extend K r r'" "r i = Some m"
  obtains m' where "r' i = Some m'" "same_content m m'" "notif_key m' = notif_key m"
  using assms unfolding rows_extend_def by (metis same_content_key)

lemma rows_extend_new: "rows_extend K r r' \<Longrightarrow> r' i = Some m \<Longrightarrow> r i = None \<Longrightarrow> notif_key m \<in> K"
  unfolding rows_extend_def by blast

lemma rows_extend_trans:
  assumes "rows_extend K r r'" "rows_extend K r' r''"
  shows "rows_extend K r r''"
proof -
  have "\<exists>m''. r'' i = Some m'' \<and> same_content m m'' \<and> (notif_key m \<notin> K \<longrightarrow> m'' = m)"
    if "r i = Some m" for i m
    using assms that unfolding rows_extend_def
    by (metis same_content_key same_content_trans)
  moreover have "notif_key m \<in> K" if "r'' i = Some m" "r i = None" for i m
  proof (cases "r' i")
    case None
    with that assms(2) show ?thesis by (auto simp: rows_extend_def)
  next
    case (Some m')
    with that(2) assms(1) have "notif_key m' \<in> K" by (auto simp: rows_extend_def)
    with rows_extendD [OF assms(2) Some] that(1) show ?thesis by (metis option.inject)
  qed
  ultimately show ?thesis by (simp add: rows_extend_def)
qed

lemma rows_extend_mono: "rows_extend K r r' \<Longrightarrow> K \<subseteq> L \<Longrightarrow> rows_extend L r r'"
  unfolding rows_extend_def by blast

lemma rows_extend_stamp:
  "r i = Some m \<Longrightarrow> notif_key m \<in> K \<Longrightarrow> rows_extend K r (r(i \<mapsto> stamp_status st ms m))"
  by (auto simp: rows_extend_def)

lemma rows_extend_insert: "r i = None \<Longrightarrow> notif_key m \<in> K \<Longrightarrow> rows_extend K r (r(i \<mapsto> m))"
  by (auto simp: rows_extend_def)

subsection \<open>The fan-out against the store contract\<close>

text \<open>What a driver that does not hold every string asks of a request: the rows built from it can be
  stored, and the providers report statuses that can be stored. Both are trivial for a driver
  that holds every string.\<close>

definition rows_storable :: "(Notification \<Rightarrow> bool) \<Rightarrow> NotifyRequest \<Rightarrow> string list \<Rightarrow> ChannelKind list \<Rightarrow> bool" where
  "rows_storable rok req us kinds \<longleftrightarrow> (\<forall>u \<in> set us. \<forall>kind \<in> set kinds. \<forall>ms. rok (new_row req u kind ms))"

definition statuses_storable :: "(string \<Rightarrow> bool) \<Rightarrow> ('s, 'w) Notifier \<Rightarrow> bool" where
  "statuses_storable aok n \<longleftrightarrow> (\<forall>kind p w m w' rc. Get_provider (registry_of n) kind = Some p \<longrightarrow>
     Send p w m = (w', rc, None) \<longrightarrow> rc_Status rc = '''' \<or> aok (rc_Status rc))"

lemma storable_True [simp]: "rows_storable (\<lambda>_. True) req us ks" "statuses_storable (\<lambda>_. True) n"
  by (simp_all add: rows_storable_def statuses_storable_def)

context notification_store
begin

lemma create_extends:
  assumes "inv s" "CreateNotification ops s n = (s', n', c)" "ID n = ''''" "row_ok n"
  obtains m b where "inv s'" "rows_extend {notif_key n} (row s) (row s')" "row s' (ID n') = Some m"
    "notif_key m = notif_key n" "c = Inr b"
proof (cases "\<exists>j m. row s j = Some m \<and> notif_key m = notif_key n")
  case True
  then obtain j m where jm: "row s j = Some m" "notif_key m = notif_key n" by blast
  have "id_ok s (ID n)" using id_ok_empty [OF assms(1)] assms(3) by simp
  from create_existing [OF assms(1) this assms(4) jm] assms(2) jm show ?thesis by (auto intro: that)
next
  case False
  moreover have "id_ok s (ID n)" using id_ok_empty [OF assms(1)] assms(3) by simp
  ultimately obtain t i where "CreateNotification ops s n = (t, n\<lparr>ID := i\<rparr>, Inr True)" "inv t"
    "row s i = None" "row t = (row s)(i \<mapsto> n\<lparr>ID := i\<rparr>)"
    using create_new [OF assms(1), of n] assms(4) by blast
  with assms(2) show ?thesis by (auto intro!: that rows_extend_insert)
qed

lemma update_extends:
  assumes "inv s" "arg_ok st" "row s i = Some m" "TenantID m = t"
    "UpdateStatus ops s t i st ms = (s', r)"
  shows "inv s' \<and> r = None \<and> row s' = (row s)(i \<mapsto> stamp_status st ms m) \<and>
    rows_extend {notif_key m} (row s) (row s')"
  using update_found [OF assms(1-4), of ms] assms by (auto intro: rows_extend_stamp)

text \<open>What an iteration of the loop achieves for the key \<open>k\<close>.\<close>

definition handled :: "notifKey \<Rightarrow> NotifyResult \<Rightarrow> 's \<Rightarrow> 's \<times> 'w \<times> NotifyResult \<times> goerror option \<Rightarrow> bool" where
  "handled k res s out \<longleftrightarrow> (case out of (s', w', res', e) \<Rightarrow>
     inv s' \<and> e = None \<and> total_of res' = total_of res + 1 \<and> rows_extend {k} (row s) (row s') \<and>
     (\<exists>i m. row s' i = Some m \<and> notif_key m = k))"

lemma notify_dispatch_handled:
  assumes "inv s" "nt_store n = ops" "row s (ID r) = Some m" "notif_key m = request_key req u"
    "statuses_storable arg_ok n" "Get_provider (registry_of n) kind = Some p"
  shows "handled (request_key req u) res s (notify_dispatch n req p to r res s w)"
proof -
  have t: "TenantID m = nr_TenantID req"
    using assms(4) by (simp add: notif_key_def request_key_def)
  obtain w1 rc e where sd: "Send p w \<lparr>msg_Notification = Some r, msg_To = to, msg_Title = nr_Title req,
      msg_Body = nr_Body req, msg_Data = []\<rparr> = (w1, rc, e)" by (metis surj_pair)
  obtain ms w2 where now: "nt_now n w1 = (ms, w2)" by fastforce
  have upd: "inv s2 \<and> ue = None \<and> rows_extend {request_key req u} (row s) (row s2) \<and>
      (\<exists>i m. row s2 i = Some m \<and> notif_key m = request_key req u)"
    if "UpdateStatus ops s (nr_TenantID req) (ID r) st ms = (s2, ue)" "arg_ok st" for st s2 ue
  proof -
    note u = update_extends [OF assms(1) that(2) assms(3) t that(1)]
    then have "row s2 (ID r) = Some (stamp_status st ms m)" by simp
    with u assms(4) show ?thesis by (metis stamp_status_simps(12))
  qed
  show ?thesis
  proof (cases e)
    case None
    define st where "st = (if rc_Status rc = '''' then StatusDelivered else rc_Status rc)"
    obtain s2 ue where us: "UpdateStatus ops s (nr_TenantID req) (ID r) st ms = (s2, ue)"
      by fastforce
    have "rc_Status rc = '''' \<or> arg_ok (rc_Status rc)"
      using assms(5,6) sd [unfolded None] unfolding statuses_storable_def by blast
    then have "arg_ok st" using own_status_ok by (auto simp: st_def)
    with upd [OF us] us sd now None show ?thesis
      by (simp add: notify_dispatch_def handled_def Let_def assms(2) st_def [symmetric] total_of_def)
  next
    case (Some err)
    obtain s2 ue where us: "UpdateStatus ops s (nr_TenantID req) (ID r) StatusFailed ms = (s2, ue)"
      by fastforce
    with upd [OF us own_status_ok] sd now Some show ?thesis
      by (simp add: notify_dispatch_def handled_def Let_def assms(2) total_of_def)
  qed
qed

text \<open>One iteration: it never fails, adds one to the counts, leaves a row under the key of the
  recipient and changes nothing under another key.\<close>

lemma notify_body_handled:
  assumes "inv s" "nt_store n = ops" "statuses_storable arg_ok n" "rows_storable row_ok req [u] [kind]"
  shows "handled (request_key req u) res s (notify_body n req u kind res s w)"
proof -
  obtain ms w1 where now: "nt_now n w = (ms, w1)" by fastforce
  obtain s1 r1 c where cr: "CreateNotification ops s (new_row req u kind ms) = (s1, r1, c)"
    by (metis surj_pair)
  have k: "notif_key (new_row req u kind ms) = request_key req u" "ID (new_row req u kind ms) = ''''"
    by (simp_all add: new_row_def notif_key_def request_key_def)
  have ok: "row_ok (new_row req u kind ms)" using assms(4) by (simp add: rows_storable_def)
  obtain m b where x: "inv s1" "rows_extend {request_key req u} (row s) (row s1)"
    "row s1 (ID r1) = Some m" "notif_key m = request_key req u" "c = Inr b"
    using create_extends [OF assms(1) cr k(2) ok] k(1) by metis
  have d: "handled (request_key req u) res s (notify_dispatch n req p to r1 res s1 w1)"
    if "Get_provider (registry_of n) kind = Some p" for p to
    using notify_dispatch_handled [OF x(1) assms(2) x(3,4) assms(3) that, of res to w1] x(2)
    by (auto simp: handled_def split: prod.splits intro: rows_extend_trans)
  have "handled (request_key req u) res s (s1, w1, res\<lparr>Pending := Pending res + 1\<rparr>, None)"
    using x by (auto simp: handled_def total_of_def)
  with d now cr x(5) show ?thesis
    by (simp add: notify_body_def Let_def assms(2) split: option.split)
qed

lemma notify_body_spec:
  assumes "inv s" "nt_store n = ops" "statuses_storable arg_ok n" "rows_storable row_ok req [u] [kind]"
    "notify_body n req u kind res s w = (s', w', res', e)"
  shows "inv s' \<and> e = None \<and> total_of res' = total_of res + 1 \<and>
    rows_extend {request_key req u} (row s) (row s') \<and>
    (\<exists>i m. row s' i = Some m \<and> notif_key m = request_key req u)"
  using notify_body_handled [OF assms(1-4), of res w] assms(5) by (simp add: handled_def)

lemma notify_channels_spec:
  assumes "inv s" "nt_store n = ops" "statuses_storable arg_ok n" "rows_storable row_ok req [u] kinds"
    "notify_channels n req u kinds res s w = (s', w', res', e)"
  shows "inv s' \<and> e = None \<and> total_of res' = total_of res + int (length kinds) \<and> rows_extend {request_key req u} (row s) (row s') \<and>
    (kinds \<noteq> [] \<longrightarrow> (\<exists>i m. row s' i = Some m \<and> notif_key m = request_key req u))"
  using assms
proof (induction kinds arbitrary: s w res)
  case Nil
  then show ?case by simp
next
  case (Cons k ks)
  obtain s1 w1 res1 e1 where b: "notify_body n req u k res s w = (s1, w1, res1, e1)"
    by (metis surj_pair)
  have ok: "rows_storable row_ok req [u] [k]" "rows_storable row_ok req [u] ks"
    using Cons.prems(4) by (auto simp: rows_storable_def)
  note one = notify_body_spec [OF Cons.prems(1-3) ok(1) b]
  then have inv1: "inv s1" by simp
  with Cons.prems(5) b one have "notify_channels n req u ks res1 s1 w1 = (s', w', res', e)" by simp
  note rest = Cons.IH [OF inv1 Cons.prems(2,3) ok(2) this]
  from one obtain i m where im: "row s1 i = Some m" "notif_key m = request_key req u" by blast
  with rest have "\<exists>m'. row s' i = Some m' \<and> notif_key m' = request_key req u"
    by (metis rows_extendD)
  moreover have "rows_extend {request_key req u} (row s) (row s')"
    using one rest by (blast intro: rows_extend_trans)
  ultimately show ?case using one rest by auto
qed

lemma notify_users_spec:
  assumes "inv s" "nt_store n = ops" "statuses_storable arg_ok n" "rows_storable row_ok req us ks"
    "notify_users n req ks us res s w = (s', w', res', e)"
  shows "inv s' \<and> e = None \<and> total_of res' = total_of res + int (length us * length ks) \<and>
    rows_extend (request_key req ` set us) (row s) (row s') \<and>
    (ks \<noteq> [] \<longrightarrow> (\<forall>u \<in> set us. \<exists>i m. row s' i = Some m \<and> notif_key m = request_key req u))"
  using assms
proof (induction us arbitrary: s w res)
  case Nil
  then show ?case by simp
next
  case (Cons u us)
  obtain s1 w1 res1 e1 where b: "notify_channels n req u ks res s w = (s1, w1, res1, e1)"
    by (metis surj_pair)
  have ok: "rows_storable row_ok req [u] ks" "rows_storable row_ok req us ks"
    using Cons.prems(4) by (auto simp: rows_storable_def)
  note one = notify_channels_spec [OF Cons.prems(1-3) ok(1) b]
  then have inv1: "inv s1" by simp
  with Cons.prems(5) b one have "notify_users n req ks us res1 s1 w1 = (s', w', res', e)" by simp
  note rest = Cons.IH [OF inv1 Cons.prems(2,3) ok(2) this]
  have "\<exists>i m. row s' i = Some m \<and> notif_key m = request_key req u" if "ks \<noteq> []"
  proof -
    from one that obtain i m where "row s1 i = Some m" "notif_key m = request_key req u" by blast
    with rest show ?thesis by (metis rows_extendD)
  qed
  moreover have "rows_extend (request_key req ` set (u # us)) (row s) (row s')"
  proof (rule rows_extend_trans)
    show "rows_extend (request_key req ` set (u # us)) (row s) (row s1)"
      by (rule rows_extend_mono [of "{request_key req u}"]) (use one in auto)
    show "rows_extend (request_key req ` set (u # us)) (row s1) (row s')"
      by (rule rows_extend_mono [of "request_key req ` set us"]) (use rest in auto)
  qed
  ultimately show ?case using one rest by (auto simp: algebra_simps)
qed

lemma notify_spec:
  assumes "inv s" "nt_store n = ops" "statuses_storable arg_ok n"
    "rows_storable row_ok req (nr_UserIDs req) (notify_targets n req)" "Notify n req s w = (s', w', res, e)"
  shows "inv s' \<and> e = None \<and> total_of res = int (length (nr_UserIDs req) * length (notify_targets n req)) \<and>
    rows_extend (request_key req ` set (nr_UserIDs req)) (row s) (row s') \<and>
    (notify_targets n req \<noteq> [] \<longrightarrow>
      (\<forall>u \<in> set (nr_UserIDs req). \<exists>i m. row s' i = Some m \<and> notif_key m = request_key req u))"
  using notify_users_spec [OF assms(1-4)] assms(5)
  by (simp add: Notify_def total_of_def)

end

subsection \<open>What is sent\<close>

text \<open>The messages a call hands to providers do not depend on the store: a send happens for
  every pair with a provider and a destination, whether the row was new or not. They are
  observed through a log the world keeps, which only \<open>Send\<close> extends.\<close>

definition eligible :: "('s, 'w) Notifier \<Rightarrow> NotifyRequest \<Rightarrow> string \<Rightarrow> ChannelKind \<Rightarrow> bool" where
  "eligible n req u kind \<longleftrightarrow> Get_provider (registry_of n) kind \<noteq> None \<and> addressFor req u kind \<noteq> ''''"

definition destinations :: "('s, 'w) Notifier \<Rightarrow> NotifyRequest \<Rightarrow> ChannelKind list \<Rightarrow> string \<Rightarrow> string list" where
  "destinations n req kinds u = map (addressFor req u) (filter (eligible n req u) kinds)"

definition observes :: "('w \<Rightarrow> string list) \<Rightarrow> ('s, 'w) Notifier \<Rightarrow> bool" where
  "observes sent n \<longleftrightarrow> (\<forall>w. sent (snd (nt_now n w)) = sent w) \<and>
     (\<forall>kind p w m. Get_provider (registry_of n) kind = Some p \<longrightarrow>
        sent (fst (Send p w m)) = sent w @ [msg_To m])"

lemma observesD:
  assumes "observes sent n"
  shows "nt_now n w = (ms, w') \<Longrightarrow> sent w' = sent w"
    and "Get_provider (registry_of n) kind = Some p \<Longrightarrow> Send p w m = (w', r) \<Longrightarrow>
      sent w' = sent w @ [msg_To m]"
  using assms unfolding observes_def by (metis snd_conv, metis fst_conv)

lemma notify_dispatch_sent:
  assumes "observes sent n" "Get_provider (registry_of n) kind = Some p"
    "notify_dispatch n req p to r res s w = (s', w', res', e)"
  shows "sent w' = sent w @ [to]"
  using assms(3) observesD [OF assms(1)] assms(2)
  by (auto simp: notify_dispatch_def Let_def split: prod.splits option.splits)

lemma notify_body_sent:
  assumes "observes sent n" "notify_body n req u kind res s w = (s', w', res', None)"
  shows "sent w' = sent w @ (if eligible n req u kind then [addressFor req u kind] else [])"
proof -
  obtain ms w1 where now: "nt_now n w = (ms, w1)" by fastforce
  obtain s1 r1 c where cr: "CreateNotification (nt_store n) s (new_row req u kind ms) = (s1, r1, c)"
    by (metis surj_pair)
  show ?thesis
  proof (cases "Get_provider (registry_of n) kind")
    case None
    with assms(2) now cr observesD(1) [OF assms(1) now] show ?thesis
      by (auto simp: notify_body_def Let_def eligible_def split: sum.splits)
  next
    case (Some p)
    with assms(2) now cr observesD(1) [OF assms(1) now] notify_dispatch_sent [OF assms(1) Some]
    show ?thesis
      by (auto simp: notify_body_def Let_def eligible_def split: sum.splits if_splits)
  qed
qed

lemma notify_channels_sent:
  assumes "observes sent n" "notify_channels n req u kinds res s w = (s', w', res', None)"
  shows "sent w' = sent w @ destinations n req kinds u"
  using assms(2)
proof (induction kinds arbitrary: s w res)
  case (Cons k ks)
  then show ?case
    using notify_body_sent [OF assms(1)]
    by (fastforce simp: destinations_def split: prod.splits option.splits)
qed (simp add: destinations_def)

lemma notify_users_sent:
  assumes "observes sent n" "notify_users n req ks us res s w = (s', w', res', None)"
  shows "sent w' = sent w @ concat (map (destinations n req ks) us)"
  using assms(2)
proof (induction us arbitrary: s w res)
  case (Cons u us)
  then show ?case
    using notify_channels_sent [OF assms(1)]
    by (fastforce split: prod.splits option.splits)
qed simp

lemma notify_sent:
  assumes "observes sent n" "Notify n req s w = (s', w', res, None)"
  shows "sent w' = sent w @ concat (map (destinations n req (notify_targets n req)) (nr_UserIDs req))"
  using notify_users_sent [OF assms(1)] assms(2) by (simp add: Notify_def)

subsection \<open>The recorded status\<close>

text \<open>A provider that accepts every message and reports the status \<open>st\<close>.\<close>

definition accepts_with :: "DeliveryStatus \<Rightarrow> 'w Provider \<Rightarrow> bool" where
  "accepts_with st p \<longleftrightarrow> (\<forall>w m. \<exists>w' i. Send p w m = (w', \<lparr>rc_ProviderMessageID = i, rc_Status = st\<rparr>, None))"

context notification_store
begin

lemma notify_body_status:
  assumes "inv s" "nt_store n = ops" "Get_provider (registry_of n) kind = Some p" "accepts_with st p"
    "addressFor req u kind \<noteq> ''''" "notify_body n req u kind res s w = (s', w', res', e)"
    "st = '''' \<or> arg_ok st" "rows_storable row_ok req [u] [kind]"
  shows "inv s' \<and> e = None \<and> res' = res\<lparr>Delivered := Delivered res + 1\<rparr> \<and>
    (\<exists>i m. row s' i = Some m \<and> notif_key m = request_key req u \<and>
       Status m = (if st = '''' then StatusDelivered else st))"
proof -
  obtain ms w1 where now: "nt_now n w = (ms, w1)" by fastforce
  obtain s1 r1 c where cr: "CreateNotification ops s (new_row req u kind ms) = (s1, r1, c)"
    by (metis surj_pair)
  have k: "notif_key (new_row req u kind ms) = request_key req u" "ID (new_row req u kind ms) = ''''"
    by (simp_all add: new_row_def notif_key_def request_key_def)
  have ok: "row_ok (new_row req u kind ms)" using assms(8) by (simp add: rows_storable_def)
  obtain m b where x: "inv s1" "row s1 (ID r1) = Some m" "notif_key m = request_key req u" "c = Inr b"
    using create_extends [OF assms(1) cr k(2) ok] k(1) by metis
  have t: "TenantID m = nr_TenantID req" using x(3) by (simp add: notif_key_def request_key_def)
  define msg where "msg = \<lparr>msg_Notification = Some r1, msg_To = addressFor req u kind,
    msg_Title = nr_Title req, msg_Body = nr_Body req, msg_Data = []\<rparr>"
  obtain w2 i where sd: "Send p w1 msg = (w2, \<lparr>rc_ProviderMessageID = i, rc_Status = st\<rparr>, None)"
    using assms(4) unfolding accepts_with_def by blast
  obtain ms2 w3 where now2: "nt_now n w2 = (ms2, w3)" by fastforce
  define st' where "st' = (if st = '''' then StatusDelivered else st)"
  obtain s2 ue where us: "UpdateStatus ops s1 (nr_TenantID req) (ID r1) st' ms2 = (s2, ue)" by fastforce
  have "arg_ok st'" using assms(7) own_status_ok by (auto simp: st'_def)
  note u = update_extends [OF x(1) this x(2) t us]
  have "row s2 (ID r1) = Some (stamp_status st' ms2 m)" using u by simp
  moreover have "notify_body n req u kind res s w = (s2, w3, res\<lparr>Delivered := Delivered res + 1\<rparr>, None)"
    using now cr x(4) assms(2,3,5) sd now2 us u
    by (cases "st = ''''") (simp_all add: notify_body_def notify_dispatch_def Let_def msg_def [symmetric] st'_def)
  ultimately show ?thesis
    using assms(6) u x(3) unfolding st'_def by force
qed

end

end
