(* ===== verification/Wire.thy ===== *)
theory Wire
  imports Notifier
begin

text \<open>
  The messages of the wire protocol (\<open>gen/go/notify/v1/notify.pb.go\<close>, the fields only) and
  \<open>internal/server/mapping.go\<close>, which translates between them and the domain types. A
  protobuf enum is open: any \<open>int32\<close> can arrive, so the enum types are integers with named
  constants. A pointer to a message that may be nil is an option. \<open>notifyRequestFromProto\<close>
  and \<open>decodeCursor\<close> of \<open>handlers.go\<close> are here too.
\<close>

subsection \<open>Messages\<close>

type_synonym DeliveryChannel = int

definition DELIVERY_CHANNEL_UNSPECIFIED :: DeliveryChannel where "DELIVERY_CHANNEL_UNSPECIFIED = 0"
definition DELIVERY_CHANNEL_IN_APP :: DeliveryChannel where "DELIVERY_CHANNEL_IN_APP = 1"
definition DELIVERY_CHANNEL_EMAIL :: DeliveryChannel where "DELIVERY_CHANNEL_EMAIL = 2"
definition DELIVERY_CHANNEL_WEB_PUSH :: DeliveryChannel where "DELIVERY_CHANNEL_WEB_PUSH = 3"
definition DELIVERY_CHANNEL_MOBILE_PUSH :: DeliveryChannel where "DELIVERY_CHANNEL_MOBILE_PUSH = 4"
definition DELIVERY_CHANNEL_SMS :: DeliveryChannel where "DELIVERY_CHANNEL_SMS = 5"
definition DELIVERY_CHANNEL_WHATSAPP :: DeliveryChannel where "DELIVERY_CHANNEL_WHATSAPP = 6"

lemmas delivery_channel_defs = DELIVERY_CHANNEL_UNSPECIFIED_def DELIVERY_CHANNEL_IN_APP_def
  DELIVERY_CHANNEL_EMAIL_def DELIVERY_CHANNEL_WEB_PUSH_def DELIVERY_CHANNEL_MOBILE_PUSH_def
  DELIVERY_CHANNEL_SMS_def DELIVERY_CHANNEL_WHATSAPP_def

type_synonym pb_DeliveryStatus = int

definition DELIVERY_STATUS_UNSPECIFIED :: pb_DeliveryStatus where "DELIVERY_STATUS_UNSPECIFIED = 0"
definition DELIVERY_STATUS_PENDING :: pb_DeliveryStatus where "DELIVERY_STATUS_PENDING = 1"
definition DELIVERY_STATUS_DELIVERED :: pb_DeliveryStatus where "DELIVERY_STATUS_DELIVERED = 2"
definition DELIVERY_STATUS_ACKED :: pb_DeliveryStatus where "DELIVERY_STATUS_ACKED = 3"
definition DELIVERY_STATUS_READ :: pb_DeliveryStatus where "DELIVERY_STATUS_READ = 4"
definition DELIVERY_STATUS_FAILED :: pb_DeliveryStatus where "DELIVERY_STATUS_FAILED = 5"

lemmas delivery_status_defs = DELIVERY_STATUS_UNSPECIFIED_def DELIVERY_STATUS_PENDING_def
  DELIVERY_STATUS_DELIVERED_def DELIVERY_STATUS_ACKED_def DELIVERY_STATUS_READ_def
  DELIVERY_STATUS_FAILED_def

type_synonym DeviceType = int

definition DEVICE_TYPE_UNSPECIFIED :: DeviceType where "DEVICE_TYPE_UNSPECIFIED = 0"
definition DEVICE_TYPE_BROWSER :: DeviceType where "DEVICE_TYPE_BROWSER = 1"
definition DEVICE_TYPE_ANDROID :: DeviceType where "DEVICE_TYPE_ANDROID = 2"
definition DEVICE_TYPE_IOS :: DeviceType where "DEVICE_TYPE_IOS = 3"

lemmas device_type_defs = DEVICE_TYPE_UNSPECIFIED_def DEVICE_TYPE_BROWSER_def
  DEVICE_TYPE_ANDROID_def DEVICE_TYPE_IOS_def

record ChannelAddresses =
  ByChannel :: "(string, string) gomap"

record pb_NotifyRequest =
  pb_TenantId :: string
  pb_NotificationId :: string
  pb_UserIds :: "string list"
  pb_Channels :: "DeliveryChannel list"
  pb_SubjectRef :: string
  pb_SubjectType :: string
  pb_Title :: string
  pb_Body :: string
  pb_Addresses :: "(string, ChannelAddresses option) gomap"

record pb_NotifyResponse =
  pb_Delivered :: int
  pb_Pending :: int
  pb_Failed :: int

record pb_Notification =
  pbn_Id :: string
  pbn_NotificationId :: string
  pbn_SubjectRef :: string
  pbn_SubjectType :: string
  pbn_Title :: string
  pbn_Body :: string
  pbn_Channel :: DeliveryChannel
  pbn_Status :: pb_DeliveryStatus
  pbn_CreatedAtMs :: int
  pbn_DeliveredAtMs :: int
  pbn_AckAtMs :: int
  pbn_ReadAtMs :: int

record DataChangeEvent =
  dc_IdempotencyKey :: string
  dc_SubjectRef :: string
  dc_SubjectType :: string

datatype StreamEvent_Event =
    StreamEvent_Notification "pb_Notification option"
  | StreamEvent_DataChange DataChangeEvent
  | StreamEvent_Heartbeat int

record StreamEvent =
  SessionId :: string
  Event :: "StreamEvent_Event option"

record GetNotificationsRequest =
  gn_Cursor :: string
  gn_Limit :: int
  gn_UnreadOnly :: bool

record GetNotificationsResponse =
  gn_Notifications :: "pb_Notification option list"
  gn_NextCursor :: string
  gn_UnreadCount :: int

record AckDataChangeRequest =
  ad_IdempotencyKey :: string
  ad_SessionId :: string

record RegisterPushTokenRequest =
  rp_DeviceType :: DeviceType
  rp_Token :: string

subsection \<open>mapping.go\<close>

definition channelKindToProto :: "ChannelKind \<Rightarrow> DeliveryChannel" where
  "channelKindToProto k =
     (if k = ChannelInApp then DELIVERY_CHANNEL_IN_APP
      else if k = ChannelEmail then DELIVERY_CHANNEL_EMAIL
      else if k = ChannelWebPush then DELIVERY_CHANNEL_WEB_PUSH
      else if k = ChannelMobilePush then DELIVERY_CHANNEL_MOBILE_PUSH
      else if k = ChannelSMS then DELIVERY_CHANNEL_SMS
      else if k = ChannelWhatsApp then DELIVERY_CHANNEL_WHATSAPP
      else DELIVERY_CHANNEL_UNSPECIFIED)"

definition channelKindFromProto :: "DeliveryChannel \<Rightarrow> ChannelKind" where
  "channelKindFromProto c =
     (if c = DELIVERY_CHANNEL_IN_APP then ChannelInApp
      else if c = DELIVERY_CHANNEL_EMAIL then ChannelEmail
      else if c = DELIVERY_CHANNEL_WEB_PUSH then ChannelWebPush
      else if c = DELIVERY_CHANNEL_MOBILE_PUSH then ChannelMobilePush
      else if c = DELIVERY_CHANNEL_SMS then ChannelSMS
      else if c = DELIVERY_CHANNEL_WHATSAPP then ChannelWhatsApp
      else '''')"

definition statusToProto :: "DeliveryStatus \<Rightarrow> pb_DeliveryStatus" where
  "statusToProto s =
     (if s = StatusPending then DELIVERY_STATUS_PENDING
      else if s = StatusDelivered then DELIVERY_STATUS_DELIVERED
      else if s = StatusAcked then DELIVERY_STATUS_ACKED
      else if s = StatusRead then DELIVERY_STATUS_READ
      else if s = StatusFailed then DELIVERY_STATUS_FAILED
      else DELIVERY_STATUS_UNSPECIFIED)"

definition deviceTypeFromProto :: "DeviceType \<Rightarrow> string" where
  "deviceTypeFromProto d =
     (if d = DEVICE_TYPE_BROWSER then ''browser''
      else if d = DEVICE_TYPE_ANDROID then ''android''
      else if d = DEVICE_TYPE_IOS then ''ios''
      else '''')"

definition notificationToProto :: "Notification option \<Rightarrow> pb_Notification option" where
  "notificationToProto n =
     (case n of
        None \<Rightarrow> None
      | Some n \<Rightarrow> Some
          \<lparr>pbn_Id = ID n, pbn_NotificationId = NotificationID n, pbn_SubjectRef = SubjectRef n,
           pbn_SubjectType = SubjectType n, pbn_Title = Title n, pbn_Body = Body n,
           pbn_Channel = channelKindToProto (Channel n), pbn_Status = statusToProto (Status n),
           pbn_CreatedAtMs = CreatedAtMS n, pbn_DeliveredAtMs = DeliveredAtMS n,
           pbn_AckAtMs = AckAtMS n, pbn_ReadAtMs = ReadAtMS n\<rparr>)"

definition channelNameForAddress :: "ChannelKind \<Rightarrow> string" where
  "channelNameForAddress k =
     (if k = ChannelEmail then ''email''
      else if k = ChannelSMS then ''sms''
      else if k = ChannelWhatsApp then ''whatsapp''
      else if k = ChannelMobilePush then ''mobile_push''
      else if k = ChannelWebPush then ''web_push''
      else if k = ChannelInApp then ''in_app''
      else '''')"

definition addressKeyToKind :: "string \<Rightarrow> ChannelKind" where
  "addressKeyToKind name =
     (if name = ''email'' then ChannelEmail
      else if name = ''sms'' then ChannelSMS
      else if name = ''whatsapp'' then ChannelWhatsApp
      else if name = ''mobile_push'' then ChannelMobilePush
      else if name = ''web_push'' then ChannelWebPush
      else if name = ''in_app'' then ChannelInApp
      else '''')"

subsection \<open>handlers.go: requests and cursors\<close>

definition validateNotifyRequest :: "pb_NotifyRequest \<Rightarrow> goerror option" where
  "validateNotifyRequest r =
     (if TrimSpace (pb_TenantId r) = '''' then Some (New ''tenant_id is required'')
      else if TrimSpace (pb_NotificationId r) = '''' then Some (New ''notification_id is required'')
      else if pb_UserIds r = [] then Some (New ''user_ids must be non-empty'')
      else None)"

fun by_channel_loop :: "(string, string) gomap \<Rightarrow> (ChannelKind, string) gomap \<Rightarrow> (ChannelKind, string) gomap" where
  "by_channel_loop [] byChannel = byChannel"
| "by_channel_loop ((name, addr) # rest) byChannel =
     (let k = addressKeyToKind name
      in if k = '''' then by_channel_loop rest byChannel
         else by_channel_loop rest (AList.update k addr byChannel))"

fun addresses_loop ::
  "(string, ChannelAddresses option) gomap \<Rightarrow> (string, (ChannelKind, string) gomap) gomap \<Rightarrow>
   (string, (ChannelKind, string) gomap) gomap" where
  "addresses_loop [] addresses = addresses"
| "addresses_loop ((userID, ca) # rest) addresses =
     (case ca of
        None \<Rightarrow> addresses_loop rest addresses
      | Some ca \<Rightarrow>
          let byChannel = by_channel_loop (ByChannel ca) []
          in if byChannel \<noteq> [] then addresses_loop rest (AList.update userID byChannel addresses)
             else addresses_loop rest addresses)"

definition notifyRequestFromProto :: "pb_NotifyRequest \<Rightarrow> NotifyRequest" where
  "notifyRequestFromProto p =
     \<lparr>nr_TenantID = pb_TenantId p, nr_NotificationID = pb_NotificationId p,
      nr_UserIDs = pb_UserIds p,
      nr_Channels = filter (\<lambda>k. k \<noteq> '''') (map channelKindFromProto (pb_Channels p)),
      nr_SubjectRef = pb_SubjectRef p, nr_SubjectType = pb_SubjectType p,
      nr_Title = pb_Title p, nr_Body = pb_Body p,
      nr_Addresses = addresses_loop (pb_Addresses p) []\<rparr>"

definition decodeCursor :: "string \<Rightarrow> goerror + int" where
  "decodeCursor c =
     (case ParseInt c of
        Inl err \<Rightarrow> Inl err
      | Inr ms \<Rightarrow> if ms \<le> 0 then Inl (New ''non-positive cursor'') else Inr ms)"

subsection \<open>The translations agree\<close>

lemma channel_roundtrip:
  "k \<noteq> '''' \<Longrightarrow> channelKindFromProto c = k \<Longrightarrow> channelKindToProto k = c"
  by (auto simp: channelKindFromProto_def channelKindToProto_def delivery_channel_defs channel_defs split: if_splits)

lemma channelKindToProto_inverse:
  "channelKindToProto k \<noteq> DELIVERY_CHANNEL_UNSPECIFIED \<Longrightarrow> channelKindFromProto (channelKindToProto k) = k"
  by (auto simp: channelKindFromProto_def channelKindToProto_def delivery_channel_defs channel_defs split: if_splits)

lemma address_key_roundtrip:
  "channelNameForAddress k \<noteq> '''' \<Longrightarrow> addressKeyToKind (channelNameForAddress k) = k"
  by (auto simp: channelNameForAddress_def addressKeyToKind_def channel_defs split: if_splits)

lemma address_key_inverse:
  "addressKeyToKind n \<noteq> '''' \<Longrightarrow> channelNameForAddress (addressKeyToKind n) = n"
  by (auto simp: channelNameForAddress_def addressKeyToKind_def channel_defs split: if_splits)

lemma by_channel_loop_get:
  assumes "gomap_ok m" "addressKeyToKind n \<noteq> ''''"
  shows "map_of (by_channel_loop m acc) (addressKeyToKind n) =
    (case map_of m n of None \<Rightarrow> map_of acc (addressKeyToKind n) | Some a \<Rightarrow> Some a)"
  using assms
proof (induction m acc rule: by_channel_loop.induct)
  case (2 name addr rest acc)
  have ok: "gomap_ok rest" "name \<notin> fst ` set rest" using 2(3) by (auto simp: gomap_ok_def)
  have inj: "addressKeyToKind name = addressKeyToKind n \<longleftrightarrow> name = n"
    using address_key_inverse [OF 2(4)] address_key_inverse [of name] 2(4) by metis
  show ?case
  proof (cases "name = n")
    case True
    then have "map_of rest n = None" using ok(2) by (simp add: map_of_eq_None_iff)
    with True 2(2,4) ok(1) show ?thesis by (simp add: Let_def go_map)
  next
    case False
    with 2(1,2,4) ok(1) inj show ?thesis by (auto simp: Let_def go_map split: option.split)
  qed
qed simp

lemma by_channel_loop_Nil:
  "by_channel_loop m acc = [] \<Longrightarrow> acc = [] \<and> (\<forall>n. addressKeyToKind n \<noteq> '''' \<longrightarrow> map_of m n = None)"
proof (induction m acc rule: by_channel_loop.induct)
  case (2 name addr rest acc)
  then show ?case by (auto simp: Let_def split: if_splits)
qed simp

lemma addresses_loop_get:
  assumes "gomap_ok m"
  shows "map_of (addresses_loop m acc) u =
    (case map_of m u of
       Some (Some ca) \<Rightarrow> if by_channel_loop (ByChannel ca) [] \<noteq> [] then Some (by_channel_loop (ByChannel ca) []) else map_of acc u
     | _ \<Rightarrow> map_of acc u)"
  using assms
proof (induction m acc rule: addresses_loop.induct)
  case (2 v ca rest acc)
  have ok: "gomap_ok rest" "v \<notin> fst ` set rest" using 2(4) by (auto simp: gomap_ok_def)
  have r: "v = u \<Longrightarrow> map_of rest u = None" using ok(2) by (simp add: map_of_eq_None_iff)
  show ?case
  proof (cases ca)
    case None
    with 2(1) [OF None ok(1)] r show ?thesis by (auto split: option.split)
  next
    case (Some a)
    with 2(2) [OF Some refl _ ok(1)] 2(3) [OF Some refl _ ok(1)] r show ?thesis
      by (cases "v = u") (auto simp: Let_def go_map split: option.split)
  qed
qed simp

subsection \<open>Properties\<close>

text \<open>The channel translations are inverse to each other on the known channels, in both directions,
  and a value that is unknown on one side becomes the zero value of the other: no channel is ever
  turned into a different one. The address keys name the same channels.\<close>

theorem channel_mapping_roundtrip:
  "(channelKindFromProto c = '''' \<or> channelKindToProto (channelKindFromProto c) = c) \<and>
   (channelKindToProto k = DELIVERY_CHANNEL_UNSPECIFIED \<or> channelKindFromProto (channelKindToProto k) = k) \<and>
   (channelNameForAddress k = '''' \<or> addressKeyToKind (channelNameForAddress k) = k) \<and>
   (channelNameForAddress k = '''' \<longleftrightarrow> channelKindToProto k = DELIVERY_CHANNEL_UNSPECIFIED)"
proof -
  have "channelNameForAddress k = '''' \<longleftrightarrow> channelKindToProto k = DELIVERY_CHANNEL_UNSPECIFIED"
    by (auto simp: channelNameForAddress_def channelKindToProto_def delivery_channel_defs split: if_splits)
  then show ?thesis
    using channel_roundtrip channelKindToProto_inverse address_key_roundtrip by blast
qed

text \<open>The destination a request carries for a user under a channel name.\<close>

definition wire_address :: "pb_NotifyRequest \<Rightarrow> string \<Rightarrow> string \<Rightarrow> string option" where
  "wire_address p u name =
     (case map_of (pb_Addresses p) u of
        Some (Some ca) \<Rightarrow> map_of (ByChannel ca) name
      | _ \<Rightarrow> None)"

definition wire_maps_ok :: "pb_NotifyRequest \<Rightarrow> bool" where
  "wire_maps_ok p \<longleftrightarrow> gomap_ok (pb_Addresses p) \<and>
     (\<forall>(u, ca)\<in>set (pb_Addresses p). case ca of None \<Rightarrow> True | Some a \<Rightarrow> gomap_ok (ByChannel a))"

text \<open>Flattening the address map loses nothing: for every known channel the orchestrator resolves
  exactly the address the request gives under that channel's name, with the user id as the only
  fallback and only for the in-app channel.\<close>

theorem addressFor_wire:
  assumes "wire_maps_ok p" "channelNameForAddress k \<noteq> ''''"
  shows "addressFor (notifyRequestFromProto p) u k =
    (case wire_address p u (channelNameForAddress k) of
       Some a \<Rightarrow> a
     | None \<Rightarrow> if k = ChannelInApp then u else '''')"
proof -
  note ak = address_key_roundtrip [OF assms(2)]
  have k: "addressKeyToKind (channelNameForAddress k) \<noteq> ''''"
    using ak assms(2) by (auto simp: channelNameForAddress_def channel_defs split: if_splits)
  have ok: "gomap_ok (pb_Addresses p)" using assms(1) by (simp add: wire_maps_ok_def)
  have okc: "gomap_ok (ByChannel ca)" if "map_of (pb_Addresses p) u = Some (Some ca)" for ca
    using assms(1) map_of_SomeD [OF that] by (auto simp: wire_maps_ok_def)
  have get: "map_of (by_channel_loop (ByChannel ca) []) k = map_of (ByChannel ca) (channelNameForAddress k)"
    if "map_of (pb_Addresses p) u = Some (Some ca)" for ca
    using by_channel_loop_get [OF okc [OF that] k, of "[]"] ak by (simp split: option.split)
  have "(case map_of (addresses_loop (pb_Addresses p) []) u of None \<Rightarrow> None | Some m \<Rightarrow> map_of m k) =
      wire_address p u (channelNameForAddress k)"
    using get k by (auto simp: addresses_loop_get [OF ok] wire_address_def dest!: by_channel_loop_Nil split: option.split)
  then show ?thesis by (simp add: addressFor_def notifyRequestFromProto_def)
qed

definition demo_pb :: pb_NotifyRequest where
  "demo_pb = \<lparr>pb_TenantId = ''t1'', pb_NotificationId = ''n1'', pb_UserIds = [''alice''],
     pb_Channels = [DELIVERY_CHANNEL_SMS], pb_SubjectRef = '''', pb_SubjectType = '''', pb_Title = ''hi'',
     pb_Body = '''',
     pb_Addresses = [(''alice'', Some \<lparr>ByChannel = [(''fax'', ''9''), (''sms'', ''+15550100'')]\<rparr>), (''bob'', None)]\<rparr>"

theorem addressFor_wire_witness: "addressFor (notifyRequestFromProto demo_pb) ''alice'' ChannelSMS = ''+15550100''"
proof -
  have "wire_maps_ok demo_pb" by (simp add: wire_maps_ok_def demo_pb_def gomap_ok_def)
  moreover have n: "channelNameForAddress ChannelSMS = ''sms''" by (simp add: channelNameForAddress_def channel_defs)
  ultimately have "addressFor (notifyRequestFromProto demo_pb) ''alice'' ChannelSMS =
    (case wire_address demo_pb ''alice'' ''sms'' of Some a \<Rightarrow> a | None \<Rightarrow> if ChannelSMS = ChannelInApp then ''alice'' else '''')"
    using addressFor_wire [of demo_pb ChannelSMS "''alice''"] by simp
  then show ?thesis by (simp add: wire_address_def demo_pb_def)
qed

text \<open>\<open>decodeCursor\<close> accepts every cursor the stores issue for a positive timestamp and returns
  that timestamp, and it never returns a value that is not a positive 64-bit integer.\<close>

theorem decodeCursor_roundtrip:
  assumes "is_int64 ms"
  shows "decodeCursor (FormatInt ms) = (if 0 < ms then Inr ms else Inl (New ''non-positive cursor'')) \<and>
    (\<forall>c v. decodeCursor c = Inr v \<longrightarrow> 0 < v \<and> is_int64 v)"
proof -
  have "0 < v \<and> is_int64 v" if "decodeCursor c = Inr v" for c v
    using that parse_int64_range by (auto simp: decodeCursor_def ParseInt_def split: sum.splits if_splits)
  then show ?thesis using assms by (simp add: decodeCursor_def ParseInt_FormatInt)
qed

theorem decodeCursor_roundtrip_witness: "decodeCursor (FormatInt 1700000000123) = Inr 1700000000123"
  using decodeCursor_roundtrip [of 1700000000123] by (simp add: is_int64_def)

text \<open>A request whose channel list names only channels the server does not know (or
  \<open>UNSPECIFIED\<close>) is not rejected: after the translation the list is empty, and the
  orchestrator sends to every enabled channel instead.\<close>

theorem unknown_channels_broadcast:
  assumes "\<forall>c\<in>set (pb_Channels p). channelKindFromProto c = ''''"
  shows "notify_targets n (notifyRequestFromProto p) = Enabled (registry_of n)"
  using assms by (simp add: notify_targets_def notifyRequestFromProto_def filter_empty_conv)

theorem unknown_channels_broadcast_witness:
  "\<forall>n :: (nat, nat) Notifier.
     notify_targets n (notifyRequestFromProto (demo_pb\<lparr>pb_Channels := [42]\<rparr>)) = Enabled (registry_of n)"
proof -
  have "\<forall>c\<in>set (pb_Channels (demo_pb\<lparr>pb_Channels := [42]\<rparr>)). channelKindFromProto c = ''''"
    by (simp add: channelKindFromProto_def delivery_channel_defs)
  from unknown_channels_broadcast [OF this] show ?thesis by blast
qed

end
