(* ===== verification/Realtime.thy ===== *)
theory Realtime
  imports Prelude
begin

text \<open>
  Package \<open>realtime\<close>, \<open>conn.go\<close> and \<open>registry.go\<close>: live connections and the per-user
  registry. Connections are shared by pointer (a registry snapshot aliases the registered
  objects), so they live in a heap indexed by natural numbers and the registry maps a user to a
  list of pointers. A buffered channel is the list of queued values with its capacity; channels
  are never closed. The state holds the heap beside \<open>byUser\<close>. Every operation takes the
  lock, so it is one atomic function here; the logger does not affect the state.
\<close>

subsection \<open>conn.go\<close>

definition DefaultEventBuffer :: int where "DefaultEventBuffer = 64"

record 'e Conn =
  c_ID :: string
  c_UserID :: string
  c_TenantID :: string
  c_DeviceType :: string
  c_EventCh :: "'e list"
  c_cap :: nat
  c_CreatedAt :: int

record 'e Registry =
  byUser :: "(string, nat list) gomap"
  conns :: "nat \<Rightarrow> 'e Conn"
  nconns :: nat

text \<open>\<open>NewConn\<close> allocates; the fresh id of \<open>uuid.NewString\<close> and the time are arguments.\<close>

definition NewConn ::
  "'e Registry \<Rightarrow> string \<Rightarrow> int \<Rightarrow> string \<Rightarrow> string \<Rightarrow> string \<Rightarrow> int \<Rightarrow> 'e Registry \<times> nat" where
  "NewConn r uuid now userID tenantID deviceType buffer =
     (let buffer = (if buffer \<le> 0 then DefaultEventBuffer else buffer);
          c = \<lparr>c_ID = uuid, c_UserID = userID, c_TenantID = tenantID, c_DeviceType = deviceType,
               c_EventCh = [], c_cap = nat buffer, c_CreatedAt = now\<rparr>
      in (r\<lparr>conns := (conns r)(nconns r := c), nconns := Suc (nconns r)\<rparr>, nconns r))"

subsection \<open>registry.go\<close>

definition NewRegistry :: "(nat \<Rightarrow> 'e Conn) \<Rightarrow> 'e Registry" where
  "NewRegistry mem = \<lparr>byUser = [], conns = mem, nconns = 0\<rparr>"

definition user_conns :: "'e Registry \<Rightarrow> string \<Rightarrow> nat list" where
  "user_conns r u = (case map_of (byUser r) u of None \<Rightarrow> [] | Some ps \<Rightarrow> ps)"

definition Register :: "'e Registry \<Rightarrow> nat \<Rightarrow> 'e Registry" where
  "Register r c =
     (let u = c_UserID (conns r c)
      in r\<lparr>byUser := AList.update u (user_conns r u @ [c]) (byUser r)\<rparr>)"

text \<open>The inner loop of \<open>Unregister\<close>: the first index holding the id.\<close>

fun conn_index :: "(nat \<Rightarrow> 'e Conn) \<Rightarrow> string \<Rightarrow> nat list \<Rightarrow> nat option" where
  "conn_index h connID [] = None"
| "conn_index h connID (c # cs) =
     (if c_ID (h c) = connID then Some 0 else map_option Suc (conn_index h connID cs))"

text \<open>\<open>conns[i] = conns[len-1]; conns[:len-1]\<close>.\<close>

definition swap_remove :: "nat \<Rightarrow> 'a list \<Rightarrow> 'a list" where
  "swap_remove i xs = butlast (xs[i := last xs])"

fun unregister_loop ::
  "(nat \<Rightarrow> 'e Conn) \<Rightarrow> string \<Rightarrow> (string, nat list) gomap \<Rightarrow> (string, nat list) gomap \<Rightarrow>
   (string, nat list) gomap" where
  "unregister_loop h connID [] m = m"
| "unregister_loop h connID ((userID, cs) # rest) m =
     (case conn_index h connID cs of
        None \<Rightarrow> unregister_loop h connID rest m
      | Some i \<Rightarrow>
          let m' = AList.update userID (swap_remove i cs) m
          in if swap_remove i cs = [] then AList.delete userID m' else m')"

definition Unregister :: "'e Registry \<Rightarrow> string \<Rightarrow> 'e Registry" where
  "Unregister r connID = r\<lparr>byUser := unregister_loop (conns r) connID (byUser r) (byUser r)\<rparr>"

definition Connections :: "'e Registry \<Rightarrow> string \<Rightarrow> nat list" where
  "Connections r userID = user_conns r userID"

fun get_loop :: "(nat \<Rightarrow> 'e Conn) \<Rightarrow> string \<Rightarrow> (string, nat list) gomap \<Rightarrow> nat option" where
  "get_loop h connID [] = None"
| "get_loop h connID ((userID, cs) # rest) =
     (case conn_index h connID cs of Some i \<Rightarrow> Some (cs ! i) | None \<Rightarrow> get_loop h connID rest)"

definition Get_conn :: "'e Registry \<Rightarrow> string \<Rightarrow> nat option" where
  "Get_conn r connID = get_loop (conns r) connID (byUser r)"

definition Count :: "'e Registry \<Rightarrow> string \<Rightarrow> int" where
  "Count r userID = int (length (user_conns r userID))"

text \<open>The non-blocking \<open>select\<close> with a \<open>default\<close> branch.\<close>

definition trySend :: "'e Registry \<Rightarrow> nat \<Rightarrow> 'e \<Rightarrow> 'e Registry \<times> bool" where
  "trySend r c ev =
     (let k = conns r c
      in if length (c_EventCh k) < c_cap k
         then (r\<lparr>conns := (conns r)(c := k\<lparr>c_EventCh := c_EventCh k @ [ev]\<rparr>)\<rparr>, True)
         else (r, False))"

fun push_loop :: "'e Registry \<Rightarrow> nat list \<Rightarrow> 'e \<Rightarrow> int \<Rightarrow> 'e Registry \<times> int" where
  "push_loop r [] ev pushed = (r, pushed)"
| "push_loop r (c # cs) ev pushed =
     (let (r, ok) = trySend r c ev in push_loop r cs ev (if ok then pushed + 1 else pushed))"

definition Push :: "'e Registry \<Rightarrow> string \<Rightarrow> 'e \<Rightarrow> 'e Registry \<times> int" where
  "Push r userID ev = push_loop r (Connections r userID) ev 0"

definition PushTo :: "'e Registry \<Rightarrow> string \<Rightarrow> 'e \<Rightarrow> 'e Registry \<times> bool" where
  "PushTo r connID ev =
     (case Get_conn r connID of None \<Rightarrow> (r, False) | Some c \<Rightarrow> trySend r c ev)"

text \<open>The reading end: the handler of the connection takes the oldest queued value.\<close>

definition Recv :: "'e Registry \<Rightarrow> nat \<Rightarrow> ('e Registry \<times> 'e) option" where
  "Recv r c =
     (case c_EventCh (conns r c) of
        [] \<Rightarrow> None
      | ev # q \<Rightarrow> Some (r\<lparr>conns := (conns r)(c := conns r c\<lparr>c_EventCh := q\<rparr>)\<rparr>, ev))"

subsection \<open>The invariant\<close>

definition registered :: "'e Registry \<Rightarrow> nat set" where
  "registered r = {c. \<exists>u. c \<in> set (user_conns r u)}"

definition registry_inv :: "'e Registry \<Rightarrow> bool" where
  "registry_inv r \<longleftrightarrow>
     gomap_ok (byUser r) \<and>
     (\<forall>u. map_of (byUser r) u \<noteq> Some []) \<and>
     (\<forall>u. distinct (user_conns r u)) \<and>
     (\<forall>u. \<forall>c\<in>set (user_conns r u). c < nconns r \<and> c_UserID (conns r c) = u) \<and>
     inj_on (\<lambda>c. c_ID (conns r c)) (registered r) \<and>
     (\<forall>c<nconns r. length (c_EventCh (conns r c)) \<le> c_cap (conns r c) \<and> 0 < c_cap (conns r c))"

lemma registry_invD:
  assumes "registry_inv r"
  shows "gomap_ok (byUser r)" "map_of (byUser r) u \<noteq> Some []" "distinct (user_conns r u)"
    "c \<in> set (user_conns r u) \<Longrightarrow> c < nconns r"
    "c \<in> set (user_conns r u) \<Longrightarrow> c_UserID (conns r c) = u"
    "inj_on (\<lambda>c. c_ID (conns r c)) (registered r)"
    "c < nconns r \<Longrightarrow> length (c_EventCh (conns r c)) \<le> c_cap (conns r c)"
    "c < nconns r \<Longrightarrow> 0 < c_cap (conns r c)"
  using assms unfolding registry_inv_def by blast+

lemma registered_iff:
  "registry_inv r \<Longrightarrow> c \<in> registered r \<longleftrightarrow> c \<in> set (user_conns r (c_UserID (conns r c)))"
  unfolding registered_def using registry_invD(5) by blast

lemma registry_inv_New [inv_intros]: "registry_inv (NewRegistry mem)"
  by (simp add: registry_inv_def NewRegistry_def user_conns_def registered_def)

lemma user_conns_simps [simp]:
  "user_conns (r\<lparr>conns := h\<rparr>) u = user_conns r u"
  "user_conns (r\<lparr>nconns := n\<rparr>) u = user_conns r u"
  by (simp_all add: user_conns_def)

lemma registered_simps [simp]:
  "registered (r\<lparr>conns := h\<rparr>) = registered r"
  "registered (r\<lparr>nconns := n\<rparr>) = registered r"
  by (simp_all add: registered_def)

lemma registered_lt: "registry_inv r \<Longrightarrow> c \<in> registered r \<Longrightarrow> c < nconns r"
  unfolding registered_def using registry_invD(4) by blast

text \<open>Updating a connection's queue within its capacity keeps the invariant.\<close>

lemma registry_inv_queue:
  assumes inv: "registry_inv r"
    and h: "\<And>c. h c = (conns r c)\<lparr>c_EventCh := q c\<rparr>" "\<And>c. c < nconns r \<Longrightarrow> length (q c) \<le> c_cap (conns r c)"
  shows "registry_inv (r\<lparr>conns := h\<rparr>)"
proof -
  have "(\<lambda>c. c_ID (h c)) = (\<lambda>c. c_ID (conns r c))" by (simp add: h(1))
  then show ?thesis
    using inv h by (simp add: registry_inv_def)
qed

lemma registry_inv_NewConn [inv_intros]:
  assumes inv: "registry_inv r" and n: "NewConn r uuid now u t d b = (r', c)"
  shows "registry_inv r'"
proof -
  have fresh: "nconns r \<notin> registered r" using registered_lt [OF inv] by blast
  then have ne: "c \<noteq> nconns r" if "c \<in> set (user_conns r v)" for c v
    using that by (auto simp: registered_def)
  have "inj_on (\<lambda>c. c_ID (((conns r)(nconns r := k)) c)) (registered r)" for k
    using registry_invD(6) [OF inv] fresh by (auto simp: inj_on_def)
  then show ?thesis
    using inv n ne
    by (auto simp: registry_inv_def NewConn_def Let_def less_Suc_eq DefaultEventBuffer_def)
qed

subsection \<open>Registering and unregistering\<close>

lemma user_conns_Register:
  "user_conns (Register r c) u =
     (if u = c_UserID (conns r c) then user_conns r u @ [c] else user_conns r u)"
  by (simp add: user_conns_def Register_def Let_def go_map)

lemma registered_Register: "registered (Register r c) = insert c (registered r)"
  unfolding registered_def by (auto simp: user_conns_Register split: if_splits) (metis (full_types))

lemma Register_frame [simp]: "conns (Register r c) = conns r" "nconns (Register r c) = nconns r"
  by (simp_all add: Register_def Let_def)

lemma registry_inv_Register [inv_intros]:
  assumes inv: "registry_inv r" and c: "c < nconns r" "c \<notin> registered r"
    and id: "\<And>d. d \<in> registered r \<Longrightarrow> c_ID (conns r d) \<noteq> c_ID (conns r c)"
  shows "registry_inv (Register r c)"
proof -
  have nm: "c \<notin> set (user_conns r u)" for u using c(2) by (auto simp: registered_def)
  have "gomap_ok (byUser (Register r c))"
    using registry_invD(1) [OF inv] by (simp add: Register_def Let_def inv_intros)
  moreover have "map_of (byUser (Register r c)) u \<noteq> Some []" for u
    using registry_invD(2) [OF inv] by (simp add: Register_def Let_def go_map)
  moreover have "inj_on (\<lambda>d. c_ID (conns r d)) (insert c (registered r))"
    using registry_invD(6) [OF inv] id by (fastforce simp: inj_on_def)
  ultimately show ?thesis
    using inv c(1) nm unfolding registry_inv_def
    by (auto simp: user_conns_Register registered_Register)
qed

lemma conn_index_None: "conn_index h i cs = None \<longleftrightarrow> (\<forall>c\<in>set cs. c_ID (h c) \<noteq> i)"
  by (induction cs) auto

lemma conn_index_Some: "conn_index h i cs = Some n \<Longrightarrow> n < length cs \<and> c_ID (h (cs ! n)) = i"
  by (induction cs arbitrary: n) (auto split: if_splits)

lemma mset_swap_remove:
  assumes "i < length xs"
  shows "mset (swap_remove i xs) = mset xs - {#xs ! i#}"
proof -
  obtain ys y where xs: "xs = ys @ [y]" using assms by (cases xs rule: rev_cases) auto
  show ?thesis
  proof (cases "i < length ys")
    case True
    then have "mset (ys[i := y]) = mset ys - {#ys ! i#} + {#y#}" by (simp add: mset_update)
    with True xs show ?thesis
      by (simp add: swap_remove_def list_update_append nth_append multiset_diff_union_assoc)
  next
    case False
    with assms xs have "i = length ys" by simp
    with xs show ?thesis by (simp add: swap_remove_def)
  qed
qed

lemma swap_remove_distinct:
  assumes "i < length xs" "distinct xs"
  shows "distinct (swap_remove i xs)" "set (swap_remove i xs) = set xs - {xs ! i}"
proof -
  have "mset (swap_remove i xs) = mset (remove1 (xs ! i) xs)"
    using mset_swap_remove [OF assms(1)] by simp
  from mset_eq_imp_distinct_iff [OF this] mset_eq_setD [OF this] assms(2)
  show "distinct (swap_remove i xs)" "set (swap_remove i xs) = set xs - {xs ! i}"
    by (simp_all add: distinct_remove1 set_remove1_eq)
qed

text \<open>The search of \<open>Unregister\<close> and \<open>Get\<close>: either no entry of the map holds the id, or
  the loop stops at the entry of one user.\<close>

lemma unregister_loop_cases:
  obtains "\<And>u cs. (u, cs) \<in> set l \<Longrightarrow> conn_index h i cs = None" "unregister_loop h i l m = m"
      "get_loop h i l = None"
  | u cs n where "(u, cs) \<in> set l" "conn_index h i cs = Some n" "get_loop h i l = Some (cs ! n)"
      "unregister_loop h i l m =
         (if swap_remove n cs = [] then AList.delete u (AList.update u (swap_remove n cs) m)
          else AList.update u (swap_remove n cs) m)"
proof (induction l arbitrary: thesis)
  case (Cons x l)
  obtain u cs where x: "x = (u, cs)" by fastforce
  show ?case
  proof (cases "conn_index h i cs")
    case None
    show ?thesis
      by (rule Cons.IH) (use None x Cons.prems in \<open>auto\<close>)
  next
    case (Some n)
    with x Cons.prems(2) [of u cs n] show ?thesis by (simp add: Let_def)
  qed
qed simp

subsection \<open>What unregistering removes\<close>

lemma Unregister_frame [simp]: "conns (Unregister r i) = conns r" "nconns (Unregister r i) = nconns r"
  by (simp_all add: Unregister_def)

lemma user_conns_in_map:
  "gomap_ok (byUser r) \<Longrightarrow> (u, cs) \<in> set (byUser r) \<Longrightarrow> user_conns r u = cs"
  by (simp add: gomap_in_set user_conns_def)

lemma unregister_cases:
  assumes inv: "registry_inv r"
  obtains "\<And>c. c \<in> registered r \<Longrightarrow> c_ID (conns r c) \<noteq> i" "Unregister r i = r" "Get_conn r i = None"
  | c n u where "c \<in> registered r" "c_ID (conns r c) = i" "u = c_UserID (conns r c)" "Get_conn r i = Some c"
      "n < length (user_conns r u)" "c = user_conns r u ! n"
      "byUser (Unregister r i) =
         (if swap_remove n (user_conns r u) = []
          then AList.delete u (AList.update u (swap_remove n (user_conns r u)) (byUser r))
          else AList.update u (swap_remove n (user_conns r u)) (byUser r))"
proof (rule unregister_loop_cases [of "byUser r" "conns r" i "byUser r"])
  note ok = registry_invD(1) [OF inv]
  assume none: "\<And>u cs. (u, cs) \<in> set (byUser r) \<Longrightarrow> conn_index (conns r) i cs = None"
    and eq: "unregister_loop (conns r) i (byUser r) (byUser r) = byUser r" "get_loop (conns r) i (byUser r) = None"
  have "c_ID (conns r c) \<noteq> i" if reg: "c \<in> registered r" for c
  proof -
    obtain u where "c \<in> set (user_conns r u)" using reg unfolding registered_def by blast
    moreover from this have "(u, user_conns r u) \<in> set (byUser r)"
      by (cases "map_of (byUser r) u") (simp_all add: user_conns_def gomap_in_set [OF ok])
    ultimately show ?thesis using none conn_index_None by blast
  qed
  with eq show thesis by (intro that(1)) (simp_all add: Unregister_def Get_conn_def)
next
  note ok = registry_invD(1) [OF inv]
  fix u cs n
  assume a: "(u, cs) \<in> set (byUser r)" "conn_index (conns r) i cs = Some n"
    "get_loop (conns r) i (byUser r) = Some (cs ! n)"
    "unregister_loop (conns r) i (byUser r) (byUser r) =
         (if swap_remove n cs = [] then AList.delete u (AList.update u (swap_remove n cs) (byUser r))
          else AList.update u (swap_remove n cs) (byUser r))"
  from conn_index_Some [OF a(2)] have n: "n < length cs" "c_ID (conns r (cs ! n)) = i" by auto
  have u: "user_conns r u = cs" using user_conns_in_map [OF ok a(1)] .
  then have mem: "cs ! n \<in> set (user_conns r u)" using n by simp
  show thesis
  proof (rule that(2))
    show "cs ! n \<in> registered r" using mem by (auto simp: registered_def)
    show "u = c_UserID (conns r (cs ! n))" using registry_invD(5) [OF inv mem] by simp
    show "byUser (Unregister r i) = (if swap_remove n (user_conns r u) = []
          then AList.delete u (AList.update u (swap_remove n (user_conns r u)) (byUser r))
          else AList.update u (swap_remove n (user_conns r u)) (byUser r))"
      unfolding u using a(4) by (simp add: Unregister_def)
  qed (use n u a(3) in \<open>simp_all add: Get_conn_def\<close>)
qed

lemma user_conns_Unregister:
  assumes inv: "registry_inv r"
  shows "set (user_conns (Unregister r i) u) = {c \<in> set (user_conns r u). c_ID (conns r c) \<noteq> i}"
    and "distinct (user_conns (Unregister r i) u)"
    and "gomap_ok (byUser (Unregister r i))"
    and "map_of (byUser (Unregister r i)) u \<noteq> Some []"
proof -
  have "set (user_conns (Unregister r i) u) = {c \<in> set (user_conns r u). c_ID (conns r c) \<noteq> i} \<and>
    distinct (user_conns (Unregister r i) u) \<and> gomap_ok (byUser (Unregister r i)) \<and>
    map_of (byUser (Unregister r i)) u \<noteq> Some []"
  proof (rule unregister_cases [OF inv, of i])
    assume "\<And>c. c \<in> registered r \<Longrightarrow> c_ID (conns r c) \<noteq> i" "Unregister r i = r"
    then show ?thesis using registry_invD [OF inv] by (auto simp: registered_def)
  next
    fix c n v
    assume c: "c \<in> registered r" "c_ID (conns r c) = i" "v = c_UserID (conns r c)"
      "n < length (user_conns r v)" "c = user_conns r v ! n"
    assume m: "byUser (Unregister r i) =
         (if swap_remove n (user_conns r v) = []
          then AList.delete v (AList.update v (swap_remove n (user_conns r v)) (byUser r))
          else AList.update v (swap_remove n (user_conns r v)) (byUser r))"
    have eq: "user_conns (Unregister r i) u = (if u = v then swap_remove n (user_conns r v) else user_conns r u)"
      using m by (auto simp: user_conns_def go_map)
    have other: "c_ID (conns r d) \<noteq> i" if "d \<in> set (user_conns r w)" "d \<noteq> c" for d w
      using registry_invD(6) [OF inv] c(1,2) that by (auto simp: inj_on_def registered_def)
    have "c \<notin> set (user_conns r u)" if "u \<noteq> v" using registry_invD(5) [OF inv] c(3) that by blast
    then show ?thesis
      using eq other c(2,5) m swap_remove_distinct [OF c(4) registry_invD(3) [OF inv]] registry_invD [OF inv]
      by (auto simp: go_map inv_intros)
  qed
  then show "set (user_conns (Unregister r i) u) = {c \<in> set (user_conns r u). c_ID (conns r c) \<noteq> i}"
    "distinct (user_conns (Unregister r i) u)" "gomap_ok (byUser (Unregister r i))"
    "map_of (byUser (Unregister r i)) u \<noteq> Some []" by blast+
qed

lemma registered_Unregister:
  "registry_inv r \<Longrightarrow> registered (Unregister r i) = {c \<in> registered r. c_ID (conns r c) \<noteq> i}"
  by (auto simp: registered_def user_conns_Unregister)

lemma registry_inv_Unregister [inv_intros]:
  assumes inv: "registry_inv r"
  shows "registry_inv (Unregister r i)"
proof -
  have "inj_on (\<lambda>c. c_ID (conns r c)) (registered (Unregister r i))"
    using registry_invD(6) [OF inv] by (rule inj_on_subset) (auto simp: registered_Unregister [OF inv])
  then show ?thesis
    using inv user_conns_Unregister [OF inv] unfolding registry_inv_def by auto
qed

lemma Get_conn_iff:
  assumes inv: "registry_inv r"
  shows "Get_conn r i = Some c \<longleftrightarrow> c \<in> registered r \<and> c_ID (conns r c) = i"
proof (rule unregister_cases [OF inv, of i])
  fix d
  assume "d \<in> registered r" "c_ID (conns r d) = i" "Get_conn r i = Some d"
  then show ?thesis using registry_invD(6) [OF inv] by (auto simp: inj_on_def)
qed auto

subsection \<open>Pushing\<close>

definition has_room :: "'e Conn \<Rightarrow> bool" where
  "has_room k \<longleftrightarrow> length (c_EventCh k) < c_cap k"

definition offer :: "'e \<Rightarrow> 'e Conn \<Rightarrow> 'e Conn" where
  "offer ev k = (if has_room k then k\<lparr>c_EventCh := c_EventCh k @ [ev]\<rparr> else k)"

lemma trySend_offer: "trySend r c ev = (r\<lparr>conns := (conns r)(c := offer ev (conns r c))\<rparr>, has_room (conns r c))"
  by (simp add: trySend_def offer_def has_room_def Let_def)

lemma push_loop_offer:
  assumes "distinct cs"
  shows "push_loop r cs ev n =
    (r\<lparr>conns := \<lambda>c. if c \<in> set cs then offer ev (conns r c) else conns r c\<rparr>,
     n + int (length (filter (\<lambda>c. has_room (conns r c)) cs)))"
  using assms
proof (induction cs arbitrary: r n)
  case (Cons c cs)
  have f: "filter (\<lambda>d. (d = c \<longrightarrow> P) \<and> (d \<noteq> c \<longrightarrow> has_room (conns r d))) cs = filter (\<lambda>d. has_room (conns r d)) cs" for P
    using Cons.prems by (intro filter_cong) auto
  from Cons show ?case
    by (auto simp: trySend_offer f fun_eq_iff)
qed simp

lemma Push_offer:
  assumes "registry_inv r"
  shows "Push r u ev =
    (r\<lparr>conns := \<lambda>c. if c \<in> set (user_conns r u) then offer ev (conns r c) else conns r c\<rparr>,
     int (card {c \<in> set (user_conns r u). has_room (conns r c)}))"
proof -
  note d = registry_invD(3) [OF assms, of u]
  have "length (filter P (user_conns r u)) = card {c \<in> set (user_conns r u). P c}" for P
    using d by (simp flip: distinct_card)
  with d show ?thesis by (simp add: Push_def Connections_def push_loop_offer)
qed

lemma offer_queue: "offer ev k = k\<lparr>c_EventCh := c_EventCh (offer ev k)\<rparr>"
  by (simp add: offer_def)

lemma offer_bound: "length (c_EventCh k) \<le> c_cap k \<Longrightarrow> length (c_EventCh (offer ev k)) \<le> c_cap k"
  by (simp add: offer_def has_room_def)

lemma registry_inv_Push [inv_intros]:
  assumes inv: "registry_inv r"
  shows "registry_inv (fst (Push r u ev))"
  unfolding Push_offer [OF inv] fst_conv
  by (rule registry_inv_queue [OF inv, where q = "\<lambda>c. if c \<in> set (user_conns r u)
        then c_EventCh (offer ev (conns r c)) else c_EventCh (conns r c)"])
     (use registry_invD(7) [OF inv] in \<open>auto simp: offer_bound intro: offer_queue\<close>)

lemma registry_inv_trySend [inv_intros]:
  assumes inv: "registry_inv r"
  shows "registry_inv (fst (trySend r c ev))"
  unfolding trySend_offer fst_conv
  by (rule registry_inv_queue [OF inv, where q = "\<lambda>d. if d = c
        then c_EventCh (offer ev (conns r c)) else c_EventCh (conns r d)"])
     (use registry_invD(7) [OF inv] in \<open>auto simp: offer_bound intro: offer_queue\<close>)

lemma registry_inv_PushTo [inv_intros]: "registry_inv r \<Longrightarrow> registry_inv (fst (PushTo r i ev))"
  by (auto simp: PushTo_def inv_intros split: option.split)

lemma registry_inv_Recv [inv_intros]:
  assumes inv: "registry_inv r" and rv: "Recv r c = Some (r', ev)"
  shows "registry_inv r'"
proof -
  obtain q where q: "c_EventCh (conns r c) = ev # q"
    "r' = r\<lparr>conns := (conns r)(c := conns r c\<lparr>c_EventCh := q\<rparr>)\<rparr>"
    using rv by (auto simp: Recv_def split: list.splits)
  have "length q \<le> c_cap (conns r c)" if "c < nconns r"
    using registry_invD(7) [OF inv that] q(1) by simp
  then show ?thesis unfolding q(2)
    by (intro registry_inv_queue [OF inv, where q = "\<lambda>d. if d = c then q else c_EventCh (conns r d)"])
       (auto dest: registry_invD(7) [OF inv])
qed

subsection \<open>The contract of the registry\<close>

text \<open>What the in-app provider and the stream handler rely on: an abstract state is the set of
  live connections of each user and the queue of each connection. A push offers the event to
  exactly the live connections of the user, appends it where there is room and reports how many
  accepted it.\<close>

locale event_registry =
  fixes inv :: "'r \<Rightarrow> bool"
    and live :: "'r \<Rightarrow> string \<Rightarrow> 'c set"
    and queue :: "'r \<Rightarrow> 'c \<Rightarrow> 'e list"
    and cap :: "'r \<Rightarrow> 'c \<Rightarrow> nat"
    and push :: "'r \<Rightarrow> string \<Rightarrow> 'e \<Rightarrow> 'r \<times> int"
  assumes live_finite: "inv r \<Longrightarrow> finite (live r u)"
    and live_disjoint: "inv r \<Longrightarrow> c \<in> live r u \<Longrightarrow> c \<in> live r v \<Longrightarrow> u = v"
    and queue_bounded: "inv r \<Longrightarrow> c \<in> live r u \<Longrightarrow> length (queue r c) \<le> cap r c"
    and push_inv: "inv r \<Longrightarrow> inv (fst (push r u e))"
    and push_live: "inv r \<Longrightarrow> live (fst (push r u e)) = live r"
    and push_cap: "inv r \<Longrightarrow> cap (fst (push r u e)) = cap r"
    and push_queue: "inv r \<Longrightarrow> queue (fst (push r u e)) c =
          (if c \<in> live r u \<and> length (queue r c) < cap r c then queue r c @ [e] else queue r c)"
    and push_count: "inv r \<Longrightarrow> snd (push r u e) = int (card {c \<in> live r u. length (queue r c) < cap r c})"
begin

fun push_all :: "'r \<Rightarrow> string \<Rightarrow> 'e list \<Rightarrow> 'r" where
  "push_all r u [] = r"
| "push_all r u (e # es) = push_all (fst (push r u e)) u es"

lemma push_all_inv: "inv r \<Longrightarrow> inv (push_all r u es) \<and> live (push_all r u es) = live r \<and> cap (push_all r u es) = cap r"
  by (induction es arbitrary: r) (simp_all add: push_inv push_live push_cap)

lemma push_all_queue:
  "inv r \<Longrightarrow> c \<in> live r u \<Longrightarrow>
   queue (push_all r u es) c = queue r c @ take (cap r c - length (queue r c)) es"
proof (induction es arbitrary: r)
  case (Cons e es)
  let ?r = "fst (push r u e)"
  have "queue (push_all ?r u es) c = queue ?r c @ take (cap r c - length (queue ?r c)) es"
    using Cons by (simp add: push_inv push_live push_cap)
  then show ?case
    using Cons.prems queue_bounded [OF Cons.prems]
    by (auto simp: push_queue take_Cons' Suc_diff_le)
qed simp

lemma push_all_other: "inv r \<Longrightarrow> c \<notin> live r u \<Longrightarrow> queue (push_all r u es) c = queue r c"
  by (induction es arbitrary: r) (simp_all add: push_inv push_live push_queue)

lemma push_none_iff:
  assumes "inv r"
  shows "snd (push r u e) = 0 \<longleftrightarrow> (\<forall>c\<in>live r u. length (queue r c) = cap r c)"
proof -
  have "finite {c \<in> live r u. length (queue r c) < cap r c}" using live_finite [OF assms] by simp
  then have "snd (push r u e) = 0 \<longleftrightarrow> {c \<in> live r u. length (queue r c) < cap r c} = {}"
    using push_count [OF assms] by simp
  also have "\<dots> \<longleftrightarrow> (\<forall>c\<in>live r u. length (queue r c) = cap r c)"
    using queue_bounded [OF assms] by (fastforce simp: less_le)
  finally show ?thesis .
qed

end

interpretation rt: event_registry registry_inv "\<lambda>r u. set (Connections r u)"
  "\<lambda>r c. c_EventCh (conns r c)" "\<lambda>r c. c_cap (conns r c)" Push
proof
  fix r :: "'e Registry" and u v c e
  assume inv: "registry_inv r"
  show "finite (set (Connections r u))" by simp
  show "c \<in> set (Connections r u) \<Longrightarrow> c \<in> set (Connections r v) \<Longrightarrow> u = v"
    using registry_invD(5) [OF inv] by (metis Connections_def)
  show "c \<in> set (Connections r u) \<Longrightarrow> length (c_EventCh (conns r c)) \<le> c_cap (conns r c)"
    using registry_invD(4,7) [OF inv] by (metis Connections_def)
  show "registry_inv (fst (Push r u e))" using inv by (rule registry_inv_Push)
  show "(\<lambda>v. set (Connections (fst (Push r u e)) v)) = (\<lambda>v. set (Connections r v))"
    by (simp add: Push_offer [OF inv] Connections_def)
  show "(\<lambda>c. c_cap (conns (fst (Push r u e)) c)) = (\<lambda>c. c_cap (conns r c))"
    by (simp add: Push_offer [OF inv] fun_eq_iff offer_def)
  show "c_EventCh (conns (fst (Push r u e)) c) =
      (if c \<in> set (Connections r u) \<and> length (c_EventCh (conns r c)) < c_cap (conns r c)
       then c_EventCh (conns r c) @ [e] else c_EventCh (conns r c))"
    by (simp add: Push_offer [OF inv] offer_def has_room_def Connections_def)
  show "snd (Push r u e) =
      int (card {c \<in> set (Connections r u). length (c_EventCh (conns r c)) < c_cap (conns r c)})"
    by (simp add: Push_offer [OF inv] has_room_def Connections_def)
qed

subsection \<open>Properties\<close>

text \<open>The registries the operations build. A connection enters through \<open>NewConn\<close> with a
  fresh id followed by \<open>Register\<close>, as in the stream handler.\<close>

inductive registry_reach :: "(nat \<Rightarrow> 'e Conn) \<Rightarrow> 'e Registry \<Rightarrow> bool" for mem where
  init: "registry_reach mem (NewRegistry mem)"
| connect: "registry_reach mem r \<Longrightarrow> (\<And>c. c < nconns r \<Longrightarrow> c_ID (conns r c) \<noteq> uuid) \<Longrightarrow>
    NewConn r uuid now u t d b = (r', c) \<Longrightarrow> registry_reach mem (Register r' c)"
| unregister: "registry_reach mem r \<Longrightarrow> registry_reach mem (Unregister r i)"
| push: "registry_reach mem r \<Longrightarrow> registry_reach mem (fst (Push r u ev))"
| push_to: "registry_reach mem r \<Longrightarrow> registry_reach mem (fst (PushTo r i ev))"
| recv: "registry_reach mem r \<Longrightarrow> Recv r c = Some (r', ev) \<Longrightarrow> registry_reach mem r'"

lemma registry_reach_keeps: "registry_reach mem r \<Longrightarrow> registry_inv r"
proof (induction rule: registry_reach.induct)
  case (connect r uuid now u t d b r' c)
  have r': "c = nconns r" "conns r' = (conns r)(c := conns r' c)" "nconns r' = Suc (nconns r)"
    "c_ID (conns r' c) = uuid" "registered r' = registered r"
    using connect.hyps(3) by (auto simp: NewConn_def Let_def)
  note lt = registered_lt [OF connect.IH]
  have "c_ID (conns r' e) \<noteq> c_ID (conns r' c)" if "e \<in> registered r'" for e
  proof -
    have "e < nconns r" using lt that r'(5) by simp
    moreover from this have "conns r' e = conns r e" using r'(1,2) by (metis fun_upd_other less_irrefl)
    ultimately show ?thesis using connect.hyps(2) r'(4) by simp
  qed
  moreover have "c \<notin> registered r'" "c < nconns r'" using lt r' by auto
  ultimately show ?case
    using registry_inv_NewConn [OF connect.IH connect.hyps(3)] by (intro registry_inv_Register)
qed (auto intro: inv_intros)

text \<open>A registry with two connections of alice (the first with room for one event) and one of bob.\<close>

definition blank_conn :: "string Conn" where
  "blank_conn = \<lparr>c_ID = '''', c_UserID = '''', c_TenantID = '''', c_DeviceType = '''', c_EventCh = [],
     c_cap = 1, c_CreatedAt = 0\<rparr>"

definition demo1 :: "string Registry" where
  "demo1 = Register (fst (NewConn (NewRegistry (\<lambda>_. blank_conn)) ''c1'' 10 ''alice'' ''t1'' ''ios'' 1)) 0"

definition demo2 :: "string Registry" where
  "demo2 = Register (fst (NewConn demo1 ''c2'' 11 ''alice'' ''t1'' ''browser'' 0)) 1"

definition demo3 :: "string Registry" where
  "demo3 = Register (fst (NewConn demo2 ''c3'' 12 ''bob'' ''t1'' ''ios'' 4)) 2"

lemmas demo_eval = demo1_def demo2_def demo3_def NewConn_def NewRegistry_def Register_def Let_def
  user_conns_def DefaultEventBuffer_def blank_conn_def

lemma demo_reach: "registry_reach (\<lambda>_. blank_conn) demo3"
proof -
  have 1: "registry_reach (\<lambda>_. blank_conn) demo1"
    unfolding demo1_def
    by (rule registry_reach.connect [OF registry_reach.init, of _ "''c1''" 10 "''alice''" "''t1''" "''ios''" 1])
       (simp_all add: NewRegistry_def NewConn_def Let_def)
  have 2: "registry_reach (\<lambda>_. blank_conn) demo2"
    unfolding demo2_def
    by (rule registry_reach.connect [OF 1, of "''c2''" 11 "''alice''" "''t1''" "''browser''" 0])
       (simp_all add: demo_eval)
  show ?thesis
    unfolding demo3_def
    by (rule registry_reach.connect [OF 2, of "''c3''" 12 "''bob''" "''t1''" "''ios''" 4])
       (auto simp: demo_eval less_Suc_eq)
qed

lemma demo_inv: "registry_inv demo3"
  using demo_reach by (rule registry_reach_keeps)

text \<open>Every registry the operations can build satisfies the invariant: one list per user, no empty
  list, no duplicate, every connection filed under its own user, ids unique, and no queue over its
  capacity.\<close>

theorem registry_reach_inv:
  assumes "registry_reach mem r"
  shows "registry_inv r"
  using assms by (rule registry_reach_keeps)

theorem registry_reach_inv_witness: "registry_inv demo3 \<and> Connections demo3 ''alice'' = [0, 1]"
  using registry_reach_inv [OF demo_reach] by (simp add: Connections_def) (simp add: demo_eval)

text \<open>\<open>Unregister\<close> removes exactly the connection with the given id: it can no longer be found,
  every user keeps exactly the other connections, and connection objects are not touched.
  The swap with the last element and the removal of emptied lists do not show.\<close>

theorem unregister_exact:
  assumes "registry_inv r"
  shows "Get_conn (Unregister r i) i = None \<and>
    (\<forall>u. set (Connections (Unregister r i) u) = {c \<in> set (Connections r u). c_ID (conns r c) \<noteq> i}) \<and>
    (\<forall>j. j \<noteq> i \<longrightarrow> Get_conn (Unregister r i) j = Get_conn r j) \<and>
    conns (Unregister r i) = conns r"
proof -
  have inv: "registry_inv (Unregister r i)" using assms by (rule registry_inv_Unregister)
  have get: "Get_conn (Unregister r i) j = Some c \<longleftrightarrow> j \<noteq> i \<and> Get_conn r j = Some c" for j c
    by (auto simp: Get_conn_iff [OF inv] Get_conn_iff [OF assms] registered_Unregister [OF assms])
  have "Get_conn (Unregister r i) i = None" using get by (metis not_None_eq)
  moreover have "Get_conn (Unregister r i) j = Get_conn r j" if "j \<noteq> i" for j
    using get [of j] that by (metis not_None_eq)
  ultimately show ?thesis
    by (simp add: Connections_def user_conns_Unregister [OF assms])
qed

theorem unregister_exact_witness:
  "set (Connections (Unregister demo3 ''c1'') ''alice'') = {1} \<and> Get_conn (Unregister demo3 ''c1'') ''c3'' = Some 2"
proof -
  have "{c \<in> set (Connections demo3 ''alice''). c_ID (conns demo3 c) \<noteq> ''c1''} = {1}"
    by (auto simp: Connections_def demo_eval)
  moreover have "Get_conn demo3 ''c3'' = Some 2" by (simp add: Get_conn_def demo_eval)
  ultimately show ?thesis using unregister_exact [OF demo_inv, of "''c1''"] by auto
qed

text \<open>C25. A \<open>Push\<close> never blocks and never overfills: it appends the event to exactly those live
  connections of the user that have room, leaves every other connection (full, of another
  user, or unregistered) as it was, and returns the number that accepted.\<close>

theorem push_fanout:
  assumes "registry_inv r" "Push r u ev = (r', n)"
  shows "registry_inv r' \<and>
    (\<forall>c. c_EventCh (conns r' c) =
       (if c \<in> set (Connections r u) \<and> length (c_EventCh (conns r c)) < c_cap (conns r c)
        then c_EventCh (conns r c) @ [ev] else c_EventCh (conns r c))) \<and>
    byUser r' = byUser r \<and>
    n = int (card {c \<in> set (Connections r u). length (c_EventCh (conns r c)) < c_cap (conns r c)})"
proof -
  have "byUser (fst (Push r u ev)) = byUser r" by (simp add: Push_offer [OF assms(1)])
  then show ?thesis
    using rt.push_inv [OF assms(1), of u ev] rt.push_queue [OF assms(1), of u ev] rt.push_count [OF assms(1), of u ev] assms(2)
    by simp
qed

theorem push_fanout_witness:
  "snd (Push (fst (Push demo3 ''alice'' ''e1'')) ''alice'' ''e2'') = 1 \<and> registry_inv (fst (Push demo3 ''alice'' ''e1''))"
proof -
  obtain r' n where p: "Push demo3 ''alice'' ''e1'' = (r', n)" by fastforce
  note a = push_fanout [OF demo_inv p]
  have "snd (Push r' ''alice'' ''e2'') = 1"
    using p by (auto simp: Push_def Connections_def trySend_def demo_eval)
  with a p show ?thesis by simp
qed

text \<open>A sequence of pushes to one user.\<close>

definition push_seq :: "'e Registry \<Rightarrow> string \<Rightarrow> 'e list \<Rightarrow> 'e Registry" where
  "push_seq r u evs = foldl (\<lambda>r ev. fst (Push r u ev)) r evs"

lemma push_seq_all: "push_seq r u evs = rt.push_all r u evs"
  by (induction evs arbitrary: r) (simp_all add: push_seq_def)

text \<open>C26. Events reach a connection in the order they were pushed and the oldest survive: after any
  sequence of pushes the queue is the old queue followed by the first events up to the free
  capacity, later ones are dropped.\<close>

theorem push_keeps_order:
  assumes "registry_inv r" "c \<in> set (Connections r u)"
  shows "c_EventCh (conns (push_seq r u evs) c) =
     c_EventCh (conns r c) @ take (c_cap (conns r c) - length (c_EventCh (conns r c))) evs"
  unfolding push_seq_all by (rule rt.push_all_queue [OF assms])

theorem push_keeps_order_witness:
  "c_EventCh (conns (push_seq demo3 ''alice'' [''e1'', ''e2'']) 0) = [''e1'']"
proof -
  have "0 \<in> set (Connections demo3 ''alice'')" by (simp add: Connections_def demo_eval)
  from push_keeps_order [OF demo_inv this, of "[''e1'', ''e2'']"] show ?thesis by (simp add: demo_eval)
qed

end
