(* ===== verification/Retry.thy ===== *)
theory Retry
  imports Prelude
begin

text \<open>
  \<open>realtime/retry.go\<close>: the retry tracker. \<open>Track\<close>, \<open>Ack\<close> and \<open>CancelAll\<close> are
  functions on the tracker (each holds the lock for its whole body); every goroutine started by
  \<open>Track\<close> is an entry of \<open>rt_loops\<close> with a program counter, and the points where it can
  be interleaved with the others are steps of a relation. A \<open>retryState\<close> pointer is the
  index of its goroutine. The callback is code of the caller: its invocations are recorded in
  \<open>rt_calls\<close>, and between the invocation and the return any other step may happen. An error
  of the callback is only logged.
\<close>

subsection \<open>State\<close>

datatype loop_pc = Selecting | Calling | Evicting | Returned

record retryLoop =
  lp_key :: string
  lp_conn :: string
  lp_parent :: nat
  lp_cancelled :: bool
  lp_attempt :: int
  lp_fired :: bool
  lp_pc :: loop_pc

record RetryTracker =
  rt_max :: int
  rt_interval :: int
  rt_byKey :: "(string, (string, nat) gomap) gomap"
  rt_loops :: "retryLoop list"
  rt_dead :: "nat set"
  rt_calls :: "(nat \<times> int) list"

definition NewRetryTracker :: "int \<Rightarrow> int \<Rightarrow> RetryTracker" where
  "NewRetryTracker m interval =
     \<lparr>rt_max = m, rt_interval = interval, rt_byKey = [], rt_loops = [], rt_dead = {}, rt_calls = []\<rparr>"

subsection \<open>Track, Ack, CancelAll\<close>

definition spawn :: "nat \<Rightarrow> string \<Rightarrow> string \<Rightarrow> retryLoop" where
  "spawn parent key connID =
     \<lparr>lp_key = key, lp_conn = connID, lp_parent = parent, lp_cancelled = False,
      lp_attempt = 1, lp_fired = False, lp_pc = Selecting\<rparr>"

text \<open>The body of the loop over \<open>connIDs\<close>. The inner map of a key is reached through
  \<open>byKey\<close> only, so writing it back is the in-place update of the code.\<close>

fun track_loop :: "RetryTracker \<Rightarrow> nat \<Rightarrow> string \<Rightarrow> string list \<Rightarrow> (string, nat) gomap \<Rightarrow> RetryTracker" where
  "track_loop t parent key [] states = t\<lparr>rt_byKey := AList.update key states (rt_byKey t)\<rparr>"
| "track_loop t parent key (connID # cs) states =
     (case map_of states connID of
        Some _ \<Rightarrow> track_loop t parent key cs states
      | None \<Rightarrow>
          track_loop (t\<lparr>rt_loops := rt_loops t @ [spawn parent key connID]\<rparr>) parent key cs
            (AList.update connID (length (rt_loops t)) states))"

definition Track :: "RetryTracker \<Rightarrow> nat \<Rightarrow> string \<Rightarrow> string list \<Rightarrow> RetryTracker" where
  "Track t parent key connIDs =
     (if rt_max t \<le> 0 \<or> connIDs = [] then t
      else track_loop t parent key connIDs
             (case map_of (rt_byKey t) key of None \<Rightarrow> [] | Some states \<Rightarrow> states))"

definition upd_loop :: "RetryTracker \<Rightarrow> nat \<Rightarrow> (retryLoop \<Rightarrow> retryLoop) \<Rightarrow> RetryTracker" where
  "upd_loop t i f = t\<lparr>rt_loops := (rt_loops t)[i := f (rt_loops t ! i)]\<rparr>"

definition cancel :: "RetryTracker \<Rightarrow> nat \<Rightarrow> RetryTracker" where
  "cancel t i = upd_loop t i (\<lambda>l. l\<lparr>lp_cancelled := True\<rparr>)"

definition drop_entry :: "RetryTracker \<Rightarrow> string \<Rightarrow> string \<Rightarrow> RetryTracker" where
  "drop_entry t key connID =
     (case map_of (rt_byKey t) key of
        None \<Rightarrow> t
      | Some states \<Rightarrow>
          let states = AList.delete connID states
          in if states = [] then t\<lparr>rt_byKey := AList.delete key (rt_byKey t)\<rparr>
             else t\<lparr>rt_byKey := AList.update key states (rt_byKey t)\<rparr>)"

definition Ack :: "RetryTracker \<Rightarrow> string \<Rightarrow> string \<Rightarrow> RetryTracker" where
  "Ack t key connID =
     (case map_of (rt_byKey t) key of
        None \<Rightarrow> t
      | Some states \<Rightarrow>
          (case map_of states connID of
             None \<Rightarrow> t
           | Some i \<Rightarrow> drop_entry (cancel t i) key connID))"

definition CancelAll :: "RetryTracker \<Rightarrow> RetryTracker" where
  "CancelAll t =
     (fold (\<lambda>(key, states) t. fold (\<lambda>(connID, i) t. cancel t i) states t) (rt_byKey t) t)\<lparr>rt_byKey := []\<rparr>"

subsection \<open>The goroutine\<close>

text \<open>\<open>ctx.Done()\<close> is ready when the loop's own context or its parent has been cancelled.\<close>

definition ctx_done :: "RetryTracker \<Rightarrow> nat \<Rightarrow> bool" where
  "ctx_done t i \<longleftrightarrow> lp_cancelled (rt_loops t ! i) \<or> lp_parent (rt_loops t ! i) \<in> rt_dead t"

definition at_pc :: "RetryTracker \<Rightarrow> nat \<Rightarrow> loop_pc \<Rightarrow> bool" where
  "at_pc t i p \<longleftrightarrow> i < length (rt_loops t) \<and> lp_pc (rt_loops t ! i) = p"

definition timer_fire :: "RetryTracker \<Rightarrow> nat \<Rightarrow> RetryTracker" where
  "timer_fire t i = upd_loop t i (\<lambda>l. l\<lparr>lp_fired := True\<rparr>)"

definition select_done :: "RetryTracker \<Rightarrow> nat \<Rightarrow> RetryTracker" where
  "select_done t i = upd_loop t i (\<lambda>l. l\<lparr>lp_pc := Returned\<rparr>)"

definition select_timer :: "RetryTracker \<Rightarrow> nat \<Rightarrow> RetryTracker" where
  "select_timer t i =
     (upd_loop t i (\<lambda>l. l\<lparr>lp_fired := False, lp_pc := Calling\<rparr>))
       \<lparr>rt_calls := rt_calls t @ [(i, lp_attempt (rt_loops t ! i))]\<rparr>"

definition callback_return :: "RetryTracker \<Rightarrow> nat \<Rightarrow> RetryTracker" where
  "callback_return t i =
     upd_loop t i (\<lambda>l. if lp_attempt l < rt_max t
                       then l\<lparr>lp_attempt := lp_attempt l + 1, lp_pc := Selecting\<rparr>
                       else l\<lparr>lp_pc := Evicting\<rparr>)"

definition evict :: "RetryTracker \<Rightarrow> nat \<Rightarrow> RetryTracker" where
  "evict t i =
     (let l = rt_loops t ! i
      in upd_loop (drop_entry t (lp_key l) (lp_conn l)) i (\<lambda>l. l\<lparr>lp_pc := Returned\<rparr>))"

text \<open>A step of one goroutine. With both cases of the \<open>select\<close> ready either may be taken.\<close>

inductive loop_step :: "nat \<Rightarrow> RetryTracker \<Rightarrow> RetryTracker \<Rightarrow> bool" where
  fire: "at_pc t i Selecting \<Longrightarrow> \<not> lp_fired (rt_loops t ! i) \<Longrightarrow> loop_step i t (timer_fire t i)"
| sdone: "at_pc t i Selecting \<Longrightarrow> ctx_done t i \<Longrightarrow> loop_step i t (select_done t i)"
| stimer: "at_pc t i Selecting \<Longrightarrow> lp_fired (rt_loops t ! i) \<Longrightarrow> loop_step i t (select_timer t i)"
| ret: "at_pc t i Calling \<Longrightarrow> loop_step i t (callback_return t i)"
| evict: "at_pc t i Evicting \<Longrightarrow> loop_step i t (evict t i)"

inductive retry_step :: "RetryTracker \<Rightarrow> RetryTracker \<Rightarrow> bool" where
  track: "retry_step t (Track t p key cs)"
| ack: "retry_step t (Ack t key c)"
| cancel_all: "retry_step t (CancelAll t)"
| parent_cancel: "retry_step t (t\<lparr>rt_dead := insert p (rt_dead t)\<rparr>)"
| loop: "loop_step i t t' \<Longrightarrow> retry_step t t'"

inductive_cases retry_stepE: "retry_step t t'"
inductive_cases loop_stepE: "loop_step i t t'"

inductive retry_reach :: "int \<Rightarrow> int \<Rightarrow> RetryTracker \<Rightarrow> bool" for m d where
  init: "retry_reach m d (NewRetryTracker m d)"
| step: "retry_reach m d t \<Longrightarrow> retry_step t t' \<Longrightarrow> retry_reach m d t'"

subsection \<open>The attempts of a goroutine\<close>

definition attempts_of :: "RetryTracker \<Rightarrow> nat \<Rightarrow> int list" where
  "attempts_of t i = map snd (filter (\<lambda>c. fst c = i) (rt_calls t))"

text \<open>How many callbacks a goroutine has made, by its program counter. One that has returned
  either used up the budget or saw its context cancelled before an attempt.\<close>

definition calls_ok :: "RetryTracker \<Rightarrow> nat \<Rightarrow> bool" where
  "calls_ok t i \<longleftrightarrow>
     (let l = rt_loops t ! i; a = lp_attempt l; xs = attempts_of t i
      in 1 \<le> a \<and> a \<le> rt_max t \<and>
         (case lp_pc l of
            Selecting \<Rightarrow> xs = [1..a - 1]
          | Calling \<Rightarrow> xs = [1..a]
          | Evicting \<Rightarrow> xs = [1..rt_max t]
          | Returned \<Rightarrow> xs = [1..rt_max t] \<or> (ctx_done t i \<and> xs = [1..a - 1])))"

definition entry :: "RetryTracker \<Rightarrow> string \<Rightarrow> string \<Rightarrow> nat option" where
  "entry t key c = (case map_of (rt_byKey t) key of None \<Rightarrow> None | Some m \<Rightarrow> map_of m c)"

definition maps_ok :: "RetryTracker \<Rightarrow> bool" where
  "maps_ok t \<longleftrightarrow> gomap_ok (rt_byKey t) \<and>
     (\<forall>k m. map_of (rt_byKey t) k = Some m \<longrightarrow> m \<noteq> [] \<and> gomap_ok m)"

definition entries_ok :: "RetryTracker \<Rightarrow> bool" where
  "entries_ok t \<longleftrightarrow>
     (\<forall>k c i. entry t k c = Some i \<longrightarrow> i < length (rt_loops t) \<and> lp_key (rt_loops t ! i) = k \<and>
        lp_conn (rt_loops t ! i) = c \<and> \<not> lp_cancelled (rt_loops t ! i))"

definition retry_inv :: "RetryTracker \<Rightarrow> bool" where
  "retry_inv t \<longleftrightarrow> maps_ok t \<and> entries_ok t \<and>
     (\<forall>i<length (rt_loops t). calls_ok t i) \<and> (\<forall>c\<in>set (rt_calls t). fst c < length (rt_loops t))"

lemma retry_inv_New [inv_intros]: "retry_inv (NewRetryTracker m d)"
  by (simp add: retry_inv_def maps_ok_def entries_ok_def entry_def NewRetryTracker_def)

subsection \<open>How the operations act on the entries\<close>

lemma entry_drop: "entry (drop_entry t k c) k' c' = (if k' = k \<and> c' = c then None else entry t k' c')"
  by (auto simp: entry_def drop_entry_def Let_def go_map split: option.splits)
     (metis map_of_delete_iff map_of.simps(1))+

lemma drop_entry_frame [simp]:
  "rt_loops (drop_entry t k c) = rt_loops t" "rt_max (drop_entry t k c) = rt_max t"
  "rt_dead (drop_entry t k c) = rt_dead t" "rt_calls (drop_entry t k c) = rt_calls t"
  by (simp_all add: drop_entry_def Let_def split: option.split)

lemma maps_ok_drop [inv_intros]: "maps_ok t \<Longrightarrow> maps_ok (drop_entry t k c)"
  by (auto simp: maps_ok_def drop_entry_def Let_def go_map inv_intros split: option.split)

lemma upd_loop_frame [simp]:
  "rt_byKey (upd_loop t i f) = rt_byKey t" "rt_max (upd_loop t i f) = rt_max t"
  "rt_dead (upd_loop t i f) = rt_dead t" "rt_calls (upd_loop t i f) = rt_calls t"
  "length (rt_loops (upd_loop t i f)) = length (rt_loops t)"
  by (simp_all add: upd_loop_def)

lemma nth_upd_loop [simp]:
  "i < length (rt_loops t) \<Longrightarrow> rt_loops (upd_loop t i f) ! j =
     (if j = i then f (rt_loops t ! i) else rt_loops t ! j)"
  by (simp add: upd_loop_def)

lemma entry_upd_loop [simp]: "entry (upd_loop t i f) = entry t"
  by (simp add: entry_def fun_eq_iff)

lemma maps_ok_upd_loop [simp]: "maps_ok (upd_loop t i f) = maps_ok t"
  by (simp add: maps_ok_def)

lemma cancel_frame [simp]:
  "rt_byKey (cancel t i) = rt_byKey t" "rt_max (cancel t i) = rt_max t"
  "rt_dead (cancel t i) = rt_dead t" "rt_calls (cancel t i) = rt_calls t"
  "length (rt_loops (cancel t i)) = length (rt_loops t)"
  by (simp_all add: cancel_def)

lemma entry_Ack: "entry (Ack t k c) k' c' = (if k' = k \<and> c' = c then None else entry t k' c')"
proof (cases "entry t k c")
  case None
  then have "Ack t k c = t" by (auto simp: entry_def Ack_def split: option.splits)
  with None show ?thesis by simp
next
  case (Some i)
  then have "Ack t k c = drop_entry (cancel t i) k c" by (auto simp: entry_def Ack_def split: option.splits)
  then show ?thesis by (simp add: entry_drop cancel_def)
qed

lemma Ack_cases:
  obtains "entry t k c = None" "Ack t k c = t"
  | i where "entry t k c = Some i" "Ack t k c = drop_entry (cancel t i) k c"
  by (cases "entry t k c") (auto simp: entry_def Ack_def split: option.splits)

subsection \<open>CancelAll\<close>

definition tracked :: "RetryTracker \<Rightarrow> nat set" where
  "tracked t = {i. \<exists>k c. entry t k c = Some i}"

definition entry_ids :: "RetryTracker \<Rightarrow> nat list" where
  "entry_ids t = concat (map (\<lambda>(k, m). map snd m) (rt_byKey t))"

lemma fold_cancel_ids:
  "fold (\<lambda>(key, states) t. fold (\<lambda>(c, i) t. cancel t i) states t) m t =
     fold (\<lambda>i t. cancel t i) (concat (map (\<lambda>(k, m). map snd m) m)) t"
proof (induction m arbitrary: t)
  case (Cons x m)
  have "fold (\<lambda>(c, i) t. cancel t i) xs t = fold (\<lambda>i t. cancel t i) (map snd xs) t" for xs :: "('b \<times> nat) list" and t
    by (simp add: fold_map comp_def case_prod_unfold)
  then show ?case using Cons by (cases x) simp
qed simp

lemma fold_cancel_frame [simp]:
  "rt_max (fold (\<lambda>i t. cancel t i) is t) = rt_max t"
  "rt_dead (fold (\<lambda>i t. cancel t i) is t) = rt_dead t"
  "rt_calls (fold (\<lambda>i t. cancel t i) is t) = rt_calls t"
  "length (rt_loops (fold (\<lambda>i t. cancel t i) is t)) = length (rt_loops t)"
  by (induction "is" arbitrary: t) simp_all

lemma fold_cancel_nth:
  "set is \<subseteq> {..<length (rt_loops t)} \<Longrightarrow> j < length (rt_loops t) \<Longrightarrow>
   rt_loops (fold (\<lambda>i t. cancel t i) is t) ! j =
     (rt_loops t ! j)\<lparr>lp_cancelled := (j \<in> set is \<or> lp_cancelled (rt_loops t ! j))\<rparr>"
  by (induction "is" arbitrary: t) (auto simp: cancel_def)

lemma set_entry_ids: "maps_ok t \<Longrightarrow> set (entry_ids t) = tracked t"
proof -
  assume ok: "maps_ok t"
  have "i \<in> set (entry_ids t) \<longleftrightarrow> (\<exists>k m c. (k, m) \<in> set (rt_byKey t) \<and> (c, i) \<in> set m)" for i
    by (force simp: entry_ids_def)
  also have "\<dots> i \<longleftrightarrow> (\<exists>k m c. map_of (rt_byKey t) k = Some m \<and> map_of m c = Some i)" for i
    using ok unfolding maps_ok_def by (metis gomap_in_set)
  also have "\<dots> i \<longleftrightarrow> (\<exists>k c. entry t k c = Some i)" for i
    by (auto simp: entry_def split: option.splits) (metis option.distinct(1) option.inject)+
  finally show ?thesis by (auto simp: tracked_def)
qed

lemma CancelAll_eq: "CancelAll t = (fold (\<lambda>i t. cancel t i) (entry_ids t) t)\<lparr>rt_byKey := []\<rparr>"
  by (simp add: CancelAll_def fold_cancel_ids entry_ids_def)

lemma CancelAll_frame [simp]:
  "rt_max (CancelAll t) = rt_max t" "rt_dead (CancelAll t) = rt_dead t"
  "rt_calls (CancelAll t) = rt_calls t" "length (rt_loops (CancelAll t)) = length (rt_loops t)"
  "rt_byKey (CancelAll t) = []"
  by (simp_all add: CancelAll_eq)

lemma tracked_lt: "entries_ok t \<Longrightarrow> tracked t \<subseteq> {..<length (rt_loops t)}"
  by (auto simp: entries_ok_def tracked_def)

lemma CancelAll_nth:
  assumes "maps_ok t" "entries_ok t" "j < length (rt_loops t)"
  shows "rt_loops (CancelAll t) ! j =
     (rt_loops t ! j)\<lparr>lp_cancelled := (j \<in> tracked t \<or> lp_cancelled (rt_loops t ! j))\<rparr>"
  using assms tracked_lt [OF assms(2)] by (simp add: CancelAll_eq fold_cancel_nth set_entry_ids)

subsection \<open>Track\<close>

lemma track_loop_frame [simp]:
  "rt_max (track_loop t p k cs m) = rt_max t" "rt_dead (track_loop t p k cs m) = rt_dead t"
  "rt_calls (track_loop t p k cs m) = rt_calls t"
  by (induction cs arbitrary: t m) (simp_all split: option.split)

lemma track_loop_loops: "\<exists>ls. rt_loops (track_loop t p k cs m) = rt_loops t @ ls \<and> (\<forall>l\<in>set ls. \<exists>c. l = spawn p k c)"
proof (induction cs arbitrary: t m)
  case (Cons c cs)
  obtain ls where ls: "rt_loops (track_loop (t\<lparr>rt_loops := rt_loops t @ [spawn p k c]\<rparr>) p k cs
      (AList.update c (length (rt_loops t)) m)) = rt_loops t @ [spawn p k c] @ ls"
    "\<forall>l\<in>set ls. \<exists>c. l = spawn p k c"
    using Cons [of "t\<lparr>rt_loops := rt_loops t @ [spawn p k c]\<rparr>" "AList.update c (length (rt_loops t)) m"] by auto
  show ?case
  proof (cases "map_of m c")
    case None
    with ls show ?thesis by (intro exI [of _ "spawn p k c # ls"]) auto
  qed (use Cons in simp)
qed simp

lemma track_loop_entry_other: "k' \<noteq> k \<Longrightarrow> entry (track_loop t p k cs m) k' = entry t k'"
  by (induction cs arbitrary: t m) (auto simp: entry_def fun_eq_iff go_map split: option.split)

text \<open>The inner map after the loop: old entries stay, a new connection gets a new goroutine.\<close>

lemma track_loop_map:
  assumes "gomap_ok m" "\<And>c i. map_of m c = Some i \<Longrightarrow> i < length (rt_loops t) \<and> lp_key (rt_loops t ! i) = k \<and>
      lp_conn (rt_loops t ! i) = c \<and> \<not> lp_cancelled (rt_loops t ! i)"
  shows "\<exists>m'. rt_byKey (track_loop t p k cs m) = AList.update k m' (rt_byKey t) \<and> gomap_ok m' \<and>
    dom (map_of m') = dom (map_of m) \<union> set cs \<and> (\<forall>c\<in>dom (map_of m). map_of m' c = map_of m c) \<and>
    (\<forall>c i. map_of m' c = Some i \<longrightarrow> i < length (rt_loops (track_loop t p k cs m)) \<and>
      lp_key (rt_loops (track_loop t p k cs m) ! i) = k \<and> lp_conn (rt_loops (track_loop t p k cs m) ! i) = c \<and>
      \<not> lp_cancelled (rt_loops (track_loop t p k cs m) ! i))"
  using assms
proof (induction cs arbitrary: t m)
  case (Cons c cs)
  show ?case
  proof (cases "map_of m c")
    case None
    let ?t = "t\<lparr>rt_loops := rt_loops t @ [spawn p k c]\<rparr>" and ?m = "AList.update c (length (rt_loops t)) m"
    have ok: "gomap_ok ?m" using Cons.prems(1) by (rule gomap_ok_update)
    have pre: "i < length (rt_loops ?t) \<and> lp_key (rt_loops ?t ! i) = k \<and>
      lp_conn (rt_loops ?t ! i) = d \<and> \<not> lp_cancelled (rt_loops ?t ! i)" if "map_of ?m d = Some i" for d i
      using that Cons.prems(2) [of d i] by (auto simp: go_map nth_append spawn_def split: if_splits)
    have d: "dom (map_of ?m) = insert c (dom (map_of m))" by (auto simp: go_map split: if_splits)
    have same: "map_of ?m d = map_of m d" if "d \<in> dom (map_of m)" for d
      using None that by (auto simp: go_map)
    obtain m' where "rt_byKey (track_loop ?t p k cs ?m) = AList.update k m' (rt_byKey ?t)" "gomap_ok m'"
      "dom (map_of m') = dom (map_of ?m) \<union> set cs" "\<forall>c\<in>dom (map_of ?m). map_of m' c = map_of ?m c"
      "\<forall>c i. map_of m' c = Some i \<longrightarrow> i < length (rt_loops (track_loop ?t p k cs ?m)) \<and>
        lp_key (rt_loops (track_loop ?t p k cs ?m) ! i) = k \<and> lp_conn (rt_loops (track_loop ?t p k cs ?m) ! i) = c \<and>
        \<not> lp_cancelled (rt_loops (track_loop ?t p k cs ?m) ! i)"
      using Cons.IH [OF ok pre] by blast
    then show ?thesis using None d same by (intro exI [of _ m']) simp
  next
    case (Some j)
    with Cons.IH [OF Cons.prems] show ?thesis by (auto simp: insert_absorb domIff)
  qed
qed auto

subsection \<open>The invariant is preserved\<close>

lemma calls_ok_mono:
  assumes "calls_ok t j" "rt_max t' = rt_max t" "rt_dead t \<subseteq> rt_dead t'" "attempts_of t' j = attempts_of t j"
    "lp_pc (rt_loops t' ! j) = lp_pc (rt_loops t ! j)" "lp_attempt (rt_loops t' ! j) = lp_attempt (rt_loops t ! j)"
    "lp_parent (rt_loops t' ! j) = lp_parent (rt_loops t ! j)"
    "lp_cancelled (rt_loops t ! j) \<Longrightarrow> lp_cancelled (rt_loops t' ! j)"
  shows "calls_ok t' j"
proof -
  have "ctx_done t j \<Longrightarrow> ctx_done t' j" using assms(3,7,8) by (auto simp: ctx_done_def)
  then show ?thesis
    using assms(1,2,4-6) by (auto simp: calls_ok_def Let_def split: loop_pc.splits)
qed

lemma retry_inv_CancelAll [inv_intros]:
  assumes "retry_inv t" shows "retry_inv (CancelAll t)"
proof -
  have "calls_ok (CancelAll t) j" if "j < length (rt_loops t)" for j
    using assms that CancelAll_nth [of t j]
    by - (rule calls_ok_mono [of t j], auto simp: retry_inv_def attempts_of_def)
  then show ?thesis using assms by (simp add: retry_inv_def maps_ok_def entries_ok_def entry_def)
qed

lemma retry_inv_Ack [inv_intros]:
  assumes inv: "retry_inv t" shows "retry_inv (Ack t k c)"
proof (rule Ack_cases [of t k c])
  fix i assume e: "entry t k c = Some i" and a: "Ack t k c = drop_entry (cancel t i) k c"
  have i: "i < length (rt_loops t)" "lp_key (rt_loops t ! i) = k" "lp_conn (rt_loops t ! i) = c"
    using inv e by (auto simp: retry_inv_def entries_ok_def)
  have "calls_ok (Ack t k c) j" if "j < length (rt_loops t)" for j
    using inv that i(1) by - (rule calls_ok_mono [of t j], auto simp: retry_inv_def a attempts_of_def cancel_def)
  moreover have "maps_ok (Ack t k c)" using inv by (simp add: retry_inv_def a cancel_def inv_intros)
  moreover have "entries_ok (Ack t k c)"
    using inv i unfolding entries_ok_def entry_Ack retry_inv_def by (auto simp: a cancel_def)
  ultimately show ?thesis using inv by (simp add: retry_inv_def a)
qed (use inv in simp)

lemma calls_ok_spawn: "0 < rt_max t \<Longrightarrow> rt_loops t ! j = spawn p k c \<Longrightarrow> attempts_of t j = [] \<Longrightarrow> calls_ok t j"
  by (simp add: calls_ok_def spawn_def)

lemma attempts_of_fresh: "retry_inv t \<Longrightarrow> length (rt_loops t) \<le> j \<Longrightarrow> attempts_of t j = []"
  by (auto simp: retry_inv_def attempts_of_def filter_empty_conv)

lemma Track_entries:
  assumes inv: "retry_inv t"
  shows "maps_ok (Track t p k cs)" "entries_ok (Track t p k cs)"
    and "0 < rt_max t \<Longrightarrow> c \<in> set cs \<Longrightarrow> entry (Track t p k cs) k c \<noteq> None"
    and "entry t k' c' \<noteq> None \<Longrightarrow> entry (Track t p k cs) k' c' = entry t k' c'"
proof -
  define m where "m = (case map_of (rt_byKey t) k of None \<Rightarrow> [] | Some states \<Rightarrow> states)"
  have e: "map_of m = entry t k" by (simp add: m_def entry_def fun_eq_iff split: option.split)
  have ok: "gomap_ok m" using inv by (auto simp: m_def retry_inv_def maps_ok_def split: option.split)
  have pre: "i < length (rt_loops t) \<and> lp_key (rt_loops t ! i) = k \<and> lp_conn (rt_loops t ! i) = c \<and>
      \<not> lp_cancelled (rt_loops t ! i)" if "map_of m c = Some i" for c i
    using inv that by (auto simp: e retry_inv_def entries_ok_def)
  let ?t = "track_loop t p k cs m"
  obtain m' where m': "rt_byKey ?t = AList.update k m' (rt_byKey t)" "gomap_ok m'"
    "dom (map_of m') = dom (map_of m) \<union> set cs" "\<forall>c\<in>dom (map_of m). map_of m' c = map_of m c"
    "\<And>c i. map_of m' c = Some i \<Longrightarrow> i < length (rt_loops ?t) \<and> lp_key (rt_loops ?t ! i) = k \<and>
       lp_conn (rt_loops ?t ! i) = c \<and> \<not> lp_cancelled (rt_loops ?t ! i)"
    using track_loop_map [OF ok pre, where ?p = p and ?cs = cs] by blast
  have ek: "entry ?t k = map_of m'" by (simp add: entry_def fun_eq_iff m'(1) go_map)
  have eo: "k' \<noteq> k \<Longrightarrow> entry ?t k' = entry t k'" for k' by (rule track_loop_entry_other)
  obtain ls where ls: "rt_loops ?t = rt_loops t @ ls" using track_loop_loops by blast
  have T: "Track t p k cs = (if rt_max t \<le> 0 \<or> cs = [] then t else ?t)" by (simp add: Track_def m_def)
  have "m' \<noteq> []" if "cs \<noteq> []" using m'(3) that by (cases cs) auto
  then have "cs \<noteq> [] \<Longrightarrow> maps_ok ?t" using inv m'(1,2) by (auto simp: maps_ok_def retry_inv_def go_map inv_intros)
  then show "maps_ok (Track t p k cs)" using inv by (auto simp: T retry_inv_def)
  have old: "i < length (rt_loops ?t) \<and> rt_loops ?t ! i = rt_loops t ! i" if "entry t k' c = Some i" for k' c i
  proof -
    have "i < length (rt_loops t)" using inv that by (auto simp: retry_inv_def entries_ok_def)
    then show ?thesis by (simp add: ls nth_append)
  qed
  have "entries_ok ?t" unfolding entries_ok_def
  proof (intro allI impI)
    fix k' c i assume a: "entry ?t k' c = Some i"
    show "i < length (rt_loops ?t) \<and> lp_key (rt_loops ?t ! i) = k' \<and> lp_conn (rt_loops ?t ! i) = c \<and>
       \<not> lp_cancelled (rt_loops ?t ! i)"
    proof (cases "k' = k")
      case True with a ek m'(5) show ?thesis by simp
    next
      case False
      with a eo have "entry t k' c = Some i" by simp
      with old inv show ?thesis by (auto simp: retry_inv_def entries_ok_def)
    qed
  qed
  then show "entries_ok (Track t p k cs)" using inv by (auto simp: T retry_inv_def)
  show "0 < rt_max t \<Longrightarrow> c \<in> set cs \<Longrightarrow> entry (Track t p k cs) k c \<noteq> None"
    using m'(3) by (auto simp: T ek)
  show "entry t k' c' \<noteq> None \<Longrightarrow> entry (Track t p k cs) k' c' = entry t k' c'"
    using m'(4) eo by (cases "k' = k") (auto simp: T ek e domIff)
qed

lemma retry_inv_Track [inv_intros]:
  assumes inv: "retry_inv t" shows "retry_inv (Track t p k cs)"
proof (cases "rt_max t \<le> 0 \<or> cs = []")
  case True then show ?thesis using inv by (auto simp: Track_def)
next
  case False
  let ?m = "case map_of (rt_byKey t) k of None \<Rightarrow> [] | Some states \<Rightarrow> states"
  have T: "Track t p k cs = track_loop t p k cs ?m" using False by (simp add: Track_def)
  obtain ls where ls: "rt_loops (Track t p k cs) = rt_loops t @ ls" "\<forall>l\<in>set ls. \<exists>c. l = spawn p k c"
    using track_loop_loops T by metis
  have fr: "rt_max (Track t p k cs) = rt_max t" "rt_dead (Track t p k cs) = rt_dead t"
    "attempts_of (Track t p k cs) = attempts_of t"
    by (simp_all add: T attempts_of_def fun_eq_iff)
  have "calls_ok (Track t p k cs) j" if j: "j < length (rt_loops (Track t p k cs))" for j
  proof (cases "j < length (rt_loops t)")
    case True then show ?thesis
      using inv by - (rule calls_ok_mono [of t j], auto simp: ls(1) nth_append retry_inv_def fr)
  next
    case new: False
    then have "rt_loops (Track t p k cs) ! j \<in> set ls" using j by (simp add: ls(1) nth_append)
    then obtain c where "rt_loops (Track t p k cs) ! j = spawn p k c" using ls(2) by blast
    moreover have "attempts_of (Track t p k cs) j = []"
      using attempts_of_fresh [OF inv, of j] new by (simp add: fr)
    ultimately show ?thesis using False by (intro calls_ok_spawn) (simp_all add: fr)
  qed
  then show ?thesis
    using Track_entries(1,2) [OF inv, of p k cs] inv unfolding retry_inv_def
    by (simp add: ls(1)) (simp add: T trans_less_add1)
qed

text \<open>A step of goroutine \<open>i\<close> changes its own entry of \<open>rt_loops\<close> only; the entry's key,
  connection and context stay.\<close>

lemma loop_step_frame:
  assumes "loop_step i t t'"
  shows "i < length (rt_loops t)" "rt_max t' = rt_max t" "rt_dead t' = rt_dead t"
    "length (rt_loops t') = length (rt_loops t)" "j \<noteq> i \<Longrightarrow> rt_loops t' ! j = rt_loops t ! j"
    "lp_key (rt_loops t' ! i) = lp_key (rt_loops t ! i)" "lp_conn (rt_loops t' ! i) = lp_conn (rt_loops t ! i)"
    "lp_cancelled (rt_loops t' ! i) = lp_cancelled (rt_loops t ! i)" "ctx_done t' i = ctx_done t i"
    "j \<noteq> i \<Longrightarrow> attempts_of t' j = attempts_of t j"
    "\<forall>c\<in>set (rt_calls t'). fst c \<in> insert i (fst ` set (rt_calls t))"
  using assms
  by (cases rule: loop_step.cases;
      simp add: at_pc_def timer_fire_def select_done_def select_timer_def callback_return_def
        evict_def Let_def ctx_done_def attempts_of_def)+

lemma loop_step_entry:
  assumes "loop_step i t t'"
  obtains "rt_byKey t' = rt_byKey t"
  | "rt_byKey t' = rt_byKey (drop_entry t (lp_key (rt_loops t ! i)) (lp_conn (rt_loops t ! i)))"
  using assms
  by (cases rule: loop_step.cases)
     (simp_all add: timer_fire_def select_done_def select_timer_def callback_return_def evict_def Let_def)

lemma loop_step_calls:
  assumes "loop_step i t t'" "calls_ok t i"
  shows "calls_ok t' i"
  using assms
proof (cases rule: loop_step.cases)
  case fire
  then show ?thesis using assms(2)
    by (auto simp: calls_ok_def at_pc_def timer_fire_def attempts_of_def Let_def)
next
  case sdone
  then show ?thesis using assms(2)
    by (auto simp: calls_ok_def at_pc_def select_done_def attempts_of_def ctx_done_def Let_def)
next
  case stimer
  then show ?thesis using assms(2) upto_rec2 [of 1 "lp_attempt (rt_loops t ! i)"]
    by (simp add: calls_ok_def at_pc_def select_timer_def attempts_of_def Let_def)
next
  case ret
  then show ?thesis using assms(2)
    by (auto simp: calls_ok_def at_pc_def callback_return_def attempts_of_def Let_def)
next
  case evict
  then show ?thesis using assms(2)
    by (simp add: calls_ok_def at_pc_def evict_def attempts_of_def Let_def)
qed

lemma entries_ok_shrink:
  assumes "entries_ok t" "\<And>k c i. entry t' k c = Some i \<Longrightarrow> entry t k c = Some i"
    "length (rt_loops t') = length (rt_loops t)"
    "\<And>j. j < length (rt_loops t) \<Longrightarrow> lp_key (rt_loops t' ! j) = lp_key (rt_loops t ! j) \<and>
       lp_conn (rt_loops t' ! j) = lp_conn (rt_loops t ! j) \<and> lp_cancelled (rt_loops t' ! j) = lp_cancelled (rt_loops t ! j)"
  shows "entries_ok t'"
  using assms unfolding entries_ok_def by metis

lemma retry_inv_loop:
  assumes st: "loop_step i t t'" and inv: "retry_inv t"
  shows "retry_inv t'"
proof -
  note fr = loop_step_frame [OF st]
  have "calls_ok t' j" if "j < length (rt_loops t)" for j
  proof (cases "j = i")
    case True
    then show ?thesis using loop_step_calls [OF st] inv that by (simp add: retry_inv_def)
  next
    case False
    then show ?thesis using inv that fr(2,3,5,10)
      by - (rule calls_ok_mono [of t j], auto simp: retry_inv_def)
  qed
  moreover have "maps_ok t' \<and> (\<forall>k c i. entry t' k c = Some i \<longrightarrow> entry t k c = Some i)"
  proof (rule loop_step_entry [OF st])
    assume "rt_byKey t' = rt_byKey t"
    with inv show ?thesis by (simp add: maps_ok_def entry_def retry_inv_def)
  next
    let ?d = "drop_entry t (lp_key (rt_loops t ! i)) (lp_conn (rt_loops t ! i))"
    assume b: "rt_byKey t' = rt_byKey ?d"
    then have "entry t' = entry ?d" "maps_ok t' = maps_ok ?d" by (simp_all add: entry_def fun_eq_iff maps_ok_def)
    with inv show ?thesis by (simp add: retry_inv_def inv_intros entry_drop)
  qed
  moreover have "entries_ok t'"
  proof (rule entries_ok_shrink [of t])
    show "entries_ok t" using inv by (simp add: retry_inv_def)
    show "entry t k c = Some j" if "entry t' k c = Some j" for k c j using calculation that by blast
    show "length (rt_loops t') = length (rt_loops t)" by (rule fr(4))
    show "lp_key (rt_loops t' ! j) = lp_key (rt_loops t ! j) \<and>
       lp_conn (rt_loops t' ! j) = lp_conn (rt_loops t ! j) \<and> lp_cancelled (rt_loops t' ! j) = lp_cancelled (rt_loops t ! j)" for j
      using fr(5) [of j] fr(6-8) by (cases "j = i") simp_all
  qed
  moreover have "fst c < length (rt_loops t')" if "c \<in> set (rt_calls t')" for c
    using inv fr(1,4,11) that unfolding retry_inv_def by fastforce
  ultimately show ?thesis
    using fr(4) unfolding retry_inv_def by auto
qed

lemma retry_inv_step: "retry_step t t' \<Longrightarrow> retry_inv t \<Longrightarrow> retry_inv t'"
proof (erule retry_stepE)
  fix p
  assume inv: "retry_inv t" and t': "t' = t\<lparr>rt_dead := insert p (rt_dead t)\<rparr>"
  have "calls_ok t' j" if "j < length (rt_loops t)" for j
    using inv that t' by - (rule calls_ok_mono [of t j], auto simp: retry_inv_def attempts_of_def)
  then show "retry_inv t'" using inv t' by (simp add: retry_inv_def maps_ok_def entries_ok_def entry_def)
qed (auto intro: inv_intros retry_inv_loop)

lemma retry_reach_inv: "retry_reach m d t \<Longrightarrow> retry_inv t \<and> rt_max t = m"
proof (induction rule: retry_reach.induct)
  case init
  show ?case by (simp add: inv_intros) (simp add: NewRetryTracker_def)
next
  case (step t t')
  have "rt_max t' = rt_max t" using step.hyps(2)
  proof (cases rule: retry_step.cases)
    case (ack key c)
    then show ?thesis by (cases rule: Ack_cases [of t key c]) simp_all
  qed (simp_all add: Track_def loop_step_frame)
  with step retry_inv_step show ?case by blast
qed

subsection \<open>Termination\<close>

definition loop_work :: "int \<Rightarrow> retryLoop \<Rightarrow> nat" where
  "loop_work m l =
     (case lp_pc l of
        Selecting \<Rightarrow> nat (3 * (m - lp_attempt l)) + 4 + (if lp_fired l then 0 else 1)
      | Calling \<Rightarrow> nat (3 * (m - lp_attempt l)) + 3
      | Evicting \<Rightarrow> 1
      | Returned \<Rightarrow> 0)"

definition retry_work :: "RetryTracker \<Rightarrow> nat" where
  "retry_work t = sum_list (map (loop_work (rt_max t)) (rt_loops t))"

lemma loop_work_upd:
  assumes "i < length (rt_loops t)" "loop_work (rt_max t) (f (rt_loops t ! i)) < loop_work (rt_max t) (rt_loops t ! i)"
  shows "retry_work (upd_loop t i f) < retry_work t"
proof -
  let ?w = "loop_work (rt_max t)"
  have "sum_list (map ?w ((rt_loops t)[i := x])) + ?w (rt_loops t ! i) = sum_list (map ?w (rt_loops t)) + ?w x" for x
    using assms(1) elem_le_sum_list [of i "map ?w (rt_loops t)"] by (simp add: map_update sum_list_update)
  from this [of "f (rt_loops t ! i)"] assms(2) show ?thesis
    unfolding retry_work_def upd_loop_def by simp
qed

lemma retry_work_frame [simp]:
  "retry_work (t\<lparr>rt_calls := cs\<rparr>) = retry_work t" "retry_work (drop_entry t k c) = retry_work t"
  by (simp_all add: retry_work_def)

lemma loop_step_work:
  assumes "loop_step i t t'"
  shows "retry_work t' < retry_work t"
  using assms
proof (cases rule: loop_step.cases)
  case evict
  let ?l = "rt_loops t ! i"
  have "retry_work (upd_loop (drop_entry t (lp_key ?l) (lp_conn ?l)) i (\<lambda>l. l\<lparr>lp_pc := Returned\<rparr>))
      < retry_work (drop_entry t (lp_key ?l) (lp_conn ?l))"
    using evict by (intro loop_work_upd) (simp_all add: at_pc_def loop_work_def)
  with evict show ?thesis by (simp add: evict_def Let_def)
qed (auto simp: timer_fire_def select_done_def select_timer_def callback_return_def at_pc_def loop_work_def
      intro!: loop_work_upd)

subsection \<open>Properties\<close>

text \<open>C27. Every goroutine invokes its callback with the attempts 1, 2, ... in order, never more than
  \<open>max\<close> times, and it returns only after the last attempt or after its context (its own or
  the parent's) was cancelled: delivery is retried until the acknowledgement or the budget.\<close>

theorem retry_budget:
  assumes "retry_reach m d t" "i < length (rt_loops t)"
  shows "(\<exists>n\<le>m. attempts_of t i = [1..n]) \<and>
    (lp_pc (rt_loops t ! i) = Returned \<longrightarrow> attempts_of t i = [1..m] \<or> ctx_done t i)"
proof -
  have "calls_ok t i" "rt_max t = m"
    using retry_reach_inv [OF assms(1)] assms(2) by (auto simp: retry_inv_def)
  then show ?thesis
    by (auto simp: calls_ok_def Let_def split: loop_pc.splits intro: exI [of _ "lp_attempt (rt_loops t ! i) - 1"])
qed

text \<open>One connection, one attempt: the run used to exercise the properties.\<close>

definition one_shot :: RetryTracker where
  "one_shot = Track (NewRetryTracker 1 5) 0 ''evt'' [''c1'']"

definition one_shot_calling :: RetryTracker where
  "one_shot_calling = select_timer (timer_fire one_shot 0) 0"

lemmas one_shot_eval = one_shot_def one_shot_calling_def Track_def NewRetryTracker_def spawn_def
  timer_fire_def select_timer_def callback_return_def evict_def upd_loop_def drop_entry_def Let_def
  at_pc_def

lemma one_shot_reach: "retry_reach 1 5 one_shot" "retry_reach 1 5 one_shot_calling"
proof -
  show r: "retry_reach 1 5 one_shot"
    unfolding one_shot_def by (rule retry_reach.step [OF retry_reach.init retry_step.track])
  have "loop_step 0 one_shot (timer_fire one_shot 0)"
    by (rule loop_step.fire) (simp_all add: one_shot_eval)
  then have r1: "retry_reach 1 5 (timer_fire one_shot 0)" by (rule retry_reach.step [OF r retry_step.loop])
  have "loop_step 0 (timer_fire one_shot 0) one_shot_calling"
    unfolding one_shot_calling_def by (rule loop_step.stimer) (simp_all add: one_shot_eval)
  then show "retry_reach 1 5 one_shot_calling" by (rule retry_reach.step [OF r1 retry_step.loop])
qed

theorem retry_budget_witness:
  "attempts_of one_shot_calling 0 = [1] \<and> (\<exists>n\<le>1. attempts_of one_shot_calling 0 = [1..n])"
  using retry_budget [OF one_shot_reach(2), of 0] by (simp add: one_shot_eval attempts_of_def)

text \<open>C28. Without new calls of \<open>Track\<close> the goroutines finish: no infinite sequence of their
  steps exists from any tracker state, however they are interleaved.\<close>

theorem retry_terminates: "wf {(t', t). \<exists>i. loop_step i t t'}"
proof (rule wf_subset [OF wf_measure [of retry_work]])
  show "{(t', t). \<exists>i. loop_step i t t'} \<subseteq> measure retry_work"
    using loop_step_work by auto
qed

text \<open>\<open>Ack\<close> on a reachable tracker stops exactly the goroutine of that key and connection:
  the entry is gone, its goroutine is cancelled, and every other entry and goroutine is as before.
  For an unknown pair it does nothing.\<close>

theorem ack_cancels_only_its_retry:
  assumes "retry_reach m d t"
  shows "(case entry t k c of
      Some i \<Rightarrow> entry (Ack t k c) k c = None \<and> lp_cancelled (rt_loops (Ack t k c) ! i) \<and>
        (\<forall>j. j \<noteq> i \<longrightarrow> rt_loops (Ack t k c) ! j = rt_loops t ! j)
    | None \<Rightarrow> Ack t k c = t) \<and>
    (\<forall>k' c'. (k', c') \<noteq> (k, c) \<longrightarrow> entry (Ack t k c) k' c' = entry t k' c')"
proof (rule Ack_cases [of t k c])
  fix i
  assume e: "entry t k c = Some i" and a: "Ack t k c = drop_entry (cancel t i) k c"
  have "i < length (rt_loops t)"
    using retry_reach_inv [OF assms] e by (auto simp: retry_inv_def entries_ok_def)
  then have "lp_cancelled (rt_loops (Ack t k c) ! i) \<and>
      (\<forall>j. j \<noteq> i \<longrightarrow> rt_loops (Ack t k c) ! j = rt_loops t ! j)"
    by (simp add: a cancel_def)
  with e show ?thesis by (simp add: entry_Ack)
qed auto

theorem ack_cancels_only_its_retry_witness:
  "entry one_shot ''evt'' ''c1'' = Some 0 \<and> lp_cancelled (rt_loops (Ack one_shot ''evt'' ''c1'') ! 0)"
proof -
  have e: "entry one_shot ''evt'' ''c1'' = Some 0" by (simp add: one_shot_eval entry_def)
  then show ?thesis using ack_cancels_only_its_retry [OF one_shot_reach(1), of "''evt''" "''c1''"] by simp
qed

text \<open>\<open>CancelAll\<close> on a reachable tracker cancels every tracked goroutine, forgets every
  entry, and a second call changes nothing.\<close>

theorem cancel_all_stops_tracked:
  assumes "retry_reach m d t"
  shows "(\<forall>k c i. entry t k c = Some i \<longrightarrow> lp_cancelled (rt_loops (CancelAll t) ! i)) \<and>
    rt_byKey (CancelAll t) = [] \<and> CancelAll (CancelAll t) = CancelAll t"
proof -
  have inv: "maps_ok t" "entries_ok t" using retry_reach_inv [OF assms] by (auto simp: retry_inv_def)
  have "lp_cancelled (rt_loops (CancelAll t) ! i)" if "entry t k c = Some i" for k c i
  proof -
    have "i \<in> tracked t" "i < length (rt_loops t)"
      using inv(2) that by (auto simp: tracked_def entries_ok_def)
    with CancelAll_nth [OF inv] show ?thesis by simp
  qed
  moreover have "CancelAll (CancelAll t) = CancelAll t" by (simp add: CancelAll_def [of "CancelAll t"])
  ultimately show ?thesis by simp
qed

theorem cancel_all_stops_tracked_witness: "lp_cancelled (rt_loops (CancelAll one_shot) ! 0)"
proof -
  have "entry one_shot ''evt'' ''c1'' = Some 0" by (simp add: one_shot_eval entry_def)
  with cancel_all_stops_tracked [OF one_shot_reach(1)] show ?thesis by blast
qed

definition orphaned :: RetryTracker where
  "orphaned = evict (callback_return (Track (Ack one_shot_calling ''evt'' ''c1'') 0 ''evt'' [''c1'']) 0) 0"

text \<open>The eviction at the end of a goroutine removes whatever entry is stored under its key
  and connection. When a retry is acknowledged during its last callback and the same pair is
  tracked again, the old goroutine evicts the new entry: the new goroutine goes on retrying,
  uncancelled, and neither \<open>Ack\<close> nor \<open>CancelAll\<close> reaches it any more.\<close>

theorem retry_orphan_reachable:
  "retry_reach 1 5 orphaned \<and> at_pc orphaned 1 Selecting \<and> \<not> ctx_done orphaned 1 \<and>
   Ack orphaned ''evt'' ''c1'' = orphaned \<and> CancelAll orphaned = orphaned"
proof -
  let ?t1 = "Ack one_shot_calling ''evt'' ''c1''"
  let ?t2 = "Track ?t1 0 ''evt'' [''c1'']"
  have "retry_reach 1 5 ?t1" by (rule retry_reach.step [OF one_shot_reach(2) retry_step.ack])
  then have r2: "retry_reach 1 5 ?t2" by (rule retry_reach.step [OF _ retry_step.track])
  have "loop_step 0 ?t2 (callback_return ?t2 0)"
    by (rule loop_step.ret) (simp add: one_shot_eval Ack_def cancel_def)
  then have r3: "retry_reach 1 5 (callback_return ?t2 0)" by (rule retry_reach.step [OF r2 retry_step.loop])
  have "loop_step 0 (callback_return ?t2 0) orphaned"
    unfolding orphaned_def by (rule loop_step.evict) (simp add: one_shot_eval Ack_def cancel_def)
  then have "retry_reach 1 5 orphaned" by (rule retry_reach.step [OF r3 retry_step.loop])
  moreover have "at_pc orphaned 1 Selecting \<and> \<not> ctx_done orphaned 1"
    by (simp add: orphaned_def one_shot_eval Ack_def cancel_def ctx_done_def)
  moreover have "Ack orphaned ''evt'' ''c1'' = orphaned" "CancelAll orphaned = orphaned"
    by (simp_all add: orphaned_def one_shot_eval Ack_def cancel_def CancelAll_def)
  ultimately show ?thesis by blast
qed

end
