(* ===== verification/Auth.thy ===== *)
theory Auth
  imports GoStrings
begin

text \<open>
  \<open>internal/server/auth.go\<close> and \<open>internal/server/middleware.go\<close>: token validation and the
  interceptors around every call. The JWT library is the parameter \<open>parse\<close>: it takes the
  parser options the code builds, the token and the key, and returns an error or the claims. A
  handler maps a context, a request and a state to a new state and an outcome; a panic is an
  outcome of its own, so that the recovery interceptor can turn it into an error. \<open>uni\<close> stands
  for Unicode's case tables (see \<open>ToLower\<close>).
\<close>

subsection \<open>Claims and contexts\<close>

record Claims =
  cl_UserID :: string
  cl_TenantID :: string
  cl_Email :: string
  cl_ExpiresAt :: int

definition no_claims :: Claims where
  "no_claims = \<lparr>cl_UserID = '''', cl_TenantID = '''', cl_Email = '''', cl_ExpiresAt = 0\<rparr>"

text \<open>The only value the server stores on a request context is the claims.\<close>

type_synonym Context = "Claims option"

definition ClaimsFromContext :: "Context \<Rightarrow> Claims option" where
  "ClaimsFromContext ctx = ctx"

definition withClaims :: "Context \<Rightarrow> Claims \<Rightarrow> Context" where
  "withClaims ctx c = Some c"

type_synonym AuthValidator = "string \<Rightarrow> goerror + Claims"

definition unauthenticated :: "goerror \<Rightarrow> goerror" where
  "unauthenticated err = Connect CodeUnauthenticated (Errorf ''notify: unauthenticated: %w'' [] (Some err))"

subsection \<open>Bearer tokens\<close>

definition bearer_prefix :: string where "bearer_prefix = ''bearer ''"

definition stripBearer :: "(string \<Rightarrow> string) \<Rightarrow> string \<Rightarrow> goerror + string" where
  "stripBearer uni authz =
     (if authz = '''' then Inl (New ''missing Authorization header'')
      else if \<not> prefix bearer_prefix (ToLower uni authz)
        then Inl (New ''Authorization header must use Bearer scheme'')
      else let tok = TrimSpace (drop (length bearer_prefix) authz)
           in if tok = '''' then Inl (New ''Authorization header has empty token'') else Inr tok)"

definition DevValidator_Validate :: "(string \<Rightarrow> string) \<Rightarrow> AuthValidator" where
  "DevValidator_Validate uni authz =
     (case stripBearer uni authz of
        Inl err \<Rightarrow> Inl (unauthenticated err)
      | Inr tok \<Rightarrow>
          let parts = Split tok (CHR '':'')
          in if length parts < 3 \<or> length parts > 4 \<or> parts ! 0 \<noteq> ''dev''
               then Inl (unauthenticated (New ''dev token must be dev:<userid>:<tenant>[:<email>]''))
             else if parts ! 1 = '''' \<or> parts ! 2 = ''''
               then Inl (unauthenticated (New ''dev token missing userid or tenant''))
             else Inr (no_claims\<lparr>cl_UserID := parts ! 1, cl_TenantID := parts ! 2,
                         cl_Email := if length parts = 4 then parts ! 3 else ''''\<rparr>))"

subsection \<open>JWT\<close>

text \<open>A claim value: a JSON string, a JSON number (as the library decodes it, carried by its
  integer part), an \<open>int64\<close>, or any other JSON value.\<close>

datatype jwt_value = JString string | JFloat64 int | JInt64 int | JOther

record JWTParser =
  jp_ValidMethods :: "string list"
  jp_Leeway :: int
  jp_Now :: int
  jp_Issuer :: "string option"
  jp_Audience :: "string option"

type_synonym jwt_parse = "JWTParser \<Rightarrow> string \<Rightarrow> string \<Rightarrow> goerror + (string, jwt_value) gomap"

record JWTValidator =
  jv_secret :: string
  jv_issuer :: string
  jv_audience :: string
  jv_leeway :: int

definition NewJWTValidator :: "string \<Rightarrow> string \<Rightarrow> string \<Rightarrow> int \<Rightarrow> goerror + JWTValidator" where
  "NewJWTValidator secret issuer audience leeway =
     (if secret = '''' then Inl (New ''auth: jwt secret is empty'')
      else if leeway < 0 then Inl (New ''auth: jwt leeway must be >= 0'')
      else Inr \<lparr>jv_secret = secret, jv_issuer = issuer, jv_audience = audience, jv_leeway = leeway\<rparr>)"

text \<open>The parser is rebuilt when an issuer is set, and again when an audience is set.\<close>

definition jwt_parser :: "JWTValidator \<Rightarrow> int \<Rightarrow> JWTParser" where
  "jwt_parser v now =
     (let base = \<lparr>jp_ValidMethods = [''HS256''], jp_Leeway = jv_leeway v, jp_Now = now,
                  jp_Issuer = None, jp_Audience = None\<rparr>;
          parser = base;
          parser = (if jv_issuer v \<noteq> '''' then base\<lparr>jp_Issuer := Some (jv_issuer v)\<rparr> else parser);
          parser = (if jv_audience v \<noteq> ''''
                    then base\<lparr>jp_Issuer := Some (jv_issuer v), jp_Audience := Some (jv_audience v)\<rparr>
                    else parser)
      in parser)"

definition string_claim :: "(string, jwt_value) gomap \<Rightarrow> string \<Rightarrow> string option" where
  "string_claim claims k = (case map_of claims k of Some (JString s) \<Rightarrow> Some s | _ \<Rightarrow> None)"

definition claims_of_jwt :: "(string, jwt_value) gomap \<Rightarrow> Claims" where
  "claims_of_jwt claims =
     \<lparr>cl_UserID = (case string_claim claims ''sub'' of Some s \<Rightarrow> s | None \<Rightarrow> ''''),
      cl_TenantID = (case string_claim claims ''tenant'' of
                       Some t \<Rightarrow> t
                     | None \<Rightarrow> (case string_claim claims ''tenant_id'' of Some t \<Rightarrow> t | None \<Rightarrow> '''')),
      cl_Email = (case string_claim claims ''email'' of Some e \<Rightarrow> e | None \<Rightarrow> ''''),
      cl_ExpiresAt = (case map_of claims ''exp'' of
                        Some (JFloat64 x) \<Rightarrow> x | Some (JInt64 x) \<Rightarrow> x | _ \<Rightarrow> 0)\<rparr>"

definition JWTValidator_Validate ::
  "(string \<Rightarrow> string) \<Rightarrow> jwt_parse \<Rightarrow> int \<Rightarrow> JWTValidator \<Rightarrow> AuthValidator" where
  "JWTValidator_Validate uni parse now v authz =
     (case stripBearer uni authz of
        Inl err \<Rightarrow> Inl (unauthenticated err)
      | Inr tok \<Rightarrow>
          (case parse (jwt_parser v now) tok (jv_secret v) of
             Inl err \<Rightarrow> Inl (unauthenticated err)
           | Inr claims \<Rightarrow>
               let c = claims_of_jwt claims
               in if cl_UserID c = '''' then Inl (unauthenticated (New ''jwt missing sub claim''))
                  else if cl_TenantID c = '''' then Inl (unauthenticated (New ''jwt missing tenant claim''))
                  else Inr c))"

subsection \<open>Requests and outcomes\<close>

record 'm Request =
  rq_Header :: "string \<Rightarrow> string"
  rq_Procedure :: string
  rq_Msg :: "'m option"

datatype 'a rpc = Ok 'a | Err goerror | Panic string

type_synonym ('m, 'a, 's) UnaryFunc = "Context \<Rightarrow> 'm Request \<Rightarrow> 's \<Rightarrow> 's \<times> 'a rpc"

definition NewClientAuthInterceptor :: "AuthValidator \<Rightarrow> ('m, 'a, 's) UnaryFunc \<Rightarrow> ('m, 'a, 's) UnaryFunc" where
  "NewClientAuthInterceptor v next = (\<lambda>ctx req s.
     case v (rq_Header req ''Authorization'') of
       Inl err \<Rightarrow> (s, Err err)
     | Inr claims \<Rightarrow> next (withClaims ctx claims) req s)"

definition authenticateStreamReq :: "Context \<Rightarrow> AuthValidator \<Rightarrow> string \<Rightarrow> Context \<times> goerror option" where
  "authenticateStreamReq ctx v header =
     (case v header of
        Inl err \<Rightarrow> (ctx, Some err)
      | Inr claims \<Rightarrow> (withClaims ctx claims, None))"

text \<open>\<open>subtle.ConstantTimeCompare\<close>: a running disjunction of the byte differences.\<close>

fun xor_acc :: "string \<Rightarrow> string \<Rightarrow> bool \<Rightarrow> bool" where
  "xor_acc (x # xs) (y # ys) v = xor_acc xs ys (v \<or> x \<noteq> y)"
| "xor_acc xs ys v = v"

definition ConstantTimeCompare :: "string \<Rightarrow> string \<Rightarrow> int" where
  "ConstantTimeCompare x y =
     (if length x \<noteq> length y then 0 else if xor_acc x y False then 0 else 1)"

definition NewInternalAuthInterceptor ::
  "string \<Rightarrow> bool \<Rightarrow> ('m, 'a, 's) UnaryFunc \<Rightarrow> ('m, 'a, 's) UnaryFunc" where
  "NewInternalAuthInterceptor expected devMode next = (\<lambda>ctx req s.
     if expected = '''' then
       if devMode then next ctx req s
       else (s, Err (unauthenticated (New ''internal token not configured'')))
     else
       let got = rq_Header req ''X-Notify-Internal-Token''
       in if got = '''' then (s, Err (unauthenticated (New ''missing X-Notify-Internal-Token header'')))
          else if ConstantTimeCompare got expected \<noteq> 1
            then (s, Err (unauthenticated (New ''internal token mismatch'')))
          else next ctx req s)"

subsection \<open>Logging and recovery\<close>

text \<open>Loggers of \<open>log/slog\<close>: the process-wide default, the JSON logger the server builds at a
  level, or one handed in by the caller. A line carries the logger it was handed to.\<close>

datatype Logger = slog_Default | JSONLogger slogLevel | GivenLogger nat

record LogLine =
  lg_logger :: Logger
  lg_level :: slogLevel
  lg_event :: string
  lg_procedure :: string
  lg_latency_ms :: int
  lg_user_id :: string
  lg_code :: "ConnectCode option"
  lg_error :: "goerror option"
  lg_panic :: "string option"
  lg_stream :: bool

text \<open>The state under the interceptors: the handlers' state, the log and the clock readings still
  to come (\<open>time.Now\<close>, in nanoseconds).\<close>

record 's Rpc =
  rpc_state :: 's
  rpc_log :: "LogLine list"
  rpc_clock :: "nat \<Rightarrow> int"
  rpc_ticks :: nat

text \<open>The clock of the logging interceptor: \<open>time.Now\<close>, or a function given by the caller.\<close>

datatype Clock = time_Now | ClockFunc "nat \<Rightarrow> int"

record loggingInterceptor =
  li_logger :: Logger
  li_clock :: Clock

definition newLoggingInterceptor :: "Logger option \<Rightarrow> Clock option \<Rightarrow> loggingInterceptor" where
  "newLoggingInterceptor logger clock =
     \<lparr>li_logger = (case logger of None \<Rightarrow> slog_Default | Some l \<Rightarrow> l),
      li_clock = (case clock of None \<Rightarrow> time_Now | Some c \<Rightarrow> c)\<rparr>"

definition clock :: "loggingInterceptor \<Rightarrow> 's Rpc \<Rightarrow> int \<times> 's Rpc" where
  "clock l r =
     ((case li_clock l of time_Now \<Rightarrow> rpc_clock r | ClockFunc f \<Rightarrow> f) (rpc_ticks r),
      r\<lparr>rpc_ticks := Suc (rpc_ticks r)\<rparr>)"

text \<open>\<open>time.Duration.Milliseconds\<close>: Go's integer division truncates towards zero.\<close>

definition Milliseconds :: "int \<Rightarrow> int" where
  "Milliseconds d = (if d < 0 then - (- d div 1000000) else d div 1000000)"

definition log_line :: "LogLine \<Rightarrow> 's Rpc \<Rightarrow> 's Rpc" where
  "log_line l r = r\<lparr>rpc_log := rpc_log r @ [l]\<rparr>"

text \<open>\<open>connect.CodeOf\<close> is \<open>CodeUnknown\<close> for an error without a code.\<close>

definition rpc_line :: "Logger \<Rightarrow> bool \<Rightarrow> Context \<Rightarrow> string \<Rightarrow> int \<Rightarrow> goerror option \<Rightarrow> LogLine" where
  "rpc_line logger stream ctx procedure latency err =
     \<lparr>lg_logger = logger,
      lg_level = (case err of None \<Rightarrow> LevelInfo | Some _ \<Rightarrow> LevelWarn), lg_event = ''rpc'',
      lg_procedure = procedure, lg_latency_ms = Milliseconds latency,
      lg_user_id = (case ClaimsFromContext ctx of Some c \<Rightarrow> cl_UserID c | None \<Rightarrow> ''''),
      lg_code = (case err of
                   None \<Rightarrow> None
                 | Some e \<Rightarrow> Some (case CodeOf e of None \<Rightarrow> CodeUnknown | Some c \<Rightarrow> c)),
      lg_error = err, lg_panic = None, lg_stream = stream\<rparr>"

definition logging_WrapUnary ::
  "loggingInterceptor \<Rightarrow> ('m, 'a, 's Rpc) UnaryFunc \<Rightarrow> ('m, 'a, 's Rpc) UnaryFunc" where
  "logging_WrapUnary l next = (\<lambda>ctx req r.
     let (start, r) = clock l r;
         (r, res) = next ctx req r
     in case res of
          Panic p \<Rightarrow> (r, Panic p)
        | Ok a \<Rightarrow>
            let (stop, r) = clock l r
            in (log_line (rpc_line (li_logger l) False ctx (rq_Procedure req) (stop - start) None) r, Ok a)
        | Err e \<Rightarrow>
            let (stop, r) = clock l r
            in (log_line (rpc_line (li_logger l) False ctx (rq_Procedure req) (stop - start) (Some e)) r, Err e))"

text \<open>The line of a recovered panic, less its stack trace.\<close>

definition panic_line :: "Logger \<Rightarrow> string \<Rightarrow> string \<Rightarrow> LogLine" where
  "panic_line logger procedure p =
     \<lparr>lg_logger = logger, lg_level = LevelError, lg_event = ''rpc_panic'', lg_procedure = procedure,
      lg_latency_ms = 0, lg_user_id = '''', lg_code = None, lg_error = None, lg_panic = Some p,
      lg_stream = False\<rparr>"

record recoveryInterceptor =
  ri_logger :: Logger

definition newRecoveryInterceptor :: "Logger option \<Rightarrow> recoveryInterceptor" where
  "newRecoveryInterceptor logger =
     \<lparr>ri_logger = (case logger of None \<Rightarrow> slog_Default | Some l \<Rightarrow> l)\<rparr>"

definition recovery_WrapUnary ::
  "recoveryInterceptor \<Rightarrow> ('m, 'a, 's Rpc) UnaryFunc \<Rightarrow> ('m, 'a, 's Rpc) UnaryFunc" where
  "recovery_WrapUnary rc next = (\<lambda>ctx req r.
     case next ctx req r of
       (r, Panic p) \<Rightarrow>
         (log_line (panic_line (ri_logger rc) (rq_Procedure req) p) r,
          Err (Connect CodeInternal (New ''internal server error'')))
     | (r, res) \<Rightarrow> (r, res))"

text \<open>A streaming handler has no response value; its request message arrives with the connection.\<close>

type_synonym ('m, 's) StreamingFunc = "('m, unit, 's) UnaryFunc"

definition logging_WrapStreamingHandler ::
  "loggingInterceptor \<Rightarrow> ('m, 's Rpc) StreamingFunc \<Rightarrow> ('m, 's Rpc) StreamingFunc" where
  "logging_WrapStreamingHandler l next = (\<lambda>ctx req r.
     let (start, r) = clock l r;
         (r, res) = next ctx req r
     in case res of
          Panic p \<Rightarrow> (r, Panic p)
        | Ok _ \<Rightarrow>
            let (stop, r) = clock l r
            in (log_line (rpc_line (li_logger l) True ctx (rq_Procedure req) (stop - start) None) r, Ok ())
        | Err e \<Rightarrow>
            let (stop, r) = clock l r
            in (log_line (rpc_line (li_logger l) True ctx (rq_Procedure req) (stop - start) (Some e)) r, Err e))"

definition recovery_WrapStreamingHandler ::
  "recoveryInterceptor \<Rightarrow> ('m, 's Rpc) StreamingFunc \<Rightarrow> ('m, 's Rpc) StreamingFunc" where
  "recovery_WrapStreamingHandler rc next = (\<lambda>ctx req r.
     case next ctx req r of
       (r, Panic p) \<Rightarrow>
         (log_line (panic_line (ri_logger rc) (rq_Procedure req) p) r,
          Err (Connect CodeInternal (New ''internal server error'')))
     | (r, res) \<Rightarrow> (r, res))"

text \<open>The client side of a stream is passed through.\<close>

definition logging_WrapStreamingClient :: "loggingInterceptor \<Rightarrow> 'f \<Rightarrow> 'f" where
  "logging_WrapStreamingClient l next = next"

definition recovery_WrapStreamingClient :: "recoveryInterceptor \<Rightarrow> 'f \<Rightarrow> 'f" where
  "recovery_WrapStreamingClient rc next = next"

subsection \<open>Chains of interceptors\<close>

text \<open>The implementations of \<open>connect.Interceptor\<close> in the program. The two authentication
  interceptors are \<open>connect.UnaryInterceptorFunc\<close>s, which leave streams alone.\<close>

datatype Interceptor =
    Recovery recoveryInterceptor
  | Logging loggingInterceptor
  | ClientAuth AuthValidator
  | InternalAuth string bool

definition WrapUnary :: "Interceptor \<Rightarrow> ('m, 'a, 's Rpc) UnaryFunc \<Rightarrow> ('m, 'a, 's Rpc) UnaryFunc" where
  "WrapUnary i next =
     (case i of
        Recovery rc \<Rightarrow> recovery_WrapUnary rc next
      | Logging l \<Rightarrow> logging_WrapUnary l next
      | ClientAuth v \<Rightarrow> NewClientAuthInterceptor v next
      | InternalAuth expected devMode \<Rightarrow> NewInternalAuthInterceptor expected devMode next)"

definition WrapStreamingHandler :: "Interceptor \<Rightarrow> ('m, 's Rpc) StreamingFunc \<Rightarrow> ('m, 's Rpc) StreamingFunc" where
  "WrapStreamingHandler i next =
     (case i of
        Recovery rc \<Rightarrow> recovery_WrapStreamingHandler rc next
      | Logging l \<Rightarrow> logging_WrapStreamingHandler l next
      | ClientAuth v \<Rightarrow> next
      | InternalAuth expected devMode \<Rightarrow> next)"

text \<open>\<open>connect.WithInterceptors\<close>: the first interceptor is the outermost.\<close>

definition intercept_unary :: "Interceptor list \<Rightarrow> ('m, 'a, 's Rpc) UnaryFunc \<Rightarrow> ('m, 'a, 's Rpc) UnaryFunc" where
  "intercept_unary is h = foldr WrapUnary is h"

definition intercept_stream :: "Interceptor list \<Rightarrow> ('m, 's Rpc) StreamingFunc \<Rightarrow> ('m, 's Rpc) StreamingFunc" where
  "intercept_stream is h = foldr WrapStreamingHandler is h"

text \<open>The interceptors of \<open>buildClientServer\<close> and \<open>buildInternalServer\<close> of \<open>server.go\<close>: recovery
  outermost, then logging, then authentication.\<close>

definition client_interceptors :: "Logger \<Rightarrow> AuthValidator \<Rightarrow> Interceptor list" where
  "client_interceptors logger auth =
     [Recovery (newRecoveryInterceptor (Some logger)),
      Logging (newLoggingInterceptor (Some logger) (Some time_Now)),
      ClientAuth auth]"

definition internal_interceptors :: "Logger \<Rightarrow> string \<Rightarrow> bool \<Rightarrow> Interceptor list" where
  "internal_interceptors logger token devMode =
     [Recovery (newRecoveryInterceptor (Some logger)),
      Logging (newLoggingInterceptor (Some logger) (Some time_Now)),
      InternalAuth token devMode]"

subsection \<open>Two contracts for interceptors\<close>

text \<open>A guard decides from the request alone: it either rejects without running the handler, or
  runs it with an adjusted context.\<close>

locale guard =
  fixes wrap :: "('m, 'a, 's) UnaryFunc \<Rightarrow> ('m, 'a, 's) UnaryFunc"
    and decide :: "'m Request \<Rightarrow> goerror + (Context \<Rightarrow> Context)"
  assumes wrap_reject: "decide req = Inl e \<Longrightarrow> wrap next ctx req s = (s, Err e)"
    and wrap_accept: "decide req = Inr f \<Longrightarrow> wrap next ctx req s = next (f ctx) req s"
begin

lemma wrap_cases:
  obtains e where "decide req = Inl e" "wrap next ctx req s = (s, Err e)"
  | f where "decide req = Inr f" "wrap next ctx req s = next (f ctx) req s"
  using wrap_reject wrap_accept by (cases "decide req") blast+

lemma wrap_relation:
  assumes "\<And>f. decide req = Inr f \<Longrightarrow> R s (fst (next (f ctx) req s))" "R s s"
  shows "R s (fst (wrap next ctx req s))"
  using assms by (cases rule: wrap_cases [of req "next" ctx s]) simp_all

end

text \<open>An observer may log and read the clock before and after the handler, and may replace the
  outcome, but does not touch the handler's state or the context.\<close>

locale observer =
  fixes wrap :: "('m, 'a, 's Rpc) UnaryFunc \<Rightarrow> ('m, 'a, 's Rpc) UnaryFunc"
    and post :: "'a rpc \<Rightarrow> 'a rpc"
  assumes observes: "\<exists>r0. rpc_state r0 = rpc_state r \<and>
      rpc_state (fst (wrap next ctx req r)) = rpc_state (fst (next ctx req r0)) \<and>
      snd (wrap next ctx req r) = post (snd (next ctx req r0))"

text \<open>Two observers around each other observe.\<close>

locale observer_pair = outer: observer wrap1 post1 + inner: observer wrap2 post2
  for wrap1 :: "('m, 'a, 's Rpc) UnaryFunc \<Rightarrow> ('m, 'a, 's Rpc) UnaryFunc" and post1
    and wrap2 :: "('m, 'a, 's Rpc) UnaryFunc \<Rightarrow> ('m, 'a, 's Rpc) UnaryFunc" and post2

sublocale observer_pair \<subseteq> both: observer "\<lambda>next. wrap1 (wrap2 next)" "\<lambda>x. post1 (post2 x)"
proof
  fix r "next" ctx req
  obtain r1 where r1: "rpc_state r1 = rpc_state r"
    "rpc_state (fst (wrap1 (wrap2 next) ctx req r)) = rpc_state (fst (wrap2 next ctx req r1))"
    "snd (wrap1 (wrap2 next) ctx req r) = post1 (snd (wrap2 next ctx req r1))"
    using outer.observes by blast
  obtain r0 where "rpc_state r0 = rpc_state r1"
    "rpc_state (fst (wrap2 next ctx req r1)) = rpc_state (fst (next ctx req r0))"
    "snd (wrap2 next ctx req r1) = post2 (snd (next ctx req r0))"
    using inner.observes by blast
  with r1 show "\<exists>r0. rpc_state r0 = rpc_state r \<and>
      rpc_state (fst (wrap1 (wrap2 next) ctx req r)) = rpc_state (fst (next ctx req r0)) \<and>
      snd (wrap1 (wrap2 next) ctx req r) = post1 (post2 (snd (next ctx req r0)))"
    by metis
qed

definition client_decision :: "AuthValidator \<Rightarrow> 'm Request \<Rightarrow> goerror + (Context \<Rightarrow> Context)" where
  "client_decision v req =
     (case v (rq_Header req ''Authorization'') of Inl e \<Rightarrow> Inl e | Inr c \<Rightarrow> Inr (\<lambda>_. Some c))"

interpretation client_guard: guard "NewClientAuthInterceptor v" "client_decision v" for v
  by unfold_locales
     (auto simp: client_decision_def NewClientAuthInterceptor_def withClaims_def split: sum.splits)

definition internal_allowed :: "string \<Rightarrow> bool \<Rightarrow> 'm Request \<Rightarrow> bool" where
  "internal_allowed expected devMode req \<longleftrightarrow>
     (if expected = '''' then devMode else rq_Header req ''X-Notify-Internal-Token'' = expected)"

definition internal_decision :: "string \<Rightarrow> bool \<Rightarrow> 'm Request \<Rightarrow> goerror + (Context \<Rightarrow> Context)" where
  "internal_decision expected devMode req =
     (if internal_allowed expected devMode req then Inr (\<lambda>c. c)
      else Inl (unauthenticated (New
        (if expected = '''' then ''internal token not configured''
         else if rq_Header req ''X-Notify-Internal-Token'' = '''' then ''missing X-Notify-Internal-Token header''
         else ''internal token mismatch''))))"

lemma xor_acc_iff: "length x = length y \<Longrightarrow> xor_acc x y v \<longleftrightarrow> v \<or> x \<noteq> y"
  by (induction x y arbitrary: v rule: list_induct2) auto

lemma ConstantTimeCompare_iff: "ConstantTimeCompare x y = 1 \<longleftrightarrow> x = y"
  by (auto simp: ConstantTimeCompare_def xor_acc_iff)

interpretation internal_guard: guard "NewInternalAuthInterceptor expected devMode" "internal_decision expected devMode"
  for expected devMode
  by unfold_locales
     (auto simp: internal_decision_def internal_allowed_def NewInternalAuthInterceptor_def Let_def
       ConstantTimeCompare_iff split: if_splits)

definition recovered :: "'a rpc \<Rightarrow> 'a rpc" where
  "recovered res = (case res of Panic _ \<Rightarrow> Err (Connect CodeInternal (New ''internal server error'')) | _ \<Rightarrow> res)"

lemma log_line_state [simp]: "rpc_state (log_line l r) = rpc_state r"
  by (simp add: log_line_def)

lemma logging_observes:
  "\<exists>r0. rpc_state r0 = rpc_state r \<and>
     rpc_state (fst (logging_WrapUnary l next ctx req r)) = rpc_state (fst (next ctx req r0)) \<and>
     snd (logging_WrapUnary l next ctx req r) = snd (next ctx req r0)"
  by (intro exI [of _ "snd (clock l r)"])
     (auto simp: logging_WrapUnary_def Let_def split_def clock_def split: rpc.split)

lemma recovery_observes:
  "\<exists>r0. rpc_state r0 = rpc_state r \<and>
     rpc_state (fst (recovery_WrapUnary rc next ctx req r)) = rpc_state (fst (next ctx req r0)) \<and>
     snd (recovery_WrapUnary rc next ctx req r) = recovered (snd (next ctx req r0))"
  by (intro exI [of _ r]) (auto simp: recovery_WrapUnary_def recovered_def split: prod.split rpc.split)

lemma stream_logging_observes:
  "\<exists>r0. rpc_state r0 = rpc_state r \<and>
     rpc_state (fst (logging_WrapStreamingHandler l next ctx req r)) = rpc_state (fst (next ctx req r0)) \<and>
     snd (logging_WrapStreamingHandler l next ctx req r) = snd (next ctx req r0)"
  by (intro exI [of _ "snd (clock l r)"])
     (auto simp: logging_WrapStreamingHandler_def Let_def split_def clock_def split: rpc.split)

lemma stream_recovery_observes:
  "\<exists>r0. rpc_state r0 = rpc_state r \<and>
     rpc_state (fst (recovery_WrapStreamingHandler rc next ctx req r)) = rpc_state (fst (next ctx req r0)) \<and>
     snd (recovery_WrapStreamingHandler rc next ctx req r) = recovered (snd (next ctx req r0))"
  by (intro exI [of _ r]) (auto simp: recovery_WrapStreamingHandler_def recovered_def split: prod.split rpc.split)

interpretation logging: observer "logging_WrapUnary l" "\<lambda>x. x" for l
  by unfold_locales (rule logging_observes)

interpretation recovery: observer "recovery_WrapUnary rc" recovered for rc
  by unfold_locales (rule recovery_observes)

interpretation recovery_logging: observer_pair "recovery_WrapUnary rc" recovered "logging_WrapUnary l" "\<lambda>x. x" for rc l
  by unfold_locales

interpretation stream_logging: observer "logging_WrapStreamingHandler l" "\<lambda>x. x" for l
  by unfold_locales (rule stream_logging_observes)

interpretation stream_recovery: observer "recovery_WrapStreamingHandler rc" recovered for rc
  by unfold_locales (rule stream_recovery_observes)

interpretation stream_recovery_logging:
  observer_pair "recovery_WrapStreamingHandler rc" recovered "logging_WrapStreamingHandler l" "\<lambda>x. x" for rc l
  by unfold_locales

subsection \<open>The chains of the two services\<close>

definition client_chain :: "Logger \<Rightarrow> AuthValidator \<Rightarrow> ('m, 'a, 's Rpc) UnaryFunc \<Rightarrow> ('m, 'a, 's Rpc) UnaryFunc" where
  "client_chain logger v h = intercept_unary (client_interceptors logger v) h"

definition internal_chain ::
  "Logger \<Rightarrow> string \<Rightarrow> bool \<Rightarrow> ('m, 'a, 's Rpc) UnaryFunc \<Rightarrow> ('m, 'a, 's Rpc) UnaryFunc" where
  "internal_chain logger expected devMode h =
     intercept_unary (internal_interceptors logger expected devMode) h"

definition stream_chain :: "Logger \<Rightarrow> AuthValidator \<Rightarrow> ('m, 's Rpc) StreamingFunc \<Rightarrow> ('m, 's Rpc) StreamingFunc" where
  "stream_chain logger v h = intercept_stream (client_interceptors logger v) h"

lemmas chain_defs = client_chain_def internal_chain_def stream_chain_def intercept_unary_def intercept_stream_def
  client_interceptors_def internal_interceptors_def WrapUnary_def WrapStreamingHandler_def

lemma client_chain_observes:
  "\<exists>r0. rpc_state r0 = rpc_state r \<and>
     rpc_state (fst (client_chain lg v h ctx req r)) = rpc_state (fst (NewClientAuthInterceptor v h ctx req r0)) \<and>
     snd (client_chain lg v h ctx req r) = recovered (snd (NewClientAuthInterceptor v h ctx req r0))"
  unfolding chain_defs foldr.simps comp_def id_def Interceptor.case by (rule recovery_logging.both.observes)

lemma internal_chain_observes:
  "\<exists>r0. rpc_state r0 = rpc_state r \<and>
     rpc_state (fst (internal_chain lg x d h ctx req r)) = rpc_state (fst (NewInternalAuthInterceptor x d h ctx req r0)) \<and>
     snd (internal_chain lg x d h ctx req r) = recovered (snd (NewInternalAuthInterceptor x d h ctx req r0))"
  unfolding chain_defs foldr.simps comp_def id_def Interceptor.case by (rule recovery_logging.both.observes)

text \<open>Authentication of a stream is left to the handler.\<close>

lemma stream_chain_observes:
  "\<exists>r0. rpc_state r0 = rpc_state r \<and>
     rpc_state (fst (stream_chain lg v h ctx req r)) = rpc_state (fst (h ctx req r0)) \<and>
     snd (stream_chain lg v h ctx req r) = recovered (snd (h ctx req r0))"
  unfolding chain_defs foldr.simps comp_def id_def Interceptor.case by (rule stream_recovery_logging.both.observes)

subsection \<open>Properties\<close>

lemma parts_eq_Join:
  assumes "length parts = 3 \<or> length parts = 4" "parts = Split tok c"
  shows "tok = Join ([parts ! 0, parts ! 1, parts ! 2] @ drop 3 parts) c"
proof -
  have "parts = [parts ! 0, parts ! 1, parts ! 2] @ drop 3 parts"
    using assms(1) by (cases parts; cases "tl parts"; cases "tl (tl parts)") auto
  then show ?thesis using Join_Split [of tok c] assms(2) by metis
qed

text \<open>The development validator accepts exactly the tokens
  \<open>dev:<user>:<tenant>\<close> and \<open>dev:<user>:<tenant>:<email>\<close> with non-empty user and tenant and
  fields free of colons, and returns exactly those fields.\<close>

theorem dev_token_exact:
  "DevValidator_Validate uni authz = Inr c \<longleftrightarrow>
   (\<exists>email. stripBearer uni authz = Inr (Join ([''dev'', cl_UserID c, cl_TenantID c] @ email) (CHR '':'')) \<and>
      cl_UserID c \<noteq> '''' \<and> cl_TenantID c \<noteq> '''' \<and>
      (\<forall>f\<in>{cl_UserID c, cl_TenantID c, cl_Email c}. CHR '':'' \<notin> set f) \<and>
      (email = [cl_Email c] \<or> email = [] \<and> cl_Email c = '''') \<and> cl_ExpiresAt c = 0)"
  (is "?L \<longleftrightarrow> (\<exists>email. ?R email)")
proof
  assume ?L
  then obtain tok where tok: "stripBearer uni authz = Inr tok"
    by (auto simp: DevValidator_Validate_def split: sum.splits)
  define parts where "parts = Split tok (CHR '':'')"
  have p: "length parts = 3 \<or> length parts = 4" "parts ! 0 = ''dev''" "parts ! 1 \<noteq> ''''" "parts ! 2 \<noteq> ''''"
    "c = no_claims\<lparr>cl_UserID := parts ! 1, cl_TenantID := parts ! 2,
                   cl_Email := if length parts = 4 then parts ! 3 else ''''\<rparr>"
    using \<open>?L\<close> tok by (auto simp: DevValidator_Validate_def parts_def Let_def split: if_splits)
  have colon: "CHR '':'' \<notin> set (parts ! i)" if "i < length parts" for i
    using that Split_no_sep [of "parts ! i" tok "CHR '':''"] by (simp add: parts_def)
  have "drop 3 parts = (if length parts = 4 then [parts ! 3] else [])"
    using p(1) by (auto simp: Cons_nth_drop_Suc [symmetric])
  then have "?R (drop 3 parts)"
    using tok parts_eq_Join [OF p(1) parts_def] p colon by (auto simp: no_claims_def)
  then show "\<exists>email. ?R email" by blast
next
  assume "\<exists>email. ?R email"
  then obtain email where r: "?R email" by blast
  have "Split (Join ([''dev'', cl_UserID c, cl_TenantID c] @ email) (CHR '':'')) (CHR '':'') =
      [''dev'', cl_UserID c, cl_TenantID c] @ email"
    using r by (intro Split_Join) auto
  then show ?L using r by (cases c) (auto simp: DevValidator_Validate_def Let_def no_claims_def)
qed

text \<open>What the JWT library documents: a parser with a non-empty expected issuer or audience only
  accepts tokens that carry it.\<close>

definition jwt_library_checks :: "jwt_parse \<Rightarrow> ((string, jwt_value) gomap \<Rightarrow> string \<Rightarrow> bool) \<Rightarrow> bool" where
  "jwt_library_checks parse has_audience \<longleftrightarrow>
     (\<forall>p tok key claims. parse p tok key = Inr claims \<longrightarrow>
        (\<forall>i. jp_Issuer p = Some i \<longrightarrow> i \<noteq> '''' \<longrightarrow> string_claim claims ''iss'' = Some i) \<and>
        (\<forall>a. jp_Audience p = Some a \<longrightarrow> a \<noteq> '''' \<longrightarrow> has_audience claims a))"


text \<open>A stand-in library that accepts one token.\<close>

definition demo_parse :: jwt_parse where
  "demo_parse p tok key =
     (if tok = ''tok'' \<and> key = ''k'' \<and> jp_Issuer p \<in> {None, Some ''idp''} \<and> jp_Audience p = None
      then Inr [(''sub'', JString ''alice''), (''tenant'', JString ''t1''), (''iss'', JString ''idp'')]
      else Inl (New ''invalid token''))"

definition demo_validator :: JWTValidator where
  "demo_validator = \<lparr>jv_secret = ''k'', jv_issuer = ''idp'', jv_audience = '''', jv_leeway = 30\<rparr>"


text \<open>A call of the client service whose token is not valid has no effect: the handler does not
  run, its state is unchanged, and the caller gets exactly the validator's error. With a valid token
  the handler runs with exactly the token's claims on its context.\<close>

theorem client_chain_authenticates:
  "\<exists>r0. rpc_state r0 = rpc_state r \<and>
   (case v (rq_Header req ''Authorization'') of
      Inl e \<Rightarrow> rpc_state (fst (client_chain lg v h ctx req r)) = rpc_state r \<and> snd (client_chain lg v h ctx req r) = Err e
    | Inr c \<Rightarrow> rpc_state (fst (client_chain lg v h ctx req r)) = rpc_state (fst (h (Some c) req r0)) \<and>
        snd (client_chain lg v h ctx req r) = recovered (snd (h (Some c) req r0)))"
proof -
  obtain r0 where r0: "rpc_state r0 = rpc_state r"
    "rpc_state (fst (client_chain lg v h ctx req r)) = rpc_state (fst (NewClientAuthInterceptor v h ctx req r0))"
    "snd (client_chain lg v h ctx req r) = recovered (snd (NewClientAuthInterceptor v h ctx req r0))"
    using client_chain_observes by blast
  have "recovered (Err e) = Err e" for e :: goerror by (simp add: recovered_def)
  with r0 show ?thesis
    by (intro exI [of _ r0]; cases "v (rq_Header req ''Authorization'')")
       (simp_all add: NewClientAuthInterceptor_def withClaims_def)
qed

text \<open>The internal service runs a handler only for a caller that presents the configured token
  (or with no token configured in development mode); every other call is rejected as
  unauthenticated and changes nothing.\<close>

theorem internal_chain_authenticates:
  "\<exists>r0. rpc_state r0 = rpc_state r \<and>
   (if internal_allowed expected devMode req
    then rpc_state (fst (internal_chain lg expected devMode h ctx req r)) = rpc_state (fst (h ctx req r0)) \<and>
      snd (internal_chain lg expected devMode h ctx req r) = recovered (snd (h ctx req r0))
    else rpc_state (fst (internal_chain lg expected devMode h ctx req r)) = rpc_state r \<and>
      (\<exists>e. snd (internal_chain lg expected devMode h ctx req r) = Err e \<and> CodeOf e = Some CodeUnauthenticated))"
proof -
  obtain r0 where r0: "rpc_state r0 = rpc_state r"
    "rpc_state (fst (internal_chain lg expected devMode h ctx req r)) =
       rpc_state (fst (NewInternalAuthInterceptor expected devMode h ctx req r0))"
    "snd (internal_chain lg expected devMode h ctx req r) =
       recovered (snd (NewInternalAuthInterceptor expected devMode h ctx req r0))"
    using internal_chain_observes by blast
  show ?thesis
  proof (rule internal_guard.wrap_cases [of expected devMode req h ctx r0])
    fix e assume "internal_decision expected devMode req = Inl e"
      and "NewInternalAuthInterceptor expected devMode h ctx req r0 = (r0, Err e)"
    with r0 show ?thesis
      by (intro exI [of _ r0]) (auto simp: internal_decision_def unauthenticated_def recovered_def split: if_splits)
  next
    fix f assume "internal_decision expected devMode req = Inr f"
      and "NewInternalAuthInterceptor expected devMode h ctx req r0 = h (f ctx) req r0"
    with r0 show ?thesis by (intro exI [of _ r0]) (auto simp: internal_decision_def split: if_splits)
  qed
qed

text \<open>A panic in a handler never leaves the chain: every call of either service ends with a
  response or an error.\<close>

theorem chains_never_panic:
  "(\<nexists>p. snd (client_chain lg v h ctx req r) = Panic p) \<and>
   (\<nexists>p. snd (internal_chain lg expected devMode h' ctx' req' r') = Panic p)"
proof -
  have "recovered res \<noteq> Panic p" for res :: "'x rpc" and p
    by (simp add: recovered_def split: rpc.split)
  then show ?thesis using client_chain_observes internal_chain_observes by (metis (no_types))
qed

text \<open>The logging interceptor stands outside the authentication interceptor and reads the claims
  from the context it was given, so the line it writes for a unary call never names the user, even
  when the call is authenticated.\<close>

theorem log_never_names_user:
  assumes "\<And>ctx req r. rpc_log (fst (h ctx req r)) = rpc_log r"
    and "\<And>ctx req r p. snd (h ctx req r) \<noteq> Panic p"
  shows "\<exists>l. rpc_log (fst (client_chain lg v h None req r)) = rpc_log r @ [l] \<and> lg_user_id l = ''''"
proof -
  obtain r1 res where n: "NewClientAuthInterceptor v h None req (snd (clock (newLoggingInterceptor (Some lg) (Some time_Now)) r)) = (r1, res)" by fastforce
  have "rpc_log r1 = rpc_log r \<and> (\<nexists>p. res = Panic p)"
    using n assms(1) [of _ req "snd (clock (newLoggingInterceptor (Some lg) (Some time_Now)) r)"] assms(2) [of _ req "snd (clock (newLoggingInterceptor (Some lg) (Some time_Now)) r)"]
    by (auto simp: NewClientAuthInterceptor_def clock_def split: sum.splits)
     (metis fst_conv, metis snd_conv)
  then show ?thesis
    using n by (cases res)
      (auto simp: chain_defs recovery_WrapUnary_def logging_WrapUnary_def clock_def log_line_def newLoggingInterceptor_def
        rpc_line_def ClaimsFromContext_def)
qed

definition demo_rpc :: "nat Rpc" where
  "demo_rpc = \<lparr>rpc_state = 0, rpc_log = [], rpc_clock = int, rpc_ticks = 0\<rparr>"

definition demo_request :: "string \<Rightarrow> nat Request" where
  "demo_request tok = \<lparr>rq_Header = (\<lambda>h. if h = ''Authorization'' then tok else ''''), rq_Procedure = ''Ack'', rq_Msg = Some 0\<rparr>"

theorem log_never_names_user_witness:
  "\<exists>l. rpc_log (fst (client_chain slog_Default (\<lambda>_. Inr (no_claims\<lparr>cl_UserID := ''alice''\<rparr>)) (\<lambda>ctx req r. (r, Ok ctx)) None
      (demo_request ''t'') demo_rpc)) = [l] \<and> lg_user_id l = ''''"
  using log_never_names_user [of "\<lambda>ctx req r. (r, Ok ctx)" slog_Default "\<lambda>_. Inr (no_claims\<lparr>cl_UserID := ''alice''\<rparr>)" "demo_request ''t''" demo_rpc]
  by (simp add: demo_rpc_def)

end
