(* ===== verification/Provider_Spec.thy ===== *)
theory Provider_Spec
  imports Notifier
begin

text \<open>
  The contract of a delivery provider (the \<open>Provider\<close> interface of \<open>channel.go\<close> as the six
  providers implement it and the orchestrator uses it): a failed send comes with the status
  failed, an accepted one with delivered or pending. Every provider of the repository is an
  interpretation, and the orchestrator's lemmas below hold for each of them: the status a row
  ends with is the outcome of the last send.
\<close>

definition failed_receipt :: Receipt where
  "failed_receipt = \<lparr>rc_ProviderMessageID = '''', rc_Status = StatusFailed\<rparr>"

locale provider =
  fixes p :: "'w Provider"
  assumes failed_status: "Send p w m = (w', r, Some e) \<Longrightarrow> rc_Status r = StatusFailed"
    and accepted_status: "Send p w m = (w', r, None) \<Longrightarrow> rc_Status r = StatusDelivered \<or> rc_Status r = StatusPending"
begin

text \<open>The status the orchestrator records after a send.\<close>

lemma recorded_status:
  assumes "Send p w m = (w', r, e)"
  shows "(case e of Some _ \<Rightarrow> StatusFailed | None \<Rightarrow> if rc_Status r = '''' then StatusDelivered else rc_Status r) = rc_Status r"
proof (cases e)
  case None
  with accepted_status [of w m w' r] assms show ?thesis by (auto simp: status_defs)
next
  case (Some x)
  with failed_status [of w m w' r x] assms show ?thesis by simp
qed

end

text \<open>One call of the orchestrator's dispatch against a provider and a store that keep their
  contracts: the row carries the provider's own status, and exactly one count goes up.\<close>

locale dispatch = notification_store ops inv row id_ok row_ok arg_ok id_arg + provider p
  for ops :: "'s StoreOps" and inv row id_ok row_ok arg_ok id_arg and p :: "'w Provider"
begin

lemma dispatch_records:
  assumes "inv s" "nt_store n = ops" "row s (ID r) = Some m" "TenantID m = nr_TenantID req"
    "Send p w \<lparr>msg_Notification = Some r, msg_To = to, msg_Title = nr_Title req, msg_Body = nr_Body req, msg_Data = []\<rparr> = (w1, rc, e)"
    "notify_dispatch n req p to r res s w = (s', w', res', e')"
  shows "e' = None \<and> inv s' \<and>
    row s' = (row s)(ID r \<mapsto> stamp_status (rc_Status rc) (fst (nt_now n w1)) m) \<and>
    res' = (if e = None then res\<lparr>Delivered := Delivered res + 1\<rparr> else res\<lparr>Failed := Failed res + 1\<rparr>)"
proof -
  obtain ms w2 where now: "nt_now n w1 = (ms, w2)" by fastforce
  define st where "st = rc_Status rc"
  have ok: "arg_ok st"
  proof (cases e)
    case None
    show ?thesis
      using accepted_status [OF assms(5) [unfolded None]] own_status_ok unfolding st_def by auto
  next
    case (Some x)
    show ?thesis
      using failed_status [OF assms(5) [unfolded Some]] own_status_ok unfolding st_def by auto
  qed
  obtain s2 where u: "UpdateStatus ops s (nr_TenantID req) (ID r) st ms = (s2, None)" "inv s2"
    "row s2 = (row s)(ID r \<mapsto> stamp_status st ms m)"
    using update_found [OF assms(1) ok assms(3,4)] by blast
  note rs = recorded_status [OF assms(5), folded st_def]
  show ?thesis
  proof (cases e)
    case None
    with rs have "(if st = '''' then StatusDelivered else st) = st" by simp
    with None assms(2,5,6) now u show ?thesis
      by (simp add: notify_dispatch_def Let_def st_def split: if_splits)
  next
    case (Some x)
    with rs have "st = StatusFailed" by simp
    with Some assms(2,5,6) now u show ?thesis
      by (auto simp: notify_dispatch_def Let_def st_def)
  qed
qed

end

end
