(* ===== verification/Live.thy ===== *)
theory Live
  imports Wire Realtime Retry Auth Provider_Spec
begin

text \<open>
  The live side of the server: \<open>internal/server/inapp.go\<close> (the provider that pushes to live
  connections) and \<open>internal/server/stream.go\<close> (the handler of one event stream). The registry
  queues pointers: a push hands the same \<open>*StreamEvent\<close> to every connection of the user, and each
  stream writes its session id into the event before sending it. Events therefore live in a heap
  (\<open>lv_heap\<close>, a pointer is an index), and taking an event from the queue and marshalling it
  are separate steps of a stream. The clock and the source of connection ids are sequences in the
  state.
\<close>

subsection \<open>State\<close>

record Live =
  lv_reg :: "nat Registry"
  lv_heap :: "StreamEvent list"
  lv_retries :: RetryTracker
  lv_clock :: "nat \<Rightarrow> int"
  lv_ticks :: nat
  lv_uuid :: "nat \<Rightarrow> string"
  lv_upos :: nat

definition live_now :: "Live \<Rightarrow> int \<times> Live" where
  "live_now w = (lv_clock w (lv_ticks w), w\<lparr>lv_ticks := Suc (lv_ticks w)\<rparr>)"

definition no_conn :: "nat Conn" where
  "no_conn = \<lparr>c_ID = '''', c_UserID = '''', c_TenantID = '''', c_DeviceType = '''', c_EventCh = [],
     c_cap = 1, c_CreatedAt = 0\<rparr>"

definition new_live :: "RetryTracker \<Rightarrow> (nat \<Rightarrow> int) \<Rightarrow> (nat \<Rightarrow> string) \<Rightarrow> Live" where
  "new_live rt clk ids = \<lparr>lv_reg = NewRegistry (\<lambda>_. no_conn), lv_heap = [], lv_retries = rt,
     lv_clock = clk, lv_ticks = 0, lv_uuid = ids, lv_upos = 0\<rparr>"

subsection \<open>inapp.go\<close>

text \<open>\<open>has_reg\<close> is false for a provider built with a nil registry.\<close>

definition inApp_Send :: "bool \<Rightarrow> Live \<Rightarrow> Message \<Rightarrow> Live \<times> Receipt \<times> goerror option" where
  "inApp_Send has_reg w msg =
     (if \<not> has_reg then
        (w, \<lparr>rc_ProviderMessageID = '''', rc_Status = StatusFailed\<rparr>, Some (New ''inapp: no registry configured''))
      else case msg_Notification msg of
        None \<Rightarrow>
          (w, \<lparr>rc_ProviderMessageID = '''', rc_Status = StatusFailed\<rparr>, Some (New ''inapp: message has no notification row''))
      | Some n \<Rightarrow>
          let ev = length (lv_heap w);
              w = w\<lparr>lv_heap := lv_heap w @ [\<lparr>SessionId = '''',
                      Event = Some (StreamEvent_Notification (notificationToProto (Some n)))\<rparr>]\<rparr>;
              (reg, delivered) = Push (lv_reg w) (msg_To msg) ev;
              w = w\<lparr>lv_reg := reg\<rparr>
          in if delivered = 0 then (w, \<lparr>rc_ProviderMessageID = '''', rc_Status = StatusPending\<rparr>, None)
             else (w, \<lparr>rc_ProviderMessageID = '''', rc_Status = StatusDelivered\<rparr>, None))"

definition newInAppProvider :: "bool \<Rightarrow> Live Provider" where
  "newInAppProvider has_reg = \<lparr>Kind = ChannelInApp, Name = ''in_app_realtime'', Send = inApp_Send has_reg\<rparr>"

lemma inApp_Send_status:
  "inApp_Send has_reg w m = (w', r, e) \<Longrightarrow>
   rc_Status r = (if e \<noteq> None then StatusFailed else if rc_Status r = StatusPending then StatusPending else StatusDelivered)"
  by (auto simp: inApp_Send_def Let_def status_defs split: if_splits option.splits prod.splits)

interpretation inapp: provider "newInAppProvider has_reg" for has_reg
  by unfold_locales (auto simp: newInAppProvider_def dest: inApp_Send_status split: if_splits)

subsection \<open>stream.go\<close>

definition DefaultHeartbeatInterval :: int where "DefaultHeartbeatInterval = 30 * 10 ^ 9"
definition DefaultEventBufferPerConn :: int where "DefaultEventBufferPerConn = 64"

record streamHandler =
  sh_heartbeatInterval :: int
  sh_bufferSize :: int

definition newStreamHandler :: "int \<Rightarrow> int \<Rightarrow> streamHandler" where
  "newStreamHandler heartbeat buffer =
     \<lparr>sh_heartbeatInterval = (if heartbeat \<le> 0 then DefaultHeartbeatInterval else heartbeat),
      sh_bufferSize = (if buffer \<le> 0 then DefaultEventBufferPerConn else buffer)\<rparr>"

datatype stream_pc = Serving | Marshalling nat | Finished

record stream =
  st_conn :: nat
  st_pc :: stream_pc
  st_out :: "StreamEvent list"
  st_result :: "goerror option"

record Sys =
  sys_live :: Live
  sys_streams :: "stream list"

definition heartbeat :: "Live \<Rightarrow> string \<Rightarrow> Live \<times> StreamEvent" where
  "heartbeat w sessionID =
     (let (ms, w) = live_now w
      in (w, \<lparr>SessionId = sessionID, Event = Some (StreamEvent_Heartbeat ms)\<rparr>))"

definition conn_id :: "Live \<Rightarrow> nat \<Rightarrow> string" where
  "conn_id w c = c_ID (conns (lv_reg w) c)"

text \<open>The part of \<open>serve\<close> before the loop. \<open>send\<close> is the result of \<open>stream.Send\<close> for the
  handshake; the deferred \<open>Unregister\<close> runs on the way out. A stream that reaches the loop is
  added to the list.\<close>

definition serve_start ::
  "streamHandler \<Rightarrow> Sys \<Rightarrow> Context \<Rightarrow> DeviceType \<Rightarrow> goerror option \<Rightarrow> Sys \<times> goerror option" where
  "serve_start h s ctx device send =
     (case ClaimsFromContext ctx of
        None \<Rightarrow> (s, Some (Connect CodeUnauthenticated (New ''notify: claims missing on context'')))
      | Some claims \<Rightarrow>
          let deviceType = deviceTypeFromProto device;
              w = sys_live s;
              id = lv_uuid w (lv_upos w);
              w = w\<lparr>lv_upos := Suc (lv_upos w)\<rparr>;
              (created, w) = live_now w;
              (reg, c) = NewConn (lv_reg w) id created (cl_UserID claims) (cl_TenantID claims) deviceType (sh_bufferSize h);
              w = w\<lparr>lv_reg := Register reg c\<rparr>;
              (w, ev) = heartbeat w id
          in case send of
               Some err \<Rightarrow> (s\<lparr>sys_live := w\<lparr>lv_reg := Unregister (lv_reg w) id\<rparr>\<rparr>, Some err)
             | None \<Rightarrow>
                 (s\<lparr>sys_live := w,
                    sys_streams := sys_streams s @ [\<lparr>st_conn = c, st_pc = Serving, st_out = [ev], st_result = None\<rparr>]\<rparr>,
                  None))"

definition upd_stream :: "Sys \<Rightarrow> nat \<Rightarrow> (stream \<Rightarrow> stream) \<Rightarrow> Sys" where
  "upd_stream s i f = s\<lparr>sys_streams := (sys_streams s)[i := f (sys_streams s ! i)]\<rparr>"

text \<open>Return from \<open>serve\<close>: the deferred \<open>Unregister\<close>.\<close>

definition serve_exit :: "Sys \<Rightarrow> nat \<Rightarrow> goerror option \<Rightarrow> Sys" where
  "serve_exit s i err =
     (let w = sys_live s;
          id = conn_id w (st_conn (sys_streams s ! i))
      in upd_stream (s\<lparr>sys_live := w\<lparr>lv_reg := Unregister (lv_reg w) id\<rparr>\<rparr>) i
           (\<lambda>t. t\<lparr>st_pc := Finished, st_result := err\<rparr>))"

definition serve_tick :: "Sys \<Rightarrow> nat \<Rightarrow> goerror option \<Rightarrow> Sys" where
  "serve_tick s i send =
     (let (w, ev) = heartbeat (sys_live s) (conn_id (sys_live s) (st_conn (sys_streams s ! i)));
          s = s\<lparr>sys_live := w\<rparr>
      in case send of
           Some err \<Rightarrow> serve_exit s i (Some err)
         | None \<Rightarrow> upd_stream s i (\<lambda>t. t\<lparr>st_out := st_out t @ [ev]\<rparr>))"

text \<open>\<open>ev := <-conn.EventCh; ev.SessionId = conn.ID\<close>.\<close>

definition serve_take :: "Sys \<Rightarrow> nat \<Rightarrow> Sys" where
  "serve_take s i =
     (let c = st_conn (sys_streams s ! i); w = sys_live s
      in case Recv (lv_reg w) c of
           None \<Rightarrow> s
         | Some (reg, ev) \<Rightarrow>
             upd_stream (s\<lparr>sys_live := w\<lparr>lv_reg := reg,
                 lv_heap := (lv_heap w)[ev := (lv_heap w ! ev)\<lparr>SessionId := conn_id w c\<rparr>]\<rparr>\<rparr>) i
               (\<lambda>t. t\<lparr>st_pc := Marshalling ev\<rparr>))"

text \<open>\<open>stream.Send(ev)\<close>: the event is read when it is marshalled.\<close>

definition serve_send :: "Sys \<Rightarrow> nat \<Rightarrow> goerror option \<Rightarrow> Sys" where
  "serve_send s i send =
     (case st_pc (sys_streams s ! i) of
        Marshalling ev \<Rightarrow>
          (case send of
             Some err \<Rightarrow> serve_exit s i (Some err)
           | None \<Rightarrow> upd_stream s i (\<lambda>t. t\<lparr>st_pc := Serving, st_out := st_out t @ [lv_heap (sys_live s) ! ev]\<rparr>))
      | _ \<Rightarrow> s)"

definition serve_cancel :: "Sys \<Rightarrow> nat \<Rightarrow> Sys" where
  "serve_cancel s i = serve_exit s i (Some (Sentinel ''context canceled''))"

subsection \<open>The running system\<close>

definition open_stream :: "Sys \<Rightarrow> nat \<Rightarrow> bool" where
  "open_stream s i \<longleftrightarrow> i < length (sys_streams s) \<and> st_pc (sys_streams s ! i) \<noteq> Finished"

definition serving :: "Sys \<Rightarrow> nat \<Rightarrow> bool" where
  "serving s i \<longleftrightarrow> i < length (sys_streams s) \<and> st_pc (sys_streams s ! i) = Serving"

text \<open>Connection ids come from \<open>uuid.NewString\<close>, whose values do not repeat.\<close>

inductive sys_reach :: "streamHandler \<Rightarrow> Sys \<Rightarrow> bool" for h where
  init: "inj ids \<Longrightarrow> sys_reach h \<lparr>sys_live = new_live rt clk ids, sys_streams = []\<rparr>"
| start: "sys_reach h s \<Longrightarrow> sys_reach h (fst (serve_start h s ctx d send))"
| tick: "sys_reach h s \<Longrightarrow> serving s i \<Longrightarrow> sys_reach h (serve_tick s i send)"
| take: "sys_reach h s \<Longrightarrow> serving s i \<Longrightarrow> sys_reach h (serve_take s i)"
| send: "sys_reach h s \<Longrightarrow> open_stream s i \<Longrightarrow> sys_reach h (serve_send s i send)"
| cancel: "sys_reach h s \<Longrightarrow> serving s i \<Longrightarrow> sys_reach h (serve_cancel s i)"
| notify: "sys_reach h s \<Longrightarrow> sys_reach h (s\<lparr>sys_live := fst (inApp_Send True (sys_live s) msg)\<rparr>)"

definition open_conns :: "Sys \<Rightarrow> nat set" where
  "open_conns s = (\<lambda>i. st_conn (sys_streams s ! i)) ` {i. open_stream s i}"

text \<open>The registry is in order, ids were all drawn from the source, and the registered
  connections are exactly those of the open streams, one each.\<close>

definition sys_inv :: "Sys \<Rightarrow> bool" where
  "sys_inv s \<longleftrightarrow>
     registry_inv (lv_reg (sys_live s)) \<and>
     inj (lv_uuid (sys_live s)) \<and>
     nconns (lv_reg (sys_live s)) = lv_upos (sys_live s) \<and>
     (\<forall>c<nconns (lv_reg (sys_live s)). conn_id (sys_live s) c = lv_uuid (sys_live s) c) \<and>
     registered (lv_reg (sys_live s)) = open_conns s \<and>
     (\<forall>i<length (sys_streams s). st_conn (sys_streams s ! i) < nconns (lv_reg (sys_live s))) \<and>
     (\<forall>i j. i < length (sys_streams s) \<longrightarrow> j < length (sys_streams s) \<longrightarrow>
        st_conn (sys_streams s ! i) = st_conn (sys_streams s ! j) \<longrightarrow> i = j)"

subsection \<open>The invariant is preserved\<close>

lemma sys_invD:
  assumes "sys_inv s"
  shows "registry_inv (lv_reg (sys_live s))" "inj (lv_uuid (sys_live s))"
    "nconns (lv_reg (sys_live s)) = lv_upos (sys_live s)"
    "c < nconns (lv_reg (sys_live s)) \<Longrightarrow> conn_id (sys_live s) c = lv_uuid (sys_live s) c"
    "registered (lv_reg (sys_live s)) = open_conns s"
    "i < length (sys_streams s) \<Longrightarrow> st_conn (sys_streams s ! i) < nconns (lv_reg (sys_live s))"
    "i < length (sys_streams s) \<Longrightarrow> j < length (sys_streams s) \<Longrightarrow>
       st_conn (sys_streams s ! i) = st_conn (sys_streams s ! j) \<Longrightarrow> i = j"
  using assms unfolding sys_inv_def by blast+

lemma sys_invI:
  assumes "registry_inv (lv_reg (sys_live s))" "inj (lv_uuid (sys_live s))"
    "nconns (lv_reg (sys_live s)) = lv_upos (sys_live s)"
    "\<And>c. c < nconns (lv_reg (sys_live s)) \<Longrightarrow> conn_id (sys_live s) c = lv_uuid (sys_live s) c"
    "registered (lv_reg (sys_live s)) = open_conns s"
    "\<And>i. i < length (sys_streams s) \<Longrightarrow> st_conn (sys_streams s ! i) < nconns (lv_reg (sys_live s))"
    "\<And>i j. i < length (sys_streams s) \<Longrightarrow> j < length (sys_streams s) \<Longrightarrow>
       st_conn (sys_streams s ! i) = st_conn (sys_streams s ! j) \<Longrightarrow> i = j"
  shows "sys_inv s"
  using assms unfolding sys_inv_def by blast

lemma registered_byUser: "byUser r' = byUser r \<Longrightarrow> registered r' = registered r"
  by (simp add: registered_def user_conns_def)

lemma sys_inv_same:
  assumes "sys_inv s" "registry_inv (lv_reg (sys_live s'))"
    "byUser (lv_reg (sys_live s')) = byUser (lv_reg (sys_live s))"
    "nconns (lv_reg (sys_live s')) = nconns (lv_reg (sys_live s))"
    "\<And>c. conn_id (sys_live s') c = conn_id (sys_live s) c"
    "lv_uuid (sys_live s') = lv_uuid (sys_live s)" "lv_upos (sys_live s') = lv_upos (sys_live s)"
    "length (sys_streams s') = length (sys_streams s)"
    "\<And>i. i < length (sys_streams s) \<Longrightarrow> st_conn (sys_streams s' ! i) = st_conn (sys_streams s ! i) \<and>
        (st_pc (sys_streams s' ! i) = Finished \<longleftrightarrow> st_pc (sys_streams s ! i) = Finished)"
  shows "sys_inv s'"
proof -
  have "open_stream s' i \<longleftrightarrow> open_stream s i" for i
    using assms(8,9) by (auto simp: open_stream_def)
  then have "open_conns s' = open_conns s"
    unfolding open_conns_def using assms(8,9) by (intro image_cong) (auto simp: open_stream_def)
  moreover have "registered (lv_reg (sys_live s')) = registered (lv_reg (sys_live s))"
    by (rule registered_byUser [OF assms(3)])
  ultimately show ?thesis
  proof (intro sys_invI)
    show "i = j" if "i < length (sys_streams s')" "j < length (sys_streams s')"
      "st_conn (sys_streams s' ! i) = st_conn (sys_streams s' ! j)" for i j
      using that assms(8) assms(9) [of i] assms(9) [of j] sys_invD(7) [OF assms(1), of i j] by simp
  qed (use assms sys_invD [OF assms(1)] in simp_all)
qed

lemma sys_upd_simps [simp]:
  "sys_live (upd_stream s i f) = sys_live s" "length (sys_streams (upd_stream s i f)) = length (sys_streams s)"
  by (simp_all add: upd_stream_def)

lemma nth_upd_stream [simp]:
  "i < length (sys_streams s) \<Longrightarrow> sys_streams (upd_stream s i f) ! j =
     (if j = i then f (sys_streams s ! i) else sys_streams s ! j)"
  by (simp add: upd_stream_def)

lemma serve_exit_inv:
  assumes inv: "sys_inv s" and o: "open_stream s i"
  shows "sys_inv (serve_exit s i e)"
proof -
  let ?r = "lv_reg (sys_live s)" and ?c = "st_conn (sys_streams s ! i)"
  let ?r' = "Unregister ?r (conn_id (sys_live s) ?c)"
  have i: "i < length (sys_streams s)" using o by (simp add: open_stream_def)
  have ri: "registry_inv ?r" using inv by (simp add: sys_inv_def)
  have id: "conn_id (sys_live s) d = conn_id (sys_live s) ?c \<longleftrightarrow> d = ?c" if "d < nconns ?r" for d
    using sys_invD(4) [OF inv that] sys_invD(4) [OF inv sys_invD(6) [OF inv i]] injD [OF sys_invD(2) [OF inv]] by metis
  have reg: "registered ?r' = registered ?r - {?c}"
    using id registered_lt [OF ri] by (auto simp: registered_Unregister [OF ri] conn_id_def [symmetric])
  have live: "sys_live (serve_exit s i e) = (sys_live s)\<lparr>lv_reg := ?r'\<rparr>"
    and len: "length (sys_streams (serve_exit s i e)) = length (sys_streams s)"
    and str: "sys_streams (serve_exit s i e) ! j =
      (if j = i then (sys_streams s ! i)\<lparr>st_pc := Finished, st_result := e\<rparr> else sys_streams s ! j)" for j
    using i by (simp_all add: serve_exit_def Let_def upd_stream_def)
  have "open_stream (serve_exit s i e) j \<longleftrightarrow> open_stream s j \<and> j \<noteq> i" for j
    by (simp add: open_stream_def len str)
  then have op: "open_conns (serve_exit s i e) = (\<lambda>j. st_conn (sys_streams s ! j)) ` ({j. open_stream s j} - {i})"
    unfolding open_conns_def by (intro image_cong) (auto simp: str)
  have "inj_on (\<lambda>j. st_conn (sys_streams s ! j)) {j. open_stream s j}"
    using sys_invD(7) [OF inv] by (auto simp: inj_on_def open_stream_def)
  then have "open_conns (serve_exit s i e) = open_conns s - {?c}"
    unfolding op using o inj_on_image_set_diff [of "\<lambda>j. st_conn (sys_streams s ! j)" "{j. open_stream s j}" "{j. open_stream s j}" "{i}"]
    by (simp add: open_conns_def)
  then show ?thesis
  proof (intro sys_invI)
    fix j k
    assume "j < length (sys_streams (serve_exit s i e))" "k < length (sys_streams (serve_exit s i e))"
      "st_conn (sys_streams (serve_exit s i e) ! j) = st_conn (sys_streams (serve_exit s i e) ! k)"
    then show "j = k"
      using sys_invD(7) [OF inv, of j k] by (simp add: len str split: if_splits)
  qed (use sys_invD [OF inv] reg registry_inv_Unregister [OF ri] in \<open>simp_all add: live len str conn_id_def\<close>)
qed

lemma heartbeat_frame:
  "heartbeat w sid = (w', ev) \<Longrightarrow> lv_reg w' = lv_reg w \<and> lv_heap w' = lv_heap w \<and> lv_uuid w' = lv_uuid w \<and>
     lv_upos w' = lv_upos w \<and> SessionId ev = sid"
  by (auto simp: heartbeat_def live_now_def Let_def)

lemma serve_tick_inv:
  assumes inv: "sys_inv s" and o: "serving s i"
  shows "sys_inv (serve_tick s i send)"
proof -
  obtain w ev where hb: "heartbeat (sys_live s) (conn_id (sys_live s) (st_conn (sys_streams s ! i))) = (w, ev)"
    by fastforce
  note f = heartbeat_frame [OF hb]
  have inv': "sys_inv (s\<lparr>sys_live := w\<rparr>)"
    by (rule sys_inv_same [OF inv]) (use f inv in \<open>auto simp: conn_id_def sys_inv_def\<close>)
  have op: "open_stream (s\<lparr>sys_live := w\<rparr>) i" using o by (simp add: open_stream_def serving_def)
  show ?thesis
  proof (cases send)
    case None
    have "sys_inv (upd_stream (s\<lparr>sys_live := w\<rparr>) i (\<lambda>t. t\<lparr>st_out := st_out t @ [ev]\<rparr>))"
      by (rule sys_inv_same [OF inv']) (use o inv' in \<open>auto simp: serving_def sys_inv_def\<close>)
    with None hb show ?thesis by (simp add: serve_tick_def)
  next
    case (Some e)
    with hb serve_exit_inv [OF inv' op] show ?thesis by (simp add: serve_tick_def)
  qed
qed

lemma serve_take_inv:
  assumes inv: "sys_inv s" and o: "serving s i"
  shows "sys_inv (serve_take s i)"
proof (cases "Recv (lv_reg (sys_live s)) (st_conn (sys_streams s ! i))")
  case None
  then show ?thesis using inv by (simp add: serve_take_def Let_def)
next
  case (Some p)
  obtain reg ev where p: "p = (reg, ev)" by fastforce
  have ri: "registry_inv reg"
    using registry_inv_Recv [OF sys_invD(1) [OF inv]] Some p by blast
  have fr: "byUser reg = byUser (lv_reg (sys_live s))" "nconns reg = nconns (lv_reg (sys_live s))"
    "c_ID (conns reg c) = c_ID (conns (lv_reg (sys_live s)) c)" for c
    using Some p by (auto simp: Recv_def split: list.splits)
  show ?thesis
    unfolding serve_take_def Let_def Some p option.case prod.case
    by (rule sys_inv_same [OF inv]) (use ri fr o in \<open>auto simp: conn_id_def serving_def\<close>)
qed

lemma serve_send_inv:
  assumes inv: "sys_inv s" and o: "open_stream s i"
  shows "sys_inv (serve_send s i send)"
proof (cases "st_pc (sys_streams s ! i)")
  case (Marshalling ev)
  show ?thesis
  proof (cases send)
    case None
    have "sys_inv (upd_stream s i (\<lambda>t. t\<lparr>st_pc := Serving, st_out := st_out t @ [lv_heap (sys_live s) ! ev]\<rparr>))"
      by (rule sys_inv_same [OF inv]) (use inv o in \<open>auto simp: sys_inv_def open_stream_def\<close>)
    with None Marshalling show ?thesis by (simp add: serve_send_def)
  qed (use serve_exit_inv [OF inv o] Marshalling in \<open>simp add: serve_send_def\<close>)
qed (use inv in \<open>simp_all add: serve_send_def\<close>)

lemma inApp_Send_frame:
  assumes "registry_inv (lv_reg w)"
  shows "byUser (lv_reg (fst (inApp_Send b w m))) = byUser (lv_reg w)"
    "nconns (lv_reg (fst (inApp_Send b w m))) = nconns (lv_reg w)"
    "conn_id (fst (inApp_Send b w m)) c = conn_id w c"
    "lv_uuid (fst (inApp_Send b w m)) = lv_uuid w" "lv_upos (fst (inApp_Send b w m)) = lv_upos w"
    "registry_inv (lv_reg (fst (inApp_Send b w m)))"
  using assms registry_inv_Push [OF assms]
  by (auto simp: inApp_Send_def Let_def Push_offer conn_id_def offer_def split: option.split)

text \<open>Opening a stream first makes a connection with the next id and registers it.\<close>

lemma register_new_conn:
  assumes inv: "sys_inv s" and w: "w = sys_live s" and i: "i = lv_uuid w (lv_upos w)"
    and nc: "NewConn (lv_reg w) i now user tenant dt cap = (reg, c)"
  shows "c = nconns (lv_reg w)" "lv_upos w = c" "nconns reg = Suc c" "registry_inv (Register reg c)"
    "registered (Register reg c) = insert c (registered (lv_reg w))" "registered (lv_reg w) \<subseteq> {..<c}"
    "\<And>e. e < Suc c \<Longrightarrow> c_ID (conns reg e) = lv_uuid w e"
proof -
  have c: "c = nconns (lv_reg w)" "nconns reg = Suc c" "byUser reg = byUser (lv_reg w)" "c_ID (conns reg c) = i"
    "\<And>e. e \<noteq> c \<Longrightarrow> conns reg e = conns (lv_reg w) e"
    using nc by (auto simp: NewConn_def Let_def)
  have ri: "registry_inv (lv_reg w)" and up: "lv_upos w = c" and inj: "inj (lv_uuid w)"
    and ids: "\<And>e. e < c \<Longrightarrow> c_ID (conns (lv_reg w) e) = lv_uuid w e"
    using inv c(1) w by (auto simp: sys_inv_def conn_id_def)
  have ids': "c_ID (conns reg e) = lv_uuid w e" if "e < Suc c" for e
    using that c(4) c(5) [of e] ids [of e] up i by (cases "e = c") auto
  have regs: "registered reg = registered (lv_reg w)" by (rule registered_byUser [OF c(3)])
  have lt: "e < c" if "e \<in> registered reg" for e using registered_lt [OF ri] regs that c(1) by simp
  show "registry_inv (Register reg c)"
  proof (rule registry_inv_Register [OF registry_inv_NewConn [OF ri nc]])
    show "c_ID (conns reg e) \<noteq> c_ID (conns reg c)" if "e \<in> registered reg" for e
      using lt [OF that] ids' inj by (auto dest!: injD)
  qed (use c(2) lt in auto)
  show "c = nconns (lv_reg w)" "lv_upos w = c" "nconns reg = Suc c" by (fact c up)+
  show "registered (Register reg c) = insert c (registered (lv_reg w))" by (simp add: registered_Register regs)
  show "registered (lv_reg w) \<subseteq> {..<c}" using lt regs by auto
  show "\<And>e. e < Suc c \<Longrightarrow> c_ID (conns reg e) = lv_uuid w e" by (rule ids')
qed

lemma open_conns_snoc:
  assumes "sys_streams s' = sys_streams s @ [t]" "st_pc t = Serving"
  shows "open_conns s' = insert (st_conn t) (open_conns s)"
proof -
  have "open_stream s' j \<longleftrightarrow> j = length (sys_streams s) \<or> open_stream s j" for j
    using assms(2) by (auto simp: open_stream_def assms(1) nth_append)
  then have "{j. open_stream s' j} = insert (length (sys_streams s)) {j. open_stream s j}" by blast
  moreover have "st_conn (sys_streams s' ! j) = st_conn (sys_streams s ! j)" if "open_stream s j" for j
    using that by (simp add: assms(1) nth_append open_stream_def)
  ultimately show ?thesis by (simp add: open_conns_def assms(1) cong: image_cong_simp)
qed

lemma serve_start_inv:
  assumes inv: "sys_inv s"
  shows "sys_inv (fst (serve_start h s ctx d send))"
proof (cases ctx)
  case None
  then show ?thesis using inv by (simp add: serve_start_def ClaimsFromContext_def)
next
  case ctx: (Some cl)
  let ?w = "sys_live s" and ?s = "fst (serve_start h s ctx d send)"
  let ?id = "lv_uuid ?w (lv_upos ?w)"
  obtain reg c where nc: "NewConn (lv_reg ?w) ?id (lv_clock ?w (lv_ticks ?w)) (cl_UserID cl) (cl_TenantID cl)
      (deviceTypeFromProto d) (sh_bufferSize h) = (reg, c)" by fastforce
  note N = register_new_conn [OF inv refl refl nc]
  let ?R = "Register reg c"
  have inj: "inj (lv_uuid ?w)" and op: "open_conns s = registered (lv_reg ?w)" using inv by (simp_all add: sys_inv_def)
  obtain w' ev where hb: "heartbeat (?w\<lparr>lv_upos := Suc (lv_upos ?w), lv_ticks := Suc (lv_ticks ?w), lv_reg := ?R\<rparr>) ?id = (w', ev)"
    by fastforce
  note f = heartbeat_frame [OF hb]
  show ?thesis
  proof (cases send)
    case None
    let ?t = "\<lparr>st_conn = c, st_pc = Serving, st_out = [ev], st_result = None\<rparr>"
    have s': "sys_live ?s = w'" "sys_streams ?s = sys_streams s @ [?t]"
      using ctx None nc hb by (simp_all add: serve_start_def ClaimsFromContext_def live_now_def Let_def)
    have "open_conns ?s = insert c (open_conns s)" using open_conns_snoc [OF s'(2)] by simp
    moreover have "st_conn (sys_streams s ! j) < c" if "j < length (sys_streams s)" for j
      using sys_invD(6) [OF inv that] N(1) by simp
    ultimately show ?thesis
      using f N(2-5,7) inv inj by (auto simp: sys_inv_def s' conn_id_def nth_append less_Suc_eq)
  next
    case (Some e)
    have s': "sys_live ?s = w'\<lparr>lv_reg := Unregister ?R ?id\<rparr>" "sys_streams ?s = sys_streams s"
      using Some ctx nc hb f by (simp_all add: serve_start_def ClaimsFromContext_def live_now_def Let_def)
    have "c_ID (conns reg e) \<noteq> ?id" if "e < c" for e using N(7) [of e] that N(2) inj by (auto dest: injD)
    then have "registered (Unregister ?R ?id) = registered (lv_reg ?w)"
      using N(2,5,6) N(7) [of c] by (auto simp: registered_Unregister [OF N(4)])
    moreover have "open_conns ?s = open_conns s" by (simp add: open_conns_def open_stream_def s')
    ultimately show ?thesis
      using f registry_inv_Unregister [OF N(4)] inv N(1-3,7) inj by (auto simp: sys_inv_def s' conn_id_def less_Suc_eq)
  qed
qed

lemma sys_reach_keeps: "sys_reach h s \<Longrightarrow> sys_inv s"
proof (induction rule: sys_reach.induct)
  case (init ids rt clk)
  then show ?case
    by (auto simp: sys_inv_def new_live_def open_conns_def open_stream_def NewRegistry_def registered_def
        user_conns_def intro: registry_inv_New [unfolded NewRegistry_def])
next
  case (cancel s i)
  then show ?case by (auto simp: serve_cancel_def open_stream_def serving_def intro: serve_exit_inv)
next
  case (notify s msg)
  have "registry_inv (lv_reg (sys_live s))" using notify.IH by (simp add: sys_inv_def)
  note f = inApp_Send_frame [OF this]
  show ?case by (rule sys_inv_same [OF notify.IH]) (simp_all add: f)
qed (auto intro: serve_start_inv serve_tick_inv serve_take_inv serve_send_inv)

subsection \<open>Properties\<close>

text \<open>C24. No connection leaks and none is lost: at every moment the registry holds exactly the
  connections of the open streams. A stream that returned, for whatever reason (cancelled, send
  failed, handshake failed), can no longer be found by its session id; an open one always can.\<close>

theorem stream_registry_matches:
  assumes "sys_reach h s"
  shows "registered (lv_reg (sys_live s)) = open_conns s \<and>
    (\<forall>i<length (sys_streams s).
       Get_conn (lv_reg (sys_live s)) (conn_id (sys_live s) (st_conn (sys_streams s ! i))) =
         (if open_stream s i then Some (st_conn (sys_streams s ! i)) else None))"
proof -
  have inv: "sys_inv s" using assms by (rule sys_reach_keeps)
  note d = sys_invD [OF inv]
  have "Get_conn (lv_reg (sys_live s)) (conn_id (sys_live s) (st_conn (sys_streams s ! i))) =
      (if open_stream s i then Some (st_conn (sys_streams s ! i)) else None)" if i: "i < length (sys_streams s)" for i
  proof (cases "open_stream s i")
    case True
    then have "st_conn (sys_streams s ! i) \<in> registered (lv_reg (sys_live s))"
      by (auto simp: d(5) open_conns_def)
    with True show ?thesis by (simp add: Get_conn_iff [OF d(1)] conn_id_def)
  next
    case False
    have "c_ID (conns (lv_reg (sys_live s)) c) \<noteq> conn_id (sys_live s) (st_conn (sys_streams s ! i))"
      if c: "c \<in> registered (lv_reg (sys_live s))" for c
    proof -
      obtain j where j: "c = st_conn (sys_streams s ! j)" "open_stream s j"
        using c by (auto simp: d(5) open_conns_def)
      have "j \<noteq> i" using j(2) False by blast
      then have "c \<noteq> st_conn (sys_streams s ! i)" using d(7) [of j i] j i by (auto simp: open_stream_def)
      then show ?thesis
        using d(4) [OF registered_lt [OF d(1) c]] d(4) [OF d(6) [OF i]] injD [OF d(2)] by (metis conn_id_def)
    qed
    then show ?thesis using False Get_conn_iff [OF d(1)] by (metis not_None_eq)
  qed
  with d(5) show ?thesis by blast
qed

text \<open>Two streams of a user called alice, one per tenant.\<close>

definition demo_handler :: streamHandler where "demo_handler = newStreamHandler 0 0"

definition demo_ctx :: "string \<Rightarrow> Context" where
  "demo_ctx tenant = Some (no_claims\<lparr>cl_UserID := ''alice'', cl_TenantID := tenant\<rparr>)"

definition demo_ids :: "nat \<Rightarrow> string" where "demo_ids n = CHR ''c'' # replicate n (CHR ''x'')"

definition demo_sys0 :: Sys where
  "demo_sys0 = \<lparr>sys_live = new_live (NewRetryTracker 3 5) int demo_ids, sys_streams = []\<rparr>"

definition demo_sys2 :: Sys where
  "demo_sys2 = fst (serve_start demo_handler
     (fst (serve_start demo_handler demo_sys0 (demo_ctx ''t1'') DEVICE_TYPE_IOS None))
     (demo_ctx ''t2'') DEVICE_TYPE_IOS None)"

definition demo_row :: Notification where
  "demo_row = \<lparr>ID = ''r1'', NotificationID = ''n1'', TenantID = ''t1'', UserID = ''alice'', SubjectRef = '''',
     SubjectType = '''', Title = ''secret'', Body = '''', Channel = ChannelInApp, Status = StatusPending,
     CreatedAtMS = 1, DeliveredAtMS = 0, AckAtMS = 0, ReadAtMS = 0\<rparr>"

definition demo_sys3 :: Sys where
  "demo_sys3 = demo_sys2\<lparr>sys_live := fst (inApp_Send True (sys_live demo_sys2)
     \<lparr>msg_Notification = Some demo_row, msg_To = ''alice'', msg_Title = ''secret'', msg_Body = '''', msg_Data = []\<rparr>)\<rparr>"

lemmas live_eval = demo_sys0_def demo_sys2_def demo_sys3_def demo_handler_def demo_ctx_def demo_ids_def demo_row_def
  new_live_def no_conn_def newStreamHandler_def DefaultEventBufferPerConn_def no_claims_def
  serve_start_def ClaimsFromContext_def live_now_def heartbeat_def NewConn_def NewRegistry_def Register_def
  user_conns_def inApp_Send_def Push_def Connections_def trySend_def notificationToProto_def Let_def
  DefaultEventBuffer_def NewRetryTracker_def deviceTypeFromProto_def device_type_defs

lemma live_demo_reach: "sys_reach demo_handler demo_sys2" "sys_reach demo_handler demo_sys3"
proof -
  have "inj demo_ids" by (auto simp: inj_def demo_ids_def replicate_eq_replicate)
  then have "sys_reach demo_handler demo_sys0" unfolding demo_sys0_def by (rule sys_reach.init)
  then show r: "sys_reach demo_handler demo_sys2" unfolding demo_sys2_def by (intro sys_reach.start)
  then show "sys_reach demo_handler demo_sys3" unfolding demo_sys3_def by (rule sys_reach.notify)
qed

theorem stream_registry_matches_witness:
  "registered (lv_reg (sys_live (serve_cancel demo_sys2 0))) = open_conns (serve_cancel demo_sys2 0)"
proof -
  have "serving demo_sys2 0" by (simp add: serving_def) (simp add: live_eval)
  with live_demo_reach(1) have "sys_reach demo_handler (serve_cancel demo_sys2 0)" by (rule sys_reach.cancel)
  from stream_registry_matches [OF this] show ?thesis by blast
qed

lemma inApp_Send_outcome:
  assumes "registry_inv (lv_reg w)" "msg_Notification m = Some n" "inApp_Send True w m = (w', rc, e)"
  shows "e = None \<and>
    rc_Status rc = (if \<exists>c\<in>set (Connections (lv_reg w) (msg_To m)). has_room (conns (lv_reg w) c)
                    then StatusDelivered else StatusPending) \<and>
    (\<forall>c. c \<notin> set (Connections (lv_reg w) (msg_To m)) \<longrightarrow> conns (lv_reg w') c = conns (lv_reg w) c) \<and>
    (\<forall>c\<in>set (Connections (lv_reg w) (msg_To m)). has_room (conns (lv_reg w) c) \<longrightarrow>
       c_EventCh (conns (lv_reg w') c) = c_EventCh (conns (lv_reg w) c) @ [length (lv_heap w)])"
proof -
  let ?S = "{c \<in> set (Connections (lv_reg w) (msg_To m)). has_room (conns (lv_reg w) c)}"
  have "card ?S = 0 \<longleftrightarrow> \<not> (\<exists>c\<in>set (Connections (lv_reg w) (msg_To m)). has_room (conns (lv_reg w) c))"
    by (simp add: card_eq_0_iff) blast
  then show ?thesis
    using assms(2,3)
    by (auto simp: inApp_Send_def Let_def Push_offer [OF assms(1)] Connections_def offer_def split: if_splits)
qed

text \<open>The in-app provider reports exactly what happened: delivered when at least one live connection
  of the user took the event, pending when the user is offline or every queue is full, and an error
  only for a message without a row. It never blocks, and queues of other users are untouched.\<close>

theorem inapp_receipt:
  assumes "registry_inv (lv_reg w)" "msg_Notification m = Some n" "inApp_Send True w m = (w', rc, e)"
  shows "e = None \<and>
    rc_Status rc = (if \<exists>c\<in>set (Connections (lv_reg w) (msg_To m)). has_room (conns (lv_reg w) c)
                    then StatusDelivered else StatusPending) \<and>
    (\<forall>c. c \<notin> set (Connections (lv_reg w) (msg_To m)) \<longrightarrow> conns (lv_reg w') c = conns (lv_reg w) c) \<and>
    (\<forall>c\<in>set (Connections (lv_reg w) (msg_To m)). has_room (conns (lv_reg w) c) \<longrightarrow>
       c_EventCh (conns (lv_reg w') c) = c_EventCh (conns (lv_reg w) c) @ [length (lv_heap w)])"
  using assms by (rule inApp_Send_outcome)

theorem inapp_receipt_witness:
  "\<exists>w' rc. inApp_Send True (sys_live demo_sys2)
      \<lparr>msg_Notification = Some demo_row, msg_To = ''nobody'', msg_Title = '''', msg_Body = '''', msg_Data = []\<rparr> = (w', rc, None) \<and>
    rc_Status rc = StatusPending"
proof -
  let ?m = "\<lparr>msg_Notification = Some demo_row, msg_To = ''nobody'', msg_Title = '''', msg_Body = '''', msg_Data = []\<rparr>"
  have r: "registry_inv (lv_reg (sys_live demo_sys2))"
    using sys_reach_keeps [OF live_demo_reach(1)] by (simp add: sys_inv_def)
  obtain w' rc e where p: "inApp_Send True (sys_live demo_sys2) ?m = (w', rc, e)" by (metis surj_pair)
  have "Connections (lv_reg (sys_live demo_sys2)) ''nobody'' = []" by (simp add: live_eval)
  with inapp_receipt [OF r _ p, of demo_row] p show ?thesis by simp
qed


text \<open>Streams of one user share the event object and write their session id into it: with two
  streams taking the same event before the first has sent it, the first client receives the event
  under the session id of the second.\<close>

theorem session_id_race_reachable:
  "\<exists>s. sys_reach demo_handler s \<and> conn_id (sys_live s) (st_conn (sys_streams s ! 0)) = demo_ids 0 \<and>
     (\<exists>ev\<in>set (st_out (sys_streams s ! 0)). SessionId ev = demo_ids 1) \<and> demo_ids 0 \<noteq> demo_ids 1"
proof -
  let ?s4 = "serve_take demo_sys3 0"
  let ?s5 = "serve_take ?s4 1"
  let ?s6 = "serve_send ?s5 0 None"
  have "serving demo_sys3 0" by (simp add: serving_def) (simp add: live_eval)
  with live_demo_reach(2) have r4: "sys_reach demo_handler ?s4" by (rule sys_reach.take)
  have "serving ?s4 1" by (simp add: serving_def serve_take_def Recv_def upd_stream_def live_eval)
  with r4 have r5: "sys_reach demo_handler ?s5" by (rule sys_reach.take)
  have "open_stream ?s5 0" by (simp add: open_stream_def serve_take_def Recv_def upd_stream_def live_eval)
  with r5 have "sys_reach demo_handler ?s6" by (rule sys_reach.send)
  then show ?thesis
    by (intro exI [of _ ?s6])
       (simp add: serve_send_def serve_take_def Recv_def upd_stream_def conn_id_def live_eval)
qed

end
