(* ===== verification/Store_Refinement.thy ===== *)
theory Store_Refinement
  imports Store_Spec
begin

text \<open>
  An abstract store: two finite maps and a transition relation that says, for every call of the
  \<open>Store\<close> interface, which replies are possible and what they do to the maps. The ids of new rows are
  the only choice left open. \<open>full_store\<close> joins the two contracts of \<open>Store_Spec\<close> with the frame
  conditions between rows and devices, and proves that every sequence of calls on a driver is a run
  of the abstract store. What holds of all runs is proved here once for every driver.
\<close>

subsection \<open>Calls and replies\<close>

datatype store_call =
    CreateCall Notification
  | GetCall string string string
  | UpdateCall string string DeliveryStatus int
  | QueryCall Query
  | UpsertCall Device
  | ListCall string string

datatype store_reply =
    CreateReply Notification "goerror + bool"
  | GetReply "goerror + Notification"
  | UpdateReply "goerror option"
  | QueryReply "goerror + (Notification list \<times> string \<times> int)"
  | UpsertReply "goerror + Device"
  | ListReply "goerror + Device list"

fun do_call :: "'s StoreOps \<Rightarrow> 's \<Rightarrow> store_call \<Rightarrow> 's \<times> store_reply" where
  "do_call ops s (CreateCall n) = (case CreateNotification ops s n of (s', n', r) \<Rightarrow> (s', CreateReply n' r))"
| "do_call ops s (GetCall t u i) = (s, GetReply (GetNotification ops s t u i))"
| "do_call ops s (UpdateCall t i st ms) = (case UpdateStatus ops s t i st ms of (s', e) \<Rightarrow> (s', UpdateReply e))"
| "do_call ops s (QueryCall q) = (s, QueryReply (QueryUserNotifications ops s q))"
| "do_call ops s (UpsertCall d) = (case UpsertDevice ops s d of (s', d', r) \<Rightarrow> (s', UpsertReply r))"
| "do_call ops s (ListCall t u) = (s, ListReply (ListDevices ops s t u))"

fun run_calls :: "'s StoreOps \<Rightarrow> 's \<Rightarrow> store_call list \<Rightarrow> 's \<times> store_reply list" where
  "run_calls ops s [] = (s, [])"
| "run_calls ops s (c # cs) =
     (case do_call ops s c of (s1, r) \<Rightarrow> (case run_calls ops s1 cs of (s2, rs) \<Rightarrow> (s2, r # rs)))"

lemma run_calls_length: "length (snd (run_calls ops s cs)) = length cs"
  by (induction cs arbitrary: s) (auto split: prod.split, metis snd_conv)

subsection \<open>The abstract store\<close>

record spec_state =
  sp_rows :: "string \<Rightarrow> Notification option"
  sp_devs :: "devKey \<Rightarrow> Device option"

definition spec_empty :: spec_state where
  "spec_empty = \<lparr>sp_rows = Map.empty, sp_devs = Map.empty\<rparr>"

definition has_key :: "(string \<Rightarrow> Notification option) \<Rightarrow> notifKey \<Rightarrow> bool" where
  "has_key rows k \<longleftrightarrow> (\<exists>n \<in> ran rows. notif_key n = k)"

lemma has_keyI: "rows i = Some n \<Longrightarrow> has_key rows (notif_key n)"
  by (auto simp: has_key_def ran_def)

lemma has_keyE:
  assumes "has_key rows k"
  obtains i n where "rows i = Some n" "notif_key n = k"
  using assms by (auto simp: has_key_def ran_def)

lemma has_key_upd: "rows i = None \<Longrightarrow> has_key (rows(i \<mapsto> n)) k \<longleftrightarrow> has_key rows k \<or> k = notif_key n"
  by (auto simp: has_key_def)

lemma has_key_same:
  assumes "rows i = Some n" "notif_key n' = notif_key n"
  shows "has_key (rows(i \<mapsto> n')) k \<longleftrightarrow> has_key rows k"
proof -
  have "has_key rs k \<longleftrightarrow> (\<exists>j. map_option notif_key (rs j) = Some k)" for rs
    by (auto simp: has_key_def ran_def)
  moreover have "map_option notif_key ((rows(i \<mapsto> n')) j) = map_option notif_key (rows j)" for j
    using assms by simp
  ultimately show ?thesis by (simp only:)
qed

inductive spec_step :: "spec_state \<Rightarrow> store_call \<Rightarrow> store_reply \<Rightarrow> spec_state \<Rightarrow> bool" where
  create_new: "\<not> has_key (sp_rows A) (notif_key n) \<Longrightarrow> i \<noteq> '''' \<Longrightarrow> sp_rows A i = None \<Longrightarrow>
    spec_step A (CreateCall n) (CreateReply (n\<lparr>ID := i\<rparr>) (Inr True)) (A\<lparr>sp_rows := (sp_rows A)(i \<mapsto> n\<lparr>ID := i\<rparr>)\<rparr>)"
| create_old: "sp_rows A i = Some m \<Longrightarrow> notif_key m = notif_key n \<Longrightarrow>
    spec_step A (CreateCall n) (CreateReply (n\<lparr>ID := i\<rparr>) (Inr False)) A"
| get: "r = (case sp_rows A i of None \<Rightarrow> Inl ErrNotFound | Some n \<Rightarrow> if owned_by t u n then Inr n else Inl ErrNotFound) \<Longrightarrow>
    spec_step A (GetCall t u i) (GetReply r) A"
| update_missing: "(\<And>n. sp_rows A i = Some n \<Longrightarrow> TenantID n \<noteq> t) \<Longrightarrow>
    spec_step A (UpdateCall t i st ms) (UpdateReply (Some ErrNotFound)) A"
| update_found: "sp_rows A i = Some n \<Longrightarrow> TenantID n = t \<Longrightarrow>
    spec_step A (UpdateCall t i st ms) (UpdateReply None) (A\<lparr>sp_rows := (sp_rows A)(i \<mapsto> stamp_status st ms n)\<rparr>)"
| query: "is_page (ran (sp_rows A)) q p \<Longrightarrow> spec_step A (QueryCall q) (QueryReply (Inr p)) A"
| upsert_new: "sp_devs A (dev_key d) = None \<Longrightarrow> fresh_dev_id (sp_devs A) i \<Longrightarrow>
    spec_step A (UpsertCall d) (UpsertReply (Inr (d\<lparr>dev_ID := i\<rparr>))) (A\<lparr>sp_devs := (sp_devs A)(dev_key d \<mapsto> d\<lparr>dev_ID := i\<rparr>)\<rparr>)"
| upsert_old: "sp_devs A (dev_key d) = Some e \<Longrightarrow>
    e' = e\<lparr>dev_Token := dev_Token d, dev_LastActiveMS := dev_LastActiveMS d\<rparr> \<Longrightarrow>
    spec_step A (UpsertCall d) (UpsertReply (Inr e')) (A\<lparr>sp_devs := (sp_devs A)(dev_key d \<mapsto> e')\<rparr>)"
| list: "distinct ds \<Longrightarrow> set ds = {d. \<exists>dt. sp_devs A \<lparr>dk_Tenant = t, dk_User = u, dk_DeviceType = dt\<rparr> = Some d} \<Longrightarrow>
    sorted_wrt (\<lambda>a b. dev_DeviceType a < dev_DeviceType b) ds \<Longrightarrow> spec_step A (ListCall t u) (ListReply (Inr ds)) A"

inductive_cases spec_createE: "spec_step A (CreateCall n) r B"
inductive_cases spec_getE: "spec_step A (GetCall t u i) r B"

inductive spec_run :: "spec_state \<Rightarrow> store_call list \<Rightarrow> store_reply list \<Rightarrow> spec_state \<Rightarrow> bool" where
  spec_done: "spec_run A [] [] A"
| spec_call: "spec_step A c r B \<Longrightarrow> spec_run B cs rs C \<Longrightarrow> spec_run A (c # cs) (r # rs) C"

inductive_cases spec_run_ConsE: "spec_run A (c # cs) rs C"
inductive_simps spec_run_Nil [simp]: "spec_run A [] rs C"

lemma spec_run_length: "spec_run A cs rs B \<Longrightarrow> length rs = length cs"
  by (induction rule: spec_run.induct) auto

lemma spec_run_split:
  "spec_run A (cs @ ds) rs C \<Longrightarrow> \<exists>B. spec_run A cs (take (length cs) rs) B \<and> spec_run B ds (drop (length cs) rs) C"
proof (induction cs arbitrary: A rs)
  case (Cons c cs)
  then obtain r B rs' where "rs = r # rs'" "spec_step A c r B" "spec_run B (cs @ ds) rs' C"
    by (auto elim: spec_run_ConsE)
  with Cons.IH [of B rs'] show ?case by (auto intro: spec_call)
qed simp

subsection \<open>What holds of every run\<close>

text \<open>A stored row keeps its key, its text and its creation time.\<close>

definition same_row :: "Notification \<Rightarrow> Notification \<Rightarrow> bool" where
  "same_row m n \<longleftrightarrow> ID n = ID m \<and> notif_key n = notif_key m \<and> SubjectRef n = SubjectRef m \<and>
     SubjectType n = SubjectType m \<and> Title n = Title m \<and> Body n = Body m \<and> Channel n = Channel m \<and> CreatedAtMS n = CreatedAtMS m"

lemma same_row_refl [simp]: "same_row n n" by (simp add: same_row_def)
lemma same_row_trans: "same_row a b \<Longrightarrow> same_row b c \<Longrightarrow> same_row a c" by (simp add: same_row_def)
lemma same_row_stamp [simp]: "same_row n (stamp_status st ms n)" by (simp add: same_row_def)

definition spec_inv :: "spec_state \<Rightarrow> bool" where
  "spec_inv A \<longleftrightarrow> (\<forall>i n. sp_rows A i = Some n \<longrightarrow> ID n = i) \<and>
     (\<forall>i j m n. sp_rows A i = Some m \<longrightarrow> sp_rows A j = Some n \<longrightarrow> notif_key m = notif_key n \<longrightarrow> i = j) \<and>
     (\<forall>k d. sp_devs A k = Some d \<longrightarrow> dev_key d = k)"

lemma spec_inv_step: "spec_step A c r B \<Longrightarrow> spec_inv A \<Longrightarrow> spec_inv B"
proof (induction rule: spec_step.induct)
  case (create_new A n i)
  then have "notif_key m \<noteq> notif_key n" if "sp_rows A j = Some m" for j m using that by (metis has_keyI)
  then have "i' = i" if "sp_rows A i' = Some m" "notif_key m = notif_key n" for i' m using that by metis
  with create_new show ?case unfolding spec_inv_def by (auto; metis)
next
  case (update_found A i n t st ms)
  then show ?case unfolding spec_inv_def by (auto split: if_splits)
qed (auto simp: spec_inv_def dev_key_def)

lemma spec_step_keeps:
  "spec_step A c r B \<Longrightarrow> sp_rows A i = Some m \<Longrightarrow> \<exists>n. sp_rows B i = Some n \<and> same_row m n"
  by (induction rule: spec_step.induct) auto

lemma spec_run_keeps:
  "spec_run A cs rs B \<Longrightarrow> sp_rows A i = Some m \<Longrightarrow> \<exists>n. sp_rows B i = Some n \<and> same_row m n"
proof (induction arbitrary: m rule: spec_run.induct)
  case (spec_call A c r B cs rs C)
  then show ?case using spec_step_keeps same_row_trans by meson
qed auto

lemma spec_run_inv: "spec_run A cs rs B \<Longrightarrow> spec_inv A \<Longrightarrow> spec_inv B"
  by (induction rule: spec_run.induct) (auto intro: spec_inv_step)

lemma spec_inv_empty: "spec_inv spec_empty"
  by (simp add: spec_inv_def spec_empty_def)

text \<open>The creates of a run that report a new row under the key.\<close>

definition created :: "notifKey \<Rightarrow> store_reply list \<Rightarrow> nat" where
  "created k rs = length (filter (\<lambda>r. case r of CreateReply n (Inr True) \<Rightarrow> notif_key n = k | _ \<Rightarrow> False) rs)"

lemma spec_step_created:
  "spec_step A c r B \<Longrightarrow> of_bool (has_key (sp_rows B) k) = of_bool (has_key (sp_rows A) k) + created k [r]"
proof (induction rule: spec_step.induct)
  case (create_new A n i)
  then show ?case by (auto simp: created_def has_key_upd simp del: fun_upd_apply)
next
  case (update_found A i n t st ms)
  then show ?case by (simp add: created_def has_key_same del: fun_upd_apply)
qed (simp_all add: created_def)

text \<open>Of all creates under one key at most one is told that it stored the row, and exactly one when
  the key is new and is there in the end.\<close>

lemma spec_created_once:
  "spec_run A cs rs B \<Longrightarrow> of_bool (has_key (sp_rows B) k) = of_bool (has_key (sp_rows A) k) + created k rs"
proof (induction rule: spec_run.induct)
  case (spec_call A c r B cs rs C)
  then show ?case using spec_step_created [of A c r B k] by (simp add: created_def)
qed (simp add: created_def)

lemma spec_created_le: "spec_run A cs rs B \<Longrightarrow> created k rs \<le> 1"
  using spec_created_once [of A cs rs B k] by (auto simp: of_bool_def split: if_splits)

text \<open>Read your writes over any run: once a create has reported an id, every later lookup by the owner
  under that id succeeds, with the row of that key.\<close>

lemma spec_read_your_writes:
  assumes "spec_run A (cs @ CreateCall n # ds @ GetCall t u i # es) rs B"
    and "rs ! length cs = CreateReply n' (Inr b)" "i = ID n'" "t = TenantID n" "u = UserID n"
  shows "\<exists>m. rs ! (length cs + length ds + 1) = GetReply (Inr m) \<and> notif_key m = notif_key n \<and> (b \<longrightarrow> same_row n' m)"
proof -
  from spec_run_split [OF assms(1)] obtain A1 where
    a: "spec_run A1 (CreateCall n # ds @ GetCall t u i # es) (drop (length cs) rs) B" by blast
  then obtain r A2 rs2 where c: "drop (length cs) rs = r # rs2" "spec_step A1 (CreateCall n) r A2"
    "spec_run A2 (ds @ GetCall t u i # es) rs2 B" by (auto elim: spec_run_ConsE)
  have len: "length cs < length rs" using spec_run_length [OF assms(1)] by simp
  then have "r = CreateReply n' (Inr b)" using c(1) assms(2) by (metis Cons_nth_drop_Suc list.inject)
  with c(2) obtain m where m: "sp_rows A2 i = Some m" "notif_key m = notif_key n" "b \<longrightarrow> m = n'"
    using assms(3) by (auto elim!: spec_createE)
  from spec_run_split [OF c(3)] obtain A3 where d: "spec_run A2 ds (take (length ds) rs2) A3"
    "spec_run A3 (GetCall t u i # es) (drop (length ds) rs2) B" by blast
  then obtain g rs3 where g: "drop (length ds) rs2 = g # rs3" "spec_step A3 (GetCall t u i) g A3"
    by (auto elim!: spec_run_ConsE spec_getE intro: spec_step.get)
  obtain m' where m': "sp_rows A3 i = Some m'" "same_row m m'" using spec_run_keeps [OF d(1) m(1)] by blast
  have "owned_by t u m'" using m(2) m'(2) assms(4,5) by (simp add: owned_by_def same_row_def notif_key_def)
  then have "g = GetReply (Inr m')" using g(2) m'(1) by (auto elim: spec_getE)
  moreover have "rs ! (length cs + length ds + 1) = g"
  proof -
    have "rs ! (length cs + length ds + 1) = drop (length cs) rs ! Suc (length ds)" using len by simp
    also have "\<dots> = rs2 ! length ds" by (simp add: c(1))
    also have "\<dots> = drop (length ds) rs2 ! 0" by (metis g(1) add.right_neutral drop_eq_Nil linorder_le_cases list.distinct(1) nth_drop)
    finally show ?thesis by (simp add: g(1))
  qed
  ultimately show ?thesis using m m'(2) by (auto simp: same_row_def)
qed

subsection \<open>Drivers refine it\<close>

definition store_abs :: "('s \<Rightarrow> string \<Rightarrow> Notification option) \<Rightarrow> ('s \<Rightarrow> devKey \<Rightarrow> Device option) \<Rightarrow> 's \<Rightarrow> spec_state" where
  "store_abs row dev s = \<lparr>sp_rows = row s, sp_devs = dev s\<rparr>"

text \<open>The calls a driver has to accept. Rows and devices come without an id, as the service sends them.\<close>

fun call_accepted ::
  "(Notification \<Rightarrow> bool) \<Rightarrow> (string \<Rightarrow> bool) \<Rightarrow> (string \<Rightarrow> bool) \<Rightarrow> (Device \<Rightarrow> bool) \<Rightarrow> store_call \<Rightarrow> bool" where
  "call_accepted row_ok arg_ok id_arg dev_ok (CreateCall n) \<longleftrightarrow> ID n = '''' \<and> row_ok n"
| "call_accepted row_ok arg_ok id_arg dev_ok (GetCall t u i) \<longleftrightarrow> id_arg i"
| "call_accepted row_ok arg_ok id_arg dev_ok (UpdateCall t i st ms) \<longleftrightarrow> id_arg i \<and> arg_ok st"
| "call_accepted row_ok arg_ok id_arg dev_ok (QueryCall q) \<longleftrightarrow> arg_ok (q_TenantID q) \<and> arg_ok (q_UserID q)"
| "call_accepted row_ok arg_ok id_arg dev_ok (UpsertCall d) \<longleftrightarrow> dev_ID d = '''' \<and> dev_ok d"
| "call_accepted row_ok arg_ok id_arg dev_ok (ListCall t u) \<longleftrightarrow> arg_ok t \<and> arg_ok u"

locale full_store =
  notification_store ops inv row id_ok row_ok arg_ok id_arg + device_store ops inv dev dev_id_ok dev_ok arg_ok
  for ops :: "'s StoreOps" and inv row id_ok row_ok arg_ok id_arg dev dev_id_ok dev_ok +
  assumes create_devs: "inv s \<Longrightarrow> id_ok s (ID n) \<Longrightarrow> row_ok n \<Longrightarrow> CreateNotification ops s n = (s', nr) \<Longrightarrow> dev s' = dev s"
    and update_devs: "inv s \<Longrightarrow> id_arg i \<Longrightarrow> arg_ok st \<Longrightarrow> UpdateStatus ops s t i st ms = (s', e) \<Longrightarrow> dev s' = dev s"
    and upsert_rows: "inv s \<Longrightarrow> dev_id_ok s (dev_ID d) \<Longrightarrow> dev_ok d \<Longrightarrow> UpsertDevice ops s d = (s', dr) \<Longrightarrow> row s' = row s"
begin

abbreviation abs_store :: "'s \<Rightarrow> spec_state" where
  "abs_store s \<equiv> store_abs row dev s"

abbreviation call_ok :: "store_call \<Rightarrow> bool" where
  "call_ok c \<equiv> call_accepted row_ok arg_ok id_arg dev_ok c"

lemma refine_create:
  assumes "inv s" "call_ok (CreateCall n)" "CreateNotification ops s n = (s', n', r)"
  shows "inv s' \<and> spec_step (abs_store s) (CreateCall n) (CreateReply n' r) (abs_store s')"
proof -
  from assms(1,2) have n: "id_ok s (ID n)" "row_ok n" using id_ok_empty by auto
  have dev: "dev s' = dev s" by (rule create_devs [OF assms(1) n assms(3)])
  show ?thesis
  proof (cases "has_key (row s) (notif_key n)")
    case True
    then obtain i m where m: "row s i = Some m" "notif_key m = notif_key n" by (rule has_keyE)
    with create_existing [OF assms(1) n m] assms(3) dev spec_step.create_old [of "abs_store s" i m n]
    show ?thesis by (auto simp: store_abs_def)
  next
    case False
    then have new: "\<And>i m. row s i = Some m \<Longrightarrow> notif_key m \<noteq> notif_key n" by (metis has_keyI)
    from create_new [OF assms(1) n] new obtain t i where t: "CreateNotification ops s n = (t, n\<lparr>ID := i\<rparr>, Inr True)"
      "inv t" "i \<noteq> ''''" "row s i = None" "row t = (row s)(i \<mapsto> n\<lparr>ID := i\<rparr>)" by blast
    with False dev assms(3) spec_step.create_new [of "abs_store s" n i] show ?thesis by (simp add: store_abs_def)
  qed
qed

lemma refine_update:
  assumes "inv s" "call_ok (UpdateCall t i st ms)" "UpdateStatus ops s t i st ms = (s', e)"
  shows "inv s' \<and> spec_step (abs_store s) (UpdateCall t i st ms) (UpdateReply e) (abs_store s')"
proof -
  from assms(2) have ok: "id_arg i" "arg_ok st" by auto
  have dev: "dev s' = dev s" by (rule update_devs [OF assms(1) ok assms(3)])
  show ?thesis
  proof (cases "\<exists>n. row s i = Some n \<and> TenantID n = t")
    case True
    then obtain n where n: "row s i = Some n" "TenantID n = t" by blast
    with update_found [OF assms(1) ok(2) n(1,2), of ms] assms(3) dev
      spec_step.update_found [of "abs_store s" i n t st ms] show ?thesis by (auto simp: store_abs_def)
  next
    case False
    then have "UpdateStatus ops s t i st ms = (s, Some ErrNotFound)" by (intro update_missing [OF assms(1)] ok(1)) auto
    with False assms(1,3) show ?thesis by (auto simp: store_abs_def intro!: spec_step.update_missing)
  qed
qed

lemma refine_upsert:
  assumes "inv s" "call_ok (UpsertCall d)" "UpsertDevice ops s d = (s', d', r)"
  shows "inv s' \<and> spec_step (abs_store s) (UpsertCall d) (UpsertReply r) (abs_store s')"
proof -
  from assms(1,2) have d: "dev_id_ok s (dev_ID d)" "dev_ok d" using dev_id_ok_empty by auto
  have rows: "row s' = row s" by (rule upsert_rows [OF assms(1) d assms(3)])
  show ?thesis
  proof (cases "dev s (dev_key d)")
    case None
    from upsert_new [OF assms(1) d None] rows None assms(3) show ?thesis
      using spec_step.upsert_new [of "abs_store s" d] by (auto simp: store_abs_def)
  next
    case (Some e)
    from upsert_existing [OF assms(1) d Some] rows Some assms(3) show ?thesis
      using spec_step.upsert_old [of "abs_store s" d e] by (auto simp: store_abs_def)
  qed
qed

lemma refine_call:
  assumes "inv s" "call_ok c" "do_call ops s c = (s', r)"
  shows "inv s' \<and> spec_step (abs_store s) c r (abs_store s')"
proof (cases c)
  case (CreateCall n)
  with assms refine_create [OF assms(1)] show ?thesis by (auto split: prod.splits)
next
  case (GetCall t u i)
  then show ?thesis using assms by (auto simp: store_abs_def get_spec intro: spec_step.get)
next
  case (UpdateCall t i st ms)
  with assms refine_update [OF assms(1)] show ?thesis by (auto split: prod.splits)
next
  case (QueryCall q)
  then obtain p where "QueryUserNotifications ops s q = Inr p" "is_page (ran (row s)) q p"
    using assms(2) query_page [OF assms(1), of q] by auto
  with QueryCall assms(1,3) spec_step.query [of "abs_store s" q p] show ?thesis by (auto simp: store_abs_def)
next
  case (UpsertCall d)
  with assms refine_upsert [OF assms(1)] show ?thesis by (auto split: prod.splits)
next
  case (ListCall t u)
  then obtain ds where "ListDevices ops s t u = Inr ds" "distinct ds"
    "set ds = {d. \<exists>dt. dev s \<lparr>dk_Tenant = t, dk_User = u, dk_DeviceType = dt\<rparr> = Some d}"
    "sorted_wrt (\<lambda>a b. dev_DeviceType a < dev_DeviceType b) ds"
    using assms(2) list_spec [OF assms(1), of t u] by auto
  with ListCall assms(1,3) spec_step.list [of ds "abs_store s" t u] show ?thesis by (auto simp: store_abs_def)
qed

lemma refine_run:
  assumes "inv s" "list_all call_ok cs" "run_calls ops s cs = (s', rs)"
  shows "inv s' \<and> spec_run (abs_store s) cs rs (abs_store s')"
  using assms
proof (induction cs arbitrary: s rs)
  case (Cons c cs)
  obtain s1 r where d: "do_call ops s c = (s1, r)" by fastforce
  obtain rs' where rs: "run_calls ops s1 cs = (s', rs')" "rs = r # rs'" using Cons.prems(3) d by (auto split: prod.splits)
  from refine_call [OF Cons.prems(1) _ d] Cons.prems(2) have r: "inv s1" "spec_step (abs_store s) c r (abs_store s1)" by auto
  with Cons.IH [OF r(1) _ rs(1)] Cons.prems(2) rs(2) show ?case by (auto intro: spec_call)
qed (auto intro: spec_done)

end

end
