(* ===== verification/Memory_Store.thy ===== *)
theory Memory_Store
  imports Notifier Store_Refinement
begin

text \<open>
  \<open>store/memory/store.go\<close>, the reference driver: four Go maps under one mutex. Every method
  holds the mutex for its whole body, so each is one atomic function of the state. The ids come
  from \<open>uuid.NewString\<close> of \<open>github.com/google/uuid\<close>, which is not part of the repository:
  the state carries the sequence of ids the generator will hand out (\<open>uuid_src\<close>,
  \<open>uuid_pos\<close>), and \<open>memory_inv\<close> names what the code relies on, that an id still to be
  handed out is non-empty and is not the id of a stored row. The driver is shown to satisfy
  both contracts of \<open>Store_Spec\<close>.
\<close>

subsection \<open>State\<close>

record Store =
  notifications :: "(string, Notification) gomap"
  notifByKey :: "(notifKey, string) gomap"
  devices :: "(string, Device) gomap"
  deviceByKey :: "(devKey, string) gomap"

record Memory = Store +
  uuid_src :: "nat \<Rightarrow> string"
  uuid_pos :: nat

definition New_memory :: "(nat \<Rightarrow> string) \<Rightarrow> Memory" where
  "New_memory src = \<lparr>notifications = [], notifByKey = [], devices = [], deviceByKey = [],
     uuid_src = src, uuid_pos = 0\<rparr>"

definition NewString :: "Memory \<Rightarrow> string \<times> Memory" where
  "NewString s = (uuid_src s (uuid_pos s), s\<lparr>uuid_pos := Suc (uuid_pos s)\<rparr>)"

subsection \<open>Operations\<close>

definition memory_CreateNotification ::
  "Memory \<Rightarrow> Notification \<Rightarrow> Memory \<times> Notification \<times> (goerror + bool)" where
  "memory_CreateNotification s n =
     (let key = \<lparr>nk_Tenant = TenantID n, nk_User = UserID n, nk_NotificationID = NotificationID n\<rparr> in
      case map_of (notifByKey s) key of
        Some existingID \<Rightarrow> (s, n\<lparr>ID := existingID\<rparr>, Inr False)
      | None \<Rightarrow>
          let (i, s) = (if ID n = '''' then NewString s else (ID n, s));
              n = n\<lparr>ID := i\<rparr>;
              s = s\<lparr>notifications := AList.update (ID n) n (notifications s)\<rparr>;
              s = s\<lparr>notifByKey := AList.update key (ID n) (notifByKey s)\<rparr>
          in (s, n, Inr True))"

definition memory_GetNotification ::
  "Memory \<Rightarrow> string \<Rightarrow> string \<Rightarrow> string \<Rightarrow> goerror + Notification" where
  "memory_GetNotification s tenantID userID i =
     (case map_of (notifications s) i of
        None \<Rightarrow> Inl ErrNotFound
      | Some n \<Rightarrow>
          if TenantID n \<noteq> tenantID \<or> UserID n \<noteq> userID then Inl ErrNotFound else Inr n)"

definition memory_UpdateStatus ::
  "Memory \<Rightarrow> string \<Rightarrow> string \<Rightarrow> DeliveryStatus \<Rightarrow> int \<Rightarrow> Memory \<times> goerror option" where
  "memory_UpdateStatus s tenantID i status atMS =
     (case map_of (notifications s) i of
        None \<Rightarrow> (s, Some ErrNotFound)
      | Some n \<Rightarrow>
          if TenantID n \<noteq> tenantID then (s, Some ErrNotFound)
          else let n = n\<lparr>Status := status\<rparr>;
                   n = (if status = StatusDelivered then n\<lparr>DeliveredAtMS := atMS\<rparr>
                        else if status = StatusAcked then n\<lparr>AckAtMS := atMS\<rparr>
                        else if status = StatusRead then n\<lparr>ReadAtMS := atMS\<rparr>
                        else n)
               in (s\<lparr>notifications := AList.update i n (notifications s)\<rparr>, None))"

text \<open>The loop of \<open>QueryUserNotifications\<close> over the map, with its \<open>continue\<close>s.\<close>

fun query_loop :: "Query \<Rightarrow> Notification list \<Rightarrow> Notification list \<Rightarrow> int \<Rightarrow> Notification list \<times> int" where
  "query_loop q [] matched unread = (matched, unread)"
| "query_loop q (n # ns) matched unread =
     (if TenantID n \<noteq> q_TenantID q \<or> UserID n \<noteq> q_UserID q then query_loop q ns matched unread
      else let unread = (if Status n \<noteq> StatusRead then unread + 1 else unread) in
        if q_UnreadOnly q \<and> Status n = StatusRead then query_loop q ns matched unread
        else if (case q_CursorMS q of None \<Rightarrow> False | Some c \<Rightarrow> CreatedAtMS n \<ge> c)
          then query_loop q ns matched unread
        else query_loop q ns (matched @ [n]) unread)"

definition memory_QueryUserNotifications ::
  "Memory \<Rightarrow> Query \<Rightarrow> goerror + (Notification list \<times> string \<times> int)" where
  "memory_QueryUserNotifications s q =
     (let limit = ClampLimit (q_Limit q);
          (matched, unread) = query_loop q (map snd (notifications s)) [] 0;
          matched = sort_Slice newest_first matched
      in if int (length matched) > limit
         then let matched = take (nat limit) matched
              in Inr (matched, FormatInt (CreatedAtMS (matched ! (length matched - 1))), unread)
         else Inr (matched, '''', unread))"

definition memory_UpsertDevice :: "Memory \<Rightarrow> Device \<Rightarrow> Memory \<times> Device \<times> (goerror + Device)" where
  "memory_UpsertDevice s d =
     (let key = \<lparr>dk_Tenant = dev_TenantID d, dk_User = dev_UserID d, dk_DeviceType = dev_DeviceType d\<rparr>
      in case map_of (deviceByKey s) key of
           Some i \<Rightarrow>
             (case map_of (devices s) i of
                None \<Rightarrow> (s, d, Inl (New ''nil pointer dereference''))
              | Some existing \<Rightarrow>
                  let existing = existing\<lparr>dev_Token := dev_Token d, dev_LastActiveMS := dev_LastActiveMS d\<rparr>
                  in (s\<lparr>devices := AList.update i existing (devices s)\<rparr>, d, Inr existing))
         | None \<Rightarrow>
             let (i, s) = (if dev_ID d = '''' then NewString s else (dev_ID d, s));
                 d = d\<lparr>dev_ID := i\<rparr>;
                 s = s\<lparr>devices := AList.update (dev_ID d) d (devices s)\<rparr>;
                 s = s\<lparr>deviceByKey := AList.update key (dev_ID d) (deviceByKey s)\<rparr>
             in (s, d, Inr d))"

definition memory_ListDevices :: "Memory \<Rightarrow> string \<Rightarrow> string \<Rightarrow> goerror + Device list" where
  "memory_ListDevices s tenantID userID =
     Inr (sort_Slice (\<lambda>a b. dev_DeviceType a < dev_DeviceType b)
       (filter (\<lambda>d. dev_TenantID d = tenantID \<and> dev_UserID d = userID) (map snd (devices s))))"

definition memory_ops :: "Memory StoreOps" where
  "memory_ops = \<lparr>CreateNotification = memory_CreateNotification,
     GetNotification = memory_GetNotification, UpdateStatus = memory_UpdateStatus,
     QueryUserNotifications = memory_QueryUserNotifications,
     UpsertDevice = memory_UpsertDevice, ListDevices = memory_ListDevices\<rparr>"

lemma memory_ops_simps [simp]:
  "CreateNotification memory_ops = memory_CreateNotification"
  "GetNotification memory_ops = memory_GetNotification"
  "UpdateStatus memory_ops = memory_UpdateStatus"
  "QueryUserNotifications memory_ops = memory_QueryUserNotifications"
  "UpsertDevice memory_ops = memory_UpsertDevice"
  "ListDevices memory_ops = memory_ListDevices"
  by (simp_all add: memory_ops_def)

subsection \<open>The driver's invariant\<close>

text \<open>The id maps are consistent: every row is stored under its id, the key index holds exactly
  the keys of the rows, and the ids still to come are fresh.\<close>

definition notif_inv :: "Memory \<Rightarrow> bool" where
  "notif_inv s \<longleftrightarrow> gomap_ok (notifications s) \<and> gomap_ok (notifByKey s) \<and>
     (\<forall>i n. map_of (notifications s) i = Some n \<longrightarrow>
        ID n = i \<and> i \<noteq> '''' \<and> map_of (notifByKey s) (notif_key n) = Some i) \<and>
     (\<forall>k i. map_of (notifByKey s) k = Some i \<longrightarrow>
        (\<exists>n. map_of (notifications s) i = Some n \<and> notif_key n = k))"

definition device_inv :: "Memory \<Rightarrow> bool" where
  "device_inv s \<longleftrightarrow> gomap_ok (devices s) \<and> gomap_ok (deviceByKey s) \<and>
     (\<forall>i d. map_of (devices s) i = Some d \<longrightarrow>
        dev_ID d = i \<and> map_of (deviceByKey s) (dev_key d) = Some i) \<and>
     (\<forall>k i. map_of (deviceByKey s) k = Some i \<longrightarrow>
        (\<exists>d. map_of (devices s) i = Some d \<and> dev_key d = k))"

definition uuid_fresh :: "Memory \<Rightarrow> bool" where
  "uuid_fresh s \<longleftrightarrow> inj (uuid_src s) \<and>
     (\<forall>k\<ge>uuid_pos s. uuid_src s k \<noteq> '''' \<and> map_of (notifications s) (uuid_src s k) = None \<and>
        map_of (devices s) (uuid_src s k) = None)"

definition memory_inv :: "Memory \<Rightarrow> bool" where
  "memory_inv s \<longleftrightarrow> notif_inv s \<and> device_inv s \<and> uuid_fresh s"

text \<open>An id a caller may bring along: none, or one that is neither stored nor still to come.\<close>

definition memory_id_ok :: "Memory \<Rightarrow> string \<Rightarrow> bool" where
  "memory_id_ok s i \<longleftrightarrow> i = '''' \<or>
     map_of (notifications s) i = None \<and> (\<forall>k\<ge>uuid_pos s. uuid_src s k \<noteq> i)"

definition memory_dev_id_ok :: "Memory \<Rightarrow> string \<Rightarrow> bool" where
  "memory_dev_id_ok s i \<longleftrightarrow> i = '''' \<or>
     map_of (devices s) i = None \<and> (\<forall>k\<ge>uuid_pos s. uuid_src s k \<noteq> i)"

lemma memory_inv_New: "inj src \<Longrightarrow> '''' \<notin> range src \<Longrightarrow> memory_inv (New_memory src)"
  by (auto simp: memory_inv_def notif_inv_def device_inv_def uuid_fresh_def New_memory_def)
     (metis rangeI)

lemma notif_invD:
  assumes "notif_inv s"
  shows "map_of (notifications s) i = Some n \<Longrightarrow> ID n = i"
    and "map_of (notifications s) i = Some n \<Longrightarrow> i \<noteq> ''''"
    and "map_of (notifications s) i = Some n \<Longrightarrow> map_of (notifByKey s) (notif_key n) = Some i"
    and "map_of (notifByKey s) k = Some i \<Longrightarrow> \<exists>n. map_of (notifications s) i = Some n \<and> notif_key n = k"
  using assms by (auto simp: notif_inv_def)

subsection \<open>CreateNotification\<close>

lemma memory_create_existing:
  assumes "memory_inv s" "map_of (notifications s) i = Some m" "notif_key m = notif_key n"
  shows "memory_CreateNotification s n = (s, n\<lparr>ID := i\<rparr>, Inr False)"
proof -
  have "map_of (notifByKey s) (notif_key n) = Some i"
    using assms notif_invD(3) by (metis memory_inv_def)
  then show ?thesis by (simp add: memory_CreateNotification_def Let_def notif_key_def)
qed

text \<open>The id a new row gets, and the state it is inserted into.\<close>

lemma memory_new_id:
  assumes "memory_inv s" "memory_id_ok s (ID n)"
    "(if ID n = '''' then NewString s else (ID n, s)) = (i, s')"
  shows "i \<noteq> '''' \<and> map_of (notifications s) i = None \<and> notifications s' = notifications s \<and>
    notifByKey s' = notifByKey s \<and> devices s' = devices s \<and> deviceByKey s' = deviceByKey s \<and>
    uuid_src s' = uuid_src s \<and> uuid_pos s \<le> uuid_pos s' \<and> (\<forall>k\<ge>uuid_pos s'. uuid_src s k \<noteq> i)"
proof -
  have inj: "inj (uuid_src s)" and fr: "\<And>k. k \<ge> uuid_pos s \<Longrightarrow> uuid_src s k \<noteq> '''' \<and>
      map_of (notifications s) (uuid_src s k) = None"
    using assms(1) by (auto simp: memory_inv_def uuid_fresh_def)
  show ?thesis
    using assms(2,3) fr inj
    by (auto simp: NewString_def memory_id_ok_def dest: injD split: if_splits)
qed

lemma notif_inv_insert:
  assumes "notif_inv s" "map_of (notifications s) (ID n) = None" "ID n \<noteq> ''''"
    "map_of (notifByKey s) (notif_key n) = None"
    "notifications s' = AList.update (ID n) n (notifications s)"
    "notifByKey s' = AList.update (notif_key n) (ID n) (notifByKey s)"
  shows "notif_inv s'"
proof -
  have k: "notif_key m \<noteq> notif_key n" if "map_of (notifications s) i = Some m" for i m
    using notif_invD(3) [OF assms(1) that] assms(4) by auto
  have i: "i \<noteq> ID n" if "map_of (notifByKey s) k = Some i" for i k
    using notif_invD(4) [OF assms(1) that] assms(2) by auto
  show ?thesis
    using assms(1,3) k i unfolding notif_inv_def assms(5,6)
    by (auto simp: go_map intro: inv_intros)
qed

lemma memory_create_new:
  assumes "memory_inv s" "memory_id_ok s (ID n)"
    "\<And>i m. map_of (notifications s) i = Some m \<Longrightarrow> notif_key m \<noteq> notif_key n"
  shows "\<exists>s' i. memory_CreateNotification s n = (s', n\<lparr>ID := i\<rparr>, Inr True) \<and> memory_inv s' \<and>
    i \<noteq> '''' \<and> map_of (notifications s) i = None \<and>
    map_of (notifications s') = (map_of (notifications s))(i \<mapsto> n\<lparr>ID := i\<rparr>) \<and>
    devices s' = devices s \<and> deviceByKey s' = deviceByKey s"
proof -
  obtain i t where it: "(if ID n = '''' then NewString s else (ID n, s)) = (i, t)"
    by (metis surj_pair)
  note t = memory_new_id [OF assms(1,2) it]
  have none: "map_of (notifByKey s) (notif_key n) = None"
    using assms(1,3) notif_invD(4) by (metis memory_inv_def not_None_eq)
  let ?n = "n\<lparr>ID := i\<rparr>"
  define s' where "s' = t\<lparr>notifications := AList.update i ?n (notifications s),
    notifByKey := AList.update (notif_key n) i (notifByKey s)\<rparr>"
  have "memory_CreateNotification s n = (s', ?n, Inr True)"
    using none it t by (simp add: memory_CreateNotification_def Let_def notif_key_def s'_def)
  moreover have "notif_inv s'"
  proof (rule notif_inv_insert [of s ?n])
    show "notif_inv s" using assms(1) by (simp add: memory_inv_def)
  qed (use none t in \<open>simp_all add: s'_def\<close>)
  moreover have "device_inv s'" "uuid_fresh s'"
    using assms(1) t
    by (auto simp: memory_inv_def device_inv_def uuid_fresh_def s'_def go_map)
  moreover have "map_of (notifications s') = (map_of (notifications s))(i \<mapsto> ?n)"
    by (simp add: s'_def update_conv')
  ultimately show ?thesis
    using t by (auto simp: memory_inv_def s'_def)
qed

subsection \<open>UpdateStatus\<close>

lemma memory_UpdateStatus_eq:
  "memory_UpdateStatus s t i st ms =
     (case map_of (notifications s) i of
        None \<Rightarrow> (s, Some ErrNotFound)
      | Some n \<Rightarrow> if TenantID n \<noteq> t then (s, Some ErrNotFound)
          else (s\<lparr>notifications := AList.update i (stamp_status st ms n) (notifications s)\<rparr>, None))"
  by (simp add: memory_UpdateStatus_def stamp_status_def Let_def split: option.split)

lemma memory_inv_update:
  assumes "memory_inv s" "map_of (notifications s) i = Some n"
  shows "memory_inv (s\<lparr>notifications := AList.update i (stamp_status st ms n) (notifications s)\<rparr>)"
proof -
  have "uuid_src s k \<noteq> i" if "k \<ge> uuid_pos s" for k
    using assms that by (auto simp: memory_inv_def uuid_fresh_def)
  with assms show ?thesis
    unfolding memory_inv_def
    by (auto simp: notif_inv_def device_inv_def uuid_fresh_def go_map intro: inv_intros)
       (metis option.inject)+
qed

subsection \<open>QueryUserNotifications\<close>

lemma query_loop_eq:
  "query_loop q ns matched unread =
     (matched @ filter (query_match q) ns,
      unread + int (length (filter (\<lambda>n. owned_by (q_TenantID q) (q_UserID q) n \<and> Status n \<noteq> StatusRead) ns)))"
  by (induction q ns matched unread rule: query_loop.induct)
     (auto simp: query_match_def owned_by_def Let_def split: option.splits)

definition rows_list :: "Memory \<Rightarrow> Notification list" where
  "rows_list s = map snd (notifications s)"

lemma rows_list:
  assumes "memory_inv s"
  shows "distinct (rows_list s)" and "set (rows_list s) = ran (map_of (notifications s))"
    and "inj_on ID (set (rows_list s))"
proof -
  have ok: "gomap_ok (notifications s)"
    and ids: "\<And>i n. (i, n) \<in> set (notifications s) \<Longrightarrow> ID n = i"
    using assms by (auto simp: memory_inv_def notif_inv_def gomap_in_set)
  have "inj_on snd (set (notifications s))"
    by (auto simp: inj_on_def) (metis ids)+
  then show "distinct (rows_list s)"
    using gomap_ok_distinct [OF ok] by (simp add: rows_list_def distinct_map)
  show "set (rows_list s) = ran (map_of (notifications s))"
    using gomap_values [OF ok] by (auto simp: rows_list_def ran_def)
  show "inj_on ID (set (rows_list s))"
    using ok ids by (auto simp: rows_list_def inj_on_def gomap_in_set)
qed

lemma memory_query_eq:
  "memory_QueryUserNotifications s q =
     (let lim = nat (ClampLimit (q_Limit q));
          xs = sort_Slice newest_first (filter (query_match q) (rows_list s))
      in Inr (take lim xs, cursor_of xs lim,
          int (length (filter (\<lambda>n. owned_by (q_TenantID q) (q_UserID q) n \<and> Status n \<noteq> StatusRead)
            (rows_list s)))))"
proof -
  define xs where "xs = sort_Slice newest_first (filter (query_match q) (rows_list s))"
  have l: "0 < ClampLimit (q_Limit q)" using ClampLimit_bounds [of "q_Limit q"] by simp
  show ?thesis
    unfolding memory_QueryUserNotifications_def query_loop_eq rows_list_def [symmetric]
    using page_cut [OF l, of xs]
    by (auto simp: Let_def xs_def [symmetric] split: if_splits simp del: length_sort_Slice)
qed

lemma memory_query_page:
  assumes "memory_inv s"
  shows "\<exists>p. memory_QueryUserNotifications s q = Inr p \<and> is_page (ran (map_of (notifications s))) q p"
proof -
  have "n \<in> ran (map_of (notifications s)) \<longleftrightarrow> n \<in> set (rows_list s)" for n by (simp add: rows_list(2) [OF assms])
  from is_page_sort [OF rows_list(1,3) [OF assms] this refl refl refl, of q]
  show ?thesis unfolding memory_query_eq Let_def by blast
qed

subsection \<open>The contract for notification rows holds\<close>

interpretation mem: notification_store memory_ops memory_inv
  "\<lambda>s. map_of (notifications s)" memory_id_ok "\<lambda>_. True" "\<lambda>_. True" "\<lambda>_. True"
proof (unfold_locales, goal_cases)
  case (1 s) then show ?case by (simp add: finite_dom_map_of)
next
  case (2 s i n) then show ?case by (auto simp: memory_inv_def dest: notif_invD)
next
  case (3 s i n j m)
  then show ?case using notif_invD(3) by (metis memory_inv_def option.inject)
next
  case (4 s) then show ?case by (simp add: memory_id_ok_def)
next
  case (7 s n) with memory_create_new [of s n] show ?case by auto
next
  case (8 s n i m) with memory_create_existing show ?case by auto
next
  case (9 s i t u)
  then show ?case
    by (simp add: memory_GetNotification_def owned_by_def split: option.split)
next
  case (10 s i t st ms)
  then show ?case by (simp add: memory_UpdateStatus_eq split: option.split)
next
  case (11 s st i n t ms)
  then show ?case
    using memory_inv_update [of s i n st ms] by (simp add: memory_UpdateStatus_eq update_conv')
next
  case (12 s q) from memory_query_page [OF 12(1)] show ?case unfolding memory_ops_simps .
qed simp_all

subsection \<open>Devices\<close>

definition device_of :: "Memory \<Rightarrow> devKey \<Rightarrow> Device option" where
  "device_of s k = (case map_of (deviceByKey s) k of None \<Rightarrow> None | Some i \<Rightarrow> map_of (devices s) i)"

lemma device_invD:
  assumes "device_inv s"
  shows "map_of (devices s) i = Some d \<Longrightarrow> dev_ID d = i"
    and "map_of (devices s) i = Some d \<Longrightarrow> map_of (deviceByKey s) (dev_key d) = Some i"
    and "map_of (deviceByKey s) k = Some i \<Longrightarrow> \<exists>d. map_of (devices s) i = Some d \<and> dev_key d = k"
  using assms by (auto simp: device_inv_def)

lemma device_of_iff:
  assumes "device_inv s"
  shows "device_of s k = Some d \<longleftrightarrow> dev_key d = k \<and> (\<exists>i. map_of (devices s) i = Some d)"
proof
  assume "device_of s k = Some d"
  then obtain i where "map_of (deviceByKey s) k = Some i" "map_of (devices s) i = Some d"
    by (auto simp: device_of_def split: option.splits)
  with device_invD(3) [OF assms] show "dev_key d = k \<and> (\<exists>i. map_of (devices s) i = Some d)" by force
next
  assume "dev_key d = k \<and> (\<exists>i. map_of (devices s) i = Some d)"
  then obtain i where "map_of (devices s) i = Some d" "map_of (deviceByKey s) k = Some i"
    using device_invD(2) [OF assms] by blast
  then show "device_of s k = Some d" by (simp add: device_of_def)
qed

lemma memory_new_device_id:
  assumes "memory_inv s" "memory_dev_id_ok s (dev_ID d)"
    "(if dev_ID d = '''' then NewString s else (dev_ID d, s)) = (i, s')"
  shows "map_of (devices s) i = None \<and> i \<noteq> '''' \<and> notifications s' = notifications s \<and>
    notifByKey s' = notifByKey s \<and> devices s' = devices s \<and> deviceByKey s' = deviceByKey s \<and>
    uuid_src s' = uuid_src s \<and> uuid_pos s \<le> uuid_pos s' \<and> (\<forall>k\<ge>uuid_pos s'. uuid_src s k \<noteq> i)"
proof -
  have inj: "inj (uuid_src s)" and fr: "\<And>k. k \<ge> uuid_pos s \<Longrightarrow> map_of (devices s) (uuid_src s k) = None"
    and ne: "\<And>k. k \<ge> uuid_pos s \<Longrightarrow> uuid_src s k \<noteq> ''''"
    using assms(1) by (auto simp: memory_inv_def uuid_fresh_def)
  show ?thesis
    using assms(2,3) fr inj ne
    by (auto simp: NewString_def memory_dev_id_ok_def dest: injD split: if_splits)
qed

lemma memory_upsert_new:
  assumes "memory_inv s" "memory_dev_id_ok s (dev_ID d)" "device_of s (dev_key d) = None"
  shows "\<exists>s' i. memory_UpsertDevice s d = (s', d\<lparr>dev_ID := i\<rparr>, Inr (d\<lparr>dev_ID := i\<rparr>)) \<and>
    memory_inv s' \<and> fresh_dev_id (device_of s) i \<and> device_of s' = (device_of s)(dev_key d \<mapsto> d\<lparr>dev_ID := i\<rparr>)"
proof -
  have di: "device_inv s" using assms(1) by (simp add: memory_inv_def)
  obtain i t where it: "(if dev_ID d = '''' then NewString s else (dev_ID d, s)) = (i, t)"
    by (metis surj_pair)
  note t = memory_new_device_id [OF assms(1,2) it]
  have none: "map_of (deviceByKey s) (dev_key d) = None"
    using device_invD(3) [OF di, of "dev_key d"] assms(3)
    by (cases "map_of (deviceByKey s) (dev_key d)") (auto simp: device_of_def)
  let ?d = "d\<lparr>dev_ID := i\<rparr>"
  define s' where "s' = t\<lparr>devices := AList.update i ?d (devices s),
    deviceByKey := AList.update (dev_key d) i (deviceByKey s)\<rparr>"
  have kd: "dev_key ?d = dev_key d" by (simp add: dev_key_def)
  have "memory_UpsertDevice s d = (s', ?d, Inr ?d)"
    using none it t by (simp add: memory_UpsertDevice_def Let_def dev_key_def s'_def)
  moreover have k: "dev_key e \<noteq> dev_key d" if "map_of (devices s) j = Some e" for j e
    using device_invD(2) [OF di that] none by auto
  have i: "j \<noteq> i" if "map_of (deviceByKey s) k = Some j" for j k
    using device_invD(3) [OF di that] t by auto
  have "device_inv s'"
    using di k i kd unfolding device_inv_def s'_def by (auto simp: go_map intro: inv_intros)
  moreover have "notif_inv s'" "uuid_fresh s'"
    using assms(1) t by (auto simp: memory_inv_def notif_inv_def uuid_fresh_def s'_def go_map)
  moreover have "device_of s' = (device_of s)(dev_key d \<mapsto> ?d)"
    using i by (auto simp: device_of_def s'_def go_map fun_eq_iff split: option.split)
  moreover have "fresh_dev_id (device_of s) i"
    using t device_invD(1) [OF di] by (auto simp: fresh_dev_id_def ran_def device_of_iff [OF di])
  ultimately show ?thesis by (auto simp: memory_inv_def)
qed

lemma memory_upsert_existing:
  assumes "memory_inv s" "device_of s (dev_key d) = Some e"
  shows "\<exists>s' d'. memory_UpsertDevice s d =
      (s', d', Inr (e\<lparr>dev_Token := dev_Token d, dev_LastActiveMS := dev_LastActiveMS d\<rparr>)) \<and>
    memory_inv s' \<and> device_of s' =
      (device_of s)(dev_key d \<mapsto> e\<lparr>dev_Token := dev_Token d, dev_LastActiveMS := dev_LastActiveMS d\<rparr>)"
proof -
  let ?e = "e\<lparr>dev_Token := dev_Token d, dev_LastActiveMS := dev_LastActiveMS d\<rparr>"
  have di: "device_inv s" using assms(1) by (simp add: memory_inv_def)
  from assms(2) obtain i where i: "map_of (deviceByKey s) (dev_key d) = Some i"
    "map_of (devices s) i = Some e"
    by (auto simp: device_of_def split: option.splits)
  have ke: "dev_key e = dev_key d" "dev_ID e = i"
    using i device_invD [OF di] by (metis option.inject)+
  then have ke': "dev_key ?e = dev_key d" by (simp add: dev_key_def)
  define s' where "s' = s\<lparr>devices := AList.update i ?e (devices s)\<rparr>"
  have "memory_UpsertDevice s d = (s', d, Inr ?e)"
    using i by (simp add: memory_UpsertDevice_def Let_def dev_key_def s'_def)
  moreover have "device_inv s'"
    using di i ke ke' unfolding device_inv_def s'_def
    by (auto simp: go_map intro: inv_intros) (metis option.inject)+
  moreover have "notif_inv s'" "uuid_fresh s'"
    using assms(1) i by (auto simp: memory_inv_def notif_inv_def uuid_fresh_def s'_def go_map)
  moreover have "j = i \<longleftrightarrow> k = dev_key d" if "map_of (deviceByKey s) k = Some j" for j k
    using device_invD(3) [OF di that] i ke(1) that by auto
  then have "device_of s' = (device_of s)(dev_key d \<mapsto> ?e)"
    using i by (auto simp: device_of_def s'_def go_map fun_eq_iff split: option.split)
  ultimately show ?thesis by (auto simp: memory_inv_def)
qed

lemma memory_list_devices:
  assumes "memory_inv s"
  shows "\<exists>ds. memory_ListDevices s t u = Inr ds \<and> distinct ds \<and>
    set ds = {d. \<exists>dt. device_of s \<lparr>dk_Tenant = t, dk_User = u, dk_DeviceType = dt\<rparr> = Some d} \<and>
    sorted_wrt (\<lambda>a b. dev_DeviceType a < dev_DeviceType b) ds"
proof -
  have di: "device_inv s" and ok: "gomap_ok (devices s)"
    using assms by (auto simp: memory_inv_def device_inv_def)
  have ids: "\<And>i d. (i, d) \<in> set (devices s) \<Longrightarrow> dev_ID d = i"
    using device_invD(1) [OF di] ok by (auto simp: gomap_in_set)
  have "inj_on snd (set (devices s))" by (auto simp: inj_on_def) (metis ids)+
  then have d: "distinct (map snd (devices s))"
    using gomap_ok_distinct [OF ok] by (simp add: distinct_map)
  have "device_of s k = Some e \<longleftrightarrow> e \<in> set (map snd (devices s)) \<and> dev_key e = k" for k e
    using gomap_values [OF ok, of e] by (auto simp: device_of_iff [OF di])
  from device_list_sort [OF d this refl] show ?thesis by (auto simp: memory_ListDevices_def)
qed

interpretation memdev: device_store memory_ops memory_inv device_of memory_dev_id_ok "\<lambda>_. True" "\<lambda>_. True"
proof (unfold_locales, goal_cases)
  case (1 s k d) then show ?case by (simp add: memory_inv_def device_of_iff)
next
  case (2 s) then show ?case by (simp add: memory_dev_id_ok_def)
next
  case (3 s d)
  from memory_upsert_new [OF 3(1,2,4)] show ?case unfolding memory_ops_simps by blast
next
  case (4 s d e)
  from memory_upsert_existing [OF 4(1,4)] show ?case unfolding memory_ops_simps .
next
  case (5 s t u) from memory_list_devices [OF 5(1)] show ?case unfolding memory_ops_simps .
qed

text \<open>Rows and devices are apart, so every history of calls refines the abstract store.\<close>

text \<open>A supply of ids.\<close>

definition row_ids :: "nat \<Rightarrow> string" where
  "row_ids k = replicate (Suc k) (CHR ''i'')"

lemma row_ids_ok: "inj row_ids" "'''' \<notin> range row_ids"
  by (auto simp: row_ids_def inj_def dest: arg_cong [where f = length])

interpretation memfull: full_store memory_ops memory_inv "\<lambda>s. map_of (notifications s)" memory_id_ok "\<lambda>_. True" "\<lambda>_. True"
  "\<lambda>_. True" device_of memory_dev_id_ok "\<lambda>_. True"
proof (unfold_locales, goal_cases)
  case (1 s n s' nr)
  then show ?case
    by (auto simp: memory_CreateNotification_def NewString_def device_of_def fun_eq_iff Let_def split: option.splits if_splits)
next
  case (2 s i st t ms s' e)
  then show ?case by (auto simp: memory_UpdateStatus_def device_of_def fun_eq_iff Let_def split: option.splits if_splits)
next
  case (3 s d s' dr)
  then show ?case by (auto simp: memory_UpsertDevice_def NewString_def Let_def split: option.splits if_splits)
qed

end
