(* ===== verification/Handlers.thy ===== *)
theory Handlers
  imports Live Memory_Store
begin

text \<open>
  \<open>internal/server/handlers.go\<close>: the bodies of the remote calls, over any store. Their state is
  the store's state and the live side (connections, streams, retries, clock). They are proved
  against the store contract: what each call may read or change, on every branch. The chains of
  interceptors around them are in theory \<open>Auth\<close>; \<open>serve_rpc\<close> lifts a handler under them.
\<close>

subsection \<open>State and requests\<close>

record 's Backend =
  bk_store :: 's
  bk_sys :: Sys

definition bk_live :: "'s Backend \<Rightarrow> Live" where
  "bk_live b = sys_live (bk_sys b)"

definition set_live :: "'s Backend \<Rightarrow> Live \<Rightarrow> 's Backend" where
  "set_live b w = b\<lparr>bk_sys := (bk_sys b)\<lparr>sys_live := w\<rparr>\<rparr>"

text \<open>The generated getters return the zero value on a nil message.\<close>

definition getter :: "('m \<Rightarrow> 'v) \<Rightarrow> 'v \<Rightarrow> 'm Request \<Rightarrow> 'v" where
  "getter f zero req = (case rq_Msg req of None \<Rightarrow> zero | Some m \<Rightarrow> f m)"

definition missing_claims :: goerror where
  "missing_claims = Connect CodeUnauthenticated (New ''notify: claims missing on context'')"

definition invalid :: "string \<Rightarrow> goerror" where
  "invalid msg = Connect CodeInvalidArgument (New msg)"

definition internal_err :: "string \<Rightarrow> goerror \<Rightarrow> goerror" where
  "internal_err msg e = Connect CodeInternal (Errorf msg [] (Some e))"

subsection \<open>NotificationInternalService\<close>

record 's internalHandler =
  ih_notifier :: "('s, Live) Notifier"

definition newInternalHandler :: "('s, Live) Notifier \<Rightarrow> 's internalHandler" where
  "newInternalHandler n = \<lparr>ih_notifier = n\<rparr>"

definition internal_Notify ::
  "'s internalHandler \<Rightarrow> (pb_NotifyRequest, pb_NotifyResponse, 's Backend) UnaryFunc" where
  "internal_Notify h ctx req b =
     (case rq_Msg req of
        None \<Rightarrow> (b, Err (invalid ''notify: nil request''))
      | Some msg \<Rightarrow>
          (case validateNotifyRequest msg of
             Some err \<Rightarrow> (b, Err (Connect CodeInvalidArgument err))
           | None \<Rightarrow>
               let domainReq = notifyRequestFromProto msg;
                   (s, w, res, err) = Notify (ih_notifier h) domainReq (bk_store b) (bk_live b);
                   b = set_live (b\<lparr>bk_store := s\<rparr>) w
               in case err of
                    Some e \<Rightarrow> (b, Err (internal_err ''notify: %w'' e))
                  | None \<Rightarrow>
                      (b, Ok \<lparr>pb_Delivered = to_int32 (Delivered res), pb_Pending = to_int32 (Pending res),
                              pb_Failed = to_int32 (Failed res)\<rparr>)))"

subsection \<open>NotificationClientService\<close>

record 's clientHandler =
  ch_store :: "'s StoreOps"
  ch_stream :: "streamHandler option"
  ch_now :: "Live \<Rightarrow> int \<times> Live"

definition newClientHandler ::
  "'s StoreOps \<Rightarrow> streamHandler option \<Rightarrow> (Live \<Rightarrow> int \<times> Live) \<Rightarrow> 's clientHandler" where
  "newClientHandler store stream now = \<lparr>ch_store = store, ch_stream = stream, ch_now = now\<rparr>"

text \<open>The first half of \<open>GetNotifications\<close>: the query of the request, or the cursor error.\<close>

definition notifications_query :: "Claims \<Rightarrow> GetNotificationsRequest Request \<Rightarrow> goerror + Query" where
  "notifications_query claims req =
     (let q = \<lparr>q_TenantID = cl_TenantID claims, q_UserID = cl_UserID claims, q_CursorMS = None,
               q_Limit = getter gn_Limit 0 req, q_UnreadOnly = getter gn_UnreadOnly False req\<rparr>;
          c = getter gn_Cursor '''' req
      in if c \<noteq> '''' then
           (case decodeCursor c of
              Inl err \<Rightarrow> Inl (Connect CodeInvalidArgument (Errorf ''notify: cursor: %w'' [] (Some err)))
            | Inr ms \<Rightarrow> Inr (q\<lparr>q_CursorMS := Some ms\<rparr>))
         else Inr q)"

definition client_GetNotifications ::
  "'s clientHandler \<Rightarrow> (GetNotificationsRequest, GetNotificationsResponse, 's Backend) UnaryFunc" where
  "client_GetNotifications h ctx req b =
     (case ClaimsFromContext ctx of
        None \<Rightarrow> (b, Err missing_claims)
      | Some claims \<Rightarrow>
          (case notifications_query claims req of
             Inl err \<Rightarrow> (b, Err err)
           | Inr q \<Rightarrow>
               (case QueryUserNotifications (ch_store h) (bk_store b) q of
                  Inl err \<Rightarrow> (b, Err (internal_err ''notify: query: %w'' err))
                | Inr (items, nxt, unread) \<Rightarrow>
                    (b, Ok \<lparr>gn_Notifications = map (\<lambda>n. notificationToProto (Some n)) items,
                            gn_NextCursor = nxt, gn_UnreadCount = to_int32 unread\<rparr>))))"

definition client_AckNotification :: "'s clientHandler \<Rightarrow> (string, unit, 's Backend) UnaryFunc" where
  "client_AckNotification h ctx req b =
     (case ClaimsFromContext ctx of
        None \<Rightarrow> (b, Err missing_claims)
      | Some claims \<Rightarrow>
          let id = TrimSpace (getter (\<lambda>i. i) '''' req)
          in if id = '''' then (b, Err (invalid ''id is required''))
             else case GetNotification (ch_store h) (bk_store b) (cl_TenantID claims) (cl_UserID claims) id of
               Inl err \<Rightarrow>
                 if errors_Is err ErrNotFound then (b, Err (Connect CodeNotFound err))
                 else (b, Err (internal_err ''notify: ack lookup: %w'' err))
             | Inr _ \<Rightarrow>
                 let (ms, w) = ch_now h (bk_live b);
                     b = set_live b w;
                     (s, err) = UpdateStatus (ch_store h) (bk_store b) (cl_TenantID claims) id StatusRead ms;
                     b = b\<lparr>bk_store := s\<rparr>
                 in case err of
                      Some e \<Rightarrow>
                        if errors_Is e ErrNotFound then (b, Err (Connect CodeNotFound e))
                        else (b, Err (internal_err ''notify: ack: %w'' e))
                    | None \<Rightarrow> (b, Ok ()))"

definition client_AckDataChange :: "'s clientHandler \<Rightarrow> (AckDataChangeRequest, unit, 's Backend) UnaryFunc" where
  "client_AckDataChange h ctx req b =
     (case ClaimsFromContext ctx of
        None \<Rightarrow> (b, Err missing_claims)
      | Some _ \<Rightarrow>
          let key = TrimSpace (getter ad_IdempotencyKey '''' req);
              sess = TrimSpace (getter ad_SessionId '''' req)
          in if key = '''' \<or> sess = '''' then (b, Err (invalid ''idempotency_key and session_id are required''))
             else case ch_stream h of
               None \<Rightarrow> (b, Ok ())
             | Some _ \<Rightarrow>
                 let w = bk_live b
                 in (set_live b (w\<lparr>lv_retries := Ack (lv_retries w) key sess\<rparr>), Ok ()))"

definition client_RegisterPushToken ::
  "'s clientHandler \<Rightarrow> (RegisterPushTokenRequest, unit, 's Backend) UnaryFunc" where
  "client_RegisterPushToken h ctx req b =
     (case ClaimsFromContext ctx of
        None \<Rightarrow> (b, Err missing_claims)
      | Some claims \<Rightarrow>
          let dt = deviceTypeFromProto (getter rp_DeviceType 0 req)
          in if dt = '''' then (b, Err (invalid ''device_type must be set''))
             else let token = TrimSpace (getter rp_Token '''' req)
             in if token = '''' then (b, Err (invalid ''token is required''))
             else
               let (ms, w) = ch_now h (bk_live b);
                   b = set_live b w;
                   d = \<lparr>dev_ID = '''', dev_TenantID = cl_TenantID claims, dev_UserID = cl_UserID claims,
                        dev_DeviceType = dt, dev_Token = token, dev_CreatedAtMS = 0, dev_LastActiveMS = ms\<rparr>;
                   (s, d, res) = UpsertDevice (ch_store h) (bk_store b) d;
                   b = b\<lparr>bk_store := s\<rparr>
               in case res of
                    Inl err \<Rightarrow> (b, Err (internal_err ''notify: upsert device: %w'' err))
                  | Inr _ \<Rightarrow> (b, Ok ()))"

text \<open>\<open>StreamEvents\<close> up to the point where the stream enters its loop (see \<open>serve_start\<close>); the
  argument \<open>send\<close> is the result of sending the handshake.\<close>

definition client_StreamEvents ::
  "'s clientHandler \<Rightarrow> goerror option \<Rightarrow> (DeviceType, unit, 's Backend) UnaryFunc" where
  "client_StreamEvents h send ctx req b =
     (case ch_stream h of
        None \<Rightarrow> (b, Err (Connect CodeUnimplemented (New ''notify: live connections disabled'')))
      | Some sh \<Rightarrow>
          let (sys, err) = serve_start sh (bk_sys b) ctx (getter (\<lambda>d. d) 0 req) send;
              b = b\<lparr>bk_sys := sys\<rparr>
          in case err of Some e \<Rightarrow> (b, Err e) | None \<Rightarrow> (b, Ok ()))"

text \<open>\<open>streamAuthShim\<close> of \<open>middleware.go\<close>: streams are authenticated here; the unary calls are
  forwarded, since the unary interceptor has authenticated them.\<close>

record 's streamAuthShim =
  sh_inner :: "'s clientHandler"
  sh_auth :: AuthValidator

definition newStreamAuthShim :: "'s clientHandler \<Rightarrow> AuthValidator \<Rightarrow> 's streamAuthShim" where
  "newStreamAuthShim inner auth = \<lparr>sh_inner = inner, sh_auth = auth\<rparr>"

definition shim_StreamEvents ::
  "'s streamAuthShim \<Rightarrow> goerror option \<Rightarrow> (DeviceType, unit, 's Backend) UnaryFunc" where
  "shim_StreamEvents s send ctx req b =
     (case authenticateStreamReq ctx (sh_auth s) (rq_Header req ''Authorization'') of
        (ctx, Some err) \<Rightarrow> (b, Err err)
      | (ctx, None) \<Rightarrow> client_StreamEvents (sh_inner s) send ctx req b)"

definition shim_GetNotifications ::
  "'s streamAuthShim \<Rightarrow> (GetNotificationsRequest, GetNotificationsResponse, 's Backend) UnaryFunc" where
  "shim_GetNotifications s ctx req b = client_GetNotifications (sh_inner s) ctx req b"

definition shim_AckNotification :: "'s streamAuthShim \<Rightarrow> (string, unit, 's Backend) UnaryFunc" where
  "shim_AckNotification s ctx req b = client_AckNotification (sh_inner s) ctx req b"

definition shim_AckDataChange :: "'s streamAuthShim \<Rightarrow> (AckDataChangeRequest, unit, 's Backend) UnaryFunc" where
  "shim_AckDataChange s ctx req b = client_AckDataChange (sh_inner s) ctx req b"

definition shim_RegisterPushToken ::
  "'s streamAuthShim \<Rightarrow> (RegisterPushTokenRequest, unit, 's Backend) UnaryFunc" where
  "shim_RegisterPushToken s ctx req b = client_RegisterPushToken (sh_inner s) ctx req b"

text \<open>A handler under the interceptors.\<close>

definition serve_rpc :: "('m, 'a, 's) UnaryFunc \<Rightarrow> ('m, 'a, 's Rpc) UnaryFunc" where
  "serve_rpc h ctx req r = (let (s, res) = h ctx req (rpc_state r) in (r\<lparr>rpc_state := s\<rparr>, res))"

lemma serve_rpc_state [simp]:
  "rpc_state (fst (serve_rpc h ctx req r)) = fst (h ctx req (rpc_state r))"
  "snd (serve_rpc h ctx req r) = snd (h ctx req (rpc_state r))"
  by (simp_all add: serve_rpc_def split: prod.split)

lemma bk_simps [simp]:
  "bk_store (set_live b w) = bk_store b" "bk_live (set_live b w) = w"
  "sys_streams (bk_sys (set_live b w)) = sys_streams (bk_sys b)"
  by (simp_all add: set_live_def bk_live_def)


subsection \<open>The handlers against the store contract\<close>

context notification_store
begin

text \<open>An acknowledgement touches at most the one row it names, and only when the caller owns it.\<close>

lemma ack_found:
  assumes "inv (bk_store b)" "ch_store h = ops" "ctx = Some cl" "i = TrimSpace (getter (\<lambda>i. i) '''' req)" "i \<noteq> ''''"
    "row (bk_store b) i = Some n" "owned_by (cl_TenantID cl) (cl_UserID cl) n"
    "client_AckNotification h ctx req b = (b', res)"
  shows "res = Ok () \<and> inv (bk_store b') \<and>
    row (bk_store b') = (row (bk_store b))(i \<mapsto> stamp_status StatusRead (fst (ch_now h (bk_live b))) n)"
proof -
  obtain ms w where now: "ch_now h (bk_live b) = (ms, w)" by fastforce
  have t: "TenantID n = cl_TenantID cl" using assms(7) by (simp add: owned_by_def)
  obtain s' where u: "UpdateStatus ops (bk_store b) (cl_TenantID cl) i StatusRead ms = (s', None)" "inv s'"
    "row s' = (row (bk_store b))(i \<mapsto> stamp_status StatusRead ms n)"
    using update_found [OF assms(1) own_status_ok assms(6) t] by blast
  have "GetNotification ops (bk_store b) (cl_TenantID cl) (cl_UserID cl) i = Inr n"
    using assms(6,7) row_id_arg [OF assms(1,6)] by (simp add: get_spec [OF assms(1)])
  with u now assms(2-5,8) show ?thesis
    by (auto simp: client_AckNotification_def ClaimsFromContext_def Let_def)
qed

lemma ack_not_found:
  assumes "inv (bk_store b)" "ch_store h = ops" "ctx = Some cl" "i = TrimSpace (getter (\<lambda>i. i) '''' req)" "i \<noteq> ''''"
    "\<And>n. row (bk_store b) i = Some n \<Longrightarrow> \<not> owned_by (cl_TenantID cl) (cl_UserID cl) n" "id_arg i"
  shows "client_AckNotification h ctx req b = (b, Err (Connect CodeNotFound ErrNotFound))"
proof -
  have "GetNotification ops (bk_store b) (cl_TenantID cl) (cl_UserID cl) i = Inl ErrNotFound"
    using assms(6,7) by (simp add: get_spec [OF assms(1)] split: option.split)
  with assms(2-5) show ?thesis
    by (simp add: client_AckNotification_def ClaimsFromContext_def Let_def)
qed

lemma get_notifications_page:
  assumes "inv (bk_store b)" "ch_store h = ops" "ctx = Some cl" "arg_ok (cl_TenantID cl)" "arg_ok (cl_UserID cl)"
  shows "case notifications_query cl req of
      Inl e \<Rightarrow> client_GetNotifications h ctx req b = (b, Err e)
    | Inr q \<Rightarrow> \<exists>items nxt unread. is_page (ran (row (bk_store b))) q (items, nxt, unread) \<and>
        client_GetNotifications h ctx req b =
          (b, Ok \<lparr>gn_Notifications = map (\<lambda>n. notificationToProto (Some n)) items,
                  gn_NextCursor = nxt, gn_UnreadCount = to_int32 unread\<rparr>)"
proof (cases "notifications_query cl req")
  case (Inr q)
  then have q: "q_TenantID q = cl_TenantID cl" "q_UserID q = cl_UserID cl"
    by (auto simp: notifications_query_def Let_def split: if_splits sum.splits)
  obtain items nxt unread where p: "QueryUserNotifications ops (bk_store b) q = Inr (items, nxt, unread)"
      "is_page (ran (row (bk_store b))) q (items, nxt, unread)"
    using query_page [OF assms(1), of q] assms(4,5) q by (metis surj_pair)
  show ?thesis
    unfolding Inr sum.case
    by (intro exI [of _ items] exI [of _ nxt] exI [of _ unread])
       (use p Inr assms(2,3) in \<open>simp add: client_GetNotifications_def ClaimsFromContext_def\<close>)
qed (use assms(3) in \<open>simp add: client_GetNotifications_def ClaimsFromContext_def\<close>)

end

context device_store
begin

lemma register_token:
  assumes "inv (bk_store b)" "ch_store h = ops" "ctx = Some cl"
    "dt = deviceTypeFromProto (getter rp_DeviceType 0 req)" "dt \<noteq> ''''"
    "tok = TrimSpace (getter rp_Token '''' req)" "tok \<noteq> ''''"
    "client_RegisterPushToken h ctx req b = (b', res)"
    "\<And>ms. dev_ok \<lparr>dev_ID = '''', dev_TenantID = cl_TenantID cl, dev_UserID = cl_UserID cl,
      dev_DeviceType = dt, dev_Token = tok, dev_CreatedAtMS = 0, dev_LastActiveMS = ms\<rparr>"
  shows "res = Ok () \<and> inv (bk_store b') \<and>
    (\<exists>d. dev_Token d = tok \<and> dev_key d = \<lparr>dk_Tenant = cl_TenantID cl, dk_User = cl_UserID cl, dk_DeviceType = dt\<rparr> \<and>
       dev (bk_store b') = (dev (bk_store b))(dev_key d \<mapsto> d))"
proof -
  obtain ms w where now: "ch_now h (bk_live b) = (ms, w)" by fastforce
  define d where "d = \<lparr>dev_ID = '''', dev_TenantID = cl_TenantID cl, dev_UserID = cl_UserID cl,
      dev_DeviceType = dt, dev_Token = tok, dev_CreatedAtMS = 0, dev_LastActiveMS = ms\<rparr>"
  have "dev_id_ok (bk_store b) (dev_ID d)" using dev_id_ok_empty [OF assms(1)] by (simp add: d_def)
  from upsert_last_write_wins [OF assms(1) this assms(9) [of ms, folded d_def]] obtain s' d' r where
    u: "UpsertDevice ops (bk_store b) d = (s', d', Inr r)" "inv s'" "dev_key r = dev_key d"
    "dev_Token r = dev_Token d" "dev s' = (dev (bk_store b))(dev_key d \<mapsto> r)" by metis
  have "b' = (set_live b w)\<lparr>bk_store := s'\<rparr> \<and> res = Ok ()"
    using u(1) now assms(2-8) by (simp add: client_RegisterPushToken_def ClaimsFromContext_def Let_def d_def)
  with u show ?thesis
    by (intro conjI exI [of _ r]) (simp_all add: d_def dev_key_def)
qed

end

subsection \<open>The orchestrator on the memory store and the live provider\<close>

interpretation mem_inapp: dispatch memory_ops memory_inv "\<lambda>s. map_of (notifications s)" memory_id_ok
  "\<lambda>_. True" "\<lambda>_. True" "\<lambda>_. True" "newInAppProvider has_reg" for has_reg
  by unfold_locales

end
