(* ===== verification/Json.thy ===== *)
theory Json
  imports GoStrings
begin

text \<open>
  The parts of \<open>encoding/json\<close> and \<open>unicode/utf8\<close> the channel providers use. \<open>parse_json\<close> is the
  scanner and value decoder of \<open>json.Unmarshal\<close>: whitespace, the nesting limit, string escapes
  with surrogate pairs, and bytes that are not UTF-8 replaced by U+FFFD. \<open>Marshal\<close> is the encoder
  with HTML escaping. Struct decoding follows \<open>decode.go\<close>: a field name matches exactly or by case
  folding, a value of the wrong type is skipped, remembered and reported at the end, and
  \<open>null\<close> leaves a field as it is. The text of a syntax error is not modelled.

  The parser recurses with fuel; every call on the way down consumes input or is followed by one
  that does, so twice the length of the input is enough (\<open>parse_fuel_enough\<close>). The main result is
  the round trip \<open>parse_json (encode v) = Some v\<close> on values whose strings are valid UTF-8.
\<close>

subsection \<open>UTF-8\<close>

abbreviation byte :: "char \<Rightarrow> nat" where "byte c \<equiv> of_char c"

definition byte_in :: "nat \<Rightarrow> nat \<Rightarrow> char \<Rightarrow> bool" where
  "byte_in lo hi c \<longleftrightarrow> lo \<le> byte c \<and> byte c \<le> hi"

text \<open>The bounds of the second byte after a lead byte, with the number of bytes that follow it.\<close>

definition rune_lead :: "char \<Rightarrow> (nat \<times> nat \<times> nat) option" where
  "rune_lead c =
     (if byte_in 0xC2 0xDF c then Some (0x80, 0xBF, 0)
      else if byte c = 0xE0 then Some (0xA0, 0xBF, 1)
      else if byte c = 0xED then Some (0x80, 0x9F, 1)
      else if byte_in 0xE1 0xEF c then Some (0x80, 0xBF, 1)
      else if byte c = 0xF0 then Some (0x90, 0xBF, 2)
      else if byte_in 0xF1 0xF3 c then Some (0x80, 0xBF, 2)
      else if byte c = 0xF4 then Some (0x80, 0x8F, 2)
      else None)"

text \<open>The number of bytes of the first rune of a string that is not empty, as
  \<open>utf8.DecodeRune\<close> finds it; \<open>None\<close> is \<open>RuneError\<close> with width 1.\<close>

definition rune_len :: "string \<Rightarrow> nat option" where
  "rune_len s =
     (case s of
        [] \<Rightarrow> None
      | c # cs \<Rightarrow>
          if byte c < 0x80 then Some 1
          else case rune_lead c of
            None \<Rightarrow> None
          | Some (lo, hi, more) \<Rightarrow>
              if length cs > more \<and> byte_in lo hi (hd cs) \<and> list_all (byte_in 0x80 0xBF) (take more (tl cs))
              then Some (more + 2) else None)"

lemma rune_len_pos: "rune_len s = Some n \<Longrightarrow> 0 < n \<and> n \<le> length s"
  by (auto simp: rune_len_def split: list.splits if_splits option.splits)

definition encode_rune :: "nat \<Rightarrow> string" where
  "encode_rune r =
     (if r < 0x80 then [char_of r]
      else if r < 0x800 then [char_of (0xC0 + r div 64), char_of (0x80 + r mod 64)]
      else if r < 0x10000 then
        [char_of (0xE0 + r div 4096), char_of (0x80 + r div 64 mod 64), char_of (0x80 + r mod 64)]
      else [char_of (0xF0 + r div 262144), char_of (0x80 + r div 4096 mod 64),
            char_of (0x80 + r div 64 mod 64), char_of (0x80 + r mod 64)])"

definition RuneError :: string where
  "RuneError = [CHR 0xEF, CHR 0xBF, CHR 0xBD]"

subsection \<open>Values and tokens\<close>

datatype json =
    JNull
  | JBool bool
  | JNum string
  | JStr string
  | JArr "json list"
  | JObj "(string \<times> json) list"

definition is_ws :: "char \<Rightarrow> bool" where
  "is_ws c \<longleftrightarrow> c = CHR '' '' \<or> c = CHR 0x09 \<or> c = CHR 0x0A \<or> c = CHR 0x0D"

definition skip_ws :: "string \<Rightarrow> string" where
  "skip_ws s = dropWhile is_ws s"

lemma length_skip_ws: "length (skip_ws s) \<le> length s"
  by (simp add: skip_ws_def length_dropWhile_le)

definition hex_val :: "char \<Rightarrow> nat option" where
  "hex_val c =
     (if byte_in 48 57 c then Some (byte c - 48)
      else if byte_in 97 102 c then Some (byte c - 87)
      else if byte_in 65 70 c then Some (byte c - 55)
      else None)"

text \<open>Four hexadecimal digits.\<close>

definition hex4 :: "string \<Rightarrow> (nat \<times> string) option" where
  "hex4 s =
     (case s of
        a # b # c # d # rest \<Rightarrow>
          (case (hex_val a, hex_val b, hex_val c, hex_val d) of
             (Some x, Some y, Some z, Some w) \<Rightarrow> Some (((x * 16 + y) * 16 + z) * 16 + w, rest)
           | _ \<Rightarrow> None)
      | _ \<Rightarrow> None)"

lemma hex4_length: "hex4 s = Some (r, rest) \<Longrightarrow> length s = length rest + 4"
  by (auto simp: hex4_def split: list.splits option.splits)

definition is_surrogate :: "nat \<Rightarrow> bool" where
  "is_surrogate r \<longleftrightarrow> 0xD800 \<le> r \<and> r < 0xE000"

text \<open>\<open>getu4\<close> on what follows a surrogate and \<open>utf16.DecodeRune\<close> of the two; the rune is U+FFFD
  and nothing more is consumed when there is no matching second half.\<close>

definition surrogate_pair :: "nat \<Rightarrow> string \<Rightarrow> string \<times> string" where
  "surrogate_pair r s =
     (case (if take 2 s = [CHR 0x5C, CHR ''u''] then hex4 (drop 2 s) else None) of
        None \<Rightarrow> (RuneError, s)
      | Some (r2, rest) \<Rightarrow>
          if r < 0xDC00 \<and> 0xDC00 \<le> r2 \<and> r2 < 0xE000
          then (encode_rune ((r - 0xD800) * 1024 + (r2 - 0xDC00) + 0x10000), rest)
          else (RuneError, s))"

lemma surrogate_pair_length: "length (snd (surrogate_pair r s)) \<le> length s"
  by (auto simp: surrogate_pair_def split: option.splits if_splits dest!: hex4_length)

lemma surrogate_shorter:
  "hex4 s = Some (r, rest) \<Longrightarrow> length (snd (surrogate_pair r rest)) < Suc (Suc (length s))"
  using surrogate_pair_length [of r rest] hex4_length by fastforce

lemma rune_len_shorter: "rune_len (c # cs) = Some n \<Longrightarrow> length (drop n (c # cs)) < Suc (length cs)"
  using rune_len_pos [of "c # cs" n] by simp

text \<open>The escapes of one character: quote, backslash, slash, b, f, n, r and t.\<close>

definition simple_escape :: "char \<Rightarrow> char option" where
  "simple_escape c = map_of
     [(CHR 0x22, CHR 0x22), (CHR 0x5C, CHR 0x5C), (CHR 0x2F, CHR 0x2F), (CHR 0x62, CHR 0x08),
      (CHR 0x66, CHR 0x0C), (CHR 0x6E, CHR 0x0A), (CHR 0x72, CHR 0x0D), (CHR 0x74, CHR 0x09)] c"

definition consume :: "string \<Rightarrow> (string \<times> string) option \<Rightarrow> (string \<times> string) option" where
  "consume p r = map_option (\<lambda>(v, rest). (p @ v, rest)) r"

text \<open>A string literal, from behind its opening quote: the decoded value and the input behind the
  closing quote.\<close>

function parse_string :: "string \<Rightarrow> (string \<times> string) option" where
  "parse_string [] = None"
| "parse_string (c # cs) =
     (if c = CHR 0x22 then Some ([], cs)
      else if c = CHR 0x5C then
        (case cs of
           [] \<Rightarrow> None
         | e # es \<Rightarrow>
             (case simple_escape e of
                Some x \<Rightarrow> consume [x] (parse_string es)
              | None \<Rightarrow>
                  if e = CHR ''u'' then
                    (case hex4 es of
                       None \<Rightarrow> None
                     | Some (r, rest) \<Rightarrow>
                         if is_surrogate r
                         then consume (fst (surrogate_pair r rest)) (parse_string (snd (surrogate_pair r rest)))
                         else consume (encode_rune r) (parse_string rest))
                  else None))
      else if byte c < 0x20 then None
      else
        (case rune_len (c # cs) of
           Some n \<Rightarrow> consume (take n (c # cs)) (parse_string (drop n (c # cs)))
         | None \<Rightarrow> consume RuneError (parse_string cs)))"
  by pat_completeness auto
termination
  by (relation "measure length")
     (auto dest: hex4_length surrogate_shorter rune_len_shorter)

declare parse_string.simps [simp del]

lemma consume_Some: "consume p r = Some (v, rest) \<longleftrightarrow> (\<exists>u. r = Some (u, rest) \<and> v = p @ u)"
  by (auto simp: consume_def)

lemma consume_Some_length:
  "(\<And>v rest. r = Some (v, rest) \<Longrightarrow> length rest < n) \<Longrightarrow> consume p r = Some (v, rest) \<Longrightarrow> length rest < n"
  by (auto simp: consume_Some)

lemma parse_string_step:
  assumes "parse_string (c # cs) = Some (v, rest)"
  shows "rest = cs \<or> (\<exists>t u. parse_string t = Some (u, rest) \<and> length t \<le> length cs)"
proof -
  have s: "length (snd (surrogate_pair r q)) \<le> Suc (length es)" if "hex4 es = Some (r, q)" for r q es
    using surrogate_shorter [OF that] by simp
  have h: "length q \<le> Suc (length es)" if "hex4 es = Some (r, q)" for r q es
    using hex4_length [OF that] by simp
  have d: "length (drop n (c # cs)) \<le> length cs" if "rune_len (c # cs) = Some n" for n
    using rune_len_shorter [OF that] by simp
  show ?thesis
    using assms unfolding parse_string.simps(2)
    by (auto simp only: consume_Some option.inject prod.inject option.distinct(1) list.case list.size option.case prod.case
          split: if_splits list.splits option.splits prod.splits)
       (use s h d in \<open>force | fastforce\<close>)+
qed

lemma parse_string_length: "parse_string s = Some (v, rest) \<Longrightarrow> length rest < length s"
proof (induction s arbitrary: v rest rule: length_induct)
  case (1 s)
  show ?case
  proof (cases s)
    case Nil
    with 1(2) show ?thesis by (simp add: parse_string.simps)
  next
    case (Cons c cs)
    with 1(2) parse_string_step [of c cs v rest]
    consider "rest = cs" | t u where "parse_string t = Some (u, rest)" "length t \<le> length cs" by blast
    then show ?thesis
    proof cases
      case 2
      with Cons have "length t < length s" by simp
      with 1(1) 2(1) have "length rest < length t" by blast
      with \<open>length t < length s\<close> show ?thesis by simp
    qed (simp add: Cons)
  qed
qed

definition is_digit :: "char \<Rightarrow> bool" where
  "is_digit c \<longleftrightarrow> byte_in 48 57 c"

text \<open>An optional part of a number: a marker, then for the exponent an optional sign, then at least
  one digit.\<close>

definition parse_digits :: "string \<Rightarrow> (string \<times> string) option" where
  "parse_digits s = (if takeWhile is_digit s = [] then None else Some (takeWhile is_digit s, dropWhile is_digit s))"

definition parse_frac :: "string \<Rightarrow> (string \<times> string) option" where
  "parse_frac s =
     (case s of
        [] \<Rightarrow> Some ([], s)
      | c # cs \<Rightarrow> if c = CHR ''.'' then consume [c] (parse_digits cs) else Some ([], s))"

definition parse_exp :: "string \<Rightarrow> (string \<times> string) option" where
  "parse_exp s =
     (case s of
        [] \<Rightarrow> Some ([], s)
      | c # cs \<Rightarrow>
          if c = CHR ''e'' \<or> c = CHR ''E'' then
            (case cs of
               [] \<Rightarrow> None
             | d # ds \<Rightarrow>
                 if d = CHR ''+'' \<or> d = CHR ''-'' then consume [c, d] (parse_digits ds)
                 else consume [c] (parse_digits cs))
          else Some ([], s))"

text \<open>The integer part: a single zero, or digits that start with another one.\<close>

definition parse_int_part :: "string \<Rightarrow> (string \<times> string) option" where
  "parse_int_part s =
     (case s of
        [] \<Rightarrow> None
      | c # cs \<Rightarrow> if c = CHR ''0'' then Some ([c], cs) else parse_digits s)"

definition then_part ::
  "(string \<Rightarrow> (string \<times> string) option) \<Rightarrow> (string \<times> string) option \<Rightarrow> (string \<times> string) option" where
  "then_part p r = (case r of None \<Rightarrow> None | Some (v, rest) \<Rightarrow> consume v (p rest))"

definition parse_number :: "string \<Rightarrow> (string \<times> string) option" where
  "parse_number s =
     (let (sign, s) = (if s \<noteq> [] \<and> hd s = CHR ''-'' then ([CHR ''-''], tl s) else ([], s))
      in consume sign (then_part parse_exp (then_part parse_frac (parse_int_part s))))"

definition maxNestingDepth :: nat where "maxNestingDepth = 10000"

text \<open>A value, the members of an object behind its opening brace, and the elements of an array
  behind its opening bracket.\<close>

definition head_is :: "char \<Rightarrow> string \<Rightarrow> bool" where
  "head_is c s \<longleftrightarrow> s \<noteq> [] \<and> hd s = c"

definition literal :: "string \<Rightarrow> json \<Rightarrow> string \<Rightarrow> (json \<times> string) option" where
  "literal w v s = (if prefix w s then Some (v, drop (length w) s) else None)"

definition wrap :: "('a \<Rightarrow> 'b) \<Rightarrow> ('a \<times> string) option \<Rightarrow> ('b \<times> string) option" where
  "wrap f r = map_option (\<lambda>(v, rest). (f v, rest)) r"

fun parse_value :: "nat \<Rightarrow> nat \<Rightarrow> string \<Rightarrow> (json \<times> string) option"
  and parse_members :: "nat \<Rightarrow> nat \<Rightarrow> string \<Rightarrow> ((string \<times> json) list \<times> string) option"
  and parse_elems :: "nat \<Rightarrow> nat \<Rightarrow> string \<Rightarrow> (json list \<times> string) option" where
  "parse_value 0 d s = None"
| "parse_value (Suc n) d s0 =
     (let s = skip_ws s0 in
      if s = [] then None
      else if hd s = CHR 0x22 then wrap JStr (parse_string (tl s))
      else if hd s = CHR ''{'' then
        (if d \<ge> maxNestingDepth then None
         else if head_is (CHR ''}'') (skip_ws (tl s)) then Some (JObj [], tl (skip_ws (tl s)))
         else wrap JObj (parse_members n (Suc d) (tl s)))
      else if hd s = CHR ''['' then
        (if d \<ge> maxNestingDepth then None
         else if head_is (CHR '']'') (skip_ws (tl s)) then Some (JArr [], tl (skip_ws (tl s)))
         else wrap JArr (parse_elems n (Suc d) (tl s)))
      else if hd s = CHR ''t'' then literal ''true'' (JBool True) s
      else if hd s = CHR ''f'' then literal ''false'' (JBool False) s
      else if hd s = CHR ''n'' then literal ''null'' JNull s
      else wrap JNum (parse_number s))"
| "parse_members 0 d s = None"
| "parse_members (Suc n) d s0 =
     (let s = skip_ws s0 in
      if \<not> head_is (CHR 0x22) s then None
      else case parse_string (tl s) of
        None \<Rightarrow> None
      | Some (k, s1) \<Rightarrow>
          if \<not> head_is (CHR '':'') (skip_ws s1) then None
          else case parse_value n d (tl (skip_ws s1)) of
            None \<Rightarrow> None
          | Some (v, s2) \<Rightarrow>
              let s3 = skip_ws s2 in
              if head_is (CHR ''}'') s3 then Some ([(k, v)], tl s3)
              else if head_is (CHR '','') s3 then wrap ((#) (k, v)) (parse_members n d (tl s3))
              else None)"
| "parse_elems 0 d s = None"
| "parse_elems (Suc n) d s =
     (case parse_value n d s of
        None \<Rightarrow> None
      | Some (v, s2) \<Rightarrow>
          let s3 = skip_ws s2 in
          if head_is (CHR '']'') s3 then Some ([v], tl s3)
          else if head_is (CHR '','') s3 then wrap ((#) v) (parse_elems n d (tl s3))
          else None)"

lemmas parse_step = parse_value.simps(2) parse_members.simps(2) parse_elems.simps(2)

declare parse_step [simp del]

definition parse_json :: "string \<Rightarrow> json option" where
  "parse_json s =
     (case parse_value (2 * length s + 2) 0 s of
        None \<Rightarrow> None
      | Some (v, rest) \<Rightarrow> if skip_ws rest = [] then Some v else None)"

subsection \<open>Encoding\<close>

definition hex_char :: "nat \<Rightarrow> char" where
  "hex_char d = (if d < 10 then char_of (48 + d) else char_of (87 + d))"

text \<open>A byte below 0x80 as \<open>appendString\<close> writes it with HTML escaping.\<close>

definition escape_byte :: "char \<Rightarrow> string" where
  "escape_byte c =
     (if c = CHR 0x22 \<or> c = CHR 0x5C then [CHR 0x5C, c]
      else if byte c \<ge> 0x20 \<and> c \<noteq> CHR ''<'' \<and> c \<noteq> CHR ''>'' \<and> c \<noteq> CHR ''&'' then [c]
      else if c = CHR 0x08 then [CHR 0x5C, CHR ''b'']
      else if c = CHR 0x0C then [CHR 0x5C, CHR ''f'']
      else if c = CHR 0x0A then [CHR 0x5C, CHR ''n'']
      else if c = CHR 0x0D then [CHR 0x5C, CHR ''r'']
      else if c = CHR 0x09 then [CHR 0x5C, CHR ''t'']
      else [CHR 0x5C, CHR ''u'', CHR ''0'', CHR ''0'', hex_char (byte c div 16), hex_char (byte c mod 16)])"

text \<open>U+2028 and U+2029.\<close>

definition line_seps :: "(string \<times> string) list" where
  "line_seps =
     [([CHR 0xE2, CHR 0x80, CHR 0xA8], CHR 0x5C # ''u2028''),
      ([CHR 0xE2, CHR 0x80, CHR 0xA9], CHR 0x5C # ''u2029'')]"

function escape_string :: "string \<Rightarrow> string" where
  "escape_string [] = []"
| "escape_string (c # cs) =
     (if byte c < 0x80 then escape_byte c @ escape_string cs
      else case rune_len (c # cs) of
        None \<Rightarrow> CHR 0x5C # ''ufffd'' @ escape_string cs
      | Some n \<Rightarrow>
          (case map_of line_seps (take n (c # cs)) of Some e \<Rightarrow> e | None \<Rightarrow> take n (c # cs)) @
          escape_string (drop n (c # cs)))"
  by pat_completeness auto
termination
  by (relation "measure length") (auto dest: rune_len_shorter)

declare escape_string.simps [simp del]

definition quote_string :: "string \<Rightarrow> string" where
  "quote_string s = CHR 0x22 # escape_string s @ [CHR 0x22]"

fun comma_sep :: "string list \<Rightarrow> string" where
  "comma_sep [] = []"
| "comma_sep [x] = x"
| "comma_sep (x # y # ys) = x @ CHR '','' # comma_sep (y # ys)"

fun encode :: "json \<Rightarrow> string" where
  "encode JNull = ''null''"
| "encode (JBool b) = (if b then ''true'' else ''false'')"
| "encode (JNum n) = n"
| "encode (JStr s) = quote_string s"
| "encode (JArr vs) = CHR ''['' # comma_sep (map encode vs) @ '']''"
| "encode (JObj ms) = CHR ''{'' # comma_sep (map (\<lambda>(k, v). quote_string k @ CHR '':'' # encode v) ms) @ ''}''"

text \<open>A \<open>map[string]string\<close> is written with its keys in order.\<close>

definition string_map :: "(string, string) gomap \<Rightarrow> json" where
  "string_map m = JObj (map (\<lambda>(k, v). (k, JStr v)) (sort_Slice (\<lambda>a b. fst a < fst b) m))"

text \<open>The encoder has no error on the values built here.\<close>

definition Marshal :: "json \<Rightarrow> goerror + string" where
  "Marshal v = Inr (encode v)"

subsection \<open>Decoding into structs\<close>

definition json_syntax_error :: goerror where "json_syntax_error = New ''json: syntax error''"

text \<open>\<open>*json.UnmarshalTypeError\<close>, with the name of the field.\<close>

definition json_type_error :: "string \<Rightarrow> goerror" where
  "json_type_error f = Errorf ''json: cannot unmarshal into Go struct field %s'' [f] None"

text \<open>\<open>foldName\<close> on the names that can match an ASCII field: ASCII letters in upper case, and
  the two other runes whose case orbit has an ASCII letter, U+017F and U+212A.\<close>

definition upper_char :: "char \<Rightarrow> char" where
  "upper_char c = (if byte_in 97 122 c then char_of (byte c - 32) else c)"

fun fold_name :: "string \<Rightarrow> string" where
  "fold_name [] = []"
| "fold_name (c # cs) =
     (if c = CHR 0xC5 \<and> take 1 cs = [CHR 0xBF] then CHR ''S'' # fold_name (drop 1 cs)
      else if c = CHR 0xE2 \<and> take 2 cs = [CHR 0x84, CHR 0xAA] then CHR ''K'' # fold_name (drop 2 cs)
      else upper_char c # fold_name cs)"

text \<open>The field of a struct a key denotes.\<close>

definition field_of :: "string list \<Rightarrow> string \<Rightarrow> string option" where
  "field_of fields key =
     (if key \<in> set fields then Some key else find (\<lambda>f. fold_name f = fold_name key) fields)"

text \<open>A decoder updates a value and returns the first type error.\<close>

type_synonym 'a decoder = "json \<Rightarrow> 'a \<Rightarrow> 'a \<times> goerror option"

definition decode_string :: "string \<Rightarrow> string decoder" where
  "decode_string f v old =
     (case v of JStr s \<Rightarrow> (s, None) | JNull \<Rightarrow> (old, None) | _ \<Rightarrow> (old, Some (json_type_error f)))"

definition decode_int :: "string \<Rightarrow> int decoder" where
  "decode_int f v old =
     (case v of
        JNum n \<Rightarrow> (case ParseInt n of Inr i \<Rightarrow> (i, None) | Inl _ \<Rightarrow> (old, Some (json_type_error f)))
      | JNull \<Rightarrow> (old, None)
      | _ \<Rightarrow> (old, Some (json_type_error f)))"

definition save_error :: "goerror option \<Rightarrow> goerror option \<Rightarrow> goerror option" where
  "save_error e e' = (case e of None \<Rightarrow> e' | Some _ \<Rightarrow> e)"

fun decode_members ::
  "string list \<Rightarrow> (string \<Rightarrow> 'a decoder) \<Rightarrow> (string \<times> json) list \<Rightarrow> 'a \<Rightarrow> goerror option \<Rightarrow>
   'a \<times> goerror option" where
  "decode_members fields dec [] x e = (x, e)"
| "decode_members fields dec ((k, v) # ms) x e =
     (case field_of fields k of
        None \<Rightarrow> decode_members fields dec ms x e
      | Some f \<Rightarrow>
          let (x, e') = dec f v x in decode_members fields dec ms x (save_error e e'))"

definition decode_struct :: "string list \<Rightarrow> (string \<Rightarrow> 'a decoder) \<Rightarrow> string \<Rightarrow> 'a decoder" where
  "decode_struct fields dec name v x =
     (case v of
        JObj ms \<Rightarrow> decode_members fields dec ms x None
      | JNull \<Rightarrow> (x, None)
      | _ \<Rightarrow> (x, Some (json_type_error name)))"

text \<open>A Go slice while it is decoded: its elements, and the elements of its backing array behind
  them, which the decoder reuses without clearing when a key is repeated.\<close>

type_synonym 'a slice = "'a list \<times> 'a list"

fun decode_elems :: "'a decoder \<Rightarrow> 'a \<Rightarrow> json list \<Rightarrow> 'a list \<Rightarrow> goerror option \<Rightarrow> 'a slice \<times> goerror option" where
  "decode_elems dec zero [] old e = (([], old), e)"
| "decode_elems dec zero (v # vs) old e =
     (let (x, e') = dec v (if old = [] then zero else hd old);
          ((xs, rest), e) = decode_elems dec zero vs (tl old) (save_error e e')
      in ((x # xs, rest), e))"

definition decode_slice :: "'a decoder \<Rightarrow> 'a \<Rightarrow> string \<Rightarrow> 'a slice decoder" where
  "decode_slice dec zero f v old =
     (case v of
        JArr [] \<Rightarrow> (([], []), None)
      | JArr vs \<Rightarrow> decode_elems dec zero vs (fst old @ snd old) None
      | JNull \<Rightarrow> (([], []), None)
      | _ \<Rightarrow> (old, Some (json_type_error f)))"

definition Unmarshal :: "'a decoder \<Rightarrow> 'a \<Rightarrow> string \<Rightarrow> 'a \<times> goerror option" where
  "Unmarshal dec zero s =
     (case parse_json s of
        None \<Rightarrow> (zero, Some json_syntax_error)
      | Some v \<Rightarrow> dec v zero)"

text \<open>The errors of a decoder are its own: no sentinel is in their chain.\<close>

definition plain_error :: "goerror \<Rightarrow> bool" where
  "plain_error e \<longleftrightarrow> (\<forall>t. \<not> errors_Is e t)"

definition own_errors :: "'a decoder \<Rightarrow> bool" where
  "own_errors dec \<longleftrightarrow> (\<forall>v x x' e. dec v x = (x', Some e) \<longrightarrow> plain_error e)"

lemma plain_error_json [simp]: "plain_error (json_type_error f)" "plain_error json_syntax_error"
  by (simp_all add: plain_error_def json_type_error_def json_syntax_error_def)

lemma own_errors_string: "own_errors (decode_string f)"
  by (auto simp: own_errors_def decode_string_def split: json.splits)

lemma own_errors_int: "own_errors (decode_int f)"
  by (auto simp: own_errors_def decode_int_def split: json.splits sum.splits)

lemma decode_members_errors:
  assumes "\<And>f. own_errors (dec f)"
  shows "decode_members fs dec ms x e0 = (x', Some e) \<Longrightarrow> (\<And>d. e0 = Some d \<Longrightarrow> plain_error d) \<Longrightarrow> plain_error e"
proof (induction ms arbitrary: x e0)
  case (Cons m ms)
  obtain k v where m: "m = (k, v)" by fastforce
  show ?case
  proof (cases "field_of fs k")
    case None
    with Cons m show ?thesis by simp
  next
    case (Some f)
    obtain y d where y: "dec f v x = (y, d)" by fastforce
    with assms [of f] have "plain_error d'" if "d = Some d'" for d' using that unfolding own_errors_def by blast
    with Cons.prems(2) have "plain_error d'" if "save_error e0 d = Some d'" for d'
      using that by (auto simp: save_error_def split: option.splits)
    with Cons.IH Cons.prems(1) show ?thesis by (simp add: m Some y)
  qed
qed simp

lemma own_errors_struct:
  assumes "\<And>f. own_errors (dec f)"
  shows "own_errors (decode_struct fs dec n)"
proof -
  have "plain_error e" if "decode_members fs dec ms x None = (x', Some e)" for ms x x' e
    using that by (rule decode_members_errors [OF assms]) simp
  then show ?thesis
    unfolding own_errors_def [of "decode_struct fs dec n"] decode_struct_def by (auto split: json.splits)
qed

lemma Unmarshal_errors: "own_errors dec \<Longrightarrow> Unmarshal dec z s = (x, Some e) \<Longrightarrow> plain_error e"
  by (auto simp: Unmarshal_def own_errors_def split: option.splits)

subsection \<open>Fuel\<close>

lemma length_tl_skip_ws: "skip_ws s \<noteq> [] \<Longrightarrow> length (tl (skip_ws s)) < length s"
  using length_skip_ws [of s] by (cases "skip_ws s") auto

lemma head_is_length: "head_is c (skip_ws s) \<Longrightarrow> length (tl (skip_ws s)) < length s"
  unfolding head_is_def by (blast intro: length_tl_skip_ws)

lemma parse_digits_length: "parse_digits s = Some (v, r) \<Longrightarrow> length r < length s"
proof -
  assume "parse_digits s = Some (v, r)"
  then have "r = dropWhile is_digit s" "takeWhile is_digit s \<noteq> []"
    by (auto simp: parse_digits_def split: if_splits)
  moreover have "length (takeWhile is_digit s) + length (dropWhile is_digit s) = length s"
    by (metis length_append takeWhile_dropWhile_id)
  ultimately show ?thesis by (cases "takeWhile is_digit s") auto
qed

lemma parse_frac_length: "parse_frac s = Some (v, r) \<Longrightarrow> length r \<le> length s"
  by (auto simp: parse_frac_def consume_Some split: list.splits if_splits dest: parse_digits_length)

lemma parse_exp_length: "parse_exp s = Some (v, r) \<Longrightarrow> length r \<le> length s"
  by (auto simp: parse_exp_def consume_Some split: list.splits if_splits dest: parse_digits_length)

lemma parse_int_part_length: "parse_int_part s = Some (v, r) \<Longrightarrow> length r < length s"
  by (auto simp: parse_int_part_def split: list.splits if_splits dest: parse_digits_length)

lemma parse_number_length: "parse_number s = Some (v, r) \<Longrightarrow> length r < length s"
  by (auto simp: parse_number_def then_part_def consume_Some Let_def split: option.splits if_splits prod.splits
      dest!: parse_int_part_length parse_frac_length parse_exp_length)

lemma wrap_Some: "wrap f r = Some (v, rest) \<longleftrightarrow> (\<exists>u. r = Some (u, rest) \<and> v = f u)"
  by (auto simp: wrap_def)

lemma wrap_cong: "r = r' \<Longrightarrow> wrap f r = wrap f r'" by simp

lemma literal_length: "w \<noteq> [] \<Longrightarrow> literal w v s = Some (x, r) \<Longrightarrow> length r < length s"
  by (auto simp: literal_def prefix_def split: if_splits)

definition shortens :: "(string \<Rightarrow> ('a \<times> string) option) \<Rightarrow> bool" where
  "shortens p \<longleftrightarrow> (\<forall>s v r. p s = Some (v, r) \<longrightarrow> length r < length s)"

lemma shortensD: "shortens p \<Longrightarrow> p s = Some (v, r) \<Longrightarrow> length r < length s"
  unfolding shortens_def by blast

lemma shortens_parse_value:
  assumes "\<And>d. shortens (parse_members n d)" "\<And>d. shortens (parse_elems n d)"
  shows "shortens (parse_value (Suc n) d)"
  unfolding shortens_def
proof (intro allI impI)
  fix s v r assume *: "parse_value (Suc n) d s = Some (v, r)"
  then have s: "skip_ws s \<noteq> []" by (simp add: parse_step Let_def split: if_splits)
  note t = length_tl_skip_ws [OF s]
  have m: "parse_members n (Suc d) (tl (skip_ws s)) = Some (u, r) \<Longrightarrow> length r < length s" for u
    using shortensD [OF assms(1)] t by (meson order_less_trans)
  have e: "parse_elems n (Suc d) (tl (skip_ws s)) = Some (u, r) \<Longrightarrow> length r < length s" for u
    using shortensD [OF assms(2)] t by (meson order_less_trans)
  have p: "parse_string (tl (skip_ws s)) = Some (u, r) \<Longrightarrow> length r < length s" for u
    using parse_string_length [of "tl (skip_ws s)" u r] t by simp
  have h: "head_is c (skip_ws (tl (skip_ws s))) \<Longrightarrow> length (tl (skip_ws (tl (skip_ws s)))) < length s" for c
    using head_is_length [of c "tl (skip_ws s)"] t by simp
  have l: "w \<noteq> [] \<Longrightarrow> literal w x (skip_ws s) = Some (u, r) \<Longrightarrow> length r < length s" for u w x
    using literal_length length_skip_ws by (meson order_less_le_trans)
  have n: "parse_number (skip_ws s) = Some (u, r) \<Longrightarrow> length r < length s" for u
    using parse_number_length [of "skip_ws s" u r] length_skip_ws [of s] by simp
  show "length r < length s"
    using * unfolding parse_value.simps Let_def
    by (auto simp: wrap_Some simp del: length_tl split: if_splits intro: m e p h n l)
qed

lemma shortens_parse_members:
  assumes "\<And>d. shortens (parse_value n d)" "\<And>d. shortens (parse_members n d)"
  shows "shortens (parse_members (Suc n) d)"
  unfolding shortens_def
  by (auto simp: parse_step Let_def wrap_Some split: if_splits option.splits prod.splits
      dest!: parse_string_length shortensD [OF assms(1)] shortensD [OF assms(2)] head_is_length)

lemma shortens_parse_elems:
  assumes "\<And>d. shortens (parse_value n d)" "\<And>d. shortens (parse_elems n d)"
  shows "shortens (parse_elems (Suc n) d)"
  unfolding shortens_def
  by (auto simp: parse_step Let_def wrap_Some split: if_splits option.splits prod.splits
      dest!: shortensD [OF assms(1)] shortensD [OF assms(2)] head_is_length)

lemma parse_shortens:
  "shortens (parse_value n d) \<and> shortens (parse_members n d) \<and> shortens (parse_elems n d)"
proof (induction n arbitrary: d)
  case 0
  show ?case by (simp add: shortens_def)
next
  case (Suc n)
  then show ?case
    by (simp add: shortens_parse_value shortens_parse_members shortens_parse_elems)
qed

text \<open>Fuel beyond the bound changes nothing.\<close>

lemma parse_fuel_step:
  "(2 * length s + 2 \<le> n \<longrightarrow> parse_value (Suc n) d s = parse_value n d s) \<and>
   (2 * length s + 2 \<le> n \<longrightarrow> parse_members (Suc n) d s = parse_members n d s) \<and>
   (2 * length s + 3 \<le> n \<longrightarrow> parse_elems (Suc n) d s = parse_elems n d s)"
proof (induction n arbitrary: d s)
  case (Suc n)
  have v: "2 * length s + 2 \<le> n \<Longrightarrow> parse_value (Suc n) d s = parse_value n d s"
    and m: "2 * length s + 2 \<le> n \<Longrightarrow> parse_members (Suc n) d s = parse_members n d s"
    and e: "2 * length s + 3 \<le> n \<Longrightarrow> parse_elems (Suc n) d s = parse_elems n d s" for d s
    using Suc.IH by blast+
  have "parse_value (Suc (Suc n)) d s = parse_value (Suc n) d s" if le: "2 * length s + 2 \<le> Suc n"
  proof (cases "skip_ws s = []")
    case False
    with le length_tl_skip_ws [OF False]
    have "parse_members (Suc n) (Suc d) (tl (skip_ws s)) = parse_members n (Suc d) (tl (skip_ws s))"
      "parse_elems (Suc n) (Suc d) (tl (skip_ws s)) = parse_elems n (Suc d) (tl (skip_ws s))"
      by (intro m e; simp)+
    then show ?thesis by (simp add: parse_value.simps(2) [of "Suc n" d s] parse_value.simps(2) [of n d s] Let_def)
  qed (simp add: parse_value.simps(2))
  moreover have "parse_members (Suc (Suc n)) d s = parse_members (Suc n) d s" if le: "2 * length s + 2 \<le> Suc n"
  proof (cases "head_is (CHR 0x22) (skip_ws s)")
    case True
    note t = head_is_length [OF True]
    have v': "parse_value (Suc n) d (tl (skip_ws s1)) = parse_value n d (tl (skip_ws s1))"
      if "parse_string (tl (skip_ws s)) = Some (k, s1)" "head_is c (skip_ws s1)" for k s1 c
      using le t parse_string_length [OF that(1)] head_is_length [OF that(2)] by (intro v) simp
    have m': "parse_members (Suc n) d (tl (skip_ws s2)) = parse_members n d (tl (skip_ws s2))"
      if "parse_string (tl (skip_ws s)) = Some (k, s1)" "head_is c (skip_ws s1)"
        "parse_value n d (tl (skip_ws s1)) = Some (x, s2)" "head_is c' (skip_ws s2)" for k s1 c x s2 c'
      using le t parse_string_length [OF that(1)] head_is_length [OF that(2)] head_is_length [OF that(4)]
        shortensD [OF parse_shortens [THEN conjunct1] that(3)] by (intro m) simp
    show ?thesis
      using True by (auto simp: parse_members.simps(2) [of "Suc n" d s] parse_members.simps(2) [of n d s] Let_def v' m' split: option.split)
  qed (simp add: parse_members.simps(2))
  moreover have "parse_elems (Suc (Suc n)) d s = parse_elems (Suc n) d s" if le: "2 * length s + 3 \<le> Suc n"
  proof -
    have v': "parse_value (Suc n) d s = parse_value n d s" using le by (intro v) simp
    have e': "parse_elems (Suc n) d (tl (skip_ws s2)) = parse_elems n d (tl (skip_ws s2))"
      if "parse_value n d s = Some (x, s2)" "head_is c' (skip_ws s2)" for x s2 c'
      using le head_is_length [OF that(2)] shortensD [OF parse_shortens [THEN conjunct1] that(1)]
      by (intro e) simp
    show ?thesis
      by (auto simp: parse_elems.simps(2) [of "Suc n" d s] parse_elems.simps(2) [of n d s] Let_def v' e' split: option.split)
  qed
  ultimately show ?case by blast
qed simp

lemma parse_fuel_enough:
  "2 * length s + 2 \<le> n \<Longrightarrow> parse_value n d s = parse_value (2 * length s + 2) d s"
proof (induction n rule: dec_induct)
  case (step n)
  with parse_fuel_step [of s n d] show ?case by simp
qed simp

subsection \<open>Round trip\<close>

function valid_utf8 :: "string \<Rightarrow> bool" where
  "valid_utf8 [] = True"
| "valid_utf8 (c # cs) =
     (case rune_len (c # cs) of None \<Rightarrow> False | Some n \<Rightarrow> valid_utf8 (drop n (c # cs)))"
  by pat_completeness auto
termination
  by (relation "measure length") (auto dest: rune_len_shorter)

declare valid_utf8.simps [simp del]

lemma valid_utf8_ascii: "\<forall>c \<in> set s. byte c < 0x80 \<Longrightarrow> valid_utf8 s"
  by (induction s) (simp_all add: valid_utf8.simps rune_len_def)

lemma hex_val_hex_char: "d < 16 \<Longrightarrow> hex_val (hex_char d) = Some d"
  by (auto simp: hex_char_def hex_val_def byte_in_def)

lemma hex_val_zero: "hex_val (CHR ''0'') = Some 0"
  by (simp add: hex_val_def byte_in_def)

lemma rune_len_ascii: "byte c < 0x80 \<Longrightarrow> rune_len (c # cs) = Some 1"
  by (simp add: rune_len_def)

lemma parse_escape:
  "simple_escape e = Some x \<Longrightarrow> parse_string (CHR 0x5C # e # r) = consume [x] (parse_string r)"
  by (simp add: parse_string.simps)

lemma parse_unicode_escape:
  assumes "hex_val a = Some x" "hex_val b = Some y" "hex_val c = Some z" "hex_val d = Some w"
    and "\<not> is_surrogate (((x * 16 + y) * 16 + z) * 16 + w)"
  shows "parse_string (CHR 0x5C # CHR ''u'' # a # b # c # d # r) =
    consume (encode_rune (((x * 16 + y) * 16 + z) * 16 + w)) (parse_string r)"
  using assms by (simp add: parse_string.simps(2) simple_escape_def hex4_def)

lemma parse_escape_byte:
  assumes "byte c < 0x80"
  shows "parse_string (escape_byte c @ r) = consume [c] (parse_string r)"
proof -
  consider (esc) "c \<in> set [CHR 0x22, CHR 0x5C, CHR 0x08, CHR 0x0C, CHR 0x0A, CHR 0x0D, CHR 0x09]"
    | (raw) "c \<noteq> CHR 0x22" "c \<noteq> CHR 0x5C" "\<not> byte c < 0x20" "c \<noteq> CHR ''<''" "c \<noteq> CHR ''>''" "c \<noteq> CHR ''&''"
    | (hex) "escape_byte c = [CHR 0x5C, CHR ''u'', CHR ''0'', CHR ''0'', hex_char (byte c div 16), hex_char (byte c mod 16)]"
    unfolding escape_byte_def by (simp only: list.set insert_iff empty_iff not_less, argo)
  then show ?thesis
  proof cases
    case esc
    then show ?thesis
      by (simp only: list.set insert_iff empty_iff, elim disjE FalseE)
         (simp_all add: escape_byte_def parse_escape simple_escape_def)
  next
    case raw
    then have "escape_byte c = [c]" by (simp add: escape_byte_def)
    with raw rune_len_ascii [OF assms] show ?thesis by (simp add: parse_string.simps(2))
  next
    case hex
    have "parse_string (escape_byte c @ r) = consume (encode_rune (byte c div 16 * 16 + byte c mod 16)) (parse_string r)"
      using assms unfolding hex
      by (simp only: append.simps, subst parse_unicode_escape [where x = 0 and y = 0])
         (auto simp: hex_val_hex_char hex_val_zero is_surrogate_def)
    moreover have "encode_rune (byte c) = [c]" using assms by (simp add: encode_rune_def)
    ultimately show ?thesis by simp
  qed
qed

text \<open>A rune of several bytes is written and read as it is.\<close>

lemma rune_len_prefix: "rune_len s = Some n \<Longrightarrow> rune_len (take n s @ r) = Some n"
proof (cases s)
  case (Cons c cs)
  assume n: "rune_len s = Some n"
  show ?thesis
  proof (cases "byte c < 0x80")
    case True
    with n Cons show ?thesis by (auto simp: rune_len_def)
  next
    case False
    with n Cons obtain lo hi more where l: "rune_lead c = Some (lo, hi, more)" "n = more + 2" "length cs > more"
      "byte_in lo hi (hd cs)" "list_all (byte_in 0x80 0xBF) (take more (tl cs))"
      by (auto simp: rune_len_def split: option.splits if_splits)
    then obtain d ds where "cs = d # ds" by (cases cs) auto
    with l False Cons show ?thesis by (simp add: rune_len_def min_def)
  qed
qed (simp add: rune_len_def)

lemma parse_rune:
  assumes "rune_len (c # cs) = Some n" "\<not> byte c < 0x80"
  shows "parse_string (take n (c # cs) @ r) = consume (take n (c # cs)) (parse_string r)"
proof -
  from rune_len_pos [OF assms(1)] obtain t where t: "take n (c # cs) = c # t"
    by (cases n) auto
  from rune_len_pos [OF assms(1)] have l: "length (c # t) = n" by (simp flip: t)
  have "rune_len (c # t @ r) = Some n" using rune_len_prefix [OF assms(1), of r] by (simp add: t)
  with l assms(2) have "parse_string (c # t @ r) = consume (take n (c # t @ r)) (parse_string (drop n (c # t @ r)))"
    by (auto simp: parse_string.simps(2))
  then show ?thesis using l by (auto simp: t)
qed

lemma char_consts:
  "char_of (226 :: nat) = CHR 0xE2" "char_of (128 :: nat) = CHR 0x80"
  "char_of (168 :: nat) = CHR 0xA8" "char_of (169 :: nat) = CHR 0xA9"
  by code_simp+

lemma parse_line_sep:
  "map_of line_seps q = Some e \<Longrightarrow> parse_string (e @ r) = consume q (parse_string r)"
  by (auto simp: line_seps_def hex_val_def byte_in_def is_surrogate_def encode_rune_def
        parse_unicode_escape char_consts split: if_splits)

lemma parse_escape_string:
  "valid_utf8 s \<Longrightarrow> parse_string (escape_string s @ CHR 0x22 # r) = Some (s, r)"
proof (induction s rule: escape_string.induct)
  case 1
  show ?case by (simp add: escape_string.simps parse_string.simps)
next
  case (2 c cs)
  from 2(4) obtain n where n: "rune_len (c # cs) = Some n" "valid_utf8 (drop n (c # cs))"
    by (auto simp: valid_utf8.simps split: option.splits)
  show ?case
  proof (cases "byte c < 0x80")
    case True
    with n have "valid_utf8 cs" by (auto simp: rune_len_ascii)
    with True 2(1) show ?thesis
      by (simp add: escape_string.simps parse_escape_byte consume_def)
  next
    case False
    note IH = 2(3) [OF False n]
    show ?thesis
    proof (cases "map_of line_seps (take n (c # cs))")
      case None
      with False n IH parse_rune [OF n(1) False] show ?thesis
        by (simp add: escape_string.simps(2) consume_def)
    next
      case (Some e)
      with False n IH parse_line_sep [OF Some] show ?thesis
        by (simp add: escape_string.simps(2) consume_def)
    qed
  qed
qed

text \<open>The values the round trip is about: every string is valid UTF-8, there are no numbers, and
  the nesting stays within the decoder's limit.\<close>

fun plain_json :: "nat \<Rightarrow> json \<Rightarrow> bool" where
  "plain_json d JNull \<longleftrightarrow> True"
| "plain_json d (JBool b) \<longleftrightarrow> True"
| "plain_json d (JNum n) \<longleftrightarrow> False"
| "plain_json d (JStr s) \<longleftrightarrow> valid_utf8 s"
| "plain_json d (JArr vs) \<longleftrightarrow> d < maxNestingDepth \<and> list_all (plain_json (Suc d)) vs"
| "plain_json d (JObj ms) \<longleftrightarrow>
     d < maxNestingDepth \<and> list_all (\<lambda>(k, v). valid_utf8 k \<and> plain_json (Suc d) v) ms"

abbreviation member :: "string \<times> json \<Rightarrow> string" where
  "member \<equiv> \<lambda>(k, v). quote_string k @ CHR '':'' # encode v"

lemma skip_ws_id: "\<not> is_ws c \<Longrightarrow> skip_ws (c # s) = c # s"
  by (simp add: skip_ws_def)

lemma encode_head:
  assumes "plain_json d v"
  obtains c cs where "encode v = c # cs" "\<not> is_ws c" "c \<noteq> CHR '']''"
proof (cases v)
  case (JBool b)
  then show ?thesis using that by (cases b) (auto simp: is_ws_def)
qed (use assms that in \<open>auto simp: quote_string_def is_ws_def\<close>)

lemma head_is_Cons [simp]: "head_is c (x # s) \<longleftrightarrow> x = c"
  by (auto simp: head_is_def)

lemma quote_string_head: "quote_string k @ s = CHR 0x22 # escape_string k @ CHR 0x22 # s"
  by (simp add: quote_string_def)

lemma skip_ws_quote: "skip_ws (CHR 0x22 # s) = CHR 0x22 # s"
  by (simp add: skip_ws_def is_ws_def)

lemma skip_ws_punct:
  "skip_ws (CHR '','' # s) = CHR '','' # s" "skip_ws (CHR '':'' # s) = CHR '':'' # s"
  "skip_ws (CHR ''}'' # s) = CHR ''}'' # s" "skip_ws (CHR '']'' # s) = CHR '']'' # s"
  "skip_ws (CHR ''{'' # s) = CHR ''{'' # s" "skip_ws (CHR ''['' # s) = CHR ''['' # s"
  by (simp_all add: skip_ws_def is_ws_def)

lemma parse_member:
  assumes "valid_utf8 k" "\<And>r. parse_value n d (encode v @ r) = Some (v, r)"
  shows "parse_members (Suc n) d (member (k, v) @ CHR ''}'' # r) = Some ([(k, v)], r)"
    and "parse_members (Suc n) d (member (k, v) @ CHR '','' # r) = wrap ((#) (k, v)) (parse_members n d r)"
  using assms
  by (simp_all add: parse_members.simps(2) quote_string_head skip_ws_quote parse_escape_string skip_ws_punct)

lemma parse_elem:
  assumes "\<And>r. parse_value n d (encode v @ r) = Some (v, r)"
  shows "parse_elems (Suc n) d (encode v @ CHR '']'' # r) = Some ([v], r)"
    and "parse_elems (Suc n) d (encode v @ CHR '','' # r) = wrap ((#) v) (parse_elems n d r)"
  using assms by (simp_all add: parse_elems.simps(2) skip_ws_punct)

lemma parse_encode_members:
  assumes "\<And>v r. plain_json d v \<Longrightarrow> length (encode v) \<le> n \<Longrightarrow> parse_value n d (encode v @ r) = Some (v, r)"
    and "\<And>ms r. ms \<noteq> [] \<Longrightarrow> list_all (\<lambda>(k, v). valid_utf8 k \<and> plain_json d v) ms \<Longrightarrow>
      length (comma_sep (map member ms)) \<le> n \<Longrightarrow>
      parse_members n d (comma_sep (map member ms) @ CHR ''}'' # r) = Some (ms, r)"
    and "ms \<noteq> []" "list_all (\<lambda>(k, v). valid_utf8 k \<and> plain_json d v) ms"
    and "length (comma_sep (map member ms)) \<le> Suc n"
  shows "parse_members (Suc n) d (comma_sep (map member ms) @ CHR ''}'' # r) = Some (ms, r)"
proof -
  obtain k v rest where ms: "ms = (k, v) # rest" using assms(3) by (cases ms) auto
  have len: "length (encode v) \<le> n" using assms(5) by (cases rest) (auto simp: ms)
  have k: "valid_utf8 k" using assms(4) by (simp add: ms)
  have v: "parse_value n d (encode v @ q) = Some (v, q)" for q
    using assms(4) by (intro assms(1) len) (simp add: ms)
  show ?thesis
  proof (cases rest)
    case Nil
    with parse_member(1) [OF k v] show ?thesis by (simp add: ms)
  next
    case (Cons m rest')
    have "parse_members n d (comma_sep (map member rest) @ CHR ''}'' # r) = Some (rest, r)"
      using assms(4,5) Cons by (intro assms(2)) (auto simp: ms)
    with Cons parse_member(2) [OF k v, of "comma_sep (map member rest) @ CHR ''}'' # r"] show ?thesis
      by (simp add: ms wrap_def)
  qed
qed

lemma parse_encode_elems:
  assumes "\<And>v r. plain_json d v \<Longrightarrow> length (encode v) \<le> n \<Longrightarrow> parse_value n d (encode v @ r) = Some (v, r)"
    and "\<And>vs r. vs \<noteq> [] \<Longrightarrow> list_all (plain_json d) vs \<Longrightarrow> length (comma_sep (map encode vs)) + 1 \<le> n \<Longrightarrow>
      parse_elems n d (comma_sep (map encode vs) @ CHR '']'' # r) = Some (vs, r)"
    and "vs \<noteq> []" "list_all (plain_json d) vs" "length (comma_sep (map encode vs)) + 1 \<le> Suc n"
  shows "parse_elems (Suc n) d (comma_sep (map encode vs) @ CHR '']'' # r) = Some (vs, r)"
proof -
  obtain v rest where vs: "vs = v # rest" using assms(3) by (cases vs) auto
  have len: "length (encode v) \<le> n" using assms(5) by (cases rest) (auto simp: vs)
  have v: "parse_value n d (encode v @ q) = Some (v, q)" for q
    using assms(4) by (intro assms(1) len) (simp add: vs)
  show ?thesis
  proof (cases rest)
    case Nil
    with parse_elem(1) [OF v] show ?thesis by (simp add: vs)
  next
    case (Cons w rest')
    have "parse_elems n d (comma_sep (map encode rest) @ CHR '']'' # r) = Some (rest, r)"
      using assms(4,5) Cons by (intro assms(2)) (auto simp: vs)
    with Cons parse_elem(2) [OF v, of "comma_sep (map encode rest) @ CHR '']'' # r"] show ?thesis
      by (simp add: vs wrap_def)
  qed
qed

lemma comma_sep_head: "comma_sep (x # xs) @ r = x @ (case xs of [] \<Rightarrow> r | _ \<Rightarrow> CHR '','' # comma_sep xs @ r)"
  by (cases xs) auto

lemma parse_encode_value:
  assumes "\<And>ms r. ms \<noteq> [] \<Longrightarrow> list_all (\<lambda>(k, v). valid_utf8 k \<and> plain_json (Suc d) v) ms \<Longrightarrow>
      length (comma_sep (map member ms)) \<le> n \<Longrightarrow>
      parse_members n (Suc d) (comma_sep (map member ms) @ CHR ''}'' # r) = Some (ms, r)"
    and "\<And>vs r. vs \<noteq> [] \<Longrightarrow> list_all (plain_json (Suc d)) vs \<Longrightarrow> length (comma_sep (map encode vs)) + 1 \<le> n \<Longrightarrow>
      parse_elems n (Suc d) (comma_sep (map encode vs) @ CHR '']'' # r) = Some (vs, r)"
    and "plain_json d v" "length (encode v) \<le> Suc n"
  shows "parse_value (Suc n) d (encode v @ r) = Some (v, r)"
proof (cases v)
  case (JBool b)
  then show ?thesis by (cases b) (simp_all add: parse_value.simps(2) skip_ws_id is_ws_def literal_def)
next
  case (JArr vs)
  show ?thesis
  proof (cases vs)
    case Nil
    with JArr assms(3) show ?thesis by (simp add: parse_value.simps(2) skip_ws_punct)
  next
    case (Cons x xs)
    with JArr assms(3) obtain c cs where "encode x = c # cs" "\<not> is_ws c" "c \<noteq> CHR '']''"
      by (auto elim: encode_head)
    then have "\<not> head_is (CHR '']'') (skip_ws (comma_sep (map encode vs) @ q))" for q
      by (simp only: Cons list.map comma_sep_head) (simp add: skip_ws_id)
    with JArr Cons assms(2) [of vs r] assms(3,4) show ?thesis
      by (simp add: parse_value.simps(2) skip_ws_punct wrap_def)
  qed
next
  case (JObj ms)
  show ?thesis
  proof (cases ms)
    case Nil
    with JObj assms(3) show ?thesis by (simp add: parse_value.simps(2) skip_ws_punct)
  next
    case (Cons x xs)
    have "\<not> head_is (CHR ''}'') (skip_ws (comma_sep (map member ms) @ q))" for q
      by (simp only: Cons list.map comma_sep_head) (simp add: quote_string_head skip_ws_quote split: prod.split)
    with JObj Cons assms(1) [of ms r] assms(3,4) show ?thesis
      by (simp add: parse_value.simps(2) skip_ws_punct wrap_def)
  qed
qed (use assms in \<open>simp_all add: parse_value.simps(2) skip_ws_id is_ws_def literal_def quote_string_head
        skip_ws_quote parse_escape_string wrap_def\<close>)

lemma parse_encode:
  "(\<forall>d v r. plain_json d v \<longrightarrow> length (encode v) \<le> n \<longrightarrow> parse_value n d (encode v @ r) = Some (v, r)) \<and>
   (\<forall>d ms r. ms \<noteq> [] \<longrightarrow> list_all (\<lambda>(k, v). valid_utf8 k \<and> plain_json d v) ms \<longrightarrow>
      length (comma_sep (map member ms)) \<le> n \<longrightarrow>
      parse_members n d (comma_sep (map member ms) @ CHR ''}'' # r) = Some (ms, r)) \<and>
   (\<forall>d vs r. vs \<noteq> [] \<longrightarrow> list_all (plain_json d) vs \<longrightarrow> length (comma_sep (map encode vs)) + 1 \<le> n \<longrightarrow>
      parse_elems n d (comma_sep (map encode vs) @ CHR '']'' # r) = Some (vs, r))"
  (is "?V n \<and> ?M n \<and> ?E n")
proof (induction n)
  case 0
  have "encode v \<noteq> []" if "plain_json d v" for d v using encode_head [OF that] by force
  moreover have "comma_sep (map member ms) \<noteq> []" if "ms \<noteq> []" for ms
    using that comma_sep_head [of "member (hd ms)" "map member (tl ms)" "[]"]
    by (cases ms) (auto simp: quote_string_def split: prod.splits)
  ultimately show ?case by (auto simp del: not_None_eq)
next
  case (Suc n)
  then have "?V n" "?M n" "?E n" by blast+
  have "?V (Suc n)"
    using parse_encode_value \<open>?M n\<close> \<open>?E n\<close> by meson
  moreover have "?M (Suc n)"
    using parse_encode_members \<open>?V n\<close> \<open>?M n\<close> by meson
  moreover have "?E (Suc n)"
    using parse_encode_elems \<open>?V n\<close> \<open>?E n\<close> by meson
  ultimately show ?case by blast
qed

lemma parse_json_encode: "plain_json 0 v \<Longrightarrow> parse_json (encode v) = Some v"
proof -
  assume "plain_json 0 v"
  with parse_encode [of "2 * length (encode v) + 2", THEN conjunct1]
  have "length (encode v) \<le> 2 * length (encode v) + 2 \<longrightarrow>
    parse_value (2 * length (encode v) + 2) 0 (encode v @ []) = Some (v, [])" by blast
  then show ?thesis by (simp add: parse_json_def skip_ws_def)
qed

end
