(* ===== verification/GoNet.thy ===== *)
theory GoNet
  imports Json
begin

text \<open>
  The parts of \<open>net/url\<close>, \<open>encoding/base64\<close> and \<open>net/http\<close> the channel providers use. Form encoding
  and base64 are modelled byte by byte, with the decoders a server applies to them as
  specifications: \<open>parse_form\<close> recovers the pairs of an encoded form, \<open>base64_decode\<close> the bytes.
  An HTTP client is its \<open>Do\<close> method on the world \<open>'w\<close>: what it returns is the network's choice. A
  response carries the bytes of its body that arrive and the error, if any, that ends the reading. The URL parser behind
  \<open>http.NewRequestWithContext\<close> and \<open>url.Parse\<close> is a parameter.
\<close>

subsection \<open>Form encoding\<close>

definition unreserved :: "char \<Rightarrow> bool" where
  "unreserved c \<longleftrightarrow> byte_in 97 122 c \<or> byte_in 65 90 c \<or> byte_in 48 57 c \<or>
     c = CHR ''-'' \<or> c = CHR ''_'' \<or> c = CHR ''.'' \<or> c = CHR 0x7E"

definition upper_hex :: "nat \<Rightarrow> char" where
  "upper_hex d = (if d < 10 then char_of (48 + d) else char_of (55 + d))"

definition query_escape_byte :: "char \<Rightarrow> string" where
  "query_escape_byte c =
     (if unreserved c then [c]
      else if c = CHR '' '' then ''+''
      else [CHR ''%'', upper_hex (byte c div 16), upper_hex (byte c mod 16)])"

definition QueryEscape :: "string \<Rightarrow> string" where
  "QueryEscape s = concat (map query_escape_byte s)"

type_synonym Values = "(string, string list) gomap"

definition Set_value :: "Values \<Rightarrow> string \<Rightarrow> string \<Rightarrow> Values" where
  "Set_value v key val = AList.update key [val] v"

text \<open>The pairs of a form in the order \<open>Values.Encode\<close> writes them: by key, then as listed.\<close>

definition form_pairs :: "Values \<Rightarrow> (string \<times> string) list" where
  "form_pairs v = concat (map (\<lambda>(k, vs). map (Pair k) vs) (sort_Slice (\<lambda>a b. fst a < fst b) v))"

definition encode_pair :: "string \<times> string \<Rightarrow> string" where
  "encode_pair p = QueryEscape (fst p) @ CHR ''='' # QueryEscape (snd p)"

definition Encode :: "Values \<Rightarrow> string" where
  "Encode v = Join (map encode_pair (form_pairs v)) (CHR ''&'')"

text \<open>The receiving side.\<close>

fun QueryUnescape :: "string \<Rightarrow> string option" where
  "QueryUnescape [] = Some []"
| "QueryUnescape (c # cs) =
     (if c = CHR ''+'' then map_option ((#) (CHR '' '')) (QueryUnescape cs)
      else if c = CHR ''%'' then
        (case cs of
           a # b # r \<Rightarrow>
             (case (hex_val a, hex_val b) of
                (Some x, Some y) \<Rightarrow> map_option ((#) (char_of (x * 16 + y))) (QueryUnescape r)
              | _ \<Rightarrow> None)
         | _ \<Rightarrow> None)
      else map_option ((#) c) (QueryUnescape cs))"

definition decode_pair :: "string \<Rightarrow> (string \<times> string) option" where
  "decode_pair s =
     (case (QueryUnescape (takeWhile (\<lambda>c. c \<noteq> CHR ''='') s), QueryUnescape (tl (dropWhile (\<lambda>c. c \<noteq> CHR ''='') s))) of
        (Some k, Some v) \<Rightarrow> Some (k, v)
      | _ \<Rightarrow> None)"

definition parse_form :: "string \<Rightarrow> (string \<times> string) option list" where
  "parse_form s = (if s = [] then [] else map decode_pair (Split s (CHR ''&'')))"

lemma byte_bounds:
  "byte c < 256" "byte c div 4 < 64" "byte c div 16 < 16" "byte c div 64 < 4"
proof -
  show "byte c < 256" using of_char_mod_256 [of c] by (metis mod_less_divisor zero_less_numeral)
  then show "byte c div 4 < 64" "byte c div 16 < 16" "byte c div 64 < 4"
    by (auto intro!: less_mult_imp_div_less)
qed

lemma upper_hex_val: "d < 16 \<Longrightarrow> hex_val (upper_hex d) = Some d"
  by (auto simp: upper_hex_def hex_val_def byte_in_def)

lemma QueryEscape_simps [simp]:
  "QueryEscape [] = []" "QueryEscape (c # s) = query_escape_byte c @ QueryEscape s"
  by (simp_all add: QueryEscape_def)

lemma unescape_byte: "QueryUnescape (query_escape_byte c @ r) = map_option ((#) c) (QueryUnescape r)"
proof (cases "unreserved c")
  case True
  then have "c \<noteq> CHR ''+'' \<and> c \<noteq> CHR ''%''" by (auto simp: unreserved_def byte_in_def)
  with True show ?thesis by (simp add: query_escape_byte_def)
next
  case False
  have "hex_val (upper_hex (byte c div 16)) = Some (byte c div 16)"
    "hex_val (upper_hex (byte c mod 16)) = Some (byte c mod 16)"
    using byte_bounds [of c] by (auto intro!: upper_hex_val)
  with False show ?thesis by (simp add: query_escape_byte_def)
qed

lemma unescape_escape: "QueryUnescape (QueryEscape s) = Some s"
  by (induction s) (simp_all add: unescape_byte)

lemma upper_hex_unreserved: "d < 16 \<Longrightarrow> unreserved (upper_hex d)"
  by (auto simp: upper_hex_def unreserved_def byte_in_def)

lemma escape_no_special:
  assumes "x \<in> set (QueryEscape s)"
  shows "x \<noteq> CHR ''&'' \<and> x \<noteq> CHR ''=''"
proof -
  from assms obtain c where "x \<in> set (query_escape_byte c)" by (auto simp: QueryEscape_def)
  then consider "unreserved x" | "x = CHR ''+''" | "x = CHR ''%''"
    using upper_hex_unreserved [of "byte c div 16"] upper_hex_unreserved [of "byte c mod 16"] byte_bounds [of c]
    by (auto simp: query_escape_byte_def split: if_splits)
  then show ?thesis by cases (auto simp: unreserved_def byte_in_def)
qed

lemma decode_encode_pair: "decode_pair (encode_pair p) = Some p"
proof -
  have a: "\<forall>x \<in> set (QueryEscape (fst p)). x \<noteq> CHR ''=''" using escape_no_special by blast
  have "takeWhile (\<lambda>c. c \<noteq> CHR ''='') (encode_pair p) = QueryEscape (fst p)"
    using a by (simp add: encode_pair_def takeWhile_append2)
  moreover have "dropWhile (\<lambda>c. c \<noteq> CHR ''='') (encode_pair p) = CHR ''='' # QueryEscape (snd p)"
    using a by (simp add: encode_pair_def dropWhile_append2)
  ultimately show ?thesis by (simp add: decode_pair_def unescape_escape)
qed

text \<open>What a server decodes from an encoded form is the form.\<close>

lemma parse_form_Encode: "parse_form (Encode v) = map Some (form_pairs v)"
proof (cases "form_pairs v = []")
  case True
  then show ?thesis by (simp add: Encode_def parse_form_def)
next
  case False
  have "CHR ''&'' \<notin> set q" if "q \<in> set (map encode_pair (form_pairs v))" for q
    using that by (auto simp: encode_pair_def dest: escape_no_special)
  with False have "Split (Encode v) (CHR ''&'') = map encode_pair (form_pairs v)"
    unfolding Encode_def by (intro Split_Join) auto
  moreover have "Encode v \<noteq> []"
    using False by (cases "form_pairs v"; cases "tl (form_pairs v)") (auto simp: Encode_def encode_pair_def)
  ultimately show ?thesis by (simp add: parse_form_def decode_encode_pair comp_def)
qed

subsection \<open>Base64\<close>

definition b64_char :: "nat \<Rightarrow> char" where
  "b64_char n =
     (if n < 26 then char_of (65 + n) else if n < 52 then char_of (71 + n)
      else if n < 62 then char_of (n - 4) else if n = 62 then CHR ''+'' else CHR ''/'')"

fun EncodeToString :: "string \<Rightarrow> string" where
  "EncodeToString [] = []"
| "EncodeToString [a] = [b64_char (byte a div 4), b64_char (byte a mod 4 * 16), CHR ''='', CHR ''='']"
| "EncodeToString [a, b] =
     [b64_char (byte a div 4), b64_char (byte a mod 4 * 16 + byte b div 16), b64_char (byte b mod 16 * 4), CHR ''='']"
| "EncodeToString (a # b # c # r) =
     b64_char (byte a div 4) # b64_char (byte a mod 4 * 16 + byte b div 16) #
     b64_char (byte b mod 16 * 4 + byte c div 64) # b64_char (byte c mod 64) # EncodeToString r"

definition b64_val :: "char \<Rightarrow> nat" where
  "b64_val c =
     (if byte_in 65 90 c then byte c - 65 else if byte_in 97 122 c then byte c - 71
      else if byte_in 48 57 c then byte c + 4 else if c = CHR ''+'' then 62 else 63)"

text \<open>The receiving side, on well-formed input.\<close>

fun base64_decode :: "string \<Rightarrow> string" where
  "base64_decode (w # x # y # z # r) =
     (let a = b64_val w; b = b64_val x; c = b64_val y; d = b64_val z in
      if y = CHR ''='' then [char_of (a * 4 + b div 16)]
      else if z = CHR ''='' then [char_of (a * 4 + b div 16), char_of (b mod 16 * 16 + c div 4)]
      else char_of (a * 4 + b div 16) # char_of (b mod 16 * 16 + c div 4) # char_of (c mod 4 * 64 + d) # base64_decode r)"
| "base64_decode _ = []"

lemma b64_val_char: "n < 64 \<Longrightarrow> b64_val (b64_char n) = n"
  by (auto simp: b64_val_def b64_char_def byte_in_def)

lemma b64_char_not_pad: "n < 64 \<Longrightarrow> b64_char n \<noteq> CHR ''=''"
  by (auto simp: b64_char_def dest!: arg_cong [where f = "of_char :: char \<Rightarrow> nat"])

lemma base64_roundtrip: "base64_decode (EncodeToString s) = s"
proof -
  have e: "byte a mod 4 * 16 + byte c div 16 < 64" "byte a mod 16 * 4 + byte c div 64 < 64"
    "byte a mod 4 * 16 < 64" "byte a mod 16 * 4 < 64" for a c
    using byte_bounds [of c] mod_less_divisor [of 4 "byte a"] mod_less_divisor [of 16 "byte a"] by linarith+
  have m: "(x * 16 + y) div 16 = x" "(x * 16 + y) mod 16 = y" if "y < 16" for x y :: nat using that by auto
  have m': "(x * 4 + y) div 4 = x" "(x * 4 + y) mod 4 = y" if "y < 4" for x y :: nat using that by auto
  show ?thesis
    by (induction s rule: EncodeToString.induct)
       (simp_all add: Let_def b64_val_char b64_char_not_pad byte_bounds e m m')
qed

subsection \<open>HTTP\<close>

record HttpRequest =
  hq_Method :: string
  hq_URL :: string
  hq_Header :: "(string, string) gomap"
  hq_Body :: string

record HttpResponse =
  rs_StatusCode :: int
  rs_Body :: string
  rs_ReadErr :: "goerror option"

definition ReadAll :: "HttpResponse \<Rightarrow> goerror + string" where
  "ReadAll resp = (case rs_ReadErr resp of Some e \<Rightarrow> Inl e | None \<Rightarrow> Inr (rs_Body resp))"

record 'w HttpClient =
  hc_Timeout :: int
  hc_Do :: "'w \<Rightarrow> HttpRequest \<Rightarrow> 'w \<times> (goerror + HttpResponse)"

definition NewRequest :: "(string \<Rightarrow> goerror option) \<Rightarrow> string \<Rightarrow> string \<Rightarrow> string \<Rightarrow> goerror + HttpRequest" where
  "NewRequest url_parse meth url body =
     (case url_parse url of
        Some e \<Rightarrow> Inl e
      | None \<Rightarrow> Inr \<lparr>hq_Method = meth, hq_URL = url, hq_Header = [], hq_Body = body\<rparr>)"

definition set_header :: "string \<Rightarrow> string \<Rightarrow> HttpRequest \<Rightarrow> HttpRequest" where
  "set_header k v r = r\<lparr>hq_Header := AList.update k v (hq_Header r)\<rparr>"

end
