(* ===== verification/GoHTTP.thy ===== *)
theory GoHTTP
  imports GoNet
begin

text \<open>
  The server side of \<open>net/http\<close> as the daemon uses it: handlers, \<open>http.NotFound\<close> and
  \<open>http.ServeMux\<close> with its routing rules (Go 1.22 and later) for patterns made of literal
  segments: path cleaning, redirects to the clean path and to the subtree, and the match of a
  pattern segment by segment. A handler maps a request and a state to a new state and a response.
  The body of a message is opaque (\<open>'b\<close>): codecs belong to the RPC library.
\<close>

subsection \<open>Requests, responses, handlers\<close>

text \<open>\<open>hr_Path\<close> is \<open>URL.Path\<close>, \<open>hr_EscapedPath\<close> the path as \<open>URL.EscapedPath()\<close> returns it.\<close>

record 'b http_Request =
  hr_Method :: string
  hr_RequestURI :: string
  hr_Path :: string
  hr_EscapedPath :: string
  hr_RawQuery :: string
  hr_Header :: "string \<Rightarrow> string"
  hr_Body :: 'b

datatype 'b http_Response =
    http_NotFound
  | http_BadRequest
  | http_Redirect string string
  | http_JSON int "(string, string) gomap"
  | http_Text int string
  | http_Reply 'b

type_synonym ('b, 's) http_Handler = "'b http_Request \<Rightarrow> 's \<Rightarrow> 's \<times> 'b http_Response"

subsection \<open>Paths\<close>

text \<open>\<open>path.Clean\<close> on a rooted path: empty and dot segments are dropped, a double dot drops the
  segment before it.\<close>

fun clean_segments :: "string list \<Rightarrow> string list \<Rightarrow> string list" where
  "clean_segments acc [] = rev acc"
| "clean_segments acc (s # ss) =
     (if s = '''' \<or> s = ''.'' then clean_segments acc ss
      else if s = ''..'' then clean_segments (tl acc) ss
      else clean_segments (s # acc) ss)"

definition path_Clean :: "string \<Rightarrow> string" where
  "path_Clean p = CHR ''/'' # Join (clean_segments [] (Split p (CHR ''/''))) (CHR ''/'')"

definition cleanPath :: "string \<Rightarrow> string" where
  "cleanPath p =
     (if p = '''' then ''/''
      else let p = (if hd p \<noteq> CHR ''/'' then CHR ''/'' # p else p);
               np = path_Clean p
           in if last p = CHR ''/'' \<and> np \<noteq> ''/'' then np @ ''/'' else np)"

text \<open>\<open>url.PathUnescape\<close>; \<open>pathUnescape\<close> of the mux leaves an invalid segment as it is.\<close>

fun PathUnescape :: "string \<Rightarrow> string option" where
  "PathUnescape [] = Some []"
| "PathUnescape (c # cs) =
     (if c = CHR ''%'' then
        (case cs of
           a # b # r \<Rightarrow>
             (case (hex_val a, hex_val b) of
                (Some x, Some y) \<Rightarrow> map_option ((#) (char_of (x * 16 + y))) (PathUnescape r)
              | _ \<Rightarrow> None)
         | _ \<Rightarrow> None)
      else map_option ((#) c) (PathUnescape cs))"

definition pathUnescape :: "string \<Rightarrow> string" where
  "pathUnescape s = (case PathUnescape s of None \<Rightarrow> s | Some u \<Rightarrow> u)"

text \<open>The first segment of a path that starts with a slash, unescaped, and the rest.\<close>

definition firstSegment :: "string \<Rightarrow> string \<times> string" where
  "firstSegment path =
     (if path = ''/'' then (''/'', '''')
      else (pathUnescape (takeWhile (\<lambda>c. c \<noteq> CHR ''/'') (tl path)), dropWhile (\<lambda>c. c \<noteq> CHR ''/'') (tl path)))"

subsection \<open>ServeMux\<close>

text \<open>A pattern: its literal segments, and whether it ends in a slash and so stands for a whole
  subtree.\<close>

record Pattern =
  pt_segments :: "string list"
  pt_multi :: bool

definition parsePattern :: "string \<Rightarrow> Pattern" where
  "parsePattern p =
     (let segs = tl (Split p (CHR ''/''))
      in if last segs = '''' then \<lparr>pt_segments = butlast segs, pt_multi = True\<rparr>
         else \<lparr>pt_segments = segs, pt_multi = False\<rparr>)"

fun match_segments :: "string list \<Rightarrow> string \<Rightarrow> string option" where
  "match_segments [] path = Some path"
| "match_segments (s # ss) path =
     (if path = '''' then None
      else let (seg, rest) = firstSegment path in if seg = s then match_segments ss rest else None)"

definition pattern_match :: "Pattern \<Rightarrow> string \<Rightarrow> bool" where
  "pattern_match p path =
     (case match_segments (pt_segments p) path of
        None \<Rightarrow> False
      | Some rest \<Rightarrow> if pt_multi p then rest \<noteq> '''' else rest = '''')"

type_synonym 'h ServeMux = "(Pattern \<times> 'h) list"

definition NewServeMux :: "'h ServeMux" where
  "NewServeMux = []"

definition mux_Handle :: "string \<Rightarrow> 'h \<Rightarrow> 'h ServeMux \<Rightarrow> 'h ServeMux" where
  "mux_Handle pattern h mux = mux @ [(parsePattern pattern, h)]"

text \<open>Of the patterns that match, the most specific one: a literal is preferred to a subtree at
  every segment, so it is the one with the most segments.\<close>

fun mux_match :: "'h ServeMux \<Rightarrow> string \<Rightarrow> (Pattern \<times> 'h) option" where
  "mux_match [] path = None"
| "mux_match ((p, h) # mux) path =
     (let best = mux_match mux path
      in if pattern_match p path then
           (case best of
              None \<Rightarrow> Some (p, h)
            | Some (q, g) \<Rightarrow> if length (pt_segments q) > length (pt_segments p) then Some (q, g) else Some (p, h))
         else best)"

definition exactMatch :: "(Pattern \<times> 'h) option \<Rightarrow> string \<Rightarrow> bool" where
  "exactMatch n path =
     (case n of
        None \<Rightarrow> False
      | Some (p, h) \<Rightarrow>
          if \<not> pt_multi p then True
          else if path \<noteq> '''' \<and> last path \<noteq> CHR ''/'' then False
          else Suc (length (pt_segments p)) = length (filter (\<lambda>c. c = CHR ''/'') path))"

datatype 'h route = Found 'h | Moved string string | Missing

text \<open>The subtree redirect of \<open>matchOrRedirect\<close>: for a path without its final slash that is not
  registered itself.\<close>

definition subtree_redirect :: "'h ServeMux \<Rightarrow> string \<Rightarrow> bool" where
  "subtree_redirect mux path \<longleftrightarrow>
     \<not> exactMatch (mux_match mux path) path \<and> path \<noteq> '''' \<and> last path \<noteq> CHR ''/'' \<and>
     exactMatch (mux_match mux (path @ ''/'')) (path @ ''/'')"

definition findHandler :: "'h ServeMux \<Rightarrow> 'b http_Request \<Rightarrow> 'h route" where
  "findHandler mux r =
     (let path = (if hr_Method r = ''CONNECT'' then hr_EscapedPath r else cleanPath (hr_EscapedPath r))
      in if subtree_redirect mux path then Moved (cleanPath (hr_Path r) @ ''/'') (hr_RawQuery r)
         else if hr_Method r \<noteq> ''CONNECT'' \<and> path \<noteq> hr_EscapedPath r then Moved path (hr_RawQuery r)
         else case mux_match mux path of None \<Rightarrow> Missing | Some (p, h) \<Rightarrow> Found h)"

definition mux_ServeHTTP :: "('b, 's) http_Handler ServeMux \<Rightarrow> ('b, 's) http_Handler" where
  "mux_ServeHTTP mux r s =
     (if hr_RequestURI r = ''*'' then (s, http_BadRequest)
      else case findHandler mux r of
             Found h \<Rightarrow> h r s
           | Moved path query \<Rightarrow> (s, http_Redirect path query)
           | Missing \<Rightarrow> (s, http_NotFound))"

text \<open>\<open>http.Server\<close>, with the fields the program sets.\<close>

record ('b, 's) http_Server =
  srv_Addr :: string
  srv_Handler :: "('b, 's) http_Handler"
  srv_ReadHeaderTimeout :: int

subsection \<open>Cleaning a path\<close>

text \<open>The segments that survive cleaning.\<close>

definition clean_segment :: "string \<Rightarrow> bool" where
  "clean_segment s \<longleftrightarrow> s \<noteq> '''' \<and> s \<noteq> ''.'' \<and> s \<noteq> ''..'' \<and> CHR ''/'' \<notin> set s"

lemma clean_segments_id: "list_all clean_segment ss \<Longrightarrow> clean_segments acc ss = rev acc @ ss"
  by (induction ss arbitrary: acc) (auto simp: clean_segment_def)

lemma clean_segments_clean:
  "list_all clean_segment acc \<Longrightarrow> list_all (\<lambda>s. CHR ''/'' \<notin> set s) ss \<Longrightarrow> list_all clean_segment (clean_segments acc ss)"
proof (induction acc ss rule: clean_segments.induct)
  case (2 acc s ss)
  have t: "list_all clean_segment (tl acc)" using 2(4) by (cases acc) auto
  have ss: "list_all (\<lambda>s. CHR ''/'' \<notin> set s) ss" "CHR ''/'' \<notin> set s" using 2(5) by simp_all
  consider (skip) "s = '''' \<or> s = ''.''" | (up) "s = ''..''" | (keep) "clean_segment s"
    using ss(2) by (auto simp: clean_segment_def)
  then show ?case
  proof cases
    case skip
    with 2(1) [OF _ 2(4) ss(1)] show ?thesis by auto
  next
    case up
    with 2(2) [OF _ _ t ss(1)] show ?thesis by simp
  next
    case keep
    with 2(3) [OF _ _ _ ss(1)] 2(4) show ?thesis by (simp add: clean_segment_def)
  qed
qed (simp add: list_all_iff)

lemma Split_Cons_sep: "Split (c # p) c = '''' # Split p c" by simp

lemma clean_segments_skip [simp]: "clean_segments acc ('''' # ss) = clean_segments acc ss" by simp

lemma Split_Join_clean:
  assumes "list_all clean_segment ss" "ss \<noteq> []"
  shows "Split (Join ss (CHR ''/'')) (CHR ''/'') = ss"
  using assms by (intro Split_Join) (auto simp: list_all_iff clean_segment_def)

text \<open>A path of clean segments is its own clean form.\<close>

lemma path_Clean_id:
  assumes "list_all clean_segment ss"
  shows "path_Clean (CHR ''/'' # Join ss (CHR ''/'')) = CHR ''/'' # Join ss (CHR ''/'')"
proof (cases "ss = []")
  case False
  with assms show ?thesis
    by (simp add: path_Clean_def Split_Join_clean clean_segments_id)
qed (simp add: path_Clean_def)

lemma path_Clean_form: "\<exists>ss. list_all clean_segment ss \<and> path_Clean p = CHR ''/'' # Join ss (CHR ''/'')"
  unfolding path_Clean_def
  by (intro exI [of _ "clean_segments [] (Split p (CHR ''/''))"] conjI clean_segments_clean refl)
     (simp_all add: list_all_iff Split_no_sep)

lemma last_Join: "ss \<noteq> [] \<Longrightarrow> last ss \<noteq> [] \<Longrightarrow> last (Join ss c) = last (last ss) \<and> Join ss c \<noteq> []"
  by (induction ss c rule: Join.induct) auto

lemma Split_snoc_sep: "Split (p @ [c]) c = Split p c @ ['''']"
  by (induction p) (auto split: list.splits)

lemma clean_segments_snoc: "clean_segments acc (ss @ ['''']) = clean_segments acc ss"
  by (induction acc ss rule: clean_segments.induct) auto

lemma path_Clean_slash: "path_Clean (p @ ''/'') = path_Clean p"
  by (simp add: path_Clean_def Split_snoc_sep clean_segments_snoc)

lemma clean_last:
  assumes "list_all clean_segment ss" "ss \<noteq> []"
  shows "last (CHR ''/'' # Join ss (CHR ''/'')) \<noteq> CHR ''/''"
proof -
  have l: "clean_segment (last ss)" using assms by (simp add: list_all_iff)
  then have "last (Join ss (CHR ''/'')) = last (last ss)" "Join ss (CHR ''/'') \<noteq> []"
    using last_Join [OF assms(2), of "CHR ''/''"] by (simp_all add: clean_segment_def)
  moreover have "last (last ss) \<noteq> CHR ''/''"
    using l last_in_set [of "last ss"] by (auto simp: clean_segment_def simp del: last_in_set)
  ultimately show ?thesis by simp
qed

text \<open>The redirect to the clean path happens at most once: the clean path is clean.\<close>

theorem cleanPath_idem: "cleanPath (cleanPath p) = cleanPath p"
proof -
  have step: "cleanPath q = q" if ss: "list_all clean_segment ss" and q: "q = CHR ''/'' # Join ss (CHR ''/'') \<or>
    q = (CHR ''/'' # Join ss (CHR ''/'')) @ ''/'' \<and> ss \<noteq> []" for q ss
    using q
  proof
    assume "q = CHR ''/'' # Join ss (CHR ''/'')"
    then show ?thesis
      using path_Clean_id [OF ss] clean_last [OF ss] by (cases "ss = []") (auto simp: cleanPath_def Let_def)
  next
    assume q: "q = (CHR ''/'' # Join ss (CHR ''/'')) @ ''/'' \<and> ss \<noteq> []"
    have "Join ss (CHR ''/'') \<noteq> []" using clean_last [OF ss] q by auto
    with q path_Clean_slash [of "CHR ''/'' # Join ss (CHR ''/'')"] path_Clean_id [OF ss] show ?thesis
      by (simp add: cleanPath_def Let_def)
  qed
  define p' where "p' = (if hd p \<noteq> CHR ''/'' then CHR ''/'' # p else p)"
  obtain ss where ss: "list_all clean_segment ss" "path_Clean p' = CHR ''/'' # Join ss (CHR ''/'')"
    using path_Clean_form by blast
  show ?thesis
  proof (cases "p = ''''")
    case True
    then have "cleanPath p = ''/''" by (simp add: cleanPath_def)
    with step [of "[]" "''/''"] show ?thesis by simp
  next
    case False
    then have c: "cleanPath p = (if last p' = CHR ''/'' \<and> path_Clean p' \<noteq> ''/'' then path_Clean p' @ ''/'' else path_Clean p')"
      by (simp add: cleanPath_def p'_def Let_def)
    have "ss \<noteq> []" if "path_Clean p' \<noteq> ''/''" using that ss(2) by auto
    with c ss show ?thesis by (intro step [OF ss(1)]) auto
  qed
qed

subsection \<open>One mounted subtree\<close>

text \<open>What a mux with one subtree pattern serves: only requests whose first path segment, unescaped,
  is the mounted name, and those unchanged.\<close>

definition under_subtree :: "string \<Rightarrow> 'b http_Request \<Rightarrow> bool" where
  "under_subtree name r \<longleftrightarrow> hr_EscapedPath r \<noteq> '''' \<and> fst (firstSegment (hr_EscapedPath r)) = name \<and>
     snd (firstSegment (hr_EscapedPath r)) \<noteq> '''' \<and>
     (hr_Method r \<noteq> ''CONNECT'' \<longrightarrow> cleanPath (hr_EscapedPath r) = hr_EscapedPath r)"

lemma parsePattern_subtree:
  assumes "CHR ''/'' \<notin> set name" "name \<noteq> ''''"
  shows "parsePattern (CHR ''/'' # name @ ''/'') = \<lparr>pt_segments = [name], pt_multi = True\<rparr>"
proof -
  have "Split name (CHR ''/'') = [name]"
    using Split_Join [of "[name]" "CHR ''/''"] assms by simp
  then have "Split (name @ ''/'') (CHR ''/'') = [name, '''']" by (simp add: Split_snoc_sep)
  then show ?thesis by (simp add: parsePattern_def)
qed

lemma single_match:
  "mux_match [(\<lparr>pt_segments = [name], pt_multi = True\<rparr>, h)] path =
     (if path \<noteq> '''' \<and> fst (firstSegment path) = name \<and> snd (firstSegment path) \<noteq> ''''
      then Some (\<lparr>pt_segments = [name], pt_multi = True\<rparr>, h) else None)"
  by (simp add: pattern_match_def split: prod.split)

lemma single_found:
  assumes "findHandler [(\<lparr>pt_segments = [name], pt_multi = True\<rparr>, h)] r = Found g"
  shows "g = h \<and> under_subtree name r"
  using assms unfolding findHandler_def single_match under_subtree_def Let_def by (simp split: if_splits)

text \<open>Behind the mux the handler runs on requests of its subtree only, and sees them unchanged; every
  other request is answered without it and leaves the state as it was.\<close>

lemma subtree_served_cases:
  assumes "CHR ''/'' \<notin> set name" "name \<noteq> ''''"
  shows "mux_ServeHTTP (mux_Handle (CHR ''/'' # name @ ''/'') h NewServeMux) r s = h r s \<and> under_subtree name r \<or>
    (\<exists>resp. mux_ServeHTTP (mux_Handle (CHR ''/'' # name @ ''/'') h NewServeMux) r s = (s, resp) \<and>
       (resp = http_NotFound \<or> resp = http_BadRequest \<or> (\<exists>p q. resp = http_Redirect p q)))"
proof (cases "findHandler [(\<lparr>pt_segments = [name], pt_multi = True\<rparr>, h)] r")
  case (Found g)
  with single_found [OF Found] show ?thesis
    by (auto simp: mux_ServeHTTP_def mux_Handle_def NewServeMux_def parsePattern_subtree [OF assms])
qed (auto simp: mux_ServeHTTP_def mux_Handle_def NewServeMux_def parsePattern_subtree [OF assms])

text \<open>A clean path below the mounted name reaches the handler.\<close>

lemma subtree_reached:
  assumes "CHR ''/'' \<notin> set name" "name \<noteq> ''''" "under_subtree name r" "hr_RequestURI r \<noteq> ''*''"
    and "hr_EscapedPath r = CHR ''/'' # name @ CHR ''/'' # rest" "rest \<noteq> ''''" "last rest \<noteq> CHR ''/''" "CHR ''/'' \<notin> set rest"
  shows "mux_ServeHTTP (mux_Handle (CHR ''/'' # name @ ''/'') h NewServeMux) r s = h r s"
proof -
  let ?m = "[(\<lparr>pt_segments = [name], pt_multi = True\<rparr>, h)]"
  let ?p = "CHR ''/'' # name @ CHR ''/'' # rest"
  have f: "filter (\<lambda>c. c = CHR ''/'') name = []" "filter (\<lambda>c. c = CHR ''/'') rest = []"
    using assms(1,8) by (auto simp: filter_empty_conv)
  have "\<not> exactMatch (mux_match ?m (?p @ ''/'')) (?p @ ''/'')"
    unfolding single_match by (simp add: exactMatch_def f)
  then have "\<not> subtree_redirect ?m ?p" by (simp add: subtree_redirect_def)
  moreover have "mux_match ?m ?p = Some (\<lparr>pt_segments = [name], pt_multi = True\<rparr>, h)"
    using assms(3,5) unfolding single_match under_subtree_def by simp
  ultimately have "findHandler ?m r = Found h"
    using assms(3,5) by (auto simp: findHandler_def under_subtree_def Let_def simp del: mux_match.simps)
  with assms(4) show ?thesis
    by (simp add: mux_ServeHTTP_def mux_Handle_def NewServeMux_def parsePattern_subtree [OF assms(1,2)])
qed

end
