(* ===== verification/Connect_Routes.thy ===== *)
theory Connect_Routes
  imports Handlers GoHTTP
begin

text \<open>
  \<open>gen/go/notify/v1/notifyv1connect/notify.connect.go\<close>: the names of the services and their
  procedures, the HTTP handlers that dispatch a request by its path, the answers of the
  \<open>Unimplemented\<close> handlers, and the generated clients. The RPC library (\<open>connectrpc.com/connect\<close>)
  is a parameter: a record of its generic constructors at the types they are used at. Options that
  carry the schema of a method are left out: nothing in the program reads them.
\<close>

subsection \<open>Names\<close>

definition NotificationInternalServiceName :: string where
  "NotificationInternalServiceName = ''elloloop.notify.v1.NotificationInternalService''"

definition NotificationClientServiceName :: string where
  "NotificationClientServiceName = ''elloloop.notify.v1.NotificationClientService''"

definition NotificationInternalServiceNotifyProcedure :: string where
  "NotificationInternalServiceNotifyProcedure = ''/elloloop.notify.v1.NotificationInternalService/Notify''"

definition NotificationClientServiceStreamEventsProcedure :: string where
  "NotificationClientServiceStreamEventsProcedure = ''/elloloop.notify.v1.NotificationClientService/StreamEvents''"

definition NotificationClientServiceGetNotificationsProcedure :: string where
  "NotificationClientServiceGetNotificationsProcedure = ''/elloloop.notify.v1.NotificationClientService/GetNotifications''"

definition NotificationClientServiceAckNotificationProcedure :: string where
  "NotificationClientServiceAckNotificationProcedure = ''/elloloop.notify.v1.NotificationClientService/AckNotification''"

definition NotificationClientServiceAckDataChangeProcedure :: string where
  "NotificationClientServiceAckDataChangeProcedure = ''/elloloop.notify.v1.NotificationClientService/AckDataChange''"

definition NotificationClientServiceRegisterPushTokenProcedure :: string where
  "NotificationClientServiceRegisterPushTokenProcedure = ''/elloloop.notify.v1.NotificationClientService/RegisterPushToken''"

lemmas procedure_defs = NotificationInternalServiceNotifyProcedure_def NotificationClientServiceStreamEventsProcedure_def
  NotificationClientServiceGetNotificationsProcedure_def NotificationClientServiceAckNotificationProcedure_def
  NotificationClientServiceAckDataChangeProcedure_def NotificationClientServiceRegisterPushTokenProcedure_def

subsection \<open>The service interfaces\<close>

text \<open>A stream handed to \<open>StreamEvents\<close> is represented by the result of sending the handshake on it
  (see \<open>client_StreamEvents\<close>).\<close>

record 's NotificationInternalServiceHandler =
  ish_Notify :: "(pb_NotifyRequest, pb_NotifyResponse, 's) UnaryFunc"

record 's NotificationClientServiceHandler =
  csh_StreamEvents :: "goerror option \<Rightarrow> (DeviceType, unit, 's) UnaryFunc"
  csh_GetNotifications :: "(GetNotificationsRequest, GetNotificationsResponse, 's) UnaryFunc"
  csh_AckNotification :: "(string, unit, 's) UnaryFunc"
  csh_AckDataChange :: "(AckDataChangeRequest, unit, 's) UnaryFunc"
  csh_RegisterPushToken :: "(RegisterPushTokenRequest, unit, 's) UnaryFunc"

subsection \<open>The RPC library\<close>

type_synonym ('b, 'm, 'a, 's) UnaryHandler =
  "string \<Rightarrow> ('m, 'a, 's) UnaryFunc \<Rightarrow> Interceptor list \<Rightarrow> ('b, 's Rpc) http_Handler"

text \<open>\<open>connect.NewUnaryHandler\<close> at the message types of the five unary procedures,
  \<open>connect.NewServerStreamHandler\<close>, and \<open>h2c.NewHandler\<close>.\<close>

record ('b, 's) connect_lib =
  NewUnaryHandler_Notify :: "('b, pb_NotifyRequest, pb_NotifyResponse, 's) UnaryHandler"
  NewUnaryHandler_GetNotifications :: "('b, GetNotificationsRequest, GetNotificationsResponse, 's) UnaryHandler"
  NewUnaryHandler_AckNotification :: "('b, string, unit, 's) UnaryHandler"
  NewUnaryHandler_AckDataChange :: "('b, AckDataChangeRequest, unit, 's) UnaryHandler"
  NewUnaryHandler_RegisterPushToken :: "('b, RegisterPushTokenRequest, unit, 's) UnaryHandler"
  NewServerStreamHandler ::
    "string \<Rightarrow> (goerror option \<Rightarrow> (DeviceType, unit, 's) UnaryFunc) \<Rightarrow> Interceptor list \<Rightarrow> ('b, 's Rpc) http_Handler"
  h2c_NewHandler :: "('b, 's Rpc) http_Handler \<Rightarrow> ('b, 's Rpc) http_Handler"

subsection \<open>The handlers\<close>

definition NewNotificationInternalServiceHandler ::
  "('b, 's) connect_lib \<Rightarrow> 's NotificationInternalServiceHandler \<Rightarrow> Interceptor list \<Rightarrow>
   string \<times> ('b, 's Rpc) http_Handler" where
  "NewNotificationInternalServiceHandler lib svc opts =
     (let notifyHandler = NewUnaryHandler_Notify lib NotificationInternalServiceNotifyProcedure (ish_Notify svc) opts
      in (''/elloloop.notify.v1.NotificationInternalService/'',
          \<lambda>r s. if hr_Path r = NotificationInternalServiceNotifyProcedure then notifyHandler r s
                else (s, http_NotFound)))"

definition NewNotificationClientServiceHandler ::
  "('b, 's) connect_lib \<Rightarrow> 's NotificationClientServiceHandler \<Rightarrow> Interceptor list \<Rightarrow>
   string \<times> ('b, 's Rpc) http_Handler" where
  "NewNotificationClientServiceHandler lib svc opts =
     (let streamEventsHandler = NewServerStreamHandler lib
            NotificationClientServiceStreamEventsProcedure (csh_StreamEvents svc) opts;
          getNotificationsHandler = NewUnaryHandler_GetNotifications lib
            NotificationClientServiceGetNotificationsProcedure (csh_GetNotifications svc) opts;
          ackNotificationHandler = NewUnaryHandler_AckNotification lib
            NotificationClientServiceAckNotificationProcedure (csh_AckNotification svc) opts;
          ackDataChangeHandler = NewUnaryHandler_AckDataChange lib
            NotificationClientServiceAckDataChangeProcedure (csh_AckDataChange svc) opts;
          registerPushTokenHandler = NewUnaryHandler_RegisterPushToken lib
            NotificationClientServiceRegisterPushTokenProcedure (csh_RegisterPushToken svc) opts
      in (''/elloloop.notify.v1.NotificationClientService/'',
          \<lambda>r s. if hr_Path r = NotificationClientServiceStreamEventsProcedure then streamEventsHandler r s
                else if hr_Path r = NotificationClientServiceGetNotificationsProcedure then getNotificationsHandler r s
                else if hr_Path r = NotificationClientServiceAckNotificationProcedure then ackNotificationHandler r s
                else if hr_Path r = NotificationClientServiceAckDataChangeProcedure then ackDataChangeHandler r s
                else if hr_Path r = NotificationClientServiceRegisterPushTokenProcedure then registerPushTokenHandler r s
                else (s, http_NotFound)))"

subsection \<open>The Unimplemented handlers\<close>

definition not_implemented :: "string \<Rightarrow> 's \<Rightarrow> 's \<times> 'a rpc" where
  "not_implemented procedure s = (s, Err (Connect CodeUnimplemented (New (procedure @ '' is not implemented''))))"

definition UnimplementedNotificationInternalServiceHandler :: "'s NotificationInternalServiceHandler" where
  "UnimplementedNotificationInternalServiceHandler =
     \<lparr>ish_Notify = \<lambda>ctx req s. not_implemented ''elloloop.notify.v1.NotificationInternalService.Notify'' s\<rparr>"

definition UnimplementedNotificationClientServiceHandler :: "'s NotificationClientServiceHandler" where
  "UnimplementedNotificationClientServiceHandler =
     \<lparr>csh_StreamEvents = \<lambda>stream ctx req s. not_implemented ''elloloop.notify.v1.NotificationClientService.StreamEvents'' s,
      csh_GetNotifications = \<lambda>ctx req s. not_implemented ''elloloop.notify.v1.NotificationClientService.GetNotifications'' s,
      csh_AckNotification = \<lambda>ctx req s. not_implemented ''elloloop.notify.v1.NotificationClientService.AckNotification'' s,
      csh_AckDataChange = \<lambda>ctx req s. not_implemented ''elloloop.notify.v1.NotificationClientService.AckDataChange'' s,
      csh_RegisterPushToken = \<lambda>ctx req s. not_implemented ''elloloop.notify.v1.NotificationClientService.RegisterPushToken'' s\<rparr>"

subsection \<open>The clients\<close>

text \<open>\<open>connect.Client\<close> holds what it was made of: the HTTP client and the URL of its procedure.\<close>

record 'h connect_Client =
  cc_HTTPClient :: 'h
  cc_URL :: string

definition connect_NewClient :: "'h \<Rightarrow> string \<Rightarrow> 'h connect_Client" where
  "connect_NewClient httpClient url = \<lparr>cc_HTTPClient = httpClient, cc_URL = url\<rparr>"

record 'h notificationInternalServiceClient =
  nic_notify :: "'h connect_Client"

definition NewNotificationInternalServiceClient :: "'h \<Rightarrow> string \<Rightarrow> 'h notificationInternalServiceClient" where
  "NewNotificationInternalServiceClient httpClient baseURL =
     (let baseURL = TrimRight_byte baseURL (CHR ''/'')
      in \<lparr>nic_notify = connect_NewClient httpClient (baseURL @ NotificationInternalServiceNotifyProcedure)\<rparr>)"

record 'h notificationClientServiceClient =
  ncc_streamEvents :: "'h connect_Client"
  ncc_getNotifications :: "'h connect_Client"
  ncc_ackNotification :: "'h connect_Client"
  ncc_ackDataChange :: "'h connect_Client"
  ncc_registerPushToken :: "'h connect_Client"

definition NewNotificationClientServiceClient :: "'h \<Rightarrow> string \<Rightarrow> 'h notificationClientServiceClient" where
  "NewNotificationClientServiceClient httpClient baseURL =
     (let baseURL = TrimRight_byte baseURL (CHR ''/'')
      in \<lparr>ncc_streamEvents = connect_NewClient httpClient (baseURL @ NotificationClientServiceStreamEventsProcedure),
          ncc_getNotifications = connect_NewClient httpClient (baseURL @ NotificationClientServiceGetNotificationsProcedure),
          ncc_ackNotification = connect_NewClient httpClient (baseURL @ NotificationClientServiceAckNotificationProcedure),
          ncc_ackDataChange = connect_NewClient httpClient (baseURL @ NotificationClientServiceAckDataChangeProcedure),
          ncc_registerPushToken = connect_NewClient httpClient (baseURL @ NotificationClientServiceRegisterPushTokenProcedure)\<rparr>)"

text \<open>The methods of the clients forward to \<open>CallUnary\<close> and \<open>CallServerStream\<close> of the library, the
  parameter \<open>call\<close>: a client, a request and the world to the world and the outcome.\<close>

type_synonym ('h, 'm, 'a, 'w) client_call = "'h connect_Client \<Rightarrow> ('m, 'a, 'w) UnaryFunc"

definition internalClient_Notify ::
  "('h, pb_NotifyRequest, pb_NotifyResponse, 'w) client_call \<Rightarrow> 'h notificationInternalServiceClient \<Rightarrow>
   (pb_NotifyRequest, pb_NotifyResponse, 'w) UnaryFunc" where
  "internalClient_Notify call c ctx req w = call (nic_notify c) ctx req w"

definition clientClient_StreamEvents ::
  "('h, DeviceType, unit, 'w) client_call \<Rightarrow> 'h notificationClientServiceClient \<Rightarrow> (DeviceType, unit, 'w) UnaryFunc" where
  "clientClient_StreamEvents call c ctx req w = call (ncc_streamEvents c) ctx req w"

definition clientClient_GetNotifications ::
  "('h, GetNotificationsRequest, GetNotificationsResponse, 'w) client_call \<Rightarrow> 'h notificationClientServiceClient \<Rightarrow>
   (GetNotificationsRequest, GetNotificationsResponse, 'w) UnaryFunc" where
  "clientClient_GetNotifications call c ctx req w = call (ncc_getNotifications c) ctx req w"

definition clientClient_AckNotification ::
  "('h, string, unit, 'w) client_call \<Rightarrow> 'h notificationClientServiceClient \<Rightarrow> (string, unit, 'w) UnaryFunc" where
  "clientClient_AckNotification call c ctx req w = call (ncc_ackNotification c) ctx req w"

definition clientClient_AckDataChange ::
  "('h, AckDataChangeRequest, unit, 'w) client_call \<Rightarrow> 'h notificationClientServiceClient \<Rightarrow>
   (AckDataChangeRequest, unit, 'w) UnaryFunc" where
  "clientClient_AckDataChange call c ctx req w = call (ncc_ackDataChange c) ctx req w"

definition clientClient_RegisterPushToken ::
  "('h, RegisterPushTokenRequest, unit, 'w) client_call \<Rightarrow> 'h notificationClientServiceClient \<Rightarrow>
   (RegisterPushTokenRequest, unit, 'w) UnaryFunc" where
  "clientClient_RegisterPushToken call c ctx req w = call (ncc_registerPushToken c) ctx req w"

subsection \<open>What the RPC library documents\<close>

text \<open>A codec is how the library reads the message of an HTTP request (or fails to) and how it writes
  an outcome; both depend on the protocol of the request. A unary handler that cannot read its
  message answers with an error before any interceptor runs; otherwise it runs the implementation
  under the interceptors, with the header of the HTTP request and the name of the procedure, and
  writes the outcome. A stream handler reads its message inside the interceptors.\<close>

record ('b, 'm, 'a) codec =
  cd_recv :: "'b http_Request \<Rightarrow> goerror + 'm"
  cd_reply :: "'b http_Request \<Rightarrow> 'a rpc \<Rightarrow> 'b"

record 'b codecs =
  cs_Notify :: "('b, pb_NotifyRequest, pb_NotifyResponse) codec"
  cs_StreamEvents :: "('b, DeviceType, unit) codec"
  cs_sent :: "'b http_Request \<Rightarrow> goerror option"
  cs_GetNotifications :: "('b, GetNotificationsRequest, GetNotificationsResponse) codec"
  cs_AckNotification :: "('b, string, unit) codec"
  cs_AckDataChange :: "('b, AckDataChangeRequest, unit) codec"
  cs_RegisterPushToken :: "('b, RegisterPushTokenRequest, unit) codec"

definition connect_request :: "string \<Rightarrow> 'b http_Request \<Rightarrow> 'm option \<Rightarrow> 'm Request" where
  "connect_request procedure r m = \<lparr>rq_Header = hr_Header r, rq_Procedure = procedure, rq_Msg = m\<rparr>"

definition serves_unary :: "('b, 'm, 'a, 's) UnaryHandler \<Rightarrow> ('b, 'm, 'a) codec \<Rightarrow> bool" where
  "serves_unary new cd \<longleftrightarrow> (\<forall>procedure h opts r s. new procedure h opts r s =
     (case cd_recv cd r of
        Inl e \<Rightarrow> (s, http_Reply (cd_reply cd r (Err e)))
      | Inr m \<Rightarrow>
          let (s', res) = intercept_unary opts (serve_rpc h) None (connect_request procedure r (Some m)) s
          in (s', http_Reply (cd_reply cd r res))))"

definition serves_stream ::
  "(string \<Rightarrow> (goerror option \<Rightarrow> ('m, unit, 's) UnaryFunc) \<Rightarrow> Interceptor list \<Rightarrow> ('b, 's Rpc) http_Handler) \<Rightarrow>
   ('b, 'm, unit) codec \<Rightarrow> ('b http_Request \<Rightarrow> goerror option) \<Rightarrow> bool" where
  "serves_stream new cd sent \<longleftrightarrow> (\<forall>procedure h opts r s. new procedure h opts r s =
     (let (s', res) = intercept_stream opts
            (\<lambda>ctx req s. case cd_recv cd r of
               Inl e \<Rightarrow> (s, Err e)
             | Inr m \<Rightarrow> serve_rpc (h (sent r)) ctx (req\<lparr>rq_Msg := Some m\<rparr>) s)
            None (connect_request procedure r None) s
      in (s', http_Reply (cd_reply cd r res))))"

definition connect_documented :: "('b, 's) connect_lib \<Rightarrow> 'b codecs \<Rightarrow> bool" where
  "connect_documented lib cs \<longleftrightarrow>
     serves_unary (NewUnaryHandler_Notify lib) (cs_Notify cs) \<and>
     serves_unary (NewUnaryHandler_GetNotifications lib) (cs_GetNotifications cs) \<and>
     serves_unary (NewUnaryHandler_AckNotification lib) (cs_AckNotification cs) \<and>
     serves_unary (NewUnaryHandler_AckDataChange lib) (cs_AckDataChange cs) \<and>
     serves_unary (NewUnaryHandler_RegisterPushToken lib) (cs_RegisterPushToken cs) \<and>
     serves_stream (NewServerStreamHandler lib) (cs_StreamEvents cs) (cs_sent cs) \<and>
     (\<forall>h. h2c_NewHandler lib h = h)"

text \<open>A library that does exactly this, for any codecs.\<close>

definition unary_handler :: "('b, 'm, 'a) codec \<Rightarrow> ('b, 'm, 'a, 's) UnaryHandler" where
  "unary_handler cd procedure h opts r s =
     (case cd_recv cd r of
        Inl e \<Rightarrow> (s, http_Reply (cd_reply cd r (Err e)))
      | Inr m \<Rightarrow>
          let (s', res) = intercept_unary opts (serve_rpc h) None (connect_request procedure r (Some m)) s
          in (s', http_Reply (cd_reply cd r res)))"

definition stand_in_lib :: "'b codecs \<Rightarrow> ('b, 's) connect_lib" where
  "stand_in_lib cs =
     \<lparr>NewUnaryHandler_Notify = unary_handler (cs_Notify cs),
      NewUnaryHandler_GetNotifications = unary_handler (cs_GetNotifications cs),
      NewUnaryHandler_AckNotification = unary_handler (cs_AckNotification cs),
      NewUnaryHandler_AckDataChange = unary_handler (cs_AckDataChange cs),
      NewUnaryHandler_RegisterPushToken = unary_handler (cs_RegisterPushToken cs),
      NewServerStreamHandler = (\<lambda>procedure h opts r s.
        let (s', res) = intercept_stream opts
               (\<lambda>ctx req s. case cd_recv (cs_StreamEvents cs) r of
                  Inl e \<Rightarrow> (s, Err e)
                | Inr m \<Rightarrow> serve_rpc (h (cs_sent cs r)) ctx (req\<lparr>rq_Msg := Some m\<rparr>) s)
               None (connect_request procedure r None) s
         in (s', http_Reply (cd_reply (cs_StreamEvents cs) r res))),
      h2c_NewHandler = (\<lambda>h. h)\<rparr>"

lemma stand_in_documented: "connect_documented (stand_in_lib cs) cs"
  by (simp add: connect_documented_def stand_in_lib_def serves_unary_def serves_stream_def unary_handler_def)

subsection \<open>What a request on the client service does\<close>

definition rpc_msg :: "'m \<Rightarrow> 'm Request" where
  "rpc_msg m = \<lparr>rq_Header = (\<lambda>_. ''''), rq_Procedure = '''', rq_Msg = Some m\<rparr>"

text \<open>One authenticated call, as the caller is to see it: an unreadable message and an invalid token are
  errors that change nothing; otherwise the handler runs with exactly the claims of the token.\<close>

definition authenticated_call ::
  "('b, 'm, 'a) codec \<Rightarrow> AuthValidator \<Rightarrow> ('m, 'a, 's) UnaryFunc \<Rightarrow> ('b, 's) http_Handler" where
  "authenticated_call cd v h r b =
     (case cd_recv cd r of
        Inl e \<Rightarrow> (b, http_Reply (cd_reply cd r (Err e)))
      | Inr m \<Rightarrow>
          (case v (hr_Header r ''Authorization'') of
             Inl e \<Rightarrow> (b, http_Reply (cd_reply cd r (Err e)))
           | Inr c \<Rightarrow> let (b', res) = h (Some c) (rpc_msg m) b in (b', http_Reply (cd_reply cd r (recovered res)))))"

definition client_dispatch :: "'b codecs \<Rightarrow> AuthValidator \<Rightarrow> 's clientHandler \<Rightarrow> ('b, 's Backend) http_Handler" where
  "client_dispatch cs v h r b =
     (if hr_Path r = NotificationClientServiceStreamEventsProcedure
        then authenticated_call (cs_StreamEvents cs) v (client_StreamEvents h (cs_sent cs r)) r b
      else if hr_Path r = NotificationClientServiceGetNotificationsProcedure
        then authenticated_call (cs_GetNotifications cs) v (client_GetNotifications h) r b
      else if hr_Path r = NotificationClientServiceAckNotificationProcedure
        then authenticated_call (cs_AckNotification cs) v (client_AckNotification h) r b
      else if hr_Path r = NotificationClientServiceAckDataChangeProcedure
        then authenticated_call (cs_AckDataChange cs) v (client_AckDataChange h) r b
      else if hr_Path r = NotificationClientServiceRegisterPushTokenProcedure
        then authenticated_call (cs_RegisterPushToken cs) v (client_RegisterPushToken h) r b
      else (b, http_NotFound))"

text \<open>The shim is the service implementation the generated handler is built on.\<close>

definition shim_service :: "'s streamAuthShim \<Rightarrow> 's Backend NotificationClientServiceHandler" where
  "shim_service s =
     \<lparr>csh_StreamEvents = shim_StreamEvents s, csh_GetNotifications = shim_GetNotifications s,
      csh_AckNotification = shim_AckNotification s, csh_AckDataChange = shim_AckDataChange s,
      csh_RegisterPushToken = shim_RegisterPushToken s\<rparr>"

text \<open>The bodies of the calls read the message of their request and nothing else of it.\<close>

lemma request_message:
  "getter f z (connect_request p r (Some m)) = f m" "getter f z (rpc_msg m) = f m"
  "rq_Msg (connect_request p r (Some m)) = Some m" "rq_Msg (rpc_msg m) = Some m"
  by (simp_all add: getter_def connect_request_def rpc_msg_def)

lemma body_reads_message:
  "client_GetNotifications h ctx (connect_request p r (Some m1)) = client_GetNotifications h ctx (rpc_msg m1)"
  "client_AckNotification h ctx (connect_request p r (Some m2)) = client_AckNotification h ctx (rpc_msg m2)"
  "client_AckDataChange h ctx (connect_request p r (Some m3)) = client_AckDataChange h ctx (rpc_msg m3)"
  "client_RegisterPushToken h ctx (connect_request p r (Some m4)) = client_RegisterPushToken h ctx (rpc_msg m4)"
  "client_StreamEvents h send ctx (connect_request p r (Some m5)) = client_StreamEvents h send ctx (rpc_msg m5)"
  "internal_Notify ih ctx (connect_request p r (Some m6)) = internal_Notify ih ctx (rpc_msg m6)"
  unfolding fun_eq_iff client_GetNotifications_def client_AckNotification_def client_AckDataChange_def
    client_RegisterPushToken_def client_StreamEvents_def internal_Notify_def notifications_query_def request_message
  by (rule allI refl)+

lemma serves_unary_client:
  assumes "serves_unary new cd" "new p h (client_interceptors lg v) r s = (s', resp)"
    and "\<And>ctx m b. h ctx (connect_request p r (Some m)) b = g ctx (rpc_msg m) b"
  shows "authenticated_call cd v g r (rpc_state s) = (rpc_state s', resp)"
proof (cases "cd_recv cd r")
  case (Inr m)
  let ?req = "connect_request p r (Some m)"
  let ?run = "client_chain lg v (serve_rpc h) None ?req s"
  have hd: "rq_Header ?req ''Authorization'' = hr_Header r ''Authorization''" by (simp add: connect_request_def)
  have s': "s' = fst ?run" "resp = http_Reply (cd_reply cd r (snd ?run))"
    using assms(1,2) Inr by (auto simp: serves_unary_def client_chain_def split: prod.splits)
  show ?thesis
    using client_chain_authenticates [where r = s and v = v and req = ?req and lg = lg and h = "serve_rpc h" and ctx = None] Inr
    unfolding hd authenticated_call_def s' by (auto simp: assms(3) split: sum.splits prod.splits)
qed (use assms in \<open>auto simp: serves_unary_def authenticated_call_def\<close>)

lemma serves_stream_client:
  assumes "serves_stream new cd sent" "new p (shim_StreamEvents (newStreamAuthShim h v)) (client_interceptors lg v) r s = (s', resp)"
  shows "authenticated_call cd v (client_StreamEvents h (sent r)) r (rpc_state s) = (rpc_state s', resp)"
proof -
  let ?body = "\<lambda>ctx req s. case cd_recv cd r of
      Inl e \<Rightarrow> (s, Err e)
    | Inr m \<Rightarrow> serve_rpc (shim_StreamEvents (newStreamAuthShim h v) (sent r)) ctx (req\<lparr>rq_Msg := Some m\<rparr>) s"
  let ?run = "stream_chain lg v ?body None (connect_request p r None) s"
  have s': "s' = fst ?run" "resp = http_Reply (cd_reply cd r (snd ?run))"
    using assms by (auto simp: serves_stream_def stream_chain_def split: prod.splits)
  obtain r0 where r0: "rpc_state r0 = rpc_state s" "rpc_state (fst ?run) = rpc_state (fst (?body None (connect_request p r None) r0))"
    "snd ?run = recovered (snd (?body None (connect_request p r None) r0))"
    using stream_chain_observes [where r = s and lg = lg and v = v and h = ?body and ctx = None and req = "connect_request p r None"] by blast
  have up: "(connect_request p r None)\<lparr>rq_Msg := Some m\<rparr> = connect_request p r (Some m)" for m
    by (simp add: connect_request_def)
  have e: "recovered (Err e) = Err e" for e by (simp add: recovered_def)
  have hd: "rq_Header (connect_request p r m) = hr_Header r" for m by (simp add: connect_request_def)
  show ?thesis
    unfolding s' r0(2,3) authenticated_call_def
    by (auto simp: r0(1) up e hd shim_StreamEvents_def newStreamAuthShim_def authenticateStreamReq_def withClaims_def
        body_reads_message split: sum.splits prod.splits)
qed

text \<open>The generated handler on the shim, under the interceptors of the client port, does exactly what
  \<open>client_dispatch\<close> says.\<close>

lemma client_handler_exact:
  assumes "connect_documented lib cs"
    and "snd (NewNotificationClientServiceHandler lib (shim_service (newStreamAuthShim h v)) (client_interceptors lg v)) r s = (s', resp)"
  shows "client_dispatch cs v h r (rpc_state s) = (rpc_state s', resp)"
proof -
  note lib = assms(1) [unfolded connect_documented_def]
  note sh = shim_service_def shim_GetNotifications_def shim_AckNotification_def shim_AckDataChange_def
    shim_RegisterPushToken_def newStreamAuthShim_def body_reads_message
  consider (st) "hr_Path r = NotificationClientServiceStreamEventsProcedure"
    | (gn) "hr_Path r = NotificationClientServiceGetNotificationsProcedure"
    | (an) "hr_Path r = NotificationClientServiceAckNotificationProcedure"
    | (ad) "hr_Path r = NotificationClientServiceAckDataChangeProcedure"
    | (rp) "hr_Path r = NotificationClientServiceRegisterPushTokenProcedure"
    | (no) "hr_Path r \<notin> {NotificationClientServiceStreamEventsProcedure, NotificationClientServiceGetNotificationsProcedure,
        NotificationClientServiceAckNotificationProcedure, NotificationClientServiceAckDataChangeProcedure,
        NotificationClientServiceRegisterPushTokenProcedure}" by blast
  then show ?thesis
  proof cases
    case st
    with assms(2) serves_stream_client [of "NewServerStreamHandler lib" "cs_StreamEvents cs" "cs_sent cs"] lib show ?thesis
      by (simp add: NewNotificationClientServiceHandler_def client_dispatch_def shim_service_def)
  next
    case no
    with assms(2) show ?thesis by (simp add: NewNotificationClientServiceHandler_def client_dispatch_def)
  qed ((insert assms(2) lib; simp add: NewNotificationClientServiceHandler_def client_dispatch_def procedure_defs;
       erule serves_unary_client [rotated]; simp add: sh)+)
qed

text \<open>The unimplemented services change nothing and answer every call with the code for it.\<close>

lemma unimplemented_answers:
  "\<exists>e. ish_Notify UnimplementedNotificationInternalServiceHandler ctx req0 s = (s, Err e) \<and> CodeOf e = Some CodeUnimplemented"
  "\<exists>e. csh_StreamEvents UnimplementedNotificationClientServiceHandler stream ctx req1 s = (s, Err e) \<and> CodeOf e = Some CodeUnimplemented"
  "\<exists>e. csh_GetNotifications UnimplementedNotificationClientServiceHandler ctx req2 s = (s, Err e) \<and> CodeOf e = Some CodeUnimplemented"
  "\<exists>e. csh_AckNotification UnimplementedNotificationClientServiceHandler ctx req3 s = (s, Err e) \<and> CodeOf e = Some CodeUnimplemented"
  "\<exists>e. csh_AckDataChange UnimplementedNotificationClientServiceHandler ctx req4 s = (s, Err e) \<and> CodeOf e = Some CodeUnimplemented"
  "\<exists>e. csh_RegisterPushToken UnimplementedNotificationClientServiceHandler ctx req5 s = (s, Err e) \<and> CodeOf e = Some CodeUnimplemented"
  by (simp_all add: UnimplementedNotificationInternalServiceHandler_def UnimplementedNotificationClientServiceHandler_def
      not_implemented_def)

subsection \<open>What a request on the internal service does\<close>

text \<open>The one call of the internal service: an unreadable message and a missing or wrong token are
  errors that change nothing.\<close>

definition internal_dispatch ::
  "'b codecs \<Rightarrow> string \<Rightarrow> bool \<Rightarrow> 's internalHandler \<Rightarrow> ('b, 's Backend) http_Handler" where
  "internal_dispatch cs token devMode h r b =
     (if hr_Path r = NotificationInternalServiceNotifyProcedure then
        (case cd_recv (cs_Notify cs) r of
           Inl e \<Rightarrow> (b, http_Reply (cd_reply (cs_Notify cs) r (Err e)))
         | Inr m \<Rightarrow>
             (case internal_decision token devMode (connect_request NotificationInternalServiceNotifyProcedure r (Some m)) of
                Inl e \<Rightarrow> (b, http_Reply (cd_reply (cs_Notify cs) r (Err e)))
              | Inr _ \<Rightarrow>
                  let (b', res) = internal_Notify h None (rpc_msg m) b
                  in (b', http_Reply (cd_reply (cs_Notify cs) r (recovered res)))))
      else (b, http_NotFound))"

definition internal_service :: "'s internalHandler \<Rightarrow> 's Backend NotificationInternalServiceHandler" where
  "internal_service h = \<lparr>ish_Notify = internal_Notify h\<rparr>"

lemma internal_chain_decides:
  assumes "internal_chain lg token dev h ctx req r = (r', res)"
  shows "case internal_decision token dev req of
      Inl e \<Rightarrow> rpc_state r' = rpc_state r \<and> res = Err e
    | Inr _ \<Rightarrow> \<exists>r0. rpc_state r0 = rpc_state r \<and> rpc_state r' = rpc_state (fst (h ctx req r0)) \<and> res = recovered (snd (h ctx req r0))"
proof -
  obtain r0 where r0: "rpc_state r0 = rpc_state r"
    "rpc_state r' = rpc_state (fst (NewInternalAuthInterceptor token dev h ctx req r0))"
    "res = recovered (snd (NewInternalAuthInterceptor token dev h ctx req r0))"
    using internal_chain_observes [where lg = lg and x = token and d = dev and h = h and ctx = ctx and req = req and r = r]
      assms by auto
  show ?thesis
  proof (cases rule: internal_guard.wrap_cases [of token dev req h ctx r0])
    case (1 e)
    with r0 show ?thesis by (simp add: recovered_def)
  next
    case (2 f)
    then have "f ctx = ctx" by (auto simp: internal_decision_def split: if_splits)
    with 2 r0 show ?thesis by auto
  qed
qed

lemma internal_handler_exact:
  assumes "connect_documented lib cs"
    and "snd (NewNotificationInternalServiceHandler lib (internal_service h) (internal_interceptors lg token dev)) r s = (s', resp)"
  shows "internal_dispatch cs token dev h r (rpc_state s) = (rpc_state s', resp)"
proof (cases "hr_Path r = NotificationInternalServiceNotifyProcedure")
  case True
  let ?cd = "cs_Notify cs" and ?p = NotificationInternalServiceNotifyProcedure
  have su: "serves_unary (NewUnaryHandler_Notify lib) ?cd" using assms(1) by (simp add: connect_documented_def)
  have new: "NewUnaryHandler_Notify lib ?p (internal_Notify h) (internal_interceptors lg token dev) r s = (s', resp)"
    using assms(2) True by (simp add: NewNotificationInternalServiceHandler_def internal_service_def)
  show ?thesis
  proof (cases "cd_recv ?cd r")
    case (Inl e)
    with new su True show ?thesis by (simp add: serves_unary_def internal_dispatch_def)
  next
    case (Inr m)
    obtain res where run: "internal_chain lg token dev (serve_rpc (internal_Notify h)) None (connect_request ?p r (Some m)) s = (s', res)"
      "resp = http_Reply (cd_reply ?cd r res)"
      using new su Inr by (auto simp: serves_unary_def internal_chain_def split: prod.splits)
    from internal_chain_decides [OF run(1)] True Inr run(2) show ?thesis
      by (auto simp: internal_dispatch_def body_reads_message split: sum.splits prod.splits)
  qed
qed (use assms in \<open>simp add: NewNotificationInternalServiceHandler_def internal_dispatch_def\<close>)

subsection \<open>Mounting the services\<close>

lemma service_names:
  "NotificationClientServiceName \<noteq> ''''" "CHR ''/'' \<notin> set NotificationClientServiceName"
  "NotificationInternalServiceName \<noteq> ''''" "CHR ''/'' \<notin> set NotificationInternalServiceName"
  by (simp_all add: NotificationClientServiceName_def NotificationInternalServiceName_def)

text \<open>The path the generated handler asks to be mounted on is the subtree of the service's name.\<close>

lemma mount_paths:
  "fst (NewNotificationClientServiceHandler lib csvc opts) = CHR ''/'' # NotificationClientServiceName @ ''/''"
  "fst (NewNotificationInternalServiceHandler lib isvc opts) = CHR ''/'' # NotificationInternalServiceName @ ''/''"
  by (simp_all add: NewNotificationClientServiceHandler_def NewNotificationInternalServiceHandler_def
      NotificationClientServiceName_def NotificationInternalServiceName_def)

text \<open>Every procedure lies in the subtree of its service.\<close>

lemma procedure_paths:
  "NotificationInternalServiceNotifyProcedure = CHR ''/'' # NotificationInternalServiceName @ CHR ''/'' # ''Notify''"
  "NotificationClientServiceStreamEventsProcedure = CHR ''/'' # NotificationClientServiceName @ CHR ''/'' # ''StreamEvents''"
  "NotificationClientServiceGetNotificationsProcedure = CHR ''/'' # NotificationClientServiceName @ CHR ''/'' # ''GetNotifications''"
  "NotificationClientServiceAckNotificationProcedure = CHR ''/'' # NotificationClientServiceName @ CHR ''/'' # ''AckNotification''"
  "NotificationClientServiceAckDataChangeProcedure = CHR ''/'' # NotificationClientServiceName @ CHR ''/'' # ''AckDataChange''"
  "NotificationClientServiceRegisterPushTokenProcedure = CHR ''/'' # NotificationClientServiceName @ CHR ''/'' # ''RegisterPushToken''"
  by (simp_all add: procedure_defs NotificationInternalServiceName_def NotificationClientServiceName_def)

lemma PathUnescape_plain: "CHR ''%'' \<notin> set s \<Longrightarrow> PathUnescape s = Some s"
  by (induction s rule: PathUnescape.induct) auto

lemma pathUnescape_plain: "CHR ''%'' \<notin> set s \<Longrightarrow> pathUnescape s = s"
  by (simp add: pathUnescape_def PathUnescape_plain)

lemma takeWhile_segment: "CHR ''/'' \<notin> set n \<Longrightarrow> takeWhile (\<lambda>c. c \<noteq> CHR ''/'') (n @ CHR ''/'' # s) = n \<and>
    dropWhile (\<lambda>c. c \<noteq> CHR ''/'') (n @ CHR ''/'' # s) = CHR ''/'' # s"
  by (induction n) auto

text \<open>A path of two clean segments without escapes, the first one mounted, is in the subtree.\<close>

lemma under_subtree_procedure:
  assumes "clean_segment n" "clean_segment m" "CHR ''%'' \<notin> set n" "hr_EscapedPath r = CHR ''/'' # n @ CHR ''/'' # m"
  shows "under_subtree n r"
proof -
  have "hr_EscapedPath r = CHR ''/'' # Join [n, m] (CHR ''/'')" using assms(4) by simp
  moreover have "list_all clean_segment [n, m]" using assms by simp
  ultimately have c: "path_Clean (hr_EscapedPath r) = hr_EscapedPath r"
    "last (hr_EscapedPath r) \<noteq> CHR ''/''" using path_Clean_id clean_last by (metis list.distinct(1))+
  have "firstSegment (hr_EscapedPath r) = (n, CHR ''/'' # m)"
    using assms takeWhile_segment [of n m] by (simp add: firstSegment_def pathUnescape_plain clean_segment_def)
  with c assms(4) show ?thesis by (simp add: under_subtree_def cleanPath_def)
qed

lemma procedure_reached:
  assumes "clean_segment n" "clean_segment m" "CHR ''%'' \<notin> set n"
    and "hr_EscapedPath r = CHR ''/'' # n @ CHR ''/'' # m" "hr_RequestURI r \<noteq> ''*''"
  shows "mux_ServeHTTP (mux_Handle (CHR ''/'' # n @ ''/'') h NewServeMux) r s = h r s"
proof (rule subtree_reached [OF _ _ under_subtree_procedure [OF assms(1-4)] assms(5) assms(4)])
  show "last m \<noteq> CHR ''/''" using assms(2) last_in_set [of m] by (auto simp: clean_segment_def simp del: last_in_set)
qed (use assms(1,2) in \<open>auto simp: clean_segment_def\<close>)

subsection \<open>The URLs of the clients\<close>

text \<open>The path of an absolute URL: behind the authority, up to a query or fragment.\<close>

definition URL_Path :: "string \<Rightarrow> string" where
  "URL_Path u =
     (let u = takeWhile (\<lambda>c. c \<noteq> CHR ''?'') (takeWhile (\<lambda>c. c \<noteq> CHR ''#'') u)
      in dropWhile (\<lambda>c. c \<noteq> CHR ''/'') (drop 3 (dropWhile (\<lambda>c. c \<noteq> CHR '':'') u)))"

text \<open>A base URL as the constructors document it, without a path of its own: a scheme, an authority
  and any number of final slashes.\<close>

definition base_url :: "string \<Rightarrow> string \<Rightarrow> nat \<Rightarrow> string" where
  "base_url scheme authority k = scheme @ ''://'' @ authority @ replicate k (CHR ''/'')"

definition url_part :: "string \<Rightarrow> bool" where
  "url_part s \<longleftrightarrow> s \<noteq> '''' \<and> CHR ''/'' \<notin> set s \<and> CHR ''?'' \<notin> set s \<and> CHR ''#'' \<notin> set s"

lemma dropWhile_replicate: "dropWhile (\<lambda>x. x = c) (replicate k c @ xs) = dropWhile (\<lambda>x. x = c) xs"
  by (induction k) auto

lemma TrimRight_base_url:
  assumes "url_part authority"
  shows "TrimRight_byte (base_url scheme authority k) (CHR ''/'') = base_url scheme authority 0"
proof -
  have "last authority \<noteq> CHR ''/''" using assms last_in_set [of authority]
    by (auto simp: url_part_def simp del: last_in_set)
  then have "rev authority = last authority # rev (butlast authority)"
    using assms by (metis append_butlast_last_id rev_eq_Cons_iff rev_rev_ident url_part_def)
  then have "dropWhile (\<lambda>x. x = CHR ''/'') (rev authority @ xs) = rev authority @ xs" for xs
    using \<open>last authority \<noteq> CHR ''/''\<close> by (simp only: append_Cons dropWhile.simps if_False)
  then show ?thesis
    by (simp add: TrimRight_byte_def base_url_def dropWhile_replicate)
qed

lemma takeWhile_absent: "c \<notin> set s \<Longrightarrow> takeWhile (\<lambda>x. x \<noteq> c) s = s"
  by (induction s) auto

lemma dropWhile_upto: "c \<notin> set s \<Longrightarrow> dropWhile (\<lambda>x. x \<noteq> c) (s @ c # t) = c # t"
  by (induction s) auto

lemma URL_Path_base:
  assumes "url_part scheme" "CHR '':'' \<notin> set scheme" "url_part authority"
    and "CHR ''?'' \<notin> set path" "CHR ''#'' \<notin> set path"
  shows "URL_Path (base_url scheme authority 0 @ CHR ''/'' # path) = CHR ''/'' # path"
proof -
  let ?u = "scheme @ ''://'' @ authority @ CHR ''/'' # path"
  have "takeWhile (\<lambda>c. c \<noteq> CHR ''#'') ?u = ?u" "takeWhile (\<lambda>c. c \<noteq> CHR ''?'') ?u = ?u"
    using assms by (intro takeWhile_absent; simp add: url_part_def)+
  moreover have "dropWhile (\<lambda>c. c \<noteq> CHR '':'') ?u = ''://'' @ authority @ CHR ''/'' # path"
    using dropWhile_upto [OF assms(2), of "''//'' @ authority @ CHR ''/'' # path"] by simp
  moreover have "dropWhile (\<lambda>c. c \<noteq> CHR ''/'') (authority @ CHR ''/'' # path) = CHR ''/'' # path"
    using assms(3) by (intro dropWhile_upto) (simp add: url_part_def)
  moreover have "base_url scheme authority 0 @ CHR ''/'' # path = ?u" by (simp add: base_url_def)
  ultimately show ?thesis unfolding URL_Path_def Let_def by (simp only:) simp
qed

text \<open>The request a client posts to a URL, as the server that listens there receives it.\<close>

definition http_post :: "string \<Rightarrow> (string \<Rightarrow> string) \<Rightarrow> 'b \<Rightarrow> 'b http_Request" where
  "http_post url header body =
     \<lparr>hr_Method = ''POST'', hr_RequestURI = URL_Path url, hr_Path = pathUnescape (URL_Path url),
      hr_EscapedPath = URL_Path url, hr_RawQuery = '''', hr_Header = header, hr_Body = body\<rparr>"

text \<open>The URL of a method of a service mounted at the root of a server.\<close>

definition method_url :: "string \<Rightarrow> string \<Rightarrow> string \<Rightarrow> string \<Rightarrow> string" where
  "method_url scheme authority service method = base_url scheme authority 0 @ CHR ''/'' # service @ CHR ''/'' # method"

definition name_part :: "string \<Rightarrow> bool" where
  "name_part s \<longleftrightarrow> url_part s \<and> clean_segment s \<and> CHR ''%'' \<notin> set s"

lemma post_reaches:
  assumes "url_part scheme" "CHR '':'' \<notin> set scheme" "url_part authority" "name_part n" "name_part m"
  shows "hr_Path (http_post (method_url scheme authority n m) header body) = CHR ''/'' # n @ CHR ''/'' # m"
    and "mux_ServeHTTP (mux_Handle (CHR ''/'' # n @ ''/'') h NewServeMux) (http_post (method_url scheme authority n m) header body) s =
      h (http_post (method_url scheme authority n m) header body) s"
proof -
  have p: "URL_Path (method_url scheme authority n m) = CHR ''/'' # n @ CHR ''/'' # m"
    unfolding method_url_def
    by (rule URL_Path_base [OF assms(1-3)]) (use assms(4,5) in \<open>auto simp: name_part_def url_part_def\<close>)
  show "hr_Path (http_post (method_url scheme authority n m) header body) = CHR ''/'' # n @ CHR ''/'' # m"
    using assms(4,5) by (simp add: http_post_def p pathUnescape_plain name_part_def)
  show "mux_ServeHTTP (mux_Handle (CHR ''/'' # n @ ''/'') h NewServeMux) (http_post (method_url scheme authority n m) header body) s =
      h (http_post (method_url scheme authority n m) header body) s"
    by (rule procedure_reached [of n m]) (use assms(4,5) in \<open>auto simp: http_post_def p name_part_def\<close>)
qed

lemma names_ok:
  "name_part NotificationInternalServiceName" "name_part NotificationClientServiceName" "name_part ''Notify''"
  "name_part ''StreamEvents''" "name_part ''GetNotifications''" "name_part ''AckNotification''"
  "name_part ''AckDataChange''" "name_part ''RegisterPushToken''"
  by (simp_all add: name_part_def url_part_def clean_segment_def NotificationInternalServiceName_def NotificationClientServiceName_def)

lemma client_urls:
  assumes "url_part authority" "base = base_url scheme authority k"
  shows "cc_URL (nic_notify (NewNotificationInternalServiceClient hc base)) =
      method_url scheme authority NotificationInternalServiceName ''Notify''"
    and "cc_URL (ncc_streamEvents (NewNotificationClientServiceClient hc base)) =
      method_url scheme authority NotificationClientServiceName ''StreamEvents''"
    and "cc_URL (ncc_getNotifications (NewNotificationClientServiceClient hc base)) =
      method_url scheme authority NotificationClientServiceName ''GetNotifications''"
    and "cc_URL (ncc_ackNotification (NewNotificationClientServiceClient hc base)) =
      method_url scheme authority NotificationClientServiceName ''AckNotification''"
    and "cc_URL (ncc_ackDataChange (NewNotificationClientServiceClient hc base)) =
      method_url scheme authority NotificationClientServiceName ''AckDataChange''"
    and "cc_URL (ncc_registerPushToken (NewNotificationClientServiceClient hc base)) =
      method_url scheme authority NotificationClientServiceName ''RegisterPushToken''"
  unfolding assms(2) NewNotificationInternalServiceClient_def NewNotificationClientServiceClient_def
    TrimRight_base_url [OF assms(1)] Let_def procedure_paths method_url_def
  by (simp_all add: connect_NewClient_def)

subsection \<open>A concrete wire format\<close>

text \<open>Messages and outcomes sent as they are: the codecs of the witnesses.\<close>

datatype wire_body =
    W_Notify pb_NotifyRequest
  | W_StreamEvents DeviceType
  | W_GetNotifications GetNotificationsRequest
  | W_AckNotification string
  | W_AckDataChange AckDataChangeRequest
  | W_RegisterPushToken RegisterPushTokenRequest
  | R_Notify "pb_NotifyResponse rpc"
  | R_GetNotifications "GetNotificationsResponse rpc"
  | R_unit "unit rpc"

definition bad_message :: goerror where
  "bad_message = Connect CodeInvalidArgument (New ''unmarshal message'')"

definition wire_codecs :: "wire_body codecs" where
  "wire_codecs =
     \<lparr>cs_Notify = \<lparr>cd_recv = (\<lambda>r. case hr_Body r of W_Notify m \<Rightarrow> Inr m | _ \<Rightarrow> Inl bad_message), cd_reply = (\<lambda>r. R_Notify)\<rparr>,
      cs_StreamEvents = \<lparr>cd_recv = (\<lambda>r. case hr_Body r of W_StreamEvents m \<Rightarrow> Inr m | _ \<Rightarrow> Inl bad_message), cd_reply = (\<lambda>r. R_unit)\<rparr>,
      cs_sent = (\<lambda>r. None),
      cs_GetNotifications = \<lparr>cd_recv = (\<lambda>r. case hr_Body r of W_GetNotifications m \<Rightarrow> Inr m | _ \<Rightarrow> Inl bad_message),
        cd_reply = (\<lambda>r. R_GetNotifications)\<rparr>,
      cs_AckNotification = \<lparr>cd_recv = (\<lambda>r. case hr_Body r of W_AckNotification m \<Rightarrow> Inr m | _ \<Rightarrow> Inl bad_message), cd_reply = (\<lambda>r. R_unit)\<rparr>,
      cs_AckDataChange = \<lparr>cd_recv = (\<lambda>r. case hr_Body r of W_AckDataChange m \<Rightarrow> Inr m | _ \<Rightarrow> Inl bad_message), cd_reply = (\<lambda>r. R_unit)\<rparr>,
      cs_RegisterPushToken = \<lparr>cd_recv = (\<lambda>r. case hr_Body r of W_RegisterPushToken m \<Rightarrow> Inr m | _ \<Rightarrow> Inl bad_message),
        cd_reply = (\<lambda>r. R_unit)\<rparr>\<rparr>"

end
