(* ===== verification/Config.thy ===== *)
theory Config
  imports GoStrings
begin

text \<open>
  \<open>config.go\<close> and \<open>internal/server/config.go\<close>: the configuration records and the loader that
  builds them from the environment. The loader carries on after an error and reports the first
  one; it is a sequence of sections here, in the order of the code, each acting on the
  configuration built so far and the first error. \<open>get\<close> is the environment, \<open>uni\<close> the Unicode
  case tables of \<open>ToLower\<close>, and \<open>dur\<close> is \<open>time.ParseDuration\<close> (nanoseconds), an argument of
  the sections that use it.
\<close>

subsection \<open>Records\<close>

record LiveConnectionsConfig =
  lc_Enabled :: bool
  lc_HeartbeatInterval :: int
  lc_RetryMaxAttempts :: int
  lc_RetryInterval :: int
  lc_AllowedOrigins :: "string list"

record StoreConfig =
  sc_Driver :: string
  sc_EntDBAddress :: string
  sc_TenantID :: string
  sc_PostgresDSN :: string
  sc_PostgresAutoMigrate :: bool

record EmailConfig =
  em_Provider :: string
  em_From :: string
  em_EmailServiceAddress :: string
  em_SMTPHost :: string
  em_SMTPPort :: int
  em_SMTPUsername :: string
  em_SMTPPassword :: string
  em_APIKey :: string
  em_Endpoint :: string
  em_Region :: string

record TwilioConfig =
  tw_Provider :: string
  tw_AccountSID :: string
  tw_AuthToken :: string
  tw_MessagingServiceSID :: string
  tw_From :: string

record WebPushConfig =
  wp_Provider :: string
  wp_VAPIDPublic :: string
  wp_VAPIDPrivate :: string
  wp_ContactEmail :: string

record MobilePushConfig =
  mp_Provider :: string
  mp_FCMCredentialsJSON :: string
  mp_FCMProjectID :: string
  mp_APNSKeyP8 :: string
  mp_APNSKeyID :: string
  mp_APNSTeamID :: string
  mp_APNSTopic :: string
  mp_APNSSandbox :: bool

record AuthConfig =
  ac_JWTSecret :: string
  ac_JWTIssuer :: string
  ac_JWTAudience :: string
  ac_JWTLeeway :: int
  ac_InternalToken :: string
  ac_DevMode :: bool

record Config =
  ClientPort :: int
  InternalPort :: int
  MetricsPort :: int
  LogLevel :: string
  ShutdownTimeout :: int
  StoreCfg :: StoreConfig
  Email :: EmailConfig
  SMS :: TwilioConfig
  WhatsApp :: TwilioConfig
  WebPush :: WebPushConfig
  MobilePush :: MobilePushConfig
  LiveConnections :: LiveConnectionsConfig
  AuthCfg :: AuthConfig

definition second :: int where "second = 10 ^ 9"

definition zero_twilio :: TwilioConfig where
  "zero_twilio = \<lparr>tw_Provider = '''', tw_AccountSID = '''', tw_AuthToken = '''',
     tw_MessagingServiceSID = '''', tw_From = ''''\<rparr>"

text \<open>The initial value: the five defaults, every other field zero.\<close>

definition default_config :: Config where
  "default_config =
     \<lparr>ClientPort = 8080, InternalPort = 8081, MetricsPort = 9090, LogLevel = ''info'',
      ShutdownTimeout = 30 * second,
      StoreCfg = \<lparr>sc_Driver = '''', sc_EntDBAddress = '''', sc_TenantID = '''', sc_PostgresDSN = '''',
        sc_PostgresAutoMigrate = False\<rparr>,
      Email = \<lparr>em_Provider = '''', em_From = '''', em_EmailServiceAddress = '''', em_SMTPHost = '''', em_SMTPPort = 0,
        em_SMTPUsername = '''', em_SMTPPassword = '''', em_APIKey = '''', em_Endpoint = '''', em_Region = ''''\<rparr>,
      SMS = zero_twilio, WhatsApp = zero_twilio,
      WebPush = \<lparr>wp_Provider = '''', wp_VAPIDPublic = '''', wp_VAPIDPrivate = '''', wp_ContactEmail = ''''\<rparr>,
      MobilePush = \<lparr>mp_Provider = '''', mp_FCMCredentialsJSON = '''', mp_FCMProjectID = '''', mp_APNSKeyP8 = '''',
        mp_APNSKeyID = '''', mp_APNSTeamID = '''', mp_APNSTopic = '''', mp_APNSSandbox = False\<rparr>,
      LiveConnections = \<lparr>lc_Enabled = False, lc_HeartbeatInterval = 0, lc_RetryMaxAttempts = 0,
        lc_RetryInterval = 0, lc_AllowedOrigins = []\<rparr>,
      AuthCfg = \<lparr>ac_JWTSecret = '''', ac_JWTIssuer = '''', ac_JWTAudience = '''', ac_JWTLeeway = 0,
        ac_InternalToken = '''', ac_DevMode = False\<rparr>\<rparr>"

subsection \<open>Parsing helpers\<close>

definition parsePort :: "string \<Rightarrow> string \<Rightarrow> goerror + int" where
  "parsePort name v =
     (case Atoi v of
        Inl err \<Rightarrow> Inl (Errorf ''%s: %w'' [name] (Some err))
      | Inr p \<Rightarrow>
          if p < 1 \<or> p > 65535 then Inl (Errorf ''%s: must be in 1..65535, got %d'' [name, FormatInt p] None)
          else Inr p)"


text \<open>On an unknown level the code returns the zero level, which is info, and an error.\<close>

definition parseLogLevel :: "(string \<Rightarrow> string) \<Rightarrow> string \<Rightarrow> slogLevel \<times> goerror option" where
  "parseLogLevel uni v =
     (let l = ToLower uni v
      in if l = ''debug'' then (LevelDebug, None)
         else if l = ''info'' \<or> l = '''' then (LevelInfo, None)
         else if l = ''warn'' \<or> l = ''warning'' then (LevelWarn, None)
         else if l = ''error'' then (LevelError, None)
         else (LevelInfo, Some (Errorf ''NOTIFY_LOG_LEVEL: unknown level %q (want debug|info|warn|error)'' [v] None)))"

definition SlogLevel :: "(string \<Rightarrow> string) \<Rightarrow> Config \<Rightarrow> slogLevel" where
  "SlogLevel uni c = fst (parseLogLevel uni (LogLevel c))"

definition parseBoolDefault :: "string \<Rightarrow> bool \<Rightarrow> bool" where
  "parseBoolDefault v def =
     (if v = '''' then def else case ParseBool v of Inl _ \<Rightarrow> def | Inr b \<Rightarrow> b)"

definition strOrDefault :: "string \<Rightarrow> string \<Rightarrow> string" where
  "strOrDefault v def = (if v = '''' then def else v)"

definition splitList :: "string \<Rightarrow> string list" where
  "splitList v =
     (if v = '''' then []
      else filter (\<lambda>p. p \<noteq> '''') (map TrimSpace (Split v (CHR '',''))))"

subsection \<open>loadConfig\<close>

type_synonym load = "Config \<times> goerror option"
type_synonym env = "string \<Rightarrow> string"

definition setErr :: "goerror \<Rightarrow> load \<Rightarrow> load" where
  "setErr err l = (fst l, case snd l of None \<Rightarrow> Some err | Some e \<Rightarrow> Some e)"

definition load_port :: "env \<Rightarrow> string \<Rightarrow> (int \<Rightarrow> Config \<Rightarrow> Config) \<Rightarrow> load \<Rightarrow> load" where
  "load_port get name upd l =
     (let v = get name
      in if v \<noteq> '''' then
           (case parsePort name v of Inl err \<Rightarrow> setErr err l | Inr p \<Rightarrow> (upd p (fst l), snd l))
         else l)"

definition load_ports :: "env \<Rightarrow> load \<Rightarrow> load" where
  "load_ports get l =
     load_port get ''NOTIFY_METRICS_PORT'' (\<lambda>p c. c\<lparr>MetricsPort := p\<rparr>)
       (load_port get ''NOTIFY_INTERNAL_PORT'' (\<lambda>p c. c\<lparr>InternalPort := p\<rparr>)
         (load_port get ''NOTIFY_CLIENT_PORT'' (\<lambda>p c. c\<lparr>ClientPort := p\<rparr>) l))"

definition load_log_level :: "(string \<Rightarrow> string) \<Rightarrow> env \<Rightarrow> load \<Rightarrow> load" where
  "load_log_level uni get l =
     (let v = get ''NOTIFY_LOG_LEVEL'';
          l = (if v \<noteq> '''' then ((fst l)\<lparr>LogLevel := ToLower uni v\<rparr>, snd l) else l)
      in case snd (parseLogLevel uni (LogLevel (fst l))) of None \<Rightarrow> l | Some err \<Rightarrow> setErr err l)"

text \<open>A duration variable: \<open>ok\<close> is the bound the code checks and \<open>bound\<close> its wording.\<close>

definition load_duration ::
  "(string \<Rightarrow> goerror + int) \<Rightarrow> env \<Rightarrow> string \<Rightarrow> (int \<Rightarrow> bool) \<Rightarrow> string \<Rightarrow> (int \<Rightarrow> Config \<Rightarrow> Config) \<Rightarrow> load \<Rightarrow> load" where
  "load_duration dur get name ok bound upd l =
     (let v = get name
      in if v \<noteq> '''' then
           (case dur v of
              Inl err \<Rightarrow> setErr (Errorf (name @ '': %w'') [] (Some err)) l
            | Inr d \<Rightarrow> if \<not> ok d then setErr (Errorf (name @ '': must be '' @ bound) [] None) l
                       else (upd d (fst l), snd l))
         else l)"

definition load_shutdown :: "(string \<Rightarrow> goerror + int) \<Rightarrow> env \<Rightarrow> load \<Rightarrow> load" where
  "load_shutdown dur get l =
     load_duration dur get ''NOTIFY_SHUTDOWN_TIMEOUT'' (\<lambda>d. d > 0) ''> 0'' (\<lambda>d c. c\<lparr>ShutdownTimeout := d\<rparr>) l"

definition require :: "bool \<Rightarrow> string \<Rightarrow> load \<Rightarrow> load" where
  "require missing msg l = (if missing then setErr (New msg) l else l)"

definition load_store :: "(string \<Rightarrow> string) \<Rightarrow> env \<Rightarrow> load \<Rightarrow> load" where
  "load_store uni get l =
     (let driver = ToLower uni (strOrDefault (get ''NOTIFY_STORE_DRIVER'') ''memory'');
          st = (StoreCfg (fst l))\<lparr>sc_Driver := driver\<rparr>;
          put = (\<lambda>st. ((fst l)\<lparr>StoreCfg := st\<rparr>, snd l))
      in if driver = ''memory'' then put st
         else if driver = ''postgres'' then
           let dsn = get ''NOTIFY_POSTGRES_DSN'';
               auto = parseBoolDefault (get ''NOTIFY_POSTGRES_AUTOMIGRATE'') True
           in require (dsn = '''') ''NOTIFY_POSTGRES_DSN is required when NOTIFY_STORE_DRIVER=postgres''
                (put (st\<lparr>sc_PostgresDSN := dsn, sc_PostgresAutoMigrate := auto\<rparr>))
         else if driver = ''entdb'' then
           let addr = get ''NOTIFY_ENTDB_ADDRESS''; tenant = get ''NOTIFY_ENTDB_TENANT_ID''
           in require (tenant = '''') ''NOTIFY_ENTDB_TENANT_ID is required when NOTIFY_STORE_DRIVER=entdb''
                (require (addr = '''') ''NOTIFY_ENTDB_ADDRESS is required when NOTIFY_STORE_DRIVER=entdb''
                  (put (st\<lparr>sc_EntDBAddress := addr, sc_TenantID := tenant\<rparr>)))
         else setErr (Errorf ''NOTIFY_STORE_DRIVER: unknown driver %q (want memory|postgres|entdb)'' [driver] None) (put st))"

definition load_auth :: "(string \<Rightarrow> goerror + int) \<Rightarrow> env \<Rightarrow> load \<Rightarrow> load" where
  "load_auth dur get l =
     (let dev = parseBoolDefault (get ''NOTIFY_AUTH_DEV_MODE'') False;
          secret = get ''NOTIFY_AUTH_JWT_SECRET'';
          token = get ''NOTIFY_INTERNAL_TOKEN'';
          l = ((fst l)\<lparr>AuthCfg := \<lparr>ac_JWTSecret = secret, ac_JWTIssuer = get ''NOTIFY_AUTH_JWT_ISSUER'',
                 ac_JWTAudience = get ''NOTIFY_AUTH_JWT_AUDIENCE'', ac_JWTLeeway = 30 * second,
                 ac_InternalToken = token, ac_DevMode = dev\<rparr>\<rparr>, snd l);
          l = load_duration dur get ''NOTIFY_AUTH_JWT_LEEWAY'' (\<lambda>d. d \<ge> 0) ''>= 0''
                (\<lambda>d c. c\<lparr>AuthCfg := (AuthCfg c)\<lparr>ac_JWTLeeway := d\<rparr>\<rparr>) l
      in if \<not> dev then
           require (token = '''') ''NOTIFY_INTERNAL_TOKEN is required unless NOTIFY_AUTH_DEV_MODE=true''
             (require (secret = '''') ''NOTIFY_AUTH_JWT_SECRET is required unless NOTIFY_AUTH_DEV_MODE=true'' l)
         else l)"

definition load_retry_max :: "env \<Rightarrow> load \<Rightarrow> load" where
  "load_retry_max get l =
     (let v = get ''NOTIFY_LIVE_RETRY_MAX_ATTEMPTS''
      in if v \<noteq> '''' then
           (case Atoi v of
              Inl err \<Rightarrow> setErr (Errorf ''NOTIFY_LIVE_RETRY_MAX_ATTEMPTS: %w'' [] (Some err)) l
            | Inr n \<Rightarrow>
                if n < 0 then setErr (Errorf ''NOTIFY_LIVE_RETRY_MAX_ATTEMPTS: must be >= 0'' [] None) l
                else ((fst l)\<lparr>LiveConnections := (LiveConnections (fst l))\<lparr>lc_RetryMaxAttempts := n\<rparr>\<rparr>, snd l))
         else l)"

definition load_live :: "(string \<Rightarrow> goerror + int) \<Rightarrow> env \<Rightarrow> load \<Rightarrow> load" where
  "load_live dur get l =
     (let l = ((fst l)\<lparr>LiveConnections :=
                 \<lparr>lc_Enabled = parseBoolDefault (get ''NOTIFY_LIVE_CONNECTIONS_ENABLED'') True,
                  lc_HeartbeatInterval = 30 * second, lc_RetryMaxAttempts = 3, lc_RetryInterval = 5 * second,
                  lc_AllowedOrigins = splitList (get ''NOTIFY_ALLOWED_ORIGINS'')\<rparr>\<rparr>, snd l);
          l = load_duration dur get ''NOTIFY_LIVE_HEARTBEAT_INTERVAL'' (\<lambda>d. d > 0) ''> 0''
                (\<lambda>d c. c\<lparr>LiveConnections := (LiveConnections c)\<lparr>lc_HeartbeatInterval := d\<rparr>\<rparr>) l;
          l = load_retry_max get l
      in load_duration dur get ''NOTIFY_LIVE_RETRY_INTERVAL'' (\<lambda>d. d > 0) ''> 0''
           (\<lambda>d c. c\<lparr>LiveConnections := (LiveConnections c)\<lparr>lc_RetryInterval := d\<rparr>\<rparr>) l)"

definition load_smtp_port :: "env \<Rightarrow> load \<Rightarrow> load" where
  "load_smtp_port get l =
     (let v = get ''NOTIFY_EMAIL_SMTP_PORT''
      in if v \<noteq> '''' then
           (case Atoi v of
              Inl _ \<Rightarrow> setErr (Errorf ''NOTIFY_EMAIL_SMTP_PORT: must be in 1..65535'' [] None) l
            | Inr p \<Rightarrow>
                if p < 1 \<or> p > 65535 then setErr (Errorf ''NOTIFY_EMAIL_SMTP_PORT: must be in 1..65535'' [] None) l
                else ((fst l)\<lparr>Email := (Email (fst l))\<lparr>em_SMTPPort := p\<rparr>\<rparr>, snd l))
         else l)"

definition load_email :: "(string \<Rightarrow> string) \<Rightarrow> env \<Rightarrow> load \<Rightarrow> load" where
  "load_email uni get l =
     (let provider = ToLower uni (strOrDefault (get ''NOTIFY_EMAIL_PROVIDER'') ''none'');
          from = get ''NOTIFY_EMAIL_FROM''; addr = get ''NOTIFY_EMAIL_SERVICE_ADDRESS'';
          em = (Email (fst l))\<lparr>em_Provider := provider, em_From := from, em_EmailServiceAddress := addr,
                 em_SMTPHost := get ''NOTIFY_EMAIL_SMTP_HOST'', em_SMTPUsername := get ''NOTIFY_EMAIL_SMTP_USERNAME'',
                 em_SMTPPassword := get ''NOTIFY_EMAIL_SMTP_PASSWORD'', em_APIKey := get ''NOTIFY_EMAIL_API_KEY'',
                 em_Region := get ''NOTIFY_EMAIL_REGION'', em_Endpoint := get ''NOTIFY_EMAIL_ENDPOINT''\<rparr>;
          l = ((fst l)\<lparr>Email := em\<rparr>, snd l);
          l = load_smtp_port get l
      in require (provider \<noteq> ''none'' \<and> from = '''')
           ''NOTIFY_EMAIL_FROM is required when an email provider is configured''
           (require (provider = ''emailservice'' \<and> addr = '''')
             ''NOTIFY_EMAIL_SERVICE_ADDRESS is required when NOTIFY_EMAIL_PROVIDER=emailservice'' l))"

definition twilioBlock :: "(string \<Rightarrow> string) \<Rightarrow> env \<Rightarrow> string \<Rightarrow> TwilioConfig" where
  "twilioBlock uni get pre =
     \<lparr>tw_Provider = ToLower uni (get (pre @ ''PROVIDER'')), tw_AccountSID = get (pre @ ''ACCOUNT_SID''),
      tw_AuthToken = get (pre @ ''AUTH_TOKEN''),
      tw_MessagingServiceSID = get (pre @ ''MESSAGING_SERVICE_SID''), tw_From = get (pre @ ''FROM'')\<rparr>"

definition twilio_missing :: "TwilioConfig \<Rightarrow> bool" where
  "twilio_missing t \<longleftrightarrow> tw_Provider t = ''twilio'' \<and> (tw_AccountSID t = '''' \<or> tw_AuthToken t = '''')"

definition load_twilio :: "(string \<Rightarrow> string) \<Rightarrow> env \<Rightarrow> load \<Rightarrow> load" where
  "load_twilio uni get l =
     (let sms = twilioBlock uni get ''NOTIFY_SMS_''; wa = twilioBlock uni get ''NOTIFY_WHATSAPP_'';
          l = ((fst l)\<lparr>SMS := sms, WhatsApp := wa\<rparr>, snd l)
      in require (twilio_missing wa)
           ''NOTIFY_WHATSAPP_ACCOUNT_SID and NOTIFY_WHATSAPP_AUTH_TOKEN are required when NOTIFY_WHATSAPP_PROVIDER=twilio''
           (require (twilio_missing sms)
             ''NOTIFY_SMS_ACCOUNT_SID and NOTIFY_SMS_AUTH_TOKEN are required when NOTIFY_SMS_PROVIDER=twilio'' l))"

definition load_webpush :: "(string \<Rightarrow> string) \<Rightarrow> env \<Rightarrow> load \<Rightarrow> load" where
  "load_webpush uni get l =
     (let wp = \<lparr>wp_Provider = ToLower uni (get ''NOTIFY_WEBPUSH_PROVIDER''),
                wp_VAPIDPublic = get ''NOTIFY_WEBPUSH_VAPID_PUBLIC'',
                wp_VAPIDPrivate = get ''NOTIFY_WEBPUSH_VAPID_PRIVATE'',
                wp_ContactEmail = get ''NOTIFY_WEBPUSH_CONTACT_EMAIL''\<rparr>
      in require (wp_Provider wp = ''vapid'' \<and> (wp_VAPIDPublic wp = '''' \<or> wp_VAPIDPrivate wp = ''''))
           ''NOTIFY_WEBPUSH_VAPID_PUBLIC and NOTIFY_WEBPUSH_VAPID_PRIVATE are required when NOTIFY_WEBPUSH_PROVIDER=vapid''
           ((fst l)\<lparr>WebPush := wp\<rparr>, snd l))"

definition load_mobile :: "(string \<Rightarrow> string) \<Rightarrow> env \<Rightarrow> load \<Rightarrow> load" where
  "load_mobile uni get l =
     (let mp = \<lparr>mp_Provider = ToLower uni (get ''NOTIFY_MOBILEPUSH_PROVIDER''),
                mp_FCMCredentialsJSON = get ''NOTIFY_FCM_CREDENTIALS_JSON'', mp_FCMProjectID = get ''NOTIFY_FCM_PROJECT_ID'',
                mp_APNSKeyP8 = get ''NOTIFY_APNS_KEY_P8'', mp_APNSKeyID = get ''NOTIFY_APNS_KEY_ID'',
                mp_APNSTeamID = get ''NOTIFY_APNS_TEAM_ID'', mp_APNSTopic = get ''NOTIFY_APNS_TOPIC'',
                mp_APNSSandbox = parseBoolDefault (get ''NOTIFY_APNS_SANDBOX'') False\<rparr>
      in require (mp_Provider mp = ''fcm'' \<and> (mp_FCMCredentialsJSON mp = '''' \<or> mp_FCMProjectID mp = ''''))
           ''NOTIFY_FCM_CREDENTIALS_JSON and NOTIFY_FCM_PROJECT_ID are required when NOTIFY_MOBILEPUSH_PROVIDER=fcm''
           ((fst l)\<lparr>MobilePush := mp\<rparr>, snd l))"

definition load_sections :: "(string \<Rightarrow> string) \<Rightarrow> (string \<Rightarrow> goerror + int) \<Rightarrow> env \<Rightarrow> load" where
  "load_sections uni dur get =
     load_mobile uni get (load_webpush uni get (load_twilio uni get (load_email uni get
       (load_live dur get (load_auth dur get (load_store uni get (load_shutdown dur get
         (load_log_level uni get (load_ports get (default_config, None))))))))))"

definition loadConfig :: "(string \<Rightarrow> string) \<Rightarrow> (string \<Rightarrow> goerror + int) \<Rightarrow> env \<Rightarrow> goerror + Config" where
  "loadConfig uni dur get =
     (case load_sections uni dur get of
        (cfg, Some firstErr) \<Rightarrow> Inl firstErr
      | (cfg, None) \<Rightarrow> Inr cfg)"

subsection \<open>What an error-free section guarantees\<close>

lemma setErr_snd [simp]: "snd (setErr e l) \<noteq> None" "fst (setErr e l) = fst l"
  by (simp_all add: setErr_def split: option.split)

lemma setErr_Some [simp]: "snd l = Some e \<Longrightarrow> snd (setErr e' l) = Some e"
  by (simp add: setErr_def)

lemma require_None: "snd (require b m l) = None \<Longrightarrow> \<not> b \<and> snd l = None \<and> require b m l = l"
  by (auto simp: require_def split: if_splits)

lemma require_fst [simp]: "fst (require b m l) = fst l"
  by (simp add: require_def)

definition port_ok :: "int \<Rightarrow> bool" where "port_ok p \<longleftrightarrow> 1 \<le> p \<and> p \<le> 65535"

lemma parsePort_ok: "parsePort n v = Inr p \<Longrightarrow> port_ok p"
  by (auto simp: parsePort_def port_ok_def split: sum.splits if_splits)

lemma load_port_None:
  assumes "snd (load_port get n upd l) = None" "\<And>c. upd (sel c) c = c" "port_ok (sel (fst l))"
  obtains p where "snd l = None" "port_ok p" "load_port get n upd l = (upd p (fst l), None)"
proof (cases "get n = ''''")
  case True
  with assms have "snd l = None" "load_port get n upd l = (upd (sel (fst l)) (fst l), None)"
    by (simp_all add: load_port_def prod_eq_iff)
  with assms(3) show ?thesis by (intro that)
next
  case False
  then obtain p where p: "parsePort n (get n) = Inr p"
    using assms(1) by (cases "parsePort n (get n)") (simp_all add: load_port_def)
  with False assms(1) have "snd l = None" "load_port get n upd l = (upd p (fst l), None)"
    by (simp_all add: load_port_def)
  with parsePort_ok [OF p] show ?thesis by (intro that)
qed

lemma load_ports_None:
  assumes "snd (load_ports get l) = None" "port_ok (ClientPort (fst l))" "port_ok (InternalPort (fst l))"
    "port_ok (MetricsPort (fst l))"
  obtains a b c where "snd l = None" "port_ok a" "port_ok b" "port_ok c"
    "load_ports get l = ((fst l)\<lparr>ClientPort := a, InternalPort := b, MetricsPort := c\<rparr>, None)"
proof -
  define l1 where "l1 = load_port get ''NOTIFY_CLIENT_PORT'' (\<lambda>p c. c\<lparr>ClientPort := p\<rparr>) l"
  define l2 where "l2 = load_port get ''NOTIFY_INTERNAL_PORT'' (\<lambda>p c. c\<lparr>InternalPort := p\<rparr>) l1"
  define l3 where "l3 = load_port get ''NOTIFY_METRICS_PORT'' (\<lambda>p c. c\<lparr>MetricsPort := p\<rparr>) l2"
  have e: "load_ports get l = l3" by (simp add: load_ports_def l1_def l2_def l3_def)
  have err: "snd l2 = None" if "snd l3 = None" for l3
    using that assms(1) unfolding e l3_def by (auto simp: load_port_def Let_def split: if_splits sum.splits)
  have s2: "snd l2 = None"
    using assms(1) unfolding e l3_def by (auto simp: load_port_def Let_def split: if_splits sum.splits)
  have s1: "snd l1 = None"
    using s2 unfolding l2_def by (auto simp: load_port_def Let_def split: if_splits sum.splits)
  obtain a where a: "snd l = None" "port_ok a" "l1 = ((fst l)\<lparr>ClientPort := a\<rparr>, None)"
    using load_port_None [of get "''NOTIFY_CLIENT_PORT''" "\<lambda>p c. c\<lparr>ClientPort := p\<rparr>" l ClientPort] s1 assms(2)
    unfolding l1_def by auto
  obtain b where b: "port_ok b" "l2 = ((fst l1)\<lparr>InternalPort := b\<rparr>, None)"
    using load_port_None [of get "''NOTIFY_INTERNAL_PORT''" "\<lambda>p c. c\<lparr>InternalPort := p\<rparr>" l1 InternalPort] s2 assms(3) a(3)
    unfolding l2_def by auto
  obtain c where c: "port_ok c" "l3 = ((fst l2)\<lparr>MetricsPort := c\<rparr>, None)"
    using load_port_None [of get "''NOTIFY_METRICS_PORT''" "\<lambda>p c. c\<lparr>MetricsPort := p\<rparr>" l2 MetricsPort] assms(1,4) a(3) b(2) e
    unfolding l3_def by auto
  show ?thesis using that [OF a(1,2) b(1) c(1)] e a b c by simp
qed

lemma load_duration_None:
  assumes "snd (load_duration dur get n ok bound upd l) = None" "\<And>c. upd (sel c) c = c" "ok (sel (fst l))"
  obtains d where "snd l = None" "ok d" "load_duration dur get n ok bound upd l = (upd d (fst l), None)"
proof (cases "get n = ''''")
  case True
  with assms have "snd l = None" "load_duration dur get n ok bound upd l = (upd (sel (fst l)) (fst l), None)"
    by (simp_all add: load_duration_def prod_eq_iff)
  with assms(3) show ?thesis by (intro that)
next
  case False
  then obtain d where d: "dur (get n) = Inr d"
    using assms(1) by (cases "dur (get n)") (simp_all add: load_duration_def)
  moreover have "ok d" using False assms(1) d by (simp add: load_duration_def split: if_splits)
  moreover have "snd l = None" "load_duration dur get n ok bound upd l = (upd d (fst l), None)"
    using False assms(1) d \<open>ok d\<close> by (simp_all add: load_duration_def)
  ultimately show ?thesis by (intro that)
qed

lemma load_log_level_None:
  assumes "snd (load_log_level uni get l) = None"
  obtains v where "snd l = None" "snd (parseLogLevel uni v) = None"
    "load_log_level uni get l = ((fst l)\<lparr>LogLevel := v\<rparr>, None)"
proof -
  define v where "v = (if get ''NOTIFY_LOG_LEVEL'' \<noteq> '''' then ToLower uni (get ''NOTIFY_LOG_LEVEL'') else LogLevel (fst l))"
  have "snd (parseLogLevel uni v) = None"
    using assms by (auto simp: load_log_level_def v_def Let_def split: if_splits option.splits)
  moreover from this have "load_log_level uni get l = ((fst l)\<lparr>LogLevel := v\<rparr>, snd l)"
    by (cases l; cases "get ''NOTIFY_LOG_LEVEL'' = ''''") (simp_all add: load_log_level_def v_def Let_def)
  ultimately show ?thesis using that assms by simp
qed

definition store_ok :: "StoreConfig \<Rightarrow> bool" where
  "store_ok s \<longleftrightarrow> sc_Driver s \<in> {''memory'', ''postgres'', ''entdb''} \<and>
     (sc_Driver s = ''postgres'' \<longrightarrow> sc_PostgresDSN s \<noteq> '''') \<and>
     (sc_Driver s = ''entdb'' \<longrightarrow> sc_EntDBAddress s \<noteq> '''' \<and> sc_TenantID s \<noteq> '''')"

lemma load_store_None:
  assumes "snd (load_store uni get l) = None"
  obtains st where "snd l = None" "store_ok st" "load_store uni get l = ((fst l)\<lparr>StoreCfg := st\<rparr>, None)"
proof -
  have "snd l = None \<and> store_ok (StoreCfg (fst (load_store uni get l))) \<and>
      load_store uni get l = ((fst l)\<lparr>StoreCfg := StoreCfg (fst (load_store uni get l))\<rparr>, None)"
    using assms
    by (auto simp: load_store_def Let_def require_def store_ok_def split: if_splits)
  then show ?thesis using that by blast
qed

definition auth_ok :: "AuthConfig \<Rightarrow> bool" where
  "auth_ok a \<longleftrightarrow> ac_JWTLeeway a \<ge> 0 \<and> (\<not> ac_DevMode a \<longrightarrow> ac_JWTSecret a \<noteq> '''' \<and> ac_InternalToken a \<noteq> '''')"

lemma load_auth_None:
  assumes "snd (load_auth dur get l) = None"
  obtains a where "snd l = None" "auth_ok a" "load_auth dur get l = ((fst l)\<lparr>AuthCfg := a\<rparr>, None)"
proof -
  define a0 where "a0 = \<lparr>ac_JWTSecret = get ''NOTIFY_AUTH_JWT_SECRET'', ac_JWTIssuer = get ''NOTIFY_AUTH_JWT_ISSUER'',
     ac_JWTAudience = get ''NOTIFY_AUTH_JWT_AUDIENCE'', ac_JWTLeeway = 30 * second,
     ac_InternalToken = get ''NOTIFY_INTERNAL_TOKEN'', ac_DevMode = parseBoolDefault (get ''NOTIFY_AUTH_DEV_MODE'') False\<rparr>"
  define l1 where "l1 = load_duration dur get ''NOTIFY_AUTH_JWT_LEEWAY'' (\<lambda>d. d \<ge> 0) ''>= 0''
     (\<lambda>d c. c\<lparr>AuthCfg := (AuthCfg c)\<lparr>ac_JWTLeeway := d\<rparr>\<rparr>) ((fst l)\<lparr>AuthCfg := a0\<rparr>, snd l)"
  have r: "snd l1 = None \<and> load_auth dur get l = l1 \<and>
      (\<not> ac_DevMode a0 \<longrightarrow> ac_JWTSecret a0 \<noteq> '''' \<and> ac_InternalToken a0 \<noteq> '''')"
    using assms
    by (auto simp: load_auth_def Let_def l1_def a0_def require_def split: if_splits)
  then obtain d where "snd l = None" "0 \<le> d" "l1 = ((fst l)\<lparr>AuthCfg := a0\<lparr>ac_JWTLeeway := d\<rparr>\<rparr>, None)"
    using load_duration_None [of dur get "''NOTIFY_AUTH_JWT_LEEWAY''" "\<lambda>d. d \<ge> 0" "''>= 0''"
        "\<lambda>d c. c\<lparr>AuthCfg := (AuthCfg c)\<lparr>ac_JWTLeeway := d\<rparr>\<rparr>" "((fst l)\<lparr>AuthCfg := a0\<rparr>, snd l)" "\<lambda>c. ac_JWTLeeway (AuthCfg c)"]
    unfolding l1_def by (auto simp: a0_def second_def)
  with r show ?thesis by (intro that [of "a0\<lparr>ac_JWTLeeway := d\<rparr>"]) (simp_all add: auth_ok_def)
qed

definition live_ok :: "LiveConnectionsConfig \<Rightarrow> bool" where
  "live_ok c \<longleftrightarrow> lc_HeartbeatInterval c > 0 \<and> lc_RetryMaxAttempts c \<ge> 0 \<and> lc_RetryInterval c > 0"

lemma load_retry_max_None:
  assumes "snd (load_retry_max get l) = None" "lc_RetryMaxAttempts (LiveConnections (fst l)) \<ge> 0"
  obtains n where "snd l = None" "n \<ge> 0"
    "load_retry_max get l = ((fst l)\<lparr>LiveConnections := (LiveConnections (fst l))\<lparr>lc_RetryMaxAttempts := n\<rparr>\<rparr>, None)"
proof (cases "get ''NOTIFY_LIVE_RETRY_MAX_ATTEMPTS'' = ''''")
  case True
  with assms show ?thesis
    by (intro that [of "lc_RetryMaxAttempts (LiveConnections (fst l))"]) (simp_all add: load_retry_max_def prod_eq_iff)
next
  case False
  then obtain n where n: "Atoi (get ''NOTIFY_LIVE_RETRY_MAX_ATTEMPTS'') = Inr n"
    using assms(1) by (cases "Atoi (get ''NOTIFY_LIVE_RETRY_MAX_ATTEMPTS'')") (simp_all add: load_retry_max_def)
  with False assms(1) have "n \<ge> 0" by (simp add: load_retry_max_def split: if_splits)
  with False assms(1) n show ?thesis by (intro that [of n]) (simp_all add: load_retry_max_def)
qed

lemma load_live_None:
  assumes "snd (load_live dur get l) = None"
  obtains c where "snd l = None" "live_ok c" "load_live dur get l = ((fst l)\<lparr>LiveConnections := c\<rparr>, None)"
proof -
  define c0 where "c0 = \<lparr>lc_Enabled = parseBoolDefault (get ''NOTIFY_LIVE_CONNECTIONS_ENABLED'') True,
     lc_HeartbeatInterval = 30 * second, lc_RetryMaxAttempts = 3, lc_RetryInterval = 5 * second,
     lc_AllowedOrigins = splitList (get ''NOTIFY_ALLOWED_ORIGINS'')\<rparr>"
  define l0 where "l0 = ((fst l)\<lparr>LiveConnections := c0\<rparr>, snd l)"
  define l1 where "l1 = load_duration dur get ''NOTIFY_LIVE_HEARTBEAT_INTERVAL'' (\<lambda>d. d > 0) ''> 0''
     (\<lambda>d c. c\<lparr>LiveConnections := (LiveConnections c)\<lparr>lc_HeartbeatInterval := d\<rparr>\<rparr>) l0"
  define l2 where "l2 = load_retry_max get l1"
  define l3 where "l3 = load_duration dur get ''NOTIFY_LIVE_RETRY_INTERVAL'' (\<lambda>d. d > 0) ''> 0''
     (\<lambda>d c. c\<lparr>LiveConnections := (LiveConnections c)\<lparr>lc_RetryInterval := d\<rparr>\<rparr>) l2"
  have e: "load_live dur get l = l3"
    by (simp add: load_live_def Let_def l3_def l2_def l1_def l0_def c0_def)
  have s2: "snd l2 = None"
    using assms unfolding e l3_def by (auto simp: load_duration_def Let_def split: if_splits sum.splits)
  have s1: "snd l1 = None"
    using s2 unfolding l2_def by (auto simp: load_retry_max_def Let_def split: if_splits sum.splits)
  have "lc_HeartbeatInterval (LiveConnections (fst l0)) > 0" by (simp add: l0_def c0_def second_def)
  then have "\<exists>h. snd l0 = None \<and> h > 0 \<and> l1 = ((fst l0)\<lparr>LiveConnections := (LiveConnections (fst l0))\<lparr>lc_HeartbeatInterval := h\<rparr>\<rparr>, None)"
    using load_duration_None [of dur get "''NOTIFY_LIVE_HEARTBEAT_INTERVAL''" "\<lambda>d. d > 0" "''> 0''"
        "\<lambda>d c. c\<lparr>LiveConnections := (LiveConnections c)\<lparr>lc_HeartbeatInterval := d\<rparr>\<rparr>" l0
        "\<lambda>c. lc_HeartbeatInterval (LiveConnections c)"] s1
    unfolding l1_def by auto
  then obtain h where h: "snd l = None" "h > 0" "l1 = ((fst l)\<lparr>LiveConnections := c0\<lparr>lc_HeartbeatInterval := h\<rparr>\<rparr>, None)"
    by (auto simp: l0_def)
  obtain n where n: "n \<ge> 0" "l2 = ((fst l)\<lparr>LiveConnections := c0\<lparr>lc_HeartbeatInterval := h, lc_RetryMaxAttempts := n\<rparr>\<rparr>, None)"
    using load_retry_max_None [of get l1] s2 h(3) unfolding l2_def by (auto simp: c0_def)
  have "lc_RetryInterval (LiveConnections (fst l2)) > 0" using n(2) by (simp add: c0_def second_def)
  then have "\<exists>i. i > 0 \<and> l3 = ((fst l2)\<lparr>LiveConnections := (LiveConnections (fst l2))\<lparr>lc_RetryInterval := i\<rparr>\<rparr>, None)"
    using load_duration_None [of dur get "''NOTIFY_LIVE_RETRY_INTERVAL''" "\<lambda>d. d > 0" "''> 0''"
        "\<lambda>d c. c\<lparr>LiveConnections := (LiveConnections c)\<lparr>lc_RetryInterval := d\<rparr>\<rparr>" l2
        "\<lambda>c. lc_RetryInterval (LiveConnections c)"] assms e
    unfolding l3_def by auto
  then obtain i where "i > 0" "l3 = ((fst l)\<lparr>LiveConnections :=
      c0\<lparr>lc_HeartbeatInterval := h, lc_RetryMaxAttempts := n, lc_RetryInterval := i\<rparr>\<rparr>, None)"
    using n(2) by auto
  with h n(1) e show ?thesis by (intro that) (auto simp: live_ok_def)
qed

definition email_ok :: "EmailConfig \<Rightarrow> bool" where
  "email_ok c \<longleftrightarrow> (em_Provider c \<noteq> ''none'' \<longrightarrow> em_From c \<noteq> '''') \<and>
     (em_Provider c = ''emailservice'' \<longrightarrow> em_EmailServiceAddress c \<noteq> '''') \<and>
     (em_SMTPPort c = 0 \<or> port_ok (em_SMTPPort c))"

lemma load_smtp_port_None:
  assumes "snd (load_smtp_port get l) = None"
  shows "snd l = None \<and> (load_smtp_port get l = l \<or>
    (\<exists>p. port_ok p \<and> load_smtp_port get l = ((fst l)\<lparr>Email := (Email (fst l))\<lparr>em_SMTPPort := p\<rparr>\<rparr>, None)))"
proof (cases "get ''NOTIFY_EMAIL_SMTP_PORT'' = ''''")
  case True
  with assms show ?thesis by (simp add: load_smtp_port_def)
next
  case False
  then obtain p where p: "Atoi (get ''NOTIFY_EMAIL_SMTP_PORT'') = Inr p"
    using assms by (cases "Atoi (get ''NOTIFY_EMAIL_SMTP_PORT'')") (simp_all add: load_smtp_port_def)
  with False assms have "port_ok p" by (simp add: load_smtp_port_def port_ok_def split: if_splits)
  moreover from this False assms p
  have "snd l = None" "load_smtp_port get l = ((fst l)\<lparr>Email := (Email (fst l))\<lparr>em_SMTPPort := p\<rparr>\<rparr>, None)"
    by (simp_all add: load_smtp_port_def port_ok_def)
  ultimately show ?thesis by blast
qed

lemma load_email_unfold:
  obtains em frm provider addr where
    "load_email uni get l =
       require (provider \<noteq> ''none'' \<and> frm = '''') ''NOTIFY_EMAIL_FROM is required when an email provider is configured''
         (require (provider = ''emailservice'' \<and> addr = '''')
           ''NOTIFY_EMAIL_SERVICE_ADDRESS is required when NOTIFY_EMAIL_PROVIDER=emailservice''
           (load_smtp_port get ((fst l)\<lparr>Email := em\<rparr>, snd l)))"
    "em_Provider em = provider" "em_From em = frm" "em_EmailServiceAddress em = addr"
    "em_SMTPPort em = em_SMTPPort (Email (fst l))"
proof -
  define em where "em = (Email (fst l))\<lparr>em_Provider := ToLower uni (strOrDefault (get ''NOTIFY_EMAIL_PROVIDER'') ''none''),
    em_From := get ''NOTIFY_EMAIL_FROM'', em_EmailServiceAddress := get ''NOTIFY_EMAIL_SERVICE_ADDRESS'',
    em_SMTPHost := get ''NOTIFY_EMAIL_SMTP_HOST'', em_SMTPUsername := get ''NOTIFY_EMAIL_SMTP_USERNAME'',
    em_SMTPPassword := get ''NOTIFY_EMAIL_SMTP_PASSWORD'', em_APIKey := get ''NOTIFY_EMAIL_API_KEY'',
    em_Region := get ''NOTIFY_EMAIL_REGION'', em_Endpoint := get ''NOTIFY_EMAIL_ENDPOINT''\<rparr>"
  show ?thesis
    by (rule that [of "em_Provider em" "em_From em" "em_EmailServiceAddress em" em])
       (simp_all add: em_def load_email_def Let_def)
qed

lemma load_email_err: "snd (load_email uni get l) = None \<Longrightarrow> snd l = None"
  by (rule load_email_unfold [of uni get l]) (metis load_smtp_port_None require_None snd_conv)

lemma load_email_None:
  assumes "snd (load_email uni get l) = None" "em_SMTPPort (Email (fst l)) = 0"
  shows "email_ok (Email (fst (load_email uni get l))) \<and>
    fst (load_email uni get l) = (fst l)\<lparr>Email := Email (fst (load_email uni get l))\<rparr>"
proof (rule load_email_unfold [of uni get l])
  fix em frm provider addr
  define l1 where "l1 = load_smtp_port get ((fst l)\<lparr>Email := em\<rparr>, snd l)"
  assume e: "load_email uni get l =
       require (provider \<noteq> ''none'' \<and> frm = '''') ''NOTIFY_EMAIL_FROM is required when an email provider is configured''
         (require (provider = ''emailservice'' \<and> addr = '''')
           ''NOTIFY_EMAIL_SERVICE_ADDRESS is required when NOTIFY_EMAIL_PROVIDER=emailservice''
           (load_smtp_port get ((fst l)\<lparr>Email := em\<rparr>, snd l)))"
    and em: "em_Provider em = provider" "em_From em = frm" "em_EmailServiceAddress em = addr"
      "em_SMTPPort em = em_SMTPPort (Email (fst l))"
  note r1 = require_None [OF assms(1) [unfolded e]]
  note r2 = require_None [OF r1 [THEN conjunct2, THEN conjunct1]]
  have r: "\<not> (provider \<noteq> ''none'' \<and> frm = '''')" "\<not> (provider = ''emailservice'' \<and> addr = '''')"
    "snd l1 = None" "load_email uni get l = l1"
    using r1 r2 unfolding e l1_def by auto
  have "l1 = ((fst l)\<lparr>Email := em\<rparr>, snd l) \<or> (\<exists>p. port_ok p \<and> l1 = ((fst l)\<lparr>Email := em\<lparr>em_SMTPPort := p\<rparr>\<rparr>, None))"
    using load_smtp_port_None [OF r(3) [unfolded l1_def]] unfolding l1_def by auto
  then consider "l1 = ((fst l)\<lparr>Email := em\<rparr>, snd l)"
    | p where "port_ok p" "l1 = ((fst l)\<lparr>Email := em\<lparr>em_SMTPPort := p\<rparr>\<rparr>, None)"
    by blast
  then show ?thesis
    using r(1,2) em assms(2) unfolding r(4) by cases (auto simp: email_ok_def)
qed

lemma load_twilio_None:
  assumes "snd (load_twilio uni get l) = None"
  shows "snd l = None \<and> \<not> twilio_missing (twilioBlock uni get ''NOTIFY_SMS_'') \<and>
    \<not> twilio_missing (twilioBlock uni get ''NOTIFY_WHATSAPP_'') \<and>
    load_twilio uni get l = ((fst l)\<lparr>SMS := twilioBlock uni get ''NOTIFY_SMS_'',
      WhatsApp := twilioBlock uni get ''NOTIFY_WHATSAPP_''\<rparr>, None)"
  using assms by (auto simp: load_twilio_def Let_def require_def split: if_splits)

definition webpush_ok :: "WebPushConfig \<Rightarrow> bool" where
  "webpush_ok c \<longleftrightarrow> (wp_Provider c = ''vapid'' \<longrightarrow> wp_VAPIDPublic c \<noteq> '''' \<and> wp_VAPIDPrivate c \<noteq> '''')"

lemma load_webpush_None:
  assumes "snd (load_webpush uni get l) = None"
  shows "snd l = None \<and> webpush_ok (WebPush (fst (load_webpush uni get l))) \<and>
    load_webpush uni get l = ((fst l)\<lparr>WebPush := WebPush (fst (load_webpush uni get l))\<rparr>, None)"
  using assms by (auto simp: load_webpush_def Let_def require_def webpush_ok_def split: if_splits)

definition mobile_ok :: "MobilePushConfig \<Rightarrow> bool" where
  "mobile_ok c \<longleftrightarrow> (mp_Provider c = ''fcm'' \<longrightarrow> mp_FCMCredentialsJSON c \<noteq> '''' \<and> mp_FCMProjectID c \<noteq> '''')"

lemma load_mobile_None:
  assumes "snd (load_mobile uni get l) = None"
  shows "snd l = None \<and> mobile_ok (MobilePush (fst (load_mobile uni get l))) \<and>
    load_mobile uni get l = ((fst l)\<lparr>MobilePush := MobilePush (fst (load_mobile uni get l))\<rparr>, None)"
  using assms by (auto simp: load_mobile_def Let_def require_def mobile_ok_def split: if_splits)

text \<open>Every check the loader makes, as one predicate.\<close>

definition config_ok :: "(string \<Rightarrow> string) \<Rightarrow> Config \<Rightarrow> bool" where
  "config_ok uni c \<longleftrightarrow>
     port_ok (ClientPort c) \<and> port_ok (InternalPort c) \<and> port_ok (MetricsPort c) \<and>
     snd (parseLogLevel uni (LogLevel c)) = None \<and> ShutdownTimeout c > 0 \<and>
     store_ok (StoreCfg c) \<and> auth_ok (AuthCfg c) \<and> live_ok (LiveConnections c) \<and> email_ok (Email c) \<and>
     \<not> twilio_missing (SMS c) \<and> \<not> twilio_missing (WhatsApp c) \<and> webpush_ok (WebPush c) \<and> mobile_ok (MobilePush c)"

text \<open>The sections of the process itself, and the sections of the channels behind them.\<close>

lemma load_process_ok:
  assumes "l1 = load_ports get (default_config, None)" "l2 = load_log_level uni get l1" "l3 = load_shutdown dur get l2"
    "l4 = load_store uni get l3" "l5 = load_auth dur get l4" "l6 = load_live dur get l5" "snd l6 = None"
  shows "\<exists>p q r v d st a lc. port_ok p \<and> port_ok q \<and> port_ok r \<and> snd (parseLogLevel uni v) = None \<and> d > 0 \<and> store_ok st \<and>
    auth_ok a \<and> live_ok lc \<and>
    fst l6 = default_config\<lparr>ClientPort := p, InternalPort := q, MetricsPort := r, LogLevel := v, ShutdownTimeout := d,
      StoreCfg := st, AuthCfg := a, LiveConnections := lc\<rparr>"
proof -
  obtain lc where lv: "snd l5 = None" "live_ok lc" "l6 = ((fst l5)\<lparr>LiveConnections := lc\<rparr>, None)"
    using load_live_None assms(7) unfolding assms(6) by blast
  obtain a where au: "snd l4 = None" "auth_ok a" "l5 = ((fst l4)\<lparr>AuthCfg := a\<rparr>, None)"
    using load_auth_None lv(1) unfolding assms(5) by blast
  obtain st where so: "snd l3 = None" "store_ok st" "l4 = ((fst l3)\<lparr>StoreCfg := st\<rparr>, None)"
    using load_store_None au(1) unfolding assms(4) by blast
  have s2: "snd l2 = None"
    using so(1) unfolding assms(3) load_shutdown_def by (auto simp: load_duration_def Let_def split: if_splits sum.splits)
  obtain v where ll: "snd l1 = None" "snd (parseLogLevel uni v) = None" "l2 = ((fst l1)\<lparr>LogLevel := v\<rparr>, None)"
    using load_log_level_None s2 unfolding assms(2) by blast
  obtain p q r where po: "port_ok p" "port_ok q" "port_ok r"
    "l1 = (default_config\<lparr>ClientPort := p, InternalPort := q, MetricsPort := r\<rparr>, None)"
    using load_ports_None [of get "(default_config, None)"] ll(1) unfolding assms(1)
    by (auto simp: default_config_def port_ok_def)
  obtain d where sh: "d > 0" "l3 = ((fst l2)\<lparr>ShutdownTimeout := d\<rparr>, None)"
    using load_duration_None [of dur get "''NOTIFY_SHUTDOWN_TIMEOUT''" "\<lambda>d. d > 0" "''> 0''"
        "\<lambda>d c. c\<lparr>ShutdownTimeout := d\<rparr>" l2 ShutdownTimeout] so(1) ll(3) po(4)
    unfolding assms(3) load_shutdown_def by (auto simp: default_config_def second_def)
  have "fst l6 = default_config\<lparr>ClientPort := p, InternalPort := q, MetricsPort := r, LogLevel := v, ShutdownTimeout := d,
      StoreCfg := st, AuthCfg := a, LiveConnections := lc\<rparr>"
    by (simp add: lv(3) au(3) so(3) sh(2) ll(3) po(4))
  with po ll sh so au lv show ?thesis by blast
qed

lemma load_channels_ok:
  assumes "snd l6 = None \<Longrightarrow> em_SMTPPort (Email (fst l6)) = 0" "l7 = load_email uni get l6" "l8 = load_twilio uni get l7"
    "l9 = load_webpush uni get l8" "load_mobile uni get l9 = (c, None)"
  shows "snd l6 = None \<and> (\<exists>e s w x y. email_ok e \<and> \<not> twilio_missing s \<and> \<not> twilio_missing w \<and> webpush_ok x \<and> mobile_ok y \<and>
    c = (fst l6)\<lparr>Email := e, SMS := s, WhatsApp := w, WebPush := x, MobilePush := y\<rparr>)"
proof -
  have m: "snd l9 = None" "mobile_ok (MobilePush c)" "c = (fst l9)\<lparr>MobilePush := MobilePush c\<rparr>"
    using load_mobile_None [of uni get l9] assms(5) by auto
  have w: "snd l8 = None" "webpush_ok (WebPush (fst l9))" "fst l9 = (fst l8)\<lparr>WebPush := WebPush (fst l9)\<rparr>"
    using load_webpush_None [of uni get l8] m(1) unfolding assms(4) by (metis fst_conv)+
  have t: "snd l7 = None" "\<not> twilio_missing (SMS (fst l8))" "\<not> twilio_missing (WhatsApp (fst l8))"
    "fst l8 = (fst l7)\<lparr>SMS := SMS (fst l8), WhatsApp := WhatsApp (fst l8)\<rparr>"
    using load_twilio_None [of uni get l7] w(1) unfolding assms(3) by simp_all
  have s6: "snd l6 = None" using load_email_err t(1) unfolding assms(2) by blast
  have em: "email_ok (Email (fst l7))" "fst l7 = (fst l6)\<lparr>Email := Email (fst l7)\<rparr>"
    using load_email_None [of uni get l6] t(1) assms(1) [OF s6] unfolding assms(2) by (metis fst_conv)+
  define e' s' w' x' y' where "e' = Email (fst l7)" and "s' = SMS (fst l8)" and "w' = WhatsApp (fst l8)"
    and "x' = WebPush (fst l9)" and "y' = MobilePush c"
  have "c = (fst l6)\<lparr>Email := e', SMS := s', WhatsApp := w', WebPush := x', MobilePush := y'\<rparr>"
    using m(3) w(3) t(4) em(2)
    unfolding e'_def [symmetric] s'_def [symmetric] w'_def [symmetric] x'_def [symmetric] y'_def [symmetric] by simp
  moreover have "mobile_ok y'" "webpush_ok x'" "\<not> twilio_missing s'" "\<not> twilio_missing w'" "email_ok e'"
    using m(2) w(2) t(2,3) em(1) by (simp_all add: e'_def s'_def w'_def x'_def y'_def)
  ultimately show ?thesis using s6 by blast
qed

lemma load_sections_ok:
  assumes "load_sections uni dur get = (c, None)"
  shows "config_ok uni c"
proof -
  define l6 where "l6 = load_live dur get (load_auth dur get (load_store uni get
    (load_shutdown dur get (load_log_level uni get (load_ports get (default_config, None))))))"
  note process = load_process_ok [OF refl refl refl refl refl l6_def]
  have last: "load_mobile uni get (load_webpush uni get (load_twilio uni get (load_email uni get l6))) = (c, None)"
    using assms by (simp add: load_sections_def l6_def)
  have port: "em_SMTPPort (Email (fst l6)) = 0" if "snd l6 = None"
    using process [OF that] by (auto simp: default_config_def)
  obtain e s w x y where ch: "snd l6 = None" "email_ok e" "\<not> twilio_missing s" "\<not> twilio_missing w" "webpush_ok x" "mobile_ok y"
    "c = (fst l6)\<lparr>Email := e, SMS := s, WhatsApp := w, WebPush := x, MobilePush := y\<rparr>"
    using load_channels_ok [OF port refl refl refl last] by blast
  from process [OF ch(1)] ch(2-) show ?thesis by (auto simp: config_ok_def)
qed

subsection \<open>The first error\<close>

text \<open>A section that has seen an error keeps it.\<close>

definition keeps_err :: "(load \<Rightarrow> load) \<Rightarrow> bool" where
  "keeps_err f \<longleftrightarrow> (\<forall>l e. snd l = Some e \<longrightarrow> snd (f l) = Some e)"

lemma keeps_errD: "keeps_err f \<Longrightarrow> snd l = Some e \<Longrightarrow> snd (f l) = Some e"
  unfolding keeps_err_def by blast

lemma require_Some [simp]: "snd l = Some e \<Longrightarrow> snd (require b m l) = Some e"
  by (simp add: require_def)

lemma load_duration_Some [simp]:
  "snd l = Some e \<Longrightarrow> snd (load_duration dur get n ok bound upd l) = Some e"
  by (simp add: load_duration_def Let_def split: sum.split)

lemma load_retry_max_Some [simp]: "snd l = Some e \<Longrightarrow> snd (load_retry_max get l) = Some e"
  by (simp add: load_retry_max_def Let_def split: sum.split)

lemma load_smtp_port_Some [simp]: "snd l = Some e \<Longrightarrow> snd (load_smtp_port get l) = Some e"
  by (simp add: load_smtp_port_def Let_def split: sum.split)

lemma keeps_err_sections:
  "keeps_err (load_port get n upd)" "keeps_err (load_log_level uni get)" "keeps_err (load_shutdown dur get)"
  "keeps_err (load_store uni get)" "keeps_err (load_auth dur get)" "keeps_err (load_retry_max get)"
  "keeps_err (load_live dur get)" "keeps_err (load_smtp_port get)" "keeps_err (load_email uni get)"
  "keeps_err (load_twilio uni get)" "keeps_err (load_webpush uni get)" "keeps_err (load_mobile uni get)"
  unfolding keeps_err_def
  by (intro allI impI, simp add: load_port_def load_log_level_def load_shutdown_def load_store_def load_auth_def
      load_live_def load_email_def load_twilio_def load_webpush_def load_mobile_def Let_def
      split: sum.split option.split)+

lemma load_sections_err:
  assumes "snd (load_ports get (default_config, None)) = Some e"
  shows "snd (load_sections uni dur get) = Some e"
  unfolding load_sections_def using assms by (intro keeps_errD [OF keeps_err_sections(12)]
    keeps_errD [OF keeps_err_sections(11)] keeps_errD [OF keeps_err_sections(10)] keeps_errD [OF keeps_err_sections(9)]
    keeps_errD [OF keeps_err_sections(7)] keeps_errD [OF keeps_err_sections(5)] keeps_errD [OF keeps_err_sections(4)]
    keeps_errD [OF keeps_err_sections(3)] keeps_errD [OF keeps_err_sections(2)])

subsection \<open>A loading environment\<close>

text \<open>An environment that loads: the two secrets, a client port, and any value of the
  live-connections switch.\<close>

definition demo_env :: "string \<Rightarrow> env" where
  "demo_env live k = (if k = ''NOTIFY_AUTH_JWT_SECRET'' then ''s3cret'' else if k = ''NOTIFY_INTERNAL_TOKEN'' then ''tok''
     else if k = ''NOTIFY_CLIENT_PORT'' then ''9000'' else if k = ''NOTIFY_LIVE_CONNECTIONS_ENABLED'' then live else '''')"

definition no_duration :: "string \<Rightarrow> goerror + int" where
  "no_duration s = Inl (New ''time: invalid duration'')"

definition passes :: "(load \<Rightarrow> load) \<Rightarrow> bool" where
  "passes f \<longleftrightarrow> (\<forall>c. snd (f (c, None)) = None \<and> ClientPort (fst (f (c, None))) = ClientPort c \<and>
     sc_Driver (StoreCfg (fst (f (c, None)))) \<in> {sc_Driver (StoreCfg c), ''memory''})"

lemma passesD: "passes f \<Longrightarrow> snd l = None \<Longrightarrow> snd (f l) = None \<and> ClientPort (fst (f l)) = ClientPort (fst l) \<and>
    sc_Driver (StoreCfg (fst (f l))) \<in> {sc_Driver (StoreCfg (fst l)), ''memory''}"
  unfolding passes_def by (metis prod.collapse)

lemma demo_values:
  "parsePort ''NOTIFY_CLIENT_PORT'' ''9000'' = Inr 9000" "ToLower id ''memory'' = ''memory''"
  "ToLower id ''none'' = ''none''" "ToLower id '''' = ''''" "ToLower id ''info'' = ''info''"
  by (simp_all add: parsePort_def Atoi_def parse_int64_def ParseUint_def digit_of_def max_uint64_def ToLower_def is_ascii_def lower_char_def)

lemma demo_passes1: "passes (load_shutdown no_duration (demo_env live))"
  by (simp add: passes_def demo_values load_shutdown_def load_duration_def demo_env_def Let_def)

lemma demo_passes2: "passes (load_store id (demo_env live))"
  by (simp add: passes_def demo_values load_store_def strOrDefault_def parseBoolDefault_def require_def demo_env_def Let_def)

lemma demo_passes3: "passes (load_auth no_duration (demo_env live))"
  by (simp add: passes_def demo_values load_auth_def load_duration_def require_def parseBoolDefault_def demo_env_def Let_def)

lemma demo_passes4: "passes (load_live no_duration (demo_env live))"
  by (simp add: passes_def demo_values load_live_def load_duration_def load_retry_max_def demo_env_def Let_def)

lemma demo_passes5: "passes (load_email id (demo_env live))"
  by (simp add: passes_def demo_values load_email_def load_smtp_port_def strOrDefault_def require_def demo_env_def Let_def)

lemma demo_passes6: "passes (load_twilio id (demo_env live))"
  by (simp add: passes_def demo_values load_twilio_def twilio_missing_def twilioBlock_def require_def demo_env_def Let_def)

lemma demo_passes7: "passes (load_webpush id (demo_env live))"
  by (simp add: passes_def demo_values load_webpush_def require_def demo_env_def Let_def)

lemma demo_passes8: "passes (load_mobile id (demo_env live))"
  by (simp add: passes_def demo_values load_mobile_def require_def demo_env_def Let_def)

lemmas demo_passes = demo_passes1 demo_passes2 demo_passes3 demo_passes4 demo_passes5 demo_passes6 demo_passes7 demo_passes8

lemma demo_ports:
  "load_ports (demo_env live) (default_config, None) = (default_config\<lparr>ClientPort := 9000\<rparr>, None)"
  by (simp add: load_ports_def load_port_def demo_env_def demo_values Let_def)

lemma demo_log: "load_log_level id (demo_env live) (default_config\<lparr>ClientPort := 9000\<rparr>, None) = (default_config\<lparr>ClientPort := 9000\<rparr>, None)"
  by (simp add: load_log_level_def demo_env_def demo_values parseLogLevel_def default_config_def Let_def)

lemma demo_driver: "sc_Driver (StoreCfg (fst (load_store id (demo_env live) l))) = ''memory''"
  by (simp add: load_store_def demo_env_def strOrDefault_def demo_values Let_def)

lemma demo_loads:
  "\<exists>c. loadConfig id no_duration (demo_env live) = Inr c \<and> ClientPort c = 9000 \<and> sc_Driver (StoreCfg c) = ''memory''"
proof -
  let ?e = "demo_env live"
  define l2 where "l2 = load_log_level id ?e (load_ports ?e (default_config, None))"
  define l3 where "l3 = load_shutdown no_duration ?e l2"
  define l4 where "l4 = load_store id ?e l3"
  define l5 where "l5 = load_auth no_duration ?e l4"
  define l6 where "l6 = load_live no_duration ?e l5"
  define l7 where "l7 = load_email id ?e l6"
  define l8 where "l8 = load_twilio id ?e l7"
  define l9 where "l9 = load_webpush id ?e l8"
  note d = demo_passes [of live, THEN passesD]
  have 2: "snd l2 = None \<and> ClientPort (fst l2) = 9000" by (simp add: l2_def demo_ports demo_log)
  have 3: "snd l3 = None \<and> ClientPort (fst l3) = 9000" using d(1) [of l2] 2 by (simp add: l3_def)
  have 4: "snd l4 = None \<and> ClientPort (fst l4) = 9000 \<and> sc_Driver (StoreCfg (fst l4)) = ''memory''"
    using d(2) [of l3] 3 by (simp add: l4_def demo_driver)
  have 5: "snd l5 = None \<and> ClientPort (fst l5) = 9000 \<and> sc_Driver (StoreCfg (fst l5)) = ''memory''"
    using d(3) [of l4] 4 by (simp add: l5_def)
  have 6: "snd l6 = None \<and> ClientPort (fst l6) = 9000 \<and> sc_Driver (StoreCfg (fst l6)) = ''memory''"
    using d(4) [of l5] 5 by (simp add: l6_def)
  have 7: "snd l7 = None \<and> ClientPort (fst l7) = 9000 \<and> sc_Driver (StoreCfg (fst l7)) = ''memory''"
    using d(5) [of l6] 6 by (simp add: l7_def)
  have 8: "snd l8 = None \<and> ClientPort (fst l8) = 9000 \<and> sc_Driver (StoreCfg (fst l8)) = ''memory''"
    using d(6) [of l7] 7 by (simp add: l8_def)
  have 9: "snd l9 = None \<and> ClientPort (fst l9) = 9000 \<and> sc_Driver (StoreCfg (fst l9)) = ''memory''"
    using d(7) [of l8] 8 by (simp add: l9_def)
  have "load_sections id no_duration ?e = load_mobile id ?e l9"
    by (simp add: load_sections_def l2_def l3_def l4_def l5_def l6_def l7_def l8_def l9_def)
  with d(8) [of l9] 9 show ?thesis by (auto simp: loadConfig_def split: prod.split)
qed

lemma demo_not_dev:
  assumes "loadConfig id no_duration (demo_env '''') = Inr c"
  shows "\<not> ac_DevMode (AuthCfg c)"
proof -
  have dur: "AuthCfg (fst (load_duration no_duration (demo_env '''') n ok b u l)) = AuthCfg (fst l)"
    if "demo_env '''' n = ''''" for n ok b u l using that by (simp add: load_duration_def)
  have au: "\<not> ac_DevMode (AuthCfg (fst (load_auth no_duration (demo_env '''') l)))" for l
    by (simp add: load_auth_def Let_def dur demo_env_def parseBoolDefault_def)
  have li: "AuthCfg (fst (load_live no_duration (demo_env '''') l)) = AuthCfg (fst l)" for l
    by (simp add: load_live_def load_retry_max_def Let_def dur demo_env_def)
  have em: "AuthCfg (fst (load_email id (demo_env '''') l)) = AuthCfg (fst l)" for l
    by (simp add: load_email_def load_smtp_port_def Let_def split: sum.split)
  have "\<not> ac_DevMode (AuthCfg (fst (load_sections id no_duration (demo_env ''''))))"
    by (simp add: load_sections_def load_mobile_def load_webpush_def load_twilio_def Let_def em li au)
  with assms show ?thesis by (auto simp: loadConfig_def split: prod.splits option.splits)
qed

subsection \<open>Properties\<close>



text \<open>The error reported is the first one: with a bad client port no later setting, however wrong
  or right, changes what is returned.\<close>

theorem loadConfig_first_error:
  assumes "get ''NOTIFY_CLIENT_PORT'' \<noteq> ''''" "parsePort ''NOTIFY_CLIENT_PORT'' (get ''NOTIFY_CLIENT_PORT'') = Inl e"
  shows "loadConfig uni dur get = Inl e"
proof -
  have "snd (load_port get ''NOTIFY_CLIENT_PORT'' (\<lambda>p c. c\<lparr>ClientPort := p\<rparr>) (default_config, None)) = Some e"
    using assms by (simp add: load_port_def setErr_def)
  then have "snd (load_ports get (default_config, None)) = Some e"
    unfolding load_ports_def by (rule keeps_errD [OF keeps_err_sections(1) keeps_errD [OF keeps_err_sections(1)]])
  then have "snd (load_sections uni dur get) = Some e" by (rule load_sections_err)
  then show ?thesis by (auto simp: loadConfig_def split: prod.splits)
qed

theorem loadConfig_first_error_witness:
  "\<exists>e. loadConfig id no_duration ((demo_env '''')(''NOTIFY_CLIENT_PORT'' := ''0'')) = Inl e"
proof -
  have "\<exists>e. parsePort ''NOTIFY_CLIENT_PORT'' ''0'' = Inl e"
    by (simp add: parsePort_def Atoi_def parse_int64_def ParseUint_def digit_of_def max_uint64_def)
  then show ?thesis
    using loadConfig_first_error [of "(demo_env '''')(''NOTIFY_CLIENT_PORT'' := ''0'')"] by auto
qed

text \<open>A boolean setting that does not parse is not an error: the configuration loads with the
  default instead. Setting the live-connections switch to \<open>off\<close> leaves the subsystem on.\<close>

theorem bad_boolean_ignored:
  assumes "loadConfig uni dur get = Inr c" "get ''NOTIFY_LIVE_CONNECTIONS_ENABLED'' = ''off''"
  shows "lc_Enabled (LiveConnections c)"
proof -
  have p: "parseBoolDefault ''off'' True" by (simp add: parseBoolDefault_def ParseBool_def)
  have dur: "lc_Enabled (LiveConnections (fst (load_duration d g n ok b u l))) = lc_Enabled (LiveConnections (fst l))"
    if "\<And>x c. lc_Enabled (LiveConnections (u x c)) = lc_Enabled (LiveConnections c)" for d g n ok b u l
    using that by (simp add: load_duration_def Let_def split: sum.split)
  have "lc_Enabled (LiveConnections (fst (load_live dur get l)))" for l
    using p assms(2) by (simp add: load_live_def Let_def load_retry_max_def dur split: sum.split)
  moreover have "LiveConnections (fst (load_email uni get l)) = LiveConnections (fst l)" for l
    by (simp add: load_email_def load_smtp_port_def Let_def split: sum.split)
  ultimately have "lc_Enabled (LiveConnections (fst (load_sections uni dur get)))"
    by (simp add: load_sections_def load_mobile_def load_webpush_def load_twilio_def Let_def)
  with assms(1) show ?thesis by (auto simp: loadConfig_def split: prod.splits option.splits)
qed

theorem bad_boolean_ignored_witness:
  "\<exists>c. loadConfig id no_duration (demo_env ''off'') = Inr c \<and> lc_Enabled (LiveConnections c)"
proof -
  have "demo_env ''off'' ''NOTIFY_LIVE_CONNECTIONS_ENABLED'' = ''off''" by (simp add: demo_env_def)
  then show ?thesis
    using demo_loads [of "''off''"] bad_boolean_ignored [of id no_duration "demo_env ''off''"] by blast
qed

end
