(* ===== verification/Server.thy ===== *)
theory Server
  imports Connect_Routes Config
begin

text \<open>
  \<open>internal/server/server.go\<close>, \<open>internal/server/observability.go\<close> and \<open>cmd/notifyd/main.go\<close>:
  how a process is put together from its configuration, its listeners and its shutdown. The
  operating system and the drivers are arguments: \<open>listen\<close> is \<open>net.Listen\<close>, \<open>stop\<close> the result
  of shutting an HTTP server down, and the constructors of the postgres and entdb drivers are
  given by their results. \<open>mem\<close> is the store \<open>memory.New()\<close> returns.
\<close>

subsection \<open>Health\<close>

record healthState =
  ready :: bool

definition newHealthState :: healthState where "newHealthState = \<lparr>ready = False\<rparr>"
definition markReady :: "healthState \<Rightarrow> healthState" where "markReady h = h\<lparr>ready := True\<rparr>"
definition markNotReady :: "healthState \<Rightarrow> healthState" where "markNotReady h = h\<lparr>ready := False\<rparr>"

text \<open>The status code and the body of \<open>/healthz\<close>.\<close>

definition health_ServeHTTP :: "healthState \<Rightarrow> int \<times> (string, string) gomap" where
  "health_ServeHTTP h =
     (if \<not> ready h then (503, [(''status'', ''not_ready'')]) else (200, [(''status'', ''ok'')]))"

text \<open>The health handler and the mux of the metrics listener, over the shared health state; the last
  handler is the placeholder of \<open>/metrics\<close> (its text has a dash in UTF-8).\<close>

definition health_Handler :: "('b, healthState) http_Handler" where
  "health_Handler r h = (let (code, body) = health_ServeHTTP h in (h, http_JSON code body))"

definition metrics_placeholder :: string where
  "metrics_placeholder = ''# notify metrics '' @ [CHR 0xE2, CHR 0x80, CHR 0x94] @ '' placeholder'' @ [CHR 0x0A]"

definition newMetricsMux :: "('b, healthState) http_Handler ServeMux" where
  "newMetricsMux =
     mux_Handle ''/metrics'' (\<lambda>r h. (h, http_Text 200 metrics_placeholder))
       (mux_Handle ''/health'' health_Handler
         (mux_Handle ''/healthz'' health_Handler NewServeMux))"

definition newJSONLogger :: "slogLevel \<Rightarrow> Logger" where
  "newJSONLogger level = JSONLogger level"

subsection \<open>Dependencies and the server\<close>

text \<open>A closer is represented by what its \<open>Close\<close> returns.\<close>

type_synonym StoreCloser = "goerror option"

definition closeFunc_Close :: "(unit \<Rightarrow> goerror option) \<Rightarrow> StoreCloser" where
  "closeFunc_Close f = f ()"

definition CloseFuncFor :: "(unit \<Rightarrow> goerror option) \<Rightarrow> StoreCloser" where
  "CloseFuncFor f = closeFunc_Close f"

record 's Dependencies =
  dp_Store :: "'s StoreOps option"
  dp_StoreCloser :: "StoreCloser option"
  dp_Providers :: "Live ProviderRegistry option"
  dp_AuthValidator :: "AuthValidator option"
  dp_Clock :: "(Live \<Rightarrow> int \<times> Live) option"
  dp_Logger :: "Logger option"

definition no_deps :: "'s Dependencies" where
  "no_deps = \<lparr>dp_Store = None, dp_StoreCloser = None, dp_Providers = None, dp_AuthValidator = None,
     dp_Clock = None, dp_Logger = None\<rparr>"

text \<open>The three HTTP servers hold their handlers: those of the two services act on the state of the
  backend under the interceptors, the one of the metrics listener on the health state.\<close>

record ('b, 's) Server =
  sv_cfg :: Config
  sv_logger :: Logger
  sv_notifier :: "('s, Live) Notifier"
  sv_store :: "'s StoreOps"
  sv_closer :: "StoreCloser option"
  sv_retries :: "RetryTracker option"
  sv_auth :: AuthValidator
  sv_clientServer :: "('b, 's Backend Rpc) http_Server"
  sv_internalSrv :: "('b, 's Backend Rpc) http_Server"
  sv_metricsSrv :: "('b, healthState) http_Server"
  sv_health :: healthState
  sv_listeners :: "nat option list"

definition buildStore :: "'s StoreOps \<Rightarrow> StoreConfig \<Rightarrow> goerror + ('s StoreOps \<times> StoreCloser option)" where
  "buildStore mem cfg =
     (if sc_Driver cfg = ''memory'' then Inr (mem, None)
      else if sc_Driver cfg = ''postgres'' then
        Inl (Errorf ''server: postgres driver: configure via Dependencies.Store; cmd/notifyd wires it'' [] None)
      else if sc_Driver cfg = ''entdb'' then
        Inl (Errorf ''server: entdb driver: configure via Dependencies.Store; cmd/notifyd wires it'' [] None)
      else Inl (Errorf ''server: unknown store driver %q'' [sc_Driver cfg] None))"

definition buildValidator ::
  "(string \<Rightarrow> string) \<Rightarrow> jwt_parse \<Rightarrow> int \<Rightarrow> AuthConfig \<Rightarrow> goerror + AuthValidator" where
  "buildValidator uni parse now cfg =
     (if ac_JWTSecret cfg \<noteq> '''' then
        (case NewJWTValidator (ac_JWTSecret cfg) (ac_JWTIssuer cfg) (ac_JWTAudience cfg) (ac_JWTLeeway cfg) of
           Inl err \<Rightarrow> Inl err
         | Inr v \<Rightarrow> Inr (JWTValidator_Validate uni parse now v))
      else if ac_DevMode cfg then Inr (DevValidator_Validate uni)
      else Inl (New ''auth: jwt secret required (or set NOTIFY_AUTH_DEV_MODE=true)''))"

definition maybeStreamHandler :: "Config \<Rightarrow> streamHandler option" where
  "maybeStreamHandler cfg =
     (if lc_Enabled (LiveConnections cfg)
      then Some (newStreamHandler (lc_HeartbeatInterval (LiveConnections cfg)) DefaultEventBufferPerConn)
      else None)"

definition live_providers :: "Config \<Rightarrow> Live ProviderRegistry \<Rightarrow> Live ProviderRegistry" where
  "live_providers cfg providers =
     (if lc_Enabled (LiveConnections cfg) \<and> Get_provider providers ChannelInApp = None
      then Register_provider providers (newInAppProvider True) else providers)"

definition listen_addr :: "int \<Rightarrow> string" where
  "listen_addr port = '':'' @ FormatInt port"

text \<open>Both builders read the logger and the configuration of the server under construction.\<close>

definition buildClientServer ::
  "('b, 's Backend) connect_lib \<Rightarrow> Logger \<Rightarrow> Config \<Rightarrow> 's clientHandler \<Rightarrow> AuthValidator \<Rightarrow>
   ('b, 's Backend Rpc) http_Server" where
  "buildClientServer lib logger cfg handler auth =
     (let shim = newStreamAuthShim handler auth;
          interceptors = client_interceptors logger auth;
          (path, h) = NewNotificationClientServiceHandler lib (shim_service shim) interceptors;
          mux = mux_Handle path h NewServeMux
      in \<lparr>srv_Addr = listen_addr (ClientPort cfg), srv_Handler = h2c_NewHandler lib (mux_ServeHTTP mux),
          srv_ReadHeaderTimeout = 10 * second\<rparr>)"

definition buildInternalServer ::
  "('b, 's Backend) connect_lib \<Rightarrow> Logger \<Rightarrow> Config \<Rightarrow> 's internalHandler \<Rightarrow> ('b, 's Backend Rpc) http_Server" where
  "buildInternalServer lib logger cfg handler =
     (let interceptors = internal_interceptors logger (ac_InternalToken (AuthCfg cfg)) (ac_DevMode (AuthCfg cfg));
          (path, h) = NewNotificationInternalServiceHandler lib (internal_service handler) interceptors;
          mux = mux_Handle path h NewServeMux
      in \<lparr>srv_Addr = listen_addr (InternalPort cfg), srv_Handler = h2c_NewHandler lib (mux_ServeHTTP mux),
          srv_ReadHeaderTimeout = 10 * second\<rparr>)"

definition NewWithDeps ::
  "('b, 's Backend) connect_lib \<Rightarrow> (string \<Rightarrow> string) \<Rightarrow> jwt_parse \<Rightarrow> int \<Rightarrow> 's StoreOps \<Rightarrow> Config \<Rightarrow> 's Dependencies \<Rightarrow>
   goerror + ('b, 's) Server" where
  "NewWithDeps lib uni parse now mem cfg deps =
     (let clock = (case dp_Clock deps of None \<Rightarrow> live_now | Some c \<Rightarrow> c);
          logger = (case dp_Logger deps of None \<Rightarrow> newJSONLogger (SlogLevel uni cfg) | Some l \<Rightarrow> l)
      in case (case dp_Store deps of
                 Some s \<Rightarrow> Inr (s, dp_StoreCloser deps)
               | None \<Rightarrow>
                   (case buildStore mem (StoreCfg cfg) of
                      Inl err \<Rightarrow> Inl (Errorf ''server: build store: %w'' [] (Some err))
                    | Inr (s, c) \<Rightarrow> Inr (s, case dp_StoreCloser deps of None \<Rightarrow> c | Some d \<Rightarrow> Some d))) of
           Inl err \<Rightarrow> Inl err
         | Inr (store, closer) \<Rightarrow>
             (case (case dp_AuthValidator deps of
                      Some a \<Rightarrow> Inr a
                    | None \<Rightarrow>
                        (case buildValidator uni parse now (AuthCfg cfg) of
                           Inl err \<Rightarrow> Inl (Errorf ''server: build auth: %w'' [] (Some err))
                         | Inr a \<Rightarrow> Inr a)) of
                Inl err \<Rightarrow> Inl err
              | Inr auth \<Rightarrow>
                  let providers = (case dp_Providers deps of None \<Rightarrow> NewProviderRegistry | Some r \<Rightarrow> r);
                      retries = (if lc_Enabled (LiveConnections cfg)
                                 then Some (NewRetryTracker (lc_RetryMaxAttempts (LiveConnections cfg))
                                              (lc_RetryInterval (LiveConnections cfg)))
                                 else None);
                      providers = live_providers cfg providers;
                      notifier = NewNotifier live_now store (Some providers) [WithClock clock];
                      clientHandler = newClientHandler store (maybeStreamHandler cfg) clock;
                      internalHandler = newInternalHandler notifier
                  in Inr \<lparr>sv_cfg = cfg, sv_logger = logger, sv_notifier = notifier,
                          sv_store = store, sv_closer = closer, sv_retries = retries, sv_auth = auth,
                          sv_clientServer = buildClientServer lib logger cfg clientHandler auth,
                          sv_internalSrv = buildInternalServer lib logger cfg internalHandler,
                          sv_metricsSrv = \<lparr>srv_Addr = listen_addr (MetricsPort cfg),
                                           srv_Handler = mux_ServeHTTP newMetricsMux,
                                           srv_ReadHeaderTimeout = 5 * second\<rparr>,
                          sv_health = newHealthState, sv_listeners = [None, None, None]\<rparr>))"

definition New_server ::
  "('b, 's Backend) connect_lib \<Rightarrow> (string \<Rightarrow> string) \<Rightarrow> jwt_parse \<Rightarrow> int \<Rightarrow> 's StoreOps \<Rightarrow> Config \<Rightarrow>
   goerror + ('b, 's) Server" where
  "New_server lib uni parse now mem cfg = NewWithDeps lib uni parse now mem cfg no_deps"

subsection \<open>Listeners\<close>

definition UseTestListeners :: "nat option \<Rightarrow> nat option \<Rightarrow> nat option \<Rightarrow> ('b, 's) Server \<Rightarrow> ('b, 's) Server" where
  "UseTestListeners c i m s =
     s\<lparr>sv_listeners := map2 (\<lambda>new old. case new of Some l \<Rightarrow> Some l | None \<Rightarrow> old) [c, i, m] (sv_listeners s)\<rparr>"

definition listener_names :: "string list" where
  "listener_names = [''client'', ''internal'', ''metrics'']"

definition server_addrs :: "('b, 's) Server \<Rightarrow> string list" where
  "server_addrs s = [srv_Addr (sv_clientServer s), srv_Addr (sv_internalSrv s), srv_Addr (sv_metricsSrv s)]"

text \<open>One listener after the other. A failure closes the ones bound before it, which is what the
  three branches of the code spell out; the last component lists the listeners closed.\<close>

fun bind_from ::
  "(string \<Rightarrow> goerror + nat) \<Rightarrow> (string \<times> string \<times> nat option) list \<Rightarrow> nat list \<Rightarrow>
   goerror option \<times> nat option list \<times> nat list" where
  "bind_from listen [] bound = (None, [], [])"
| "bind_from listen ((name, addr, Some l) # rest) bound =
     (let (e, ls, closed) = bind_from listen rest (bound @ [l]) in (e, Some l # ls, closed))"
| "bind_from listen ((name, addr, None) # rest) bound =
     (case listen addr of
        Inl err \<Rightarrow> (Some (Errorf (name @ '' listener: %w'') [] (Some err)), None # map (snd \<circ> snd) rest, bound)
      | Inr l \<Rightarrow>
          let (e, ls, closed) = bind_from listen rest (bound @ [l]) in (e, Some l # ls, closed))"

definition bindListeners :: "(string \<Rightarrow> goerror + nat) \<Rightarrow> ('b, 's) Server \<Rightarrow> ('b, 's) Server \<times> goerror option \<times> nat list" where
  "bindListeners listen s =
     (let (e, ls, closed) = bind_from listen (zip listener_names (zip (server_addrs s) (sv_listeners s))) []
      in (s\<lparr>sv_listeners := ls\<rparr>, e, closed))"

definition Addr :: "(nat \<Rightarrow> string) \<Rightarrow> ('b, 's) Server \<Rightarrow> string" where
  "Addr addr_of s = (case sv_listeners s ! 0 of None \<Rightarrow> '''' | Some l \<Rightarrow> addr_of l)"

definition InternalAddr :: "(nat \<Rightarrow> string) \<Rightarrow> ('b, 's) Server \<Rightarrow> string" where
  "InternalAddr addr_of s = (case sv_listeners s ! 1 of None \<Rightarrow> '''' | Some l \<Rightarrow> addr_of l)"

definition MetricsAddr :: "(nat \<Rightarrow> string) \<Rightarrow> ('b, 's) Server \<Rightarrow> string" where
  "MetricsAddr addr_of s = (case sv_listeners s ! 2 of None \<Rightarrow> '''' | Some l \<Rightarrow> addr_of l)"

subsection \<open>Shutdown\<close>

fun first_err :: "goerror option list \<Rightarrow> goerror option \<Rightarrow> goerror option" where
  "first_err [] e = e"
| "first_err (r # rs) e =
     first_err rs (case r of Some x \<Rightarrow> (case e of None \<Rightarrow> Some x | Some y \<Rightarrow> Some y) | None \<Rightarrow> e)"

text \<open>\<open>stop\<close> holds the results of shutting the three HTTP servers down, in order. The result is
  the server afterwards, whether the store was closed, the timeout used and the error.\<close>

definition Shutdown :: "goerror option list \<Rightarrow> ('b, 's) Server \<Rightarrow> ('b, 's) Server \<times> bool \<times> int \<times> goerror option" where
  "Shutdown stop s =
     (let s = s\<lparr>sv_health := markNotReady (sv_health s)\<rparr>;
          timeout = (if ShutdownTimeout (sv_cfg s) \<le> 0 then 30 * second else ShutdownTimeout (sv_cfg s));
          firstErr = first_err stop None;
          s = s\<lparr>sv_retries := map_option CancelAll (sv_retries s)\<rparr>
      in case sv_closer s of
           None \<Rightarrow> (s, False, timeout, firstErr)
         | Some r \<Rightarrow> (s, True, timeout, first_err [r] firstErr))"

subsection \<open>Run\<close>

text \<open>What ends the wait of \<open>Run\<close>: the signal context, or a listener that failed for a reason other
  than being closed.\<close>

datatype run_event = SignalDone | ListenerFailed string goerror

text \<open>\<open>Run\<close> with the outcome of its wait as an argument. The result is the server afterwards, whether
  it was ever ready, whether the store was closed, and the error.\<close>

definition Server_Run ::
  "(string \<Rightarrow> goerror + nat) \<Rightarrow> goerror option list \<Rightarrow> run_event \<Rightarrow> ('b, 's) Server \<Rightarrow>
   ('b, 's) Server \<times> bool \<times> bool \<times> goerror option" where
  "Server_Run listen stop ev s =
     (case bindListeners listen s of
        (s, Some err, _) \<Rightarrow> (s, False, False, Some err)
      | (s, None, _) \<Rightarrow>
          let s = s\<lparr>sv_health := markReady (sv_health s)\<rparr>;
              was_ready = ready (sv_health s)
          in (case ev of
                ListenerFailed name err \<Rightarrow>
                  let (s, closed, _) = Shutdown stop s
                  in (s, was_ready, closed, Some (Errorf ''%s: %w'' [name] (Some err)))
              | SignalDone \<Rightarrow>
                  let (s, closed, _, err) = Shutdown stop s in (s, was_ready, closed, err)))"

subsection \<open>cmd/notifyd\<close>

text \<open>What \<open>cleanup\<close> closes, and how many calls of \<open>Close\<close> that is.\<close>

datatype cleanup = NoCleanup | CloseStore

definition run_cleanup :: "cleanup \<Rightarrow> nat" where
  "run_cleanup c = (case c of NoCleanup \<Rightarrow> 0 | CloseStore \<Rightarrow> 1)"

text \<open>The last component counts the calls of \<open>Close\<close> made before returning: an entdb client that does
  not connect is closed on the spot. (A postgres pool that fails to open is closed inside
  \<open>postgres.New\<close>.)\<close>

definition buildDependencies ::
  "(string \<Rightarrow> string) \<Rightarrow> (string \<Rightarrow> bool \<Rightarrow> goerror + 's StoreOps) \<Rightarrow> (string \<Rightarrow> goerror + nat) \<Rightarrow> (nat \<Rightarrow> goerror option) \<Rightarrow>
   (nat \<Rightarrow> string \<Rightarrow> 's StoreOps) \<Rightarrow> Config \<Rightarrow> 's Dependencies \<times> cleanup \<times> goerror option \<times> nat" where
  "buildDependencies uni postgres_New sdk_NewClient sdk_Connect entdb_New cfg =
     (let deps = no_deps\<lparr>dp_Logger := Some (newJSONLogger (SlogLevel uni cfg))\<rparr>; st = StoreCfg cfg
      in if sc_Driver st = ''memory'' then (deps, NoCleanup, None, 0)
         else if sc_Driver st = ''postgres'' then
           (case postgres_New (sc_PostgresDSN st) (sc_PostgresAutoMigrate st) of
              Inl err \<Rightarrow> (deps, NoCleanup, Some (Errorf ''postgres: %w'' [] (Some err)), 0)
            | Inr store \<Rightarrow> (deps\<lparr>dp_Store := Some store\<rparr>, CloseStore, None, 0))
         else if sc_Driver st = ''entdb'' then
           (case sdk_NewClient (sc_EntDBAddress st) of
              Inl err \<Rightarrow> (deps, NoCleanup, Some (Errorf ''entdb: NewClient: %w'' [] (Some err)), 0)
            | Inr client \<Rightarrow>
                (case sdk_Connect client of
                   Some err \<Rightarrow> (deps, NoCleanup, Some (Errorf ''entdb: Connect: %w'' [] (Some err)), 1)
                 | None \<Rightarrow> (deps\<lparr>dp_Store := Some (entdb_New client (sc_TenantID st))\<rparr>, CloseStore, None, 0)))
         else (deps, NoCleanup, Some (Errorf ''unknown store driver %q'' [sc_Driver st] None), 0))"

text \<open>\<open>run\<close> of the daemon up to the point where it serves.\<close>

definition run_daemon ::
  "('b, 's Backend) connect_lib \<Rightarrow> (string \<Rightarrow> string) \<Rightarrow> (string \<Rightarrow> goerror + int) \<Rightarrow> jwt_parse \<Rightarrow> int \<Rightarrow> 's StoreOps \<Rightarrow>
   (string \<Rightarrow> bool \<Rightarrow> goerror + 's StoreOps) \<Rightarrow> (string \<Rightarrow> goerror + nat) \<Rightarrow> (nat \<Rightarrow> goerror option) \<Rightarrow>
   (nat \<Rightarrow> string \<Rightarrow> 's StoreOps) \<Rightarrow> env \<Rightarrow> goerror + ('b, 's) Server" where
  "run_daemon lib uni dur parse now mem pg sdk_new sdk_connect entdb get =
     (case loadConfig uni dur get of
        Inl err \<Rightarrow> Inl (Errorf ''config: %w'' [] (Some err))
      | Inr cfg \<Rightarrow>
          (case buildDependencies uni pg sdk_new sdk_connect entdb cfg of
             (deps, cleanup, Some err, _) \<Rightarrow> Inl (Errorf ''dependencies: %w'' [] (Some err))
           | (deps, cleanup, None, _) \<Rightarrow>
               (case NewWithDeps lib uni parse now mem cfg deps of
                  Inl err \<Rightarrow> Inl (Errorf ''server: %w'' [] (Some err))
                | Inr s \<Rightarrow> Inr s)))"

text \<open>The whole of \<open>run\<close>, with what the operating system and the environment decide while it serves
  (\<open>listen\<close>, \<open>stop\<close>, \<open>ev\<close>): its error, and how often the driver's connection was closed. The
  cleanup is deferred, so it runs last on every path behind the dependencies.\<close>

definition run_notifyd ::
  "('b, 's Backend) connect_lib \<Rightarrow> (string \<Rightarrow> string) \<Rightarrow> (string \<Rightarrow> goerror + int) \<Rightarrow> jwt_parse \<Rightarrow> int \<Rightarrow> 's StoreOps \<Rightarrow>
   (string \<Rightarrow> bool \<Rightarrow> goerror + 's StoreOps) \<Rightarrow> (string \<Rightarrow> goerror + nat) \<Rightarrow> (nat \<Rightarrow> goerror option) \<Rightarrow>
   (nat \<Rightarrow> string \<Rightarrow> 's StoreOps) \<Rightarrow> env \<Rightarrow> (string \<Rightarrow> goerror + nat) \<Rightarrow> goerror option list \<Rightarrow> run_event \<Rightarrow>
   goerror option \<times> nat" where
  "run_notifyd lib uni dur parse now mem pg sdk_new sdk_connect entdb get listen stop ev =
     (case loadConfig uni dur get of
        Inl err \<Rightarrow> (Some (Errorf ''config: %w'' [] (Some err)), 0)
      | Inr cfg \<Rightarrow>
          (case buildDependencies uni pg sdk_new sdk_connect entdb cfg of
             (deps, cleanup, Some err, n) \<Rightarrow> (Some (Errorf ''dependencies: %w'' [] (Some err)), n)
           | (deps, cleanup, None, n) \<Rightarrow>
               (case NewWithDeps lib uni parse now mem cfg deps of
                  Inl err \<Rightarrow> (Some (Errorf ''server: %w'' [] (Some err)), n + run_cleanup cleanup)
                | Inr s \<Rightarrow>
                    let (s, was_ready, closed, err) = Server_Run listen stop ev s
                    in (err, n + (if closed then 1 else 0) + run_cleanup cleanup))))"

text \<open>\<open>main\<close>: the exit code of the process.\<close>

definition main_exit :: "goerror option \<Rightarrow> int" where
  "main_exit err = (case err of None \<Rightarrow> 0 | Some _ \<Rightarrow> 1)"

subsection \<open>Lemmas\<close>

lemma buildValidator_total: "auth_ok cfg \<Longrightarrow> \<exists>v. buildValidator uni parse now cfg = Inr v"
  by (auto simp: buildValidator_def auth_ok_def NewJWTValidator_def)

lemma buildDependencies_deps:
  assumes "buildDependencies uni pg c1 c2 en cfg = (deps, cl, None, n)" "store_ok (StoreCfg cfg)"
  shows "dp_Providers deps = None \<and> dp_AuthValidator deps = None \<and> dp_StoreCloser deps = None \<and> dp_Clock deps = None \<and>
    (dp_Store deps = None \<longleftrightarrow> sc_Driver (StoreCfg cfg) = ''memory'')"
  using assms by (auto simp: buildDependencies_def no_deps_def Let_def store_ok_def split: if_splits sum.splits option.splits)

lemma NewWithDeps_total:
  assumes "auth_ok (AuthCfg cfg)" "dp_Store deps = None \<longrightarrow> sc_Driver (StoreCfg cfg) = ''memory''"
  shows "\<exists>s. NewWithDeps lib uni parse now mem cfg deps = Inr s"
proof -
  obtain a where a: "buildValidator uni parse now (AuthCfg cfg) = Inr a" using buildValidator_total [OF assms(1)] by blast
  show ?thesis
    using assms(2) a
    by (cases "dp_Store deps"; cases "dp_AuthValidator deps") (simp_all add: NewWithDeps_def buildStore_def Let_def)
qed

lemma NewWithDeps_notifier:
  assumes "NewWithDeps lib uni parse now mem cfg deps = Inr s"
  shows "registry_of (sv_notifier s) =
      live_providers cfg (case dp_Providers deps of None \<Rightarrow> NewProviderRegistry | Some r \<Rightarrow> r) \<and>
    nt_store (sv_notifier s) = sv_store s \<and> sv_cfg s = cfg"
  using assms
  by (auto simp: NewWithDeps_def Let_def NewNotifier_def WithClock_def registry_of_def split: sum.splits option.splits)

lemma first_err_eq: "first_err rs e = (case e of Some x \<Rightarrow> Some x | None \<Rightarrow> (case filter (\<lambda>r. r \<noteq> None) rs of [] \<Rightarrow> None | r # _ \<Rightarrow> r))"
  by (induction rs arbitrary: e) (auto split: option.split)

lemma first_err_append: "first_err (xs @ ys) e = first_err ys (first_err xs e)"
  by (induction xs arbitrary: e) simp_all

lemma bind_from_error:
  "bind_from listen xs bound = (Some e, ls, closed) \<Longrightarrow> length ls = length xs \<and>
     set closed = set bound \<union> {l. Some l \<in> set (takeWhile (\<lambda>x. x \<noteq> None) ls)}"
proof (induction listen xs bound arbitrary: ls closed rule: bind_from.induct)
  case (3 listen name addr rest bound)
  show ?case
  proof (cases "listen addr")
    case (Inl err)
    with 3(2) show ?thesis by auto
  next
    case (Inr l)
    with 3(2) obtain ls' where "bind_from listen rest (bound @ [l]) = (Some e, ls', closed)" "ls = Some l # ls'"
      by (auto split: prod.splits)
    with 3(1) [OF Inr] show ?thesis by auto
  qed
next
  case (2 listen name addr l rest bound)
  then obtain ls' where "bind_from listen rest (bound @ [l]) = (Some e, ls', closed)" "ls = Some l # ls'"
    by (auto split: prod.splits)
  with 2(1) show ?case by auto
qed simp

lemma config_loaded_ok: "loadConfig uni dur get = Inr cfg \<Longrightarrow> config_ok uni cfg"
  using load_sections_ok by (auto simp: loadConfig_def split: prod.splits option.splits)

lemma run_daemon_parts:
  assumes "run_daemon lib uni dur parse now mem pg c1 c2 en get = Inr s"
  obtains cfg deps cl n where "loadConfig uni dur get = Inr cfg" "buildDependencies uni pg c1 c2 en cfg = (deps, cl, None, n)"
    "NewWithDeps lib uni parse now mem cfg deps = Inr s" "config_ok uni cfg"
  using assms config_loaded_ok
  by (auto simp: run_daemon_def split: sum.splits prod.splits option.splits)

lemma run_daemon_auth:
  assumes "NewWithDeps lib uni parse now mem cfg deps = Inr s" "dp_AuthValidator deps = None"
  shows "buildValidator uni parse now (AuthCfg cfg) = Inr (sv_auth s)"
  using assms by (auto simp: NewWithDeps_def Let_def split: sum.splits option.splits)

subsection \<open>A daemon\<close>

definition demo_daemon :: "goerror + (wire_body, Memory) Server" where
  "demo_daemon = run_daemon (stand_in_lib wire_codecs) id no_duration demo_parse 0 memory_ops
     (\<lambda>_ _. Inr memory_ops) (\<lambda>_. Inl ErrNotFound) (\<lambda>_. None) (\<lambda>_ _. memory_ops) (demo_env '''')"

lemma demo_daemon_boots:
  "\<exists>s. demo_daemon = Inr s \<and> sc_Driver (StoreCfg (sv_cfg s)) = ''memory'' \<and> \<not> ac_DevMode (AuthCfg (sv_cfg s))"
proof -
  obtain cfg where cfg: "loadConfig id no_duration (demo_env '''') = Inr cfg" "sc_Driver (StoreCfg cfg) = ''memory''"
    "\<not> ac_DevMode (AuthCfg cfg)" using demo_loads demo_not_dev by blast
  have ok: "config_ok id cfg" using config_loaded_ok [OF cfg(1)] .
  obtain deps cl n where b: "buildDependencies id (\<lambda>_ _. Inr memory_ops) (\<lambda>_. Inl ErrNotFound) (\<lambda>_. None)
      (\<lambda>_ _. memory_ops) cfg = (deps, cl, None, n)" using cfg(2) by (simp add: buildDependencies_def)
  have "\<exists>s. NewWithDeps (stand_in_lib wire_codecs) id demo_parse 0 memory_ops cfg deps = Inr s"
    using buildDependencies_deps [OF b] ok by (intro NewWithDeps_total) (auto simp: config_ok_def)
  then obtain s where s: "NewWithDeps (stand_in_lib wire_codecs) id demo_parse 0 memory_ops cfg deps = Inr s" by blast
  with NewWithDeps_notifier [OF s] b cfg show ?thesis by (simp add: demo_daemon_def run_daemon_def)
qed

subsection \<open>Properties\<close>

text \<open>C33. A configuration that loads also boots: with the memory driver the daemon always reaches the
  point of serving, with the loaded configuration; with another driver it does unless the driver's
  own constructor fails.\<close>

theorem loaded_config_boots:
  assumes "loadConfig uni dur get = Inr cfg"
    and "sc_Driver (StoreCfg cfg) = ''memory'' \<or> fst (snd (snd (buildDependencies uni pg c1 c2 en cfg))) = None"
  shows "\<exists>s. run_daemon lib uni dur parse now mem pg c1 c2 en get = Inr s \<and> sv_cfg s = cfg"
proof -
  have ok: "config_ok uni cfg" using config_loaded_ok [OF assms(1)] .
  obtain deps cl e n where b: "buildDependencies uni pg c1 c2 en cfg = (deps, cl, e, n)" by (metis surj_pair)
  with assms(2) have e: "e = None" by (auto simp: buildDependencies_def no_deps_def)
  note d = buildDependencies_deps [OF b [unfolded e]]
  have "\<exists>s. NewWithDeps lib uni parse now mem cfg deps = Inr s"
    using d ok by (intro NewWithDeps_total) (auto simp: config_ok_def)
  then obtain s where s: "NewWithDeps lib uni parse now mem cfg deps = Inr s" by blast
  with NewWithDeps_notifier [OF s] b e assms(1) show ?thesis by (simp add: run_daemon_def)
qed

theorem loaded_config_boots_witness:
  "\<exists>s. run_daemon (stand_in_lib wire_codecs) id no_duration demo_parse 0 memory_ops (\<lambda>_ _. Inl ErrNotFound) (\<lambda>_. Inl ErrNotFound)
     (\<lambda>_. None) (\<lambda>_ _. memory_ops) (demo_env '''') = Inr s \<and> ClientPort (sv_cfg s) = 9000"
proof -
  obtain cfg where cfg: "loadConfig id no_duration (demo_env '''') = Inr cfg" "ClientPort cfg = 9000"
    "sc_Driver (StoreCfg cfg) = ''memory''" using demo_loads by blast
  with loaded_config_boots [OF cfg(1)] show ?thesis by blast
qed

text \<open>The daemon's servers own no closer: the store is closed by the deferred cleanup.\<close>

lemma daemon_no_closer:
  assumes "NewWithDeps lib uni parse now mem cfg deps = Inr s" "dp_StoreCloser deps = None"
  shows "sv_closer s = None"
proof -
  have "c = None" if "buildStore mem (StoreCfg cfg) = Inr (st, c)" for st c
    using that by (auto simp: buildStore_def split: if_splits)
  with assms show ?thesis
    by (cases "dp_Store deps"; cases "buildStore mem (StoreCfg cfg)"; cases "dp_AuthValidator deps";
        cases "buildValidator uni parse now (AuthCfg cfg)") (auto simp: NewWithDeps_def Let_def)
qed

lemma first_err_None: "first_err rs e = None \<longleftrightarrow> e = None \<and> set rs \<subseteq> {None}"
  by (induction rs arbitrary: e) (auto split: option.splits)

lemma daemon_run:
  assumes "sv_closer s = None" "Server_Run listen stop ev s = (s', was_ready, closed, err)"
  shows "\<not> closed" and "err = None \<longleftrightarrow> fst (snd (bindListeners listen s)) = None \<and> ev = SignalDone \<and> set stop \<subseteq> {None}"
proof -
  obtain s1 be ls where b: "bindListeners listen s = (s1, be, ls)" by (metis surj_pair)
  then have c: "sv_closer s1 = None" using assms(1) by (auto simp: bindListeners_def split: prod.splits)
  have f: "first_err stop None = None \<longleftrightarrow> set stop \<subseteq> {None}"
    by (simp add: first_err_None)
  show "\<not> closed"
    using assms(2) b c by (cases be; cases ev) (auto simp: Server_Run_def Shutdown_def Let_def)
  show "err = None \<longleftrightarrow> fst (snd (bindListeners listen s)) = None \<and> ev = SignalDone \<and> set stop \<subseteq> {None}"
    using assms(2) b c f by (cases be; cases ev) (auto simp: Server_Run_def Shutdown_def Let_def)
qed

text \<open>The connections to a database that a configuration makes the daemon open.\<close>

definition opened_connections ::
  "(string \<Rightarrow> bool \<Rightarrow> goerror + 's StoreOps) \<Rightarrow> (string \<Rightarrow> goerror + nat) \<Rightarrow> Config \<Rightarrow> nat" where
  "opened_connections postgres_New sdk_NewClient cfg =
     (let st = StoreCfg cfg
      in if sc_Driver st = ''postgres'' \<and> (\<exists>store. postgres_New (sc_PostgresDSN st) (sc_PostgresAutoMigrate st) = Inr store) \<or>
            sc_Driver st = ''entdb'' \<and> (\<exists>client. sdk_NewClient (sc_EntDBAddress st) = Inr client) then 1 else 0)"

lemma buildDependencies_closes:
  assumes "buildDependencies uni pg c1 c2 en cfg = (deps, cl, e, n)"
  shows "opened_connections pg c1 cfg = n + run_cleanup cl" "dp_StoreCloser deps = None" "e \<noteq> None \<Longrightarrow> cl = NoCleanup"
  using assms
  by (auto simp: buildDependencies_def opened_connections_def run_cleanup_def no_deps_def Let_def
      split: if_splits sum.splits option.splits)

text \<open>C36. The daemon closes the database connection it opened exactly once, wherever it fails or ends: in the
  constructor, while binding ports, after a listener failed or after a signal. Its exit code is zero exactly
  if it booted, bound all its ports, was ended by a signal and shut every server down without an error.\<close>

theorem daemon_closes_once:
  assumes "run_notifyd lib uni dur parse now mem pg c1 c2 en get listen stop ev = (err, closes)"
  shows "closes = (case loadConfig uni dur get of Inl _ \<Rightarrow> 0 | Inr cfg \<Rightarrow> opened_connections pg c1 cfg) \<and>
    (main_exit err = 0 \<longleftrightarrow> (\<exists>s. run_daemon lib uni dur parse now mem pg c1 c2 en get = Inr s \<and>
       fst (snd (bindListeners listen s)) = None \<and> ev = SignalDone \<and> set stop \<subseteq> {None}))"
proof (cases "loadConfig uni dur get")
  case (Inr cfg)
  obtain deps cl e n where b: "buildDependencies uni pg c1 c2 en cfg = (deps, cl, e, n)" by (metis surj_pair)
  note d = buildDependencies_closes [OF b]
  show ?thesis
  proof (cases e)
    case e: None
    show ?thesis
    proof (cases "NewWithDeps lib uni parse now mem cfg deps")
      case (Inl x)
      with assms Inr b d e show ?thesis by (auto simp: run_notifyd_def run_daemon_def main_exit_def)
    next
      case s: (Inr s)
      obtain s' wr closed err' where r: "Server_Run listen stop ev s = (s', wr, closed, err')" by (metis surj_pair)
      note dr = daemon_run [OF daemon_no_closer [OF s d(2)] r]
      with assms Inr b d e s r show ?thesis
        by (auto simp: run_notifyd_def run_daemon_def main_exit_def split: option.splits)
    qed
  qed (use assms Inr b d in \<open>auto simp: run_notifyd_def run_daemon_def main_exit_def run_cleanup_def\<close>)
qed (use assms in \<open>auto simp: run_notifyd_def run_daemon_def main_exit_def\<close>)

theorem daemon_closes_once_witness:
  "\<exists>err. run_notifyd (stand_in_lib wire_codecs) id no_duration demo_parse 0 memory_ops
     (\<lambda>_ _. Inr memory_ops) (\<lambda>_. Inl ErrNotFound) (\<lambda>_. None) (\<lambda>_ _. memory_ops) (demo_env '''') (\<lambda>a. Inr 0) [None, None, None]
     SignalDone = (err, 0)"
proof -
  obtain err closes where r: "run_notifyd (stand_in_lib wire_codecs) id no_duration demo_parse 0 memory_ops
     (\<lambda>_ _. Inr memory_ops) (\<lambda>_. Inl ErrNotFound) (\<lambda>_. None) (\<lambda>_ _. memory_ops) (demo_env '''') (\<lambda>a. Inr 0) [None, None, None]
     SignalDone = (err, closes)" by fastforce
  obtain cfg where "loadConfig id no_duration (demo_env '''') = Inr cfg" "sc_Driver (StoreCfg cfg) = ''memory''"
    using demo_loads by blast
  with daemon_closes_once [OF r] r show ?thesis by (simp add: opened_connections_def Let_def)
qed

text \<open>The daemon never wires a delivery provider from its configuration: whatever email, SMS,
  WhatsApp, web-push or mobile-push settings are loaded, the only channel with a provider is the
  in-app one, and that one exactly when live connections are enabled.\<close>

theorem daemon_channels:
  assumes "run_daemon lib uni dur parse now mem pg c1 c2 en get = Inr s"
  shows "Enabled (registry_of (sv_notifier s)) =
    (if lc_Enabled (LiveConnections (sv_cfg s)) then [ChannelInApp] else [])"
proof -
  from assms obtain cfg deps cl n where r: "buildDependencies uni pg c1 c2 en cfg = (deps, cl, None, n)"
    "NewWithDeps lib uni parse now mem cfg deps = Inr s" "config_ok uni cfg" by (rule run_daemon_parts)
  have "dp_Providers deps = None" using buildDependencies_deps [OF r(1)] r(3) by (simp add: config_ok_def)
  with NewWithDeps_notifier [OF r(2)] show ?thesis
    by (simp add: live_providers_def NewProviderRegistry_def Get_provider_def Register_provider_def
        newInAppProvider_def Enabled_def)
qed

theorem daemon_channels_witness:
  "\<exists>s. demo_daemon = Inr s \<and> set (Enabled (registry_of (sv_notifier s))) \<subseteq> {ChannelInApp}"
proof -
  obtain s where r: "demo_daemon = Inr s" using demo_daemon_boots by blast
  from daemon_channels [OF r [unfolded demo_daemon_def]] r show ?thesis by auto
qed




definition demo_server :: "(wire_body, Memory) Server" where
  "demo_server =
     (let cfg = default_config\<lparr>ClientPort := 1, InternalPort := 2, MetricsPort := 3\<rparr>;
          notifier = NewNotifier live_now memory_ops None []; auth = (\<lambda>_. Inl ErrNotFound);
          lib = stand_in_lib wire_codecs
      in \<lparr>sv_cfg = cfg, sv_logger = slog_Default, sv_notifier = notifier, sv_store = memory_ops,
          sv_closer = Some (Some (New ''close'')), sv_retries = None, sv_auth = auth,
          sv_clientServer = buildClientServer lib slog_Default cfg (newClientHandler memory_ops None live_now) auth,
          sv_internalSrv = buildInternalServer lib slog_Default cfg (newInternalHandler notifier),
          sv_metricsSrv = \<lparr>srv_Addr = listen_addr (MetricsPort cfg), srv_Handler = mux_ServeHTTP newMetricsMux,
                           srv_ReadHeaderTimeout = 5 * second\<rparr>,
          sv_health = markReady newHealthState, sv_listeners = [None, None, None]\<rparr>)"

lemma demo_server_addrs: "server_addrs demo_server = ['':1'', '':2'', '':3'']"
  by (simp add: server_addrs_def demo_server_def Let_def buildClientServer_def buildInternalServer_def
      listen_addr_def split: prod.split) code_simp

lemma demo_server_simps [simp]:
  "sv_closer demo_server = Some (Some (New ''close''))" "sv_listeners demo_server = [None, None, None]"
  "ShutdownTimeout (sv_cfg demo_server) = ShutdownTimeout default_config" "sv_retries demo_server = None"
  by (simp_all add: demo_server_def Let_def)


text \<open>A run of the server that ends leaves it not ready: it reported ready exactly if all listeners
  could be bound, and then every retry is cancelled on the way out. A listener that failed is the
  error returned, whatever the shutdown reports; after a signal it is the first error of the shutdown.\<close>

theorem run_ends_not_ready:
  assumes "Server_Run listen stop ev s = (s', was_ready, closed_store, e)" "\<not> ready (sv_health s)"
    and "bindListeners listen s = (s1, bind_err, closed)"
  shows "\<not> ready (sv_health s') \<and> (was_ready \<longleftrightarrow> bind_err = None) \<and>
    (closed_store \<longleftrightarrow> bind_err = None \<and> sv_closer s \<noteq> None) \<and>
    (case bind_err of
       Some err \<Rightarrow> e = Some err \<and> s' = s1
     | None \<Rightarrow> sv_retries s' = map_option CancelAll (sv_retries s) \<and> sv_listeners s' = sv_listeners s1 \<and>
         e = (case ev of
                ListenerFailed name err \<Rightarrow> Some (Errorf ''%s: %w'' [name] (Some err))
              | SignalDone \<Rightarrow> first_err (stop @ (case sv_closer s of None \<Rightarrow> [] | Some r \<Rightarrow> [r])) None))"
proof -
  have s1: "sv_health s1 = sv_health s" "sv_retries s1 = sv_retries s" "sv_closer s1 = sv_closer s"
    using assms(3) by (auto simp: bindListeners_def split: prod.splits)
  show ?thesis
  proof (cases bind_err)
    case (Some err)
    with assms s1 show ?thesis by (auto simp: Server_Run_def)
  next
    case None
    with assms s1 show ?thesis
      by (cases "sv_closer s"; cases ev)
         (auto simp: Server_Run_def Shutdown_def Let_def markReady_def markNotReady_def first_err_append)
  qed
qed

theorem run_ends_not_ready_witness:
  "\<exists>s'. Server_Run (\<lambda>a. Inr (length a)) [None, None, None] (ListenerFailed ''client'' (New ''boom''))
      (demo_server\<lparr>sv_health := newHealthState\<rparr>) = (s', True, True, Some (Errorf ''%s: %w'' [''client''] (Some (New ''boom'')))) \<and>
    \<not> ready (sv_health s')"
proof -
  let ?s = "demo_server\<lparr>sv_health := newHealthState\<rparr>"
  obtain s1 be cl where b: "bindListeners (\<lambda>a. Inr (length a)) ?s = (s1, be, cl)" by (metis surj_pair)
  then have "be = None" by (simp add: bindListeners_def demo_server_addrs [unfolded server_addrs_def] server_addrs_def listener_names_def)
  obtain s' r cs e where "Server_Run (\<lambda>a. Inr (length a)) [None, None, None] (ListenerFailed ''client'' (New ''boom'')) ?s = (s', r, cs, e)"
    by (metis surj_pair)
  with run_ends_not_ready [OF this _ b] \<open>be = None\<close> show ?thesis by (simp add: newHealthState_def)
qed

definition demo_listen :: "string \<Rightarrow> goerror + nat" where
  "demo_listen a = (if a = '':3'' then Inl (New ''in use'') else Inr (length a))"

text \<open>When a port cannot be bound, every listener bound or supplied before it is closed, so a
  failed start leaves no port open behind it.\<close>

theorem bind_failure_closes:
  assumes "bindListeners listen s = (s', Some e, closed)"
  shows "set closed = {l. Some l \<in> set (takeWhile (\<lambda>x. x \<noteq> None) (sv_listeners s'))}"
proof -
  obtain e' ls cl where b: "bind_from listen (zip listener_names (zip (server_addrs s) (sv_listeners s))) [] = (e', ls, cl)"
    by (metis surj_pair)
  with assms have "e' = Some e" "cl = closed" "sv_listeners s' = ls" by (auto simp: bindListeners_def)
  with b have "bind_from listen (zip listener_names (zip (server_addrs s) (sv_listeners s))) [] = (Some e, ls, closed)"
    "sv_listeners s' = ls" by simp_all
  then show ?thesis using bind_from_error [of listen _ "[]" e ls closed] by simp
qed

theorem bind_failure_closes_witness:
  "\<exists>s' e. bindListeners demo_listen demo_server = (s', Some e, [2, 2]) \<and> sv_listeners s' = [Some 2, Some 2, None] \<and>
     {l. Some l \<in> set (takeWhile (\<lambda>x. x \<noteq> None) (sv_listeners s'))} = {2}"
proof -
  have r: "bindListeners demo_listen demo_server =
    (demo_server\<lparr>sv_listeners := [Some 2, Some 2, None]\<rparr>, Some (Errorf ''metrics listener: %w'' [] (Some (New ''in use''))), [2, 2])"
    by (simp add: bindListeners_def listener_names_def demo_server_addrs demo_listen_def)
  from bind_failure_closes [OF r] r show ?thesis by (auto simp del: split_paired_Ex)
qed

end
