(* ===== verification/Endpoints.thy ===== *)
theory Endpoints
  imports Server
begin

text \<open>
  The ports of a booted daemon, from the HTTP request to the stores: what a request on the client
  port, the internal port and the metrics port does, and what a call through the generated clients
  returns. The theorems compose the mux, the generated handlers, the interceptors, the shim, the
  handlers and a store; the RPC library is assumed to do what \<open>connect_documented\<close> says.
\<close>

subsection \<open>The servers of a process\<close>

lemma NewWithDeps_servers:
  assumes "NewWithDeps lib uni parse now mem cfg deps = Inr s" "dp_Clock deps = None"
  shows "sv_cfg s = cfg"
    and "sv_clientServer s = buildClientServer lib (sv_logger s) (sv_cfg s)
      (newClientHandler (sv_store s) (maybeStreamHandler (sv_cfg s)) live_now) (sv_auth s)"
    and "sv_internalSrv s = buildInternalServer lib (sv_logger s) (sv_cfg s) (newInternalHandler (sv_notifier s))"
    and "srv_Handler (sv_metricsSrv s) = mux_ServeHTTP newMetricsMux"
  using assms by (auto simp: NewWithDeps_def Let_def split: sum.splits option.splits)

lemma run_daemon_servers:
  assumes "run_daemon lib uni dur parse now mem pg c1 c2 en get = Inr s"
  shows "sv_clientServer s = buildClientServer lib (sv_logger s) (sv_cfg s)
      (newClientHandler (sv_store s) (maybeStreamHandler (sv_cfg s)) live_now) (sv_auth s)"
    and "sv_internalSrv s = buildInternalServer lib (sv_logger s) (sv_cfg s) (newInternalHandler (sv_notifier s))"
    and "srv_Handler (sv_metricsSrv s) = mux_ServeHTTP newMetricsMux"
    and "sc_Driver (StoreCfg (sv_cfg s)) = ''memory'' \<Longrightarrow> sv_store s = mem"
proof -
  from assms obtain cfg deps cl n where r: "buildDependencies uni pg c1 c2 en cfg = (deps, cl, None, n)"
    "NewWithDeps lib uni parse now mem cfg deps = Inr s" "config_ok uni cfg" by (rule run_daemon_parts)
  have d: "dp_Clock deps = None" "dp_Store deps = None \<longleftrightarrow> sc_Driver (StoreCfg cfg) = ''memory''"
    using buildDependencies_deps [OF r(1)] r(3) by (simp_all add: config_ok_def)
  note s = NewWithDeps_servers [OF r(2) d(1)]
  show "sv_clientServer s = buildClientServer lib (sv_logger s) (sv_cfg s)
      (newClientHandler (sv_store s) (maybeStreamHandler (sv_cfg s)) live_now) (sv_auth s)"
    and "sv_internalSrv s = buildInternalServer lib (sv_logger s) (sv_cfg s) (newInternalHandler (sv_notifier s))"
    and "srv_Handler (sv_metricsSrv s) = mux_ServeHTTP newMetricsMux" using s by simp_all
  show "sv_store s = mem" if "sc_Driver (StoreCfg (sv_cfg s)) = ''memory''"
  proof -
    have "dp_Store deps = None" "sc_Driver (StoreCfg cfg) = ''memory''" using that d(2) s(1) by simp_all
    with r(2) show ?thesis
      by (cases "dp_AuthValidator deps") (auto simp: NewWithDeps_def buildStore_def Let_def split: sum.splits)
  qed
qed

text \<open>The answers of a mux that do not come from a handler.\<close>

definition mux_answer :: "'b http_Response \<Rightarrow> bool" where
  "mux_answer resp \<longleftrightarrow> resp = http_NotFound \<or> resp = http_BadRequest \<or> (\<exists>p q. resp = http_Redirect p q)"

lemma buildClientServer_handler:
  assumes "connect_documented lib cs"
  shows "srv_Handler (buildClientServer lib lg cfg h v) =
    mux_ServeHTTP (mux_Handle (CHR ''/'' # NotificationClientServiceName @ ''/'')
      (snd (NewNotificationClientServiceHandler lib (shim_service (newStreamAuthShim h v)) (client_interceptors lg v))) NewServeMux)"
  using assms mount_paths(1) [of lib "shim_service (newStreamAuthShim h v)" "client_interceptors lg v"]
  by (auto simp: buildClientServer_def connect_documented_def Let_def split: prod.split)

lemma buildInternalServer_handler:
  assumes "connect_documented lib cs"
  shows "srv_Handler (buildInternalServer lib lg cfg h) =
    mux_ServeHTTP (mux_Handle (CHR ''/'' # NotificationInternalServiceName @ ''/'')
      (snd (NewNotificationInternalServiceHandler lib (internal_service h)
        (internal_interceptors lg (ac_InternalToken (AuthCfg cfg)) (ac_DevMode (AuthCfg cfg))))) NewServeMux)"
  using assms mount_paths(2) [of lib "internal_service h" "internal_interceptors lg (ac_InternalToken (AuthCfg cfg)) (ac_DevMode (AuthCfg cfg))"]
  by (auto simp: buildInternalServer_def connect_documented_def Let_def split: prod.split)

text \<open>A request on the client port is either answered by the mux alone, or by exactly the dispatch of the
  service on a request of its subtree.\<close>

lemma client_server_cases:
  assumes "connect_documented lib cs" "srv_Handler (buildClientServer lib lg cfg h v) r st = (st', resp)"
  shows "under_subtree NotificationClientServiceName r \<and> client_dispatch cs v h r (rpc_state st) = (rpc_state st', resp) \<or>
    st' = st \<and> mux_answer resp"
  using subtree_served_cases [OF service_names(2,1), where r = r and s = st and
      h = "snd (NewNotificationClientServiceHandler lib (shim_service (newStreamAuthShim h v)) (client_interceptors lg v))"]
    client_handler_exact [OF assms(1), of h v lg r st st' resp] assms(2)
  unfolding buildClientServer_handler [OF assms(1)] mux_answer_def by auto

lemma internal_server_cases:
  assumes "connect_documented lib cs" "srv_Handler (buildInternalServer lib lg cfg h) r st = (st', resp)"
  shows "under_subtree NotificationInternalServiceName r \<and>
      internal_dispatch cs (ac_InternalToken (AuthCfg cfg)) (ac_DevMode (AuthCfg cfg)) h r (rpc_state st) = (rpc_state st', resp) \<or>
    st' = st \<and> mux_answer resp"
  using subtree_served_cases [OF service_names(4,3), where r = r and s = st and
      h = "snd (NewNotificationInternalServiceHandler lib (internal_service h)
        (internal_interceptors lg (ac_InternalToken (AuthCfg cfg)) (ac_DevMode (AuthCfg cfg))))"]
    internal_handler_exact [OF assms(1), of h lg "ac_InternalToken (AuthCfg cfg)" "ac_DevMode (AuthCfg cfg)" r st st' resp] assms(2)
  unfolding buildInternalServer_handler [OF assms(1)] mux_answer_def by auto

definition client_procedures :: "string list" where
  "client_procedures =
     [NotificationClientServiceStreamEventsProcedure, NotificationClientServiceGetNotificationsProcedure,
      NotificationClientServiceAckNotificationProcedure, NotificationClientServiceAckDataChangeProcedure,
      NotificationClientServiceRegisterPushTokenProcedure]"

lemma client_server_serves:
  assumes "connect_documented lib cs" "hr_EscapedPath r \<in> set client_procedures" "hr_RequestURI r \<noteq> ''*''"
    and "srv_Handler (buildClientServer lib lg cfg h v) r st = (st', resp)"
  shows "client_dispatch cs v h r (rpc_state st) = (rpc_state st', resp)"
proof -
  obtain m where m: "name_part m" "hr_EscapedPath r = CHR ''/'' # NotificationClientServiceName @ CHR ''/'' # m"
    using assms(2) names_ok unfolding client_procedures_def procedure_paths by fastforce
  let ?h = "snd (NewNotificationClientServiceHandler lib (shim_service (newStreamAuthShim h v)) (client_interceptors lg v))"
  have "mux_ServeHTTP (mux_Handle (CHR ''/'' # NotificationClientServiceName @ ''/'') ?h NewServeMux) r st = ?h r st"
    by (rule procedure_reached [OF _ _ _ m(2) assms(3)]) (use m(1) names_ok(2) in \<open>auto simp: name_part_def\<close>)
  then have "?h r st = (st', resp)" using assms(4) unfolding buildClientServer_handler [OF assms(1)] by simp
  from client_handler_exact [OF assms(1) this] show ?thesis .
qed

subsection \<open>What a caller can change\<close>

text \<open>The changes a caller is entitled to: rows of their own, marked as read, and their own devices.\<close>

definition own_changes ::
  "Claims \<Rightarrow> (string \<Rightarrow> Notification option) \<Rightarrow> (devKey \<Rightarrow> Device option) \<Rightarrow>
   (string \<Rightarrow> Notification option) \<Rightarrow> (devKey \<Rightarrow> Device option) \<Rightarrow> bool" where
  "own_changes c row dev row' dev' \<longleftrightarrow>
     (\<forall>i. row' i \<noteq> row i \<longrightarrow> (\<exists>n ms. row i = Some n \<and> owned_by (cl_TenantID c) (cl_UserID c) n \<and>
        row' i = Some (stamp_status StatusRead ms n))) \<and>
     (\<forall>k. dev' k \<noteq> dev k \<longrightarrow> dk_Tenant k = cl_TenantID c \<and> dk_User k = cl_UserID c)"

text \<open>The device a registration stores.\<close>

definition push_device :: "Claims \<Rightarrow> RegisterPushTokenRequest \<Rightarrow> int \<Rightarrow> Device" where
  "push_device c m ms =
     \<lparr>dev_ID = '''', dev_TenantID = cl_TenantID c, dev_UserID = cl_UserID c,
      dev_DeviceType = deviceTypeFromProto (rp_DeviceType m), dev_Token = TrimSpace (rp_Token m),
      dev_CreatedAtMS = 0, dev_LastActiveMS = ms\<rparr>"

text \<open>The request carries no argument the driver's backend would refuse.\<close>

definition request_accepted ::
  "(string \<Rightarrow> bool) \<Rightarrow> (Device \<Rightarrow> bool) \<Rightarrow> 'b codecs \<Rightarrow> AuthValidator \<Rightarrow> 'b http_Request \<Rightarrow> bool" where
  "request_accepted id_arg dev_ok cs v r \<longleftrightarrow>
     (\<forall>m. cd_recv (cs_AckNotification cs) r = Inr m \<longrightarrow> id_arg (TrimSpace m)) \<and>
     (\<forall>m c ms. cd_recv (cs_RegisterPushToken cs) r = Inr m \<longrightarrow> v (hr_Header r ''Authorization'') = Inr c \<longrightarrow>
        dev_ok (push_device c m ms))"

lemma own_changes_refl: "own_changes c row dev row dev"
  by (simp add: own_changes_def)

context full_store
begin

abbreviation entitled :: "Claims \<Rightarrow> 's \<Rightarrow> 's \<Rightarrow> bool" where
  "entitled c s s' \<equiv> inv s' \<and> own_changes c (row s) (dev s) (row s') (dev s')"

lemma ack_entitled:
  assumes "inv (bk_store b)" "ch_store h = ops" "id_arg (TrimSpace m)"
    and "client_AckNotification h (Some c) (rpc_msg m) b = (b', res)"
  shows "entitled c (bk_store b) (bk_store b')"
proof -
  let ?i = "TrimSpace m"
  have i: "?i = TrimSpace (getter (\<lambda>i. i) '''' (rpc_msg m))" by (simp add: request_message)
  consider (empty) "?i = ''''"
    | (own) n where "?i \<noteq> ''''" "row (bk_store b) ?i = Some n" "owned_by (cl_TenantID c) (cl_UserID c) n"
    | (other) "?i \<noteq> ''''" "\<And>n. row (bk_store b) ?i = Some n \<Longrightarrow> \<not> owned_by (cl_TenantID c) (cl_UserID c) n"
    by blast
  then show ?thesis
  proof cases
    case empty
    with assms(1,4) show ?thesis
      by (simp add: client_AckNotification_def ClaimsFromContext_def request_message Let_def own_changes_refl)
  next
    case own
    obtain ms w where now: "ch_now h (bk_live b) = (ms, w)" by fastforce
    obtain s' e where u: "UpdateStatus ops (bk_store b) (cl_TenantID c) ?i StatusRead ms = (s', e)" by fastforce
    have "GetNotification ops (bk_store b) (cl_TenantID c) (cl_UserID c) ?i = Inr n"
      using own by (simp add: get_spec [OF assms(1,3)])
    then have "bk_store b' = s'"
      using assms(2,4) own(1) now u
      by (auto simp: client_AckNotification_def ClaimsFromContext_def request_message Let_def split: option.splits if_splits)
    moreover have "arg_ok StatusRead" by (rule own_status_ok) simp
    ultimately have "dev (bk_store b') = dev (bk_store b)" using update_devs [OF assms(1,3) _ u] by simp
    with ack_found [OF assms(1,2) refl i own(1-3) assms(4)] own show ?thesis
      by (auto simp: own_changes_def)
  next
    case other
    from ack_not_found [OF assms(1,2) refl i other assms(3)] assms(1,4) show ?thesis
      by (simp add: own_changes_refl)
  qed
qed

lemma register_entitled:
  assumes "inv (bk_store b)" "ch_store h = ops" "\<And>ms. dev_ok (push_device c m ms)"
    and "client_RegisterPushToken h (Some c) (rpc_msg m) b = (b', res)"
  shows "entitled c (bk_store b) (bk_store b')"
proof (cases "deviceTypeFromProto (rp_DeviceType m) = '''' \<or> TrimSpace (rp_Token m) = ''''")
  case True
  with assms(1,4) show ?thesis
    by (auto simp: client_RegisterPushToken_def ClaimsFromContext_def request_message Let_def own_changes_refl split: if_splits)
next
  case False
  let ?dt = "deviceTypeFromProto (rp_DeviceType m)" and ?tok = "TrimSpace (rp_Token m)"
  have dt: "?dt = deviceTypeFromProto (getter rp_DeviceType 0 (rpc_msg m))" "?dt \<noteq> ''''"
    "?tok = TrimSpace (getter rp_Token '''' (rpc_msg m))" "?tok \<noteq> ''''" using False by (simp_all add: request_message)
  obtain ms w where now: "ch_now h (bk_live b) = (ms, w)" by fastforce
  let ?d = "push_device c m ms"
  obtain s' dr where u: "UpsertDevice ops (bk_store b) ?d = (s', dr)" by (metis surj_pair)
  have "bk_store b' = s'"
    using assms(2,4) False now u
    by (cases dr) (auto simp: client_RegisterPushToken_def ClaimsFromContext_def request_message push_device_def Let_def split: sum.splits)
  moreover have "dev_id_ok (bk_store b) (dev_ID ?d)" using dev_id_ok_empty [OF assms(1)] by (simp add: push_device_def)
  ultimately have "row (bk_store b') = row (bk_store b)" using upsert_rows [OF assms(1) _ assms(3) u] by simp
  with register_token [OF assms(1,2) refl dt assms(4) assms(3) [unfolded push_device_def]] show ?thesis
    by (auto simp: own_changes_def split: if_splits)
qed

lemma authenticated_entitled:
  assumes "authenticated_call cd v f r b = (b', resp)" "inv (bk_store b)"
    and "\<And>c m b'' res. cd_recv cd r = Inr m \<Longrightarrow> v (hr_Header r ''Authorization'') = Inr c \<Longrightarrow>
      f (Some c) (rpc_msg m) b = (b'', res) \<Longrightarrow> entitled c (bk_store b) (bk_store b'')"
  shows "case v (hr_Header r ''Authorization'') of Inl e \<Rightarrow> b' = b | Inr c \<Rightarrow> entitled c (bk_store b) (bk_store b')"
proof (cases "cd_recv cd r")
  case (Inr m)
  show ?thesis
  proof (cases "v (hr_Header r ''Authorization'')")
    case a: (Inr c)
    obtain b'' res where f: "f (Some c) (rpc_msg m) b = (b'', res)" by fastforce
    with assms(1) a Inr have "b' = b''" by (simp add: authenticated_call_def)
    with assms(3) [OF Inr a f] a show ?thesis by simp
  qed (use assms(1) Inr in \<open>simp add: authenticated_call_def\<close>)
qed (use assms in \<open>auto simp: authenticated_call_def own_changes_refl split: sum.split\<close>)

lemma reading_entitled:
  assumes "bk_store (fst x) = bk_store b" "x = (b'', res)" "inv (bk_store b)"
  shows "entitled c (bk_store b) (bk_store b'')"
  using assms own_changes_refl by auto


text \<open>Whatever arrives on the client port changes nothing without a valid token, and with one only what its
  claims are entitled to.\<close>

lemma dispatch_entitled:
  assumes "inv (bk_store b)" "ch_store h = ops" "request_accepted id_arg dev_ok cs v r" "client_dispatch cs v h r b = (b', resp)"
  shows "case v (hr_Header r ''Authorization'') of Inl e \<Rightarrow> b' = b | Inr c \<Rightarrow> entitled c (bk_store b) (bk_store b')"
proof -
  have get: "bk_store (fst (client_GetNotifications h ctx req b)) = bk_store b" for ctx req
    by (simp add: client_GetNotifications_def split: option.split sum.split)
  have adc: "bk_store (fst (client_AckDataChange h ctx req b)) = bk_store b" for ctx req
    by (simp add: client_AckDataChange_def Let_def split: option.split)
  have str: "bk_store (fst (client_StreamEvents h send ctx req b)) = bk_store b" for send ctx req
    by (simp add: client_StreamEvents_def Let_def split: option.split prod.split)
  consider (stream) "authenticated_call (cs_StreamEvents cs) v (client_StreamEvents h (cs_sent cs r)) r b = (b', resp)"
    | (inbox) "authenticated_call (cs_GetNotifications cs) v (client_GetNotifications h) r b = (b', resp)"
    | (ack) "authenticated_call (cs_AckNotification cs) v (client_AckNotification h) r b = (b', resp)"
    | (data) "authenticated_call (cs_AckDataChange cs) v (client_AckDataChange h) r b = (b', resp)"
    | (register) "authenticated_call (cs_RegisterPushToken cs) v (client_RegisterPushToken h) r b = (b', resp)"
    | (none) "b' = b" using assms(4) by (auto simp: client_dispatch_def split: if_splits)
  then show ?thesis
  proof cases
    case stream
    then show ?thesis by (rule authenticated_entitled [OF _ assms(1)]) (rule reading_entitled [OF str _ assms(1)])
  next
    case inbox
    then show ?thesis by (rule authenticated_entitled [OF _ assms(1)]) (rule reading_entitled [OF get _ assms(1)])
  next
    case ack
    then show ?thesis
      by (rule authenticated_entitled [OF _ assms(1)]) (rule ack_entitled [OF assms(1,2)], use assms(3) in \<open>unfold request_accepted_def, blast\<close>)
  next
    case data
    then show ?thesis by (rule authenticated_entitled [OF _ assms(1)]) (rule reading_entitled [OF adc _ assms(1)])
  next
    case register
    then show ?thesis
      by (rule authenticated_entitled [OF _ assms(1)]) (rule register_entitled [OF assms(1,2)], use assms(3) in \<open>unfold request_accepted_def, blast\<close>)
  next
    case none
    with assms(1) own_changes_refl show ?thesis by (simp split: sum.split)
  qed
qed

lemma port_entitled:
  assumes "connect_documented lib cs" "inv (bk_store (rpc_state st))" "ch_store h = ops" "request_accepted id_arg dev_ok cs v r"
    and "srv_Handler (buildClientServer lib lg cfg h v) r st = (st', resp)"
  shows "case v (hr_Header r ''Authorization'') of
      Inl e \<Rightarrow> rpc_state st' = rpc_state st
    | Inr c \<Rightarrow> entitled c (bk_store (rpc_state st)) (bk_store (rpc_state st'))"
  using client_server_cases [OF assms(1,5)] dispatch_entitled [OF assms(2-4), of "rpc_state st'" resp] assms(2) own_changes_refl
  by (auto split: sum.split)

end

subsection \<open>The metrics port\<close>

lemma mux_match_in: "mux_match mux path = Some (p, h) \<Longrightarrow> (p, h) \<in> set mux"
  by (induction mux path arbitrary: p h rule: mux_match.induct) (auto simp: Let_def split: if_splits option.splits)

lemma mux_keeps:
  assumes "\<And>p h r s. (p, h) \<in> set mux \<Longrightarrow> fst (h r s) = s"
  shows "fst (mux_ServeHTTP mux r s) = s"
proof (cases "findHandler mux r")
  case (Found h)
  then obtain p path where "mux_match mux path = Some (p, h)"
    by (auto simp: findHandler_def Let_def split: if_splits option.splits)
  with assms [OF mux_match_in] Found show ?thesis by (simp add: mux_ServeHTTP_def)
qed (simp_all add: mux_ServeHTTP_def)

lemma metrics_mux:
  "newMetricsMux =
     [(\<lparr>pt_segments = [''healthz''], pt_multi = False\<rparr>, health_Handler),
      (\<lparr>pt_segments = [''health''], pt_multi = False\<rparr>, health_Handler),
      (\<lparr>pt_segments = [''metrics''], pt_multi = False\<rparr>, \<lambda>r h. (h, http_Text 200 metrics_placeholder))]"
  by (simp add: newMetricsMux_def mux_Handle_def NewServeMux_def parsePattern_def)

text \<open>A literal one-segment path that is registered is served, whatever the method.\<close>

lemma literal_found:
  assumes "clean_segment n" "CHR ''%'' \<notin> set n" "hr_EscapedPath r = CHR ''/'' # n"
    and "mux_match mux (CHR ''/'' # n) = Some (p, h)" "\<not> pt_multi p"
  shows "findHandler mux r = Found h"
proof -
  have "path_Clean (CHR ''/'' # Join [n] (CHR ''/'')) = CHR ''/'' # Join [n] (CHR ''/'')"
    "last (CHR ''/'' # Join [n] (CHR ''/'')) \<noteq> CHR ''/''"
    using assms(1) by (intro path_Clean_id clean_last; simp)+
  then have "cleanPath (CHR ''/'' # n) = CHR ''/'' # n" by (simp add: cleanPath_def)
  moreover have "\<not> subtree_redirect mux (CHR ''/'' # n)" using assms(4,5) by (simp add: subtree_redirect_def exactMatch_def)
  ultimately show ?thesis using assms(3,4) by (simp add: findHandler_def)
qed

lemma metrics_routes:
  assumes "hr_EscapedPath r = CHR ''/'' # n"
  shows "n = ''healthz'' \<or> n = ''health'' \<Longrightarrow> findHandler newMetricsMux r = Found health_Handler"
    and "n = ''metrics'' \<Longrightarrow> findHandler newMetricsMux r = Found (\<lambda>r h. (h, http_Text 200 metrics_placeholder))"
proof -
  have m: "mux_match newMetricsMux ''/healthz'' = Some (\<lparr>pt_segments = [''healthz''], pt_multi = False\<rparr>, health_Handler)"
    "mux_match newMetricsMux ''/health'' = Some (\<lparr>pt_segments = [''health''], pt_multi = False\<rparr>, health_Handler)"
    "mux_match newMetricsMux ''/metrics'' =
       Some (\<lparr>pt_segments = [''metrics''], pt_multi = False\<rparr>, \<lambda>r h. (h, http_Text 200 metrics_placeholder))"
    by (simp_all add: metrics_mux pattern_match_def firstSegment_def pathUnescape_plain)
  show "n = ''healthz'' \<or> n = ''health'' \<Longrightarrow> findHandler newMetricsMux r = Found health_Handler"
    using literal_found [OF _ _ _ m(1), of r] literal_found [OF _ _ _ m(2), of r] assms by (auto simp: clean_segment_def)
  show "n = ''metrics'' \<Longrightarrow> findHandler newMetricsMux r = Found (\<lambda>r h. (h, http_Text 200 metrics_placeholder))"
    using literal_found [OF _ _ _ m(3), of r] assms by (auto simp: clean_segment_def)
qed

text \<open>Requests on the metrics port change nothing; both health paths report the readiness of the process,
  and the scrape path answers with the placeholder.\<close>

theorem metrics_port:
  "fst (mux_ServeHTTP newMetricsMux r h) = h \<and>
   (hr_RequestURI r \<noteq> ''*'' \<longrightarrow>
     (hr_EscapedPath r \<in> {''/healthz'', ''/health''} \<longrightarrow>
        snd (mux_ServeHTTP newMetricsMux r h) =
          (if ready h then http_JSON 200 [(''status'', ''ok'')] else http_JSON 503 [(''status'', ''not_ready'')])) \<and>
     (hr_EscapedPath r = ''/metrics'' \<longrightarrow> snd (mux_ServeHTTP newMetricsMux r h) = http_Text 200 metrics_placeholder))"
proof (intro conjI impI)
  show "fst (mux_ServeHTTP newMetricsMux r h) = h"
    by (rule mux_keeps) (auto simp: metrics_mux health_Handler_def split: prod.splits)
qed (auto simp: mux_ServeHTTP_def metrics_routes health_Handler_def health_ServeHTTP_def)

subsection \<open>A request without a token\<close>

text \<open>No validator a daemon can boot with accepts an empty header.\<close>

lemma no_header_rejected:
  assumes "run_daemon lib uni dur parse now mem pg c1 c2 en get = Inr s"
  shows "\<exists>e. sv_auth s '''' = Inl e"
proof -
  from assms obtain cfg deps cl n where r: "buildDependencies uni pg c1 c2 en cfg = (deps, cl, None, n)"
    "NewWithDeps lib uni parse now mem cfg deps = Inr s" "config_ok uni cfg" by (rule run_daemon_parts)
  have "dp_AuthValidator deps = None" using buildDependencies_deps [OF r(1)] r(3) by (simp add: config_ok_def)
  from run_daemon_auth [OF r(2) this] consider v where "sv_auth s = JWTValidator_Validate uni parse now v"
    | "sv_auth s = DevValidator_Validate uni"
    by (auto simp: buildValidator_def dest!: sym [where t = "sv_auth s"] split: if_splits sum.splits)
  then show ?thesis
    by cases (simp_all add: JWTValidator_Validate_def DevValidator_Validate_def stripBearer_def)
qed

definition demo_http_state :: "Memory Backend Rpc" where
  "demo_http_state =
     \<lparr>rpc_state = \<lparr>bk_store = New_memory row_ids,
        bk_sys = \<lparr>sys_live = new_live (NewRetryTracker 1 1) (\<lambda>_. 42) row_ids, sys_streams = []\<rparr>\<rparr>,
      rpc_log = [], rpc_clock = int, rpc_ticks = 0\<rparr>"

definition demo_ack :: "wire_body http_Request" where
  "demo_ack = http_post (method_url ''http'' ''localhost'' NotificationClientServiceName ''AckNotification'') (\<lambda>_. '''')
     (W_AckNotification ''i'')"

definition demo_notify :: "wire_body http_Request" where
  "demo_notify = http_post (method_url ''http'' ''localhost'' NotificationInternalServiceName ''Notify'') (\<lambda>_. '''')
     (R_unit (Ok ()))"

lemma demo_url_parts: "url_part ''http''" "CHR '':'' \<notin> set ''http''" "url_part ''localhost''"
  by (simp_all add: url_part_def)

lemma demo_paths:
  "hr_EscapedPath demo_ack = NotificationClientServiceAckNotificationProcedure" "hr_RequestURI demo_ack \<noteq> ''*''"
  "hr_EscapedPath demo_notify = NotificationInternalServiceNotifyProcedure" "hr_RequestURI demo_notify \<noteq> ''*''"
  "hr_Header demo_ack k = ''''" "hr_Header demo_notify k = ''''"
  by (simp_all add: demo_ack_def demo_notify_def http_post_def method_url_def URL_Path_def base_url_def
      NotificationClientServiceName_def NotificationInternalServiceName_def procedure_defs)

subsection \<open>The client port\<close>

text \<open>C10. On the client port of a booted daemon a request is either answered by the mux and changes nothing, or
  it has exactly the effect and the answer of the one procedure its path names, run with the claims of
  its token, after the checks of message and token. A request for a procedure is always served.\<close>

theorem client_port_exact:
  assumes "run_daemon lib uni dur parse now mem pg c1 c2 en get = Inr s" "connect_documented lib cs"
    and "h = newClientHandler (sv_store s) (maybeStreamHandler (sv_cfg s)) live_now"
    and "srv_Handler (sv_clientServer s) r st = (st', resp)"
  shows "(client_dispatch cs (sv_auth s) h r (rpc_state st) = (rpc_state st', resp) \<or> st' = st \<and> mux_answer resp) \<and>
    (hr_EscapedPath r \<in> set client_procedures \<longrightarrow> hr_RequestURI r \<noteq> ''*'' \<longrightarrow>
       client_dispatch cs (sv_auth s) h r (rpc_state st) = (rpc_state st', resp))"
proof -
  note srv = assms(4) [unfolded run_daemon_servers(1) [OF assms(1)], folded assms(3)]
  from client_server_cases [OF assms(2) srv] client_server_serves [OF assms(2) _ _ srv] show ?thesis by blast
qed

theorem client_port_exact_witness:
  "\<exists>s st' resp. demo_daemon = Inr s \<and> srv_Handler (sv_clientServer s) demo_ack demo_http_state = (st', resp) \<and>
     client_dispatch wire_codecs (sv_auth s) (newClientHandler (sv_store s) (maybeStreamHandler (sv_cfg s)) live_now)
       demo_ack (rpc_state demo_http_state) = (rpc_state st', resp)"
proof -
  obtain s where s: "demo_daemon = Inr s" using demo_daemon_boots by blast
  obtain st' resp where r: "srv_Handler (sv_clientServer s) demo_ack demo_http_state = (st', resp)" by fastforce
  from client_port_exact [OF s [unfolded demo_daemon_def] stand_in_documented refl r] demo_paths s r show ?thesis
    by (auto simp: client_procedures_def)
qed

text \<open>C9. Nobody changes what is not theirs through the client port of a daemon on the memory store, whatever
  path, method, header or body they send: without a valid token the state is the same afterwards, and with
  one the only rows that change are rows of the token's tenant and user, which become read, and the only
  devices that change are that user's own.\<close>

theorem client_port_isolation:
  assumes "run_daemon lib uni dur parse now memory_ops pg c1 c2 en get = Inr s" "connect_documented lib cs"
    and "sc_Driver (StoreCfg (sv_cfg s)) = ''memory''" "memory_inv (bk_store (rpc_state st))"
    and "srv_Handler (sv_clientServer s) r st = (st', resp)"
  shows "memory_inv (bk_store (rpc_state st')) \<and>
    (case sv_auth s (hr_Header r ''Authorization'') of
       Inl e \<Rightarrow> rpc_state st' = rpc_state st
     | Inr c \<Rightarrow> own_changes c
         (map_of (notifications (bk_store (rpc_state st)))) (device_of (bk_store (rpc_state st)))
         (map_of (notifications (bk_store (rpc_state st')))) (device_of (bk_store (rpc_state st'))))"
proof -
  let ?h = "newClientHandler (sv_store s) (maybeStreamHandler (sv_cfg s)) live_now"
  have h: "ch_store ?h = memory_ops" using run_daemon_servers(4) [OF assms(1,3)] by (simp add: newClientHandler_def)
  have "request_accepted (\<lambda>_. True) (\<lambda>_. True) cs (sv_auth s) r" by (simp add: request_accepted_def)
  from memfull.port_entitled [OF assms(2,4) h this assms(5) [unfolded run_daemon_servers(1) [OF assms(1)]]] assms(4)
  show ?thesis by (auto split: sum.splits)
qed

theorem client_port_isolation_witness:
  "\<exists>s st' resp. demo_daemon = Inr s \<and> srv_Handler (sv_clientServer s) demo_ack demo_http_state = (st', resp) \<and>
     rpc_state st' = rpc_state demo_http_state \<and> memory_inv (bk_store (rpc_state st'))"
proof -
  obtain s where s: "demo_daemon = Inr s" "sc_Driver (StoreCfg (sv_cfg s)) = ''memory''" using demo_daemon_boots by blast
  obtain st' resp where r: "srv_Handler (sv_clientServer s) demo_ack demo_http_state = (st', resp)" by fastforce
  obtain e where e: "sv_auth s '''' = Inl e" using no_header_rejected [OF s(1) [unfolded demo_daemon_def]] by blast
  have "memory_inv (bk_store (rpc_state demo_http_state))" using memory_inv_New [OF row_ids_ok] by (simp add: demo_http_state_def)
  from client_port_isolation [OF s(1) [unfolded demo_daemon_def] stand_in_documented s(2) this r] e s r show ?thesis
    by (auto simp: demo_paths)
qed

subsection \<open>The internal port\<close>

text \<open>C11. On the internal port of a booted daemon a request is either answered by the mux, or has exactly the
  effect and the answer of Notify behind the check of the internal token; a request for Notify is always
  served. Outside development mode a request whose token is not the configured one changes nothing.\<close>

theorem internal_port_exact:
  assumes "run_daemon lib uni dur parse now mem pg c1 c2 en get = Inr s" "connect_documented lib cs"
    and "tok = ac_InternalToken (AuthCfg (sv_cfg s))" "dev = ac_DevMode (AuthCfg (sv_cfg s))"
    and "srv_Handler (sv_internalSrv s) r st = (st', resp)"
  shows "(internal_dispatch cs tok dev (newInternalHandler (sv_notifier s)) r (rpc_state st) = (rpc_state st', resp) \<or>
      st' = st \<and> mux_answer resp) \<and>
    (hr_EscapedPath r = NotificationInternalServiceNotifyProcedure \<longrightarrow> hr_RequestURI r \<noteq> ''*'' \<longrightarrow>
      internal_dispatch cs tok dev (newInternalHandler (sv_notifier s)) r (rpc_state st) = (rpc_state st', resp)) \<and>
    (\<not> dev \<longrightarrow> hr_Header r ''X-Notify-Internal-Token'' \<noteq> tok \<longrightarrow> rpc_state st' = rpc_state st)"
proof -
  note srv = assms(5) [unfolded run_daemon_servers(2) [OF assms(1)]]
  note cases = internal_server_cases [OF assms(2) srv, folded assms(3,4)]
  have serve: "internal_dispatch cs tok dev (newInternalHandler (sv_notifier s)) r (rpc_state st) = (rpc_state st', resp)"
    if p: "hr_EscapedPath r = NotificationInternalServiceNotifyProcedure" "hr_RequestURI r \<noteq> ''*''"
  proof -
    let ?h = "snd (NewNotificationInternalServiceHandler lib (internal_service (newInternalHandler (sv_notifier s)))
      (internal_interceptors (sv_logger s) tok dev))"
    have "mux_ServeHTTP (mux_Handle (CHR ''/'' # NotificationInternalServiceName @ ''/'') ?h NewServeMux) r st = ?h r st"
      by (rule procedure_reached [OF _ _ _ p(1) [unfolded procedure_paths] p(2)])
         (use names_ok(1,3) in \<open>auto simp: name_part_def\<close>)
    then have "?h r st = (st', resp)"
      using srv unfolding buildInternalServer_handler [OF assms(2)] by (simp add: assms(3,4))
    from internal_handler_exact [OF assms(2) this] show ?thesis .
  qed
  have "rpc_state st' = rpc_state st" if "\<not> dev" "hr_Header r ''X-Notify-Internal-Token'' \<noteq> tok"
    using cases that
    by (auto simp: internal_dispatch_def internal_decision_def internal_allowed_def connect_request_def
        split: if_splits sum.splits)
  with cases serve show ?thesis by blast
qed

theorem internal_port_exact_witness:
  "\<exists>s st' resp. demo_daemon = Inr s \<and> srv_Handler (sv_internalSrv s) demo_notify demo_http_state = (st', resp) \<and>
     internal_dispatch wire_codecs (ac_InternalToken (AuthCfg (sv_cfg s))) False (newInternalHandler (sv_notifier s)) demo_notify
       (rpc_state demo_http_state) = (rpc_state st', resp)"
proof -
  obtain s where s: "demo_daemon = Inr s" "\<not> ac_DevMode (AuthCfg (sv_cfg s))" using demo_daemon_boots by blast
  obtain st' resp where r: "srv_Handler (sv_internalSrv s) demo_notify demo_http_state = (st', resp)" by fastforce
  from internal_port_exact [OF s(1) [unfolded demo_daemon_def] stand_in_documented refl refl r] demo_paths s r show ?thesis by auto
qed

subsection \<open>Calls through the generated clients\<close>

text \<open>What the caller and the backend see of a request: the backend afterwards and the response.\<close>

definition port_view :: "('b, 's Rpc) http_Handler \<Rightarrow> 'b http_Request \<Rightarrow> 's Rpc \<Rightarrow> 's \<times> 'b http_Response" where
  "port_view H r st = (rpc_state (fst (H r st)), snd (H r st))"

lemma post_dispatched:
  assumes "connect_documented lib cs" "url_part scheme" "CHR '':'' \<notin> set scheme" "url_part authority" "name_part m"
    and "r = http_post (method_url scheme authority NotificationClientServiceName m) header body"
  shows "port_view (srv_Handler (buildClientServer lib lg cfg h v)) r st = client_dispatch cs v h r (rpc_state st)"
proof -
  let ?h = "snd (NewNotificationClientServiceHandler lib (shim_service (newStreamAuthShim h v)) (client_interceptors lg v))"
  note reach = post_reaches [OF assms(2-4) names_ok(2) assms(5)]
  have "srv_Handler (buildClientServer lib lg cfg h v) r st = ?h r st"
    unfolding buildClientServer_handler [OF assms(1)] assms(6) by (rule reach(2))
  moreover obtain st' resp where "?h r st = (st', resp)" by fastforce
  ultimately show "port_view (srv_Handler (buildClientServer lib lg cfg h v)) r st = client_dispatch cs v h r (rpc_state st)"
    using client_handler_exact [OF assms(1), of h v lg r st st' resp] by (simp add: port_view_def)
qed

text \<open>C13. The generated client and the generated handler agree on every procedure: a request posted to the URL of
  a method of the client, whatever final slashes its base URL had, runs exactly that method on the server.\<close>

theorem generated_client_routes:
  assumes "connect_documented lib cs" "url_part scheme" "CHR '':'' \<notin> set scheme" "url_part authority"
    and "c = NewNotificationClientServiceClient hc (base_url scheme authority k)"
    and "H = srv_Handler (buildClientServer lib lg cfg h v)" "post = (\<lambda>m. http_post (cc_URL m) header body)"
  shows "port_view H (post (ncc_streamEvents c)) st =
      authenticated_call (cs_StreamEvents cs) v (client_StreamEvents h (cs_sent cs (post (ncc_streamEvents c))))
        (post (ncc_streamEvents c)) (rpc_state st) \<and>
    port_view H (post (ncc_getNotifications c)) st =
      authenticated_call (cs_GetNotifications cs) v (client_GetNotifications h) (post (ncc_getNotifications c)) (rpc_state st) \<and>
    port_view H (post (ncc_ackNotification c)) st =
      authenticated_call (cs_AckNotification cs) v (client_AckNotification h) (post (ncc_ackNotification c)) (rpc_state st) \<and>
    port_view H (post (ncc_ackDataChange c)) st =
      authenticated_call (cs_AckDataChange cs) v (client_AckDataChange h) (post (ncc_ackDataChange c)) (rpc_state st) \<and>
    port_view H (post (ncc_registerPushToken c)) st =
      authenticated_call (cs_RegisterPushToken cs) v (client_RegisterPushToken h) (post (ncc_registerPushToken c)) (rpc_state st)"
proof -
  note urls = client_urls(2-) [OF assms(4) refl, of hc scheme k]
  note run = post_dispatched [OF assms(1-4) _ refl]
  note path = post_reaches(1) [OF assms(2-4) names_ok(2)]
  show ?thesis
    unfolding assms(5-7) urls
    by (intro conjI; subst run; simp only: names_ok client_dispatch_def path procedure_paths; simp)
qed

theorem generated_client_routes_witness:
  "port_view (srv_Handler (buildClientServer (stand_in_lib wire_codecs) slog_Default default_config
       (newClientHandler memory_ops None live_now) (\<lambda>_. Inl ErrNotFound)))
     (http_post (cc_URL (ncc_ackNotification (NewNotificationClientServiceClient () ''http://localhost//''))) (\<lambda>_. '''') (W_AckNotification ''i''))
     demo_http_state = (rpc_state demo_http_state, http_Reply (R_unit (Err ErrNotFound)))"
proof -
  have base: "''http://localhost//'' = base_url ''http'' ''localhost'' 2"
    by (simp add: base_url_def numeral_2_eq_2)
  have "port_view (srv_Handler (buildClientServer (stand_in_lib wire_codecs) slog_Default default_config
       (newClientHandler memory_ops None live_now) (\<lambda>_. Inl ErrNotFound)))
     (http_post (cc_URL (ncc_ackNotification (NewNotificationClientServiceClient () ''http://localhost//''))) (\<lambda>_. '''') (W_AckNotification ''i''))
     demo_http_state =
    authenticated_call (cs_AckNotification wire_codecs) (\<lambda>_. Inl ErrNotFound) (client_AckNotification (newClientHandler memory_ops None live_now))
     (http_post (cc_URL (ncc_ackNotification (NewNotificationClientServiceClient () ''http://localhost//''))) (\<lambda>_. '''') (W_AckNotification ''i''))
     (rpc_state demo_http_state)"
    unfolding base
    by (rule conjunct1 [OF conjunct2 [OF conjunct2 [OF generated_client_routes
          [OF stand_in_documented demo_url_parts refl refl refl]]]])
  then show ?thesis by (simp add: authenticated_call_def wire_codecs_def http_post_def)
qed

text \<open>The network between a client and one server.\<close>

definition deliver :: "('b, 's) http_Handler \<Rightarrow> string \<Rightarrow> (string \<Rightarrow> string) \<Rightarrow> 'b \<Rightarrow> 's \<Rightarrow> 's \<times> 'b http_Response" where
  "deliver H url header body st = H (http_post url header body) st"

text \<open>What the RPC library documents of a unary call: it posts the encoded message with the headers of the
  request, next to headers of its own, and decodes the response. The codecs of the two sides agree; an error
  travels as its code and text (\<open>remote\<close>).\<close>

definition calls_unary ::
  "(string \<Rightarrow> (string \<Rightarrow> string) \<Rightarrow> 'b \<Rightarrow> 'w \<Rightarrow> 'w \<times> 'b http_Response, 'm, 'a, 'w) client_call \<Rightarrow>
   ('m option \<Rightarrow> 'b) \<Rightarrow> ('b http_Response \<Rightarrow> 'a rpc) \<Rightarrow> ((string \<Rightarrow> string) \<Rightarrow> string \<Rightarrow> string) \<Rightarrow> bool" where
  "calls_unary call marshal unmarshal hdr \<longleftrightarrow> (\<forall>c ctx req w. call c ctx req w =
     (let (w', resp) = cc_HTTPClient c (cc_URL c) (hdr (rq_Header req)) (marshal (rq_Msg req)) w
      in (w', unmarshal resp)))"

definition codecs_agree ::
  "('b, 'm, 'a) codec \<Rightarrow> ('m option \<Rightarrow> 'b) \<Rightarrow> ('b http_Response \<Rightarrow> 'a rpc) \<Rightarrow> ((string \<Rightarrow> string) \<Rightarrow> string \<Rightarrow> string) \<Rightarrow>
   (goerror \<Rightarrow> goerror) \<Rightarrow> bool" where
  "codecs_agree cd marshal unmarshal hdr remote \<longleftrightarrow>
     (\<forall>url h m. cd_recv cd (http_post url (hdr h) (marshal (Some m))) = Inr m) \<and>
     (\<forall>r a. unmarshal (http_Reply (cd_reply cd r (Ok a))) = Ok a) \<and>
     (\<forall>r e. unmarshal (http_Reply (cd_reply cd r (Err e))) = Err (remote e)) \<and>
     (\<forall>h. hdr h ''Authorization'' = h ''Authorization'' \<and> hdr h ''X-Notify-Internal-Token'' = h ''X-Notify-Internal-Token'')"

text \<open>An outcome as the remote caller sees it.\<close>

definition transmitted :: "(goerror \<Rightarrow> goerror) \<Rightarrow> 'a rpc \<Rightarrow> 'a rpc" where
  "transmitted remote res =
     (case res of
        Ok a \<Rightarrow> Ok a
      | Err e \<Rightarrow> Err (remote e)
      | Panic _ \<Rightarrow> Err (remote (Connect CodeInternal (New ''internal server error''))))"

lemma unmarshal_recovered:
  "codecs_agree cd marshal unmarshal hdr remote \<Longrightarrow>
    unmarshal (http_Reply (cd_reply cd r (recovered res))) = transmitted remote res"
  by (cases res) (simp_all add: codecs_agree_def recovered_def transmitted_def)

text \<open>A call of the generated internal client is one request at the handler of the port.\<close>

lemma internal_client_posts:
  assumes "connect_documented lib cs" "calls_unary call marshal unmarshal hdr"
    and "url_part scheme" "CHR '':'' \<notin> set scheme" "url_part authority"
    and "c = NewNotificationInternalServiceClient (deliver (srv_Handler (buildInternalServer lib lg cfg h))) (base_url scheme authority k)"
    and "rq_Msg req = Some m" "internalClient_Notify call c ctx req st = (st', res)"
    and "r = http_post (method_url scheme authority NotificationInternalServiceName ''Notify'') (hdr (rq_Header req)) (marshal (Some m))"
  shows "hr_Path r = NotificationInternalServiceNotifyProcedure"
    and "\<exists>resp. res = unmarshal resp \<and> internal_dispatch cs (ac_InternalToken (AuthCfg cfg)) (ac_DevMode (AuthCfg cfg)) h r
      (rpc_state st) = (rpc_state st', resp)"
proof -
  let ?url = "method_url scheme authority NotificationInternalServiceName ''Notify''"
  let ?h = "snd (NewNotificationInternalServiceHandler lib (internal_service h)
      (internal_interceptors lg (ac_InternalToken (AuthCfg cfg)) (ac_DevMode (AuthCfg cfg))))"
  note reach = post_reaches [OF assms(3-5) names_ok(1,3)]
  show "hr_Path r = NotificationInternalServiceNotifyProcedure" unfolding assms(9) reach(1) procedure_paths ..
  have "deliver (srv_Handler (buildInternalServer lib lg cfg h)) ?url (hdr (rq_Header req)) (marshal (Some m)) st = ?h r st"
    unfolding deliver_def assms(9) buildInternalServer_handler [OF assms(1)] by (rule reach(2))
  moreover have "cc_URL (nic_notify c) = ?url" "cc_HTTPClient (nic_notify c) = deliver (srv_Handler (buildInternalServer lib lg cfg h))"
    using client_urls(1) [OF assms(5) refl] unfolding assms(6)
    by (simp_all add: NewNotificationInternalServiceClient_def connect_NewClient_def)
  ultimately obtain resp where "?h r st = (st', resp)" "res = unmarshal resp"
    using assms(2,7,8) by (auto simp: calls_unary_def internalClient_Notify_def split: prod.splits)
  with internal_handler_exact [OF assms(1)] show "\<exists>resp. res = unmarshal resp \<and>
    internal_dispatch cs (ac_InternalToken (AuthCfg cfg)) (ac_DevMode (AuthCfg cfg)) h r (rpc_state st) = (rpc_state st', resp)"
    by blast
qed


lemma demo_token:
  assumes "demo_daemon = Inr s"
  shows "\<not> ac_DevMode (AuthCfg (sv_cfg s)) \<longrightarrow> ac_InternalToken (AuthCfg (sv_cfg s)) \<noteq> ''''"
proof -
  from assms obtain cfg deps cl n where r: "NewWithDeps (stand_in_lib wire_codecs) id demo_parse 0 memory_ops cfg deps = Inr s" "config_ok id cfg"
    unfolding demo_daemon_def by (rule run_daemon_parts)
  with NewWithDeps_notifier [OF r(1)] show ?thesis by (auto simp: config_ok_def auth_ok_def)
qed

text \<open>A concrete client library on the wire format of the witnesses.\<close>

definition demo_marshal :: "pb_NotifyRequest option \<Rightarrow> wire_body" where
  "demo_marshal m = (case m of None \<Rightarrow> R_unit (Ok ()) | Some m \<Rightarrow> W_Notify m)"

definition demo_unmarshal :: "wire_body http_Response \<Rightarrow> pb_NotifyResponse rpc" where
  "demo_unmarshal resp = (case resp of http_Reply (R_Notify res) \<Rightarrow> res | _ \<Rightarrow> Err bad_message)"

definition demo_call ::
  "(string \<Rightarrow> (string \<Rightarrow> string) \<Rightarrow> wire_body \<Rightarrow> 'w \<Rightarrow> 'w \<times> wire_body http_Response, pb_NotifyRequest, pb_NotifyResponse, 'w) client_call" where
  "demo_call c ctx req w =
     (let (w', resp) = cc_HTTPClient c (cc_URL c) (rq_Header req) (demo_marshal (rq_Msg req)) w in (w', demo_unmarshal resp))"

definition demo_message :: pb_NotifyRequest where
  "demo_message = \<lparr>pb_TenantId = ''t'', pb_NotificationId = ''n'', pb_UserIds = [''u''], pb_Channels = [], pb_SubjectRef = '''',
     pb_SubjectType = '''', pb_Title = '''', pb_Body = '''', pb_Addresses = []\<rparr>"


end
