(* ===== verification/Twilio.thy ===== *)
theory Twilio
  imports GoNet Config Provider_Spec
begin

text \<open>
  \<open>channels/twilio\<close>: the client of the Messages API (\<open>client.go\<close>) and the SMS and WhatsApp
  providers on it (\<open>sms.go\<close>, \<open>whatsapp.go\<close>). The HTTP client acts on the world; the request it is
  given, with its form body and its Basic credentials, and the decoding of the answer are
  modelled in full. Both providers are shown to keep the provider contract.
\<close>

subsection \<open>client.go\<close>

definition twilio_defaultBaseURL :: string where
  "twilio_defaultBaseURL = ''https://api.twilio.com''"

definition apiVersion :: string where "apiVersion = ''2010-04-01''"

record 'w TwClient =
  accountSID :: string
  authToken :: string
  messagingServiceSID :: string
  tc_from :: string
  baseURL :: string
  httpClient :: "'w HttpClient"

text \<open>\<open>client\<close> is \<open>http.Client\<close> with the given timeout in nanoseconds and the default transport.\<close>

definition NewClient :: "(int \<Rightarrow> 'w HttpClient) \<Rightarrow> TwilioConfig \<Rightarrow> goerror + 'w TwClient" where
  "NewClient client cfg =
     (if TrimSpace (tw_AccountSID cfg) = '''' then Inl (New ''twilio: AccountSID is required'')
      else if TrimSpace (tw_AuthToken cfg) = '''' then Inl (New ''twilio: AuthToken is required'')
      else if TrimSpace (tw_From cfg) = '''' \<and> TrimSpace (tw_MessagingServiceSID cfg) = '''' then
        Inl (New ''twilio: one of From or MessagingServiceSID is required'')
      else Inr
        \<lparr>accountSID = tw_AccountSID cfg, authToken = tw_AuthToken cfg,
         messagingServiceSID = TrimSpace (tw_MessagingServiceSID cfg), tc_from = TrimSpace (tw_From cfg),
         baseURL = twilio_defaultBaseURL, httpClient = client (15 * 10 ^ 9)\<rparr>)"

definition WithBaseURL :: "'w TwClient \<Rightarrow> string \<Rightarrow> 'w TwClient" where
  "WithBaseURL c url = c\<lparr>baseURL := TrimRight_byte url (CHR ''/'')\<rparr>"

definition WithHTTPClient :: "'w TwClient \<Rightarrow> 'w HttpClient \<Rightarrow> 'w TwClient" where
  "WithHTTPClient c h = c\<lparr>httpClient := h\<rparr>"

record messageResponse =
  mr_SID :: string
  mr_Status :: string

record twilioError =
  te_Code :: int
  te_Message :: string
  te_MoreInfo :: string
  te_Status :: int

definition zero_messageResponse :: messageResponse where
  "zero_messageResponse = \<lparr>mr_SID = '''', mr_Status = ''''\<rparr>"

definition zero_twilioError :: twilioError where
  "zero_twilioError = \<lparr>te_Code = 0, te_Message = '''', te_MoreInfo = '''', te_Status = 0\<rparr>"

text \<open>The struct decoders that the \<open>json\<close> tags describe.\<close>

definition messageResponse_field :: "string \<Rightarrow> messageResponse decoder" where
  "messageResponse_field f v x =
     (if f = ''sid'' then let (s, e) = decode_string f v (mr_SID x) in (x\<lparr>mr_SID := s\<rparr>, e)
      else let (s, e) = decode_string f v (mr_Status x) in (x\<lparr>mr_Status := s\<rparr>, e))"

definition decode_messageResponse :: "messageResponse decoder" where
  "decode_messageResponse = decode_struct [''sid'', ''status''] messageResponse_field ''messageResponse''"

definition twilioError_field :: "string \<Rightarrow> twilioError decoder" where
  "twilioError_field f v x =
     (if f = ''code'' then let (i, e) = decode_int f v (te_Code x) in (x\<lparr>te_Code := i\<rparr>, e)
      else if f = ''message'' then let (s, e) = decode_string f v (te_Message x) in (x\<lparr>te_Message := s\<rparr>, e)
      else if f = ''more_info'' then let (s, e) = decode_string f v (te_MoreInfo x) in (x\<lparr>te_MoreInfo := s\<rparr>, e)
      else let (i, e) = decode_int f v (te_Status x) in (x\<lparr>te_Status := i\<rparr>, e))"

definition decode_twilioError :: "twilioError decoder" where
  "decode_twilioError =
     decode_struct [''code'', ''message'', ''more_info'', ''status''] twilioError_field ''twilioError''"

text \<open>The \<open>error\<close> value a \<open>*twilioError\<close> is.\<close>

definition twilioError_Error :: "twilioError \<Rightarrow> goerror" where
  "twilioError_Error e = Errorf ''twilio: code=%d message=%q'' [FormatInt (te_Code e), te_Message e] None"

definition basicAuth :: "string \<Rightarrow> string \<Rightarrow> string" where
  "basicAuth user pass = EncodeToString (user @ '':'' @ pass)"

definition tw_endpoint :: "'w TwClient \<Rightarrow> string" where
  "tw_endpoint c = baseURL c @ ''/'' @ apiVersion @ ''/Accounts/'' @ accountSID c @ ''/Messages.json''"

text \<open>The error for an answer outside the 2xx range.\<close>

definition tw_failure :: "int \<Rightarrow> string \<Rightarrow> goerror" where
  "tw_failure code body =
     (let (terr, jsonErr) = Unmarshal decode_twilioError zero_twilioError body
      in if jsonErr = None \<and> te_Code terr \<noteq> 0 then twilioError_Error terr
         else let snippet = TrimSpace body;
                  snippet = (if length snippet > 200 then take 200 snippet @ ''...'' else snippet)
              in Errorf ''twilio: http %d: %s'' [FormatInt code, snippet] None)"

definition tw_headers :: "'w TwClient \<Rightarrow> HttpRequest \<Rightarrow> HttpRequest" where
  "tw_headers c req =
     set_header ''Authorization'' (''Basic '' @ basicAuth (accountSID c) (authToken c))
       (set_header ''Accept'' ''application/json''
         (set_header ''Content-Type'' ''application/x-www-form-urlencoded'' req))"

definition sendMessage ::
  "(string \<Rightarrow> goerror option) \<Rightarrow> 'w TwClient \<Rightarrow> 'w \<Rightarrow> Values \<Rightarrow> 'w \<times> (goerror + messageResponse)" where
  "sendMessage url_parse c w form =
     (case NewRequest url_parse ''POST'' (tw_endpoint c) (Encode form) of
        Inl err \<Rightarrow> (w, Inl (Errorf ''twilio: build request: %w'' [] (Some err)))
      | Inr req \<Rightarrow>
          (case hc_Do (httpClient c) w (tw_headers c req) of
             (w, Inl err) \<Rightarrow> (w, Inl (Errorf ''twilio: do request: %w'' [] (Some err)))
           | (w, Inr resp) \<Rightarrow>
               (case ReadAll resp of
                  Inl err \<Rightarrow> (w, Inl (Errorf ''twilio: read response: %w'' [] (Some err)))
                | Inr body \<Rightarrow>
                    if 200 \<le> rs_StatusCode resp \<and> rs_StatusCode resp < 300 then
                      (case Unmarshal decode_messageResponse zero_messageResponse body of
                         (_, Some err) \<Rightarrow> (w, Inl (Errorf ''twilio: decode response: %w'' [] (Some err)))
                       | (out, None) \<Rightarrow> (w, Inr out))
                    else (w, Inl (tw_failure (rs_StatusCode resp) body)))))"

definition pickFrom :: "'w TwClient \<Rightarrow> string \<times> string" where
  "pickFrom c =
     (if messagingServiceSID c \<noteq> '''' then (''MessagingServiceSid'', messagingServiceSID c)
      else (''From'', tc_from c))"

subsection \<open>sms.go\<close>

definition validateE164 :: "string \<Rightarrow> goerror option" where
  "validateE164 s =
     (if s = '''' then Some (New ''To: empty recipient address'')
      else if \<not> HasPrefix s ''+'' then
        Some (Errorf ''To: %q must be E.164 (must start with '+')'' [s] None)
      else let digits = drop 1 s in
        if length digits < 6 \<or> length digits > 15 then Some (Errorf ''To: %q has invalid length'' [s] None)
        else if list_ex (\<lambda>r. r < CHR ''0'' \<or> r > CHR ''9'') digits then
          Some (Errorf ''To: %q contains non-digit characters'' [s] None)
        else None)"

definition pickBody :: "Message \<Rightarrow> string" where
  "pickBody msg = (if TrimSpace (msg_Body msg) \<noteq> '''' then msg_Body msg else msg_Title msg)"

definition SMS_Send ::
  "(string \<Rightarrow> goerror option) \<Rightarrow> 'w TwClient \<Rightarrow> 'w \<Rightarrow> Message \<Rightarrow> 'w \<times> Receipt \<times> goerror option" where
  "SMS_Send url_parse c w msg =
     (let to = TrimSpace (msg_To msg) in
      case validateE164 to of
        Some err \<Rightarrow> (w, failed_receipt, Some (Errorf ''twilio sms: %w'' [] (Some err)))
      | None \<Rightarrow>
          let form = Set_value [] ''To'' to;
              (fromKey, fromVal) = pickFrom c;
              form = Set_value form fromKey fromVal;
              form = Set_value form ''Body'' (pickBody msg)
          in case sendMessage url_parse c w form of
               (w, Inl err) \<Rightarrow> (w, failed_receipt, Some (Errorf ''twilio sms: send: %w'' [] (Some err)))
             | (w, Inr resp) \<Rightarrow>
                 (w, \<lparr>rc_ProviderMessageID = mr_SID resp, rc_Status = StatusDelivered\<rparr>, None))"

definition NewSMS :: "(string \<Rightarrow> goerror option) \<Rightarrow> 'w TwClient \<Rightarrow> 'w Provider" where
  "NewSMS url_parse c = \<lparr>Kind = ChannelSMS, Name = ''twilio'', Send = SMS_Send url_parse c\<rparr>"

subsection \<open>whatsapp.go\<close>

definition whatsappPrefix :: string where "whatsappPrefix = ''whatsapp:''"

definition ensureWhatsAppPrefix :: "string \<Rightarrow> string" where
  "ensureWhatsAppPrefix addr = (if HasPrefix addr whatsappPrefix then addr else whatsappPrefix @ addr)"

definition stripWhatsAppPrefix :: "string \<Rightarrow> string" where
  "stripWhatsAppPrefix addr = TrimPrefix addr whatsappPrefix"

definition WhatsApp_Send ::
  "(string \<Rightarrow> goerror option) \<Rightarrow> 'w TwClient \<Rightarrow> 'w \<Rightarrow> Message \<Rightarrow> 'w \<times> Receipt \<times> goerror option" where
  "WhatsApp_Send url_parse c w msg =
     (let to = TrimSpace (msg_To msg) in
      case validateE164 (stripWhatsAppPrefix to) of
        Some err \<Rightarrow> (w, failed_receipt, Some (Errorf ''twilio whatsapp: %w'' [] (Some err)))
      | None \<Rightarrow>
          let form = Set_value [] ''To'' (ensureWhatsAppPrefix to);
              (fromKey, fromVal) = pickFrom c;
              fromVal = (if fromKey = ''From'' then ensureWhatsAppPrefix fromVal else fromVal);
              form = Set_value form fromKey fromVal;
              form = Set_value form ''Body'' (pickBody msg)
          in case sendMessage url_parse c w form of
               (w, Inl err) \<Rightarrow> (w, failed_receipt, Some (Errorf ''twilio whatsapp: send: %w'' [] (Some err)))
             | (w, Inr resp) \<Rightarrow>
                 (w, \<lparr>rc_ProviderMessageID = mr_SID resp, rc_Status = StatusDelivered\<rparr>, None))"

definition NewWhatsApp :: "(string \<Rightarrow> goerror option) \<Rightarrow> 'w TwClient \<Rightarrow> 'w Provider" where
  "NewWhatsApp url_parse c = \<lparr>Kind = ChannelWhatsApp, Name = ''twilio'', Send = WhatsApp_Send url_parse c\<rparr>"

subsection \<open>Recipients\<close>

text \<open>The numbers the providers accept: a plus sign and six to fifteen digits.\<close>

definition e164 :: "string \<Rightarrow> bool" where
  "e164 s \<longleftrightarrow> (\<exists>ds. s = CHR ''+'' # ds \<and> 6 \<le> length ds \<and> length ds \<le> 15 \<and> list_all is_digit ds)"

lemma not_digit_iff: "(r < CHR ''0'' \<or> r > CHR ''9'') \<longleftrightarrow> \<not> is_digit r"
  by (auto simp: is_digit_def byte_in_def less_char_def)

lemma validateE164_None: "validateE164 s = None \<longleftrightarrow> e164 s"
  by (cases s)
     (auto simp: validateE164_def e164_def not_digit_iff Let_def list_ex_iff list_all_iff)

lemma e164_not_whatsapp: "e164 s \<Longrightarrow> \<not> HasPrefix s whatsappPrefix"
  by (auto simp: e164_def whatsappPrefix_def)

lemma ensure_strip: "ensureWhatsAppPrefix addr = whatsappPrefix @ stripWhatsAppPrefix addr"
  by (auto simp: ensureWhatsAppPrefix_def stripWhatsAppPrefix_def TrimPrefix_def prefix_def)

lemma strip_prefixed: "stripWhatsAppPrefix (whatsappPrefix @ s) = s"
  by (simp add: stripWhatsAppPrefix_def TrimPrefix_def)

lemma strip_ensure: "stripWhatsAppPrefix (ensureWhatsAppPrefix addr) = stripWhatsAppPrefix addr"
  by (simp add: ensure_strip strip_prefixed)

lemma ensure_idem: "ensureWhatsAppPrefix (ensureWhatsAppPrefix addr) = ensureWhatsAppPrefix addr"
  by (simp add: ensure_strip strip_prefixed)

subsection \<open>Requests\<close>

text \<open>The request of a send: where it goes, the credentials a server reads from it, and the form.\<close>

definition messages_request :: "'w TwClient \<Rightarrow> (string \<times> string) list \<Rightarrow> HttpRequest \<Rightarrow> bool" where
  "messages_request c form req \<longleftrightarrow>
     hq_Method req = ''POST'' \<and> hq_URL req = tw_endpoint c \<and>
     parse_form (hq_Body req) = map Some form \<and>
     map_of (hq_Header req) ''Content-Type'' = Some ''application/x-www-form-urlencoded'' \<and>
     (\<exists>b. map_of (hq_Header req) ''Authorization'' = Some (''Basic '' @ b) \<and>
        base64_decode b = accountSID c @ '':'' @ authToken c)"

lemma sendMessage_request:
  assumes "url_parse (tw_endpoint c) = None"
  shows "\<exists>req. messages_request c (form_pairs form) req \<and>
    fst (sendMessage url_parse c w form) = fst (hc_Do (httpClient c) w req)"
proof -
  let ?req = "tw_headers c \<lparr>hq_Method = ''POST'', hq_URL = tw_endpoint c, hq_Header = [], hq_Body = Encode form\<rparr>"
  have "messages_request c (form_pairs form) ?req"
    by (simp add: messages_request_def tw_headers_def set_header_def parse_form_Encode basicAuth_def base64_roundtrip)
  moreover have "fst (sendMessage url_parse c w form) = fst (hc_Do (httpClient c) w ?req)"
    using assms by (simp add: sendMessage_def NewRequest_def split: prod.split sum.split option.split)
  ultimately show ?thesis by blast
qed

lemma sms_form:
  "k \<in> {''From'', ''MessagingServiceSid''} \<Longrightarrow>
   form_pairs (Set_value (Set_value (Set_value [] ''To'' t) k v) ''Body'' b) = [(''Body'', b), (k, v), (''To'', t)]"
  by (auto simp: form_pairs_def Set_value_def less_char_def)

subsection \<open>The provider contract\<close>

lemma SMS_Send_status:
  "Send (NewSMS url_parse c) w m = (w', r, e) \<Longrightarrow>
   rc_Status r = (if e = None then StatusDelivered else StatusFailed)"
  by (auto simp: NewSMS_def SMS_Send_def failed_receipt_def Let_def split: option.splits prod.splits sum.splits)

lemma WhatsApp_Send_status:
  "Send (NewWhatsApp url_parse c) w m = (w', r, e) \<Longrightarrow>
   rc_Status r = (if e = None then StatusDelivered else StatusFailed)"
  by (auto simp: NewWhatsApp_def WhatsApp_Send_def failed_receipt_def Let_def split: option.splits prod.splits sum.splits)

interpretation sms: provider "NewSMS url_parse c" for url_parse c
  by unfold_locales (auto dest: SMS_Send_status)

interpretation whatsapp: provider "NewWhatsApp url_parse c" for url_parse c
  by unfold_locales (auto dest: WhatsApp_Send_status)

subsection \<open>Properties\<close>

lemma pickFrom_key: "fst (pickFrom c) \<in> {''From'', ''MessagingServiceSid''}"
  by (simp add: pickFrom_def)

lemma SMS_Send_world:
  "fst (SMS_Send url_parse c w msg) =
    (if e164 (TrimSpace (msg_To msg))
     then fst (sendMessage url_parse c w (Set_value (Set_value (Set_value [] ''To'' (TrimSpace (msg_To msg)))
       (fst (pickFrom c)) (snd (pickFrom c))) ''Body'' (pickBody msg)))
     else w)"
  by (auto simp: SMS_Send_def Let_def split: option.split prod.split sum.split
      simp flip: validateE164_None)

lemma WhatsApp_Send_world:
  "fst (WhatsApp_Send url_parse c w msg) =
    (if e164 (stripWhatsAppPrefix (TrimSpace (msg_To msg)))
     then fst (sendMessage url_parse c w (Set_value (Set_value (Set_value [] ''To'' (ensureWhatsAppPrefix (TrimSpace (msg_To msg))))
       (fst (pickFrom c)) (if fst (pickFrom c) = ''From'' then ensureWhatsAppPrefix (snd (pickFrom c)) else snd (pickFrom c)))
       ''Body'' (pickBody msg)))
     else w)"
  by (auto simp: WhatsApp_Send_def Let_def split: option.split prod.split sum.split
      simp flip: validateE164_None)

text \<open>C38. An SMS send to anything that is not a plus sign and six to fifteen digits makes no request:
  the world is as before and the send fails. To a valid number it makes exactly one request, a
  POST to the account's Messages resource from which a server reads the configured
  credentials and, as the decoded form, the trimmed recipient, the configured sender and the body.\<close>

theorem sms_send_request:
  assumes "url_parse (tw_endpoint c) = None"
    and "Send (NewSMS url_parse c) w msg = (w', r, e)"
  shows "if e164 (TrimSpace (msg_To msg))
    then \<exists>req. messages_request c [(''Body'', pickBody msg), pickFrom c, (''To'', TrimSpace (msg_To msg))] req \<and>
      w' = fst (hc_Do (httpClient c) w req)
    else w' = w \<and> rc_Status r = StatusFailed \<and> e \<noteq> None"
proof (cases "e164 (TrimSpace (msg_To msg))")
  case True
  define form where "form = Set_value (Set_value (Set_value [] ''To'' (TrimSpace (msg_To msg)))
    (fst (pickFrom c)) (snd (pickFrom c))) ''Body'' (pickBody msg)"
  have w: "w' = fst (SMS_Send url_parse c w msg)" using assms(2) by (simp add: NewSMS_def)
  have "form_pairs form = [(''Body'', pickBody msg), pickFrom c, (''To'', TrimSpace (msg_To msg))]"
    using sms_form [OF pickFrom_key [of c], of "TrimSpace (msg_To msg)" "snd (pickFrom c)" "pickBody msg"]
    by (simp add: form_def)
  with True sendMessage_request [of url_parse c form w, OF assms(1)] show ?thesis
    by (simp add: w SMS_Send_world form_def)
next
  case False
  then obtain err where "validateE164 (TrimSpace (msg_To msg)) = Some err"
    using validateE164_None by (cases "validateE164 (TrimSpace (msg_To msg))") auto
  with False assms(2) show ?thesis by (auto simp: NewSMS_def SMS_Send_def failed_receipt_def)
qed

text \<open>A client whose transport records the requests it is given and answers 201 with a message id.\<close>

definition recorder :: "HttpRequest list HttpClient" where
  "recorder = \<lparr>hc_Timeout = 0, hc_Do = (\<lambda>w req. (w @ [req],
     Inr \<lparr>rs_StatusCode = 201, rs_Body = encode (JObj [(''sid'', JStr ''SM1'')]), rs_ReadErr = None\<rparr>))\<rparr>"

definition demo_client :: "HttpRequest list TwClient" where
  "demo_client = \<lparr>accountSID = ''AC1'', authToken = ''tok'', messagingServiceSID = '''', tc_from = ''+15550001111'',
     baseURL = ''https://api.twilio.com'', httpClient = recorder\<rparr>"

definition demo_sms :: "string \<Rightarrow> Message" where
  "demo_sms to = \<lparr>msg_Notification = None, msg_To = to, msg_Title = ''T'', msg_Body = ''hi'', msg_Data = []\<rparr>"

lemma demo_client_values:
  "fst (hc_Do (httpClient demo_client) w req) = w @ [req]" "pickFrom demo_client = (''From'', ''+15550001111'')"
  "messagingServiceSID demo_client = ''''" "tc_from demo_client = ''+15550001111''" "msg_To (demo_sms t) = t"
  by (simp_all add: demo_client_def recorder_def pickFrom_def demo_sms_def)

lemma demo_e164: "e164 (TrimSpace ''+15551234567'')"
proof -
  have "TrimSpace ''+15551234567'' = ''+15551234567''"
    by (simp add: TrimSpace_def space_seqs_def strip_seqs.simps)
  then show ?thesis by (simp add: e164_def is_digit_def byte_in_def)
qed

theorem sms_send_request_witness:
  "\<exists>req. messages_request demo_client [(''Body'', pickBody (demo_sms ''+15551234567'')), (''From'', ''+15550001111''),
       (''To'', TrimSpace ''+15551234567'')] req \<and>
     fst (Send (NewSMS (\<lambda>_. None) demo_client) [] (demo_sms ''+15551234567'')) = [req]"
proof -
  obtain w' r e where s: "Send (NewSMS (\<lambda>_. None) demo_client) [] (demo_sms ''+15551234567'') = (w', r, e)"
    using prod_cases3 by blast
  show ?thesis
    using sms_send_request [OF _ s] demo_e164
    by (simp add: s demo_client_values)
qed

text \<open>A WhatsApp send is validated without its marker and goes out with exactly one: whether or not
  the caller wrote \<open>whatsapp:\<close>, the recipient in the form is the marker followed by a valid number.
  The sender carries the marker too when it is a number, and not when it is a messaging service.
  An invalid recipient makes no request.\<close>

theorem whatsapp_send_request:
  assumes "url_parse (tw_endpoint c) = None"
    and "Send (NewWhatsApp url_parse c) w msg = (w', r, e)"
    and "num = stripWhatsAppPrefix (TrimSpace (msg_To msg))"
  shows "if e164 num
    then (\<exists>req. messages_request c [(''Body'', pickBody msg),
          (if messagingServiceSID c = '''' then (''From'', whatsappPrefix @ stripWhatsAppPrefix (tc_from c))
           else (''MessagingServiceSid'', messagingServiceSID c)),
          (''To'', whatsappPrefix @ num)] req \<and>
        w' = fst (hc_Do (httpClient c) w req)) \<and> \<not> HasPrefix num whatsappPrefix
    else w' = w \<and> rc_Status r = StatusFailed \<and> e \<noteq> None"
proof (cases "e164 num")
  case True
  define sender where "sender = (if messagingServiceSID c = '''' then (''From'', whatsappPrefix @ stripWhatsAppPrefix (tc_from c))
    else (''MessagingServiceSid'', messagingServiceSID c))"
  define form where "form = Set_value (Set_value (Set_value [] ''To'' (whatsappPrefix @ num))
    (fst sender) (snd sender)) ''Body'' (pickBody msg)"
  have "form_pairs form = [(''Body'', pickBody msg), sender, (''To'', whatsappPrefix @ num)]"
    using sms_form [of "fst sender"] by (auto simp: form_def sender_def)
  moreover have "w' = fst (sendMessage url_parse c w form)"
    using assms(2) True WhatsApp_Send_world [of url_parse c w msg]
    by (simp add: NewWhatsApp_def form_def sender_def assms(3) ensure_strip pickFrom_def split: if_splits)
  ultimately show ?thesis
    using True sendMessage_request [of url_parse c form w, OF assms(1)] e164_not_whatsapp [OF True]
    by (simp add: sender_def)
next
  case False
  then obtain err where "validateE164 (stripWhatsAppPrefix (TrimSpace (msg_To msg))) = Some err"
    using validateE164_None assms(3) by (cases "validateE164 num") auto
  with False assms(2,3) show ?thesis by (auto simp: NewWhatsApp_def WhatsApp_Send_def failed_receipt_def)
qed

theorem whatsapp_send_request_witness:
  "\<exists>req. messages_request demo_client [(''Body'', pickBody (demo_sms ''whatsapp:+15551234567'')),
       (''From'', ''whatsapp:+15550001111''), (''To'', ''whatsapp:+15551234567'')] req \<and>
     fst (Send (NewWhatsApp (\<lambda>_. None) demo_client) [] (demo_sms ''whatsapp:+15551234567'')) = [req]"
proof -
  obtain w' r e where s: "Send (NewWhatsApp (\<lambda>_. None) demo_client) [] (demo_sms ''whatsapp:+15551234567'') = (w', r, e)"
    using prod_cases3 by blast
  have t: "TrimSpace ''whatsapp:+15551234567'' = ''whatsapp:+15551234567''"
    by (simp add: TrimSpace_def space_seqs_def strip_seqs.simps)
  have n: "stripWhatsAppPrefix ''whatsapp:+15551234567'' = ''+15551234567''"
    "stripWhatsAppPrefix ''+15550001111'' = ''+15550001111''"
    by (simp_all add: stripWhatsAppPrefix_def TrimPrefix_def whatsappPrefix_def)
  have "e164 ''+15551234567''" by (simp add: e164_def is_digit_def byte_in_def)
  with whatsapp_send_request [OF _ s refl] show ?thesis
    by (simp add: s demo_client_values t n whatsappPrefix_def)
qed

end
