(* ===== verification/Push_Channels.thy ===== *)
theory Push_Channels
  imports GoNet Config Provider_Spec
begin

text \<open>
  The push and email providers: \<open>channels/fcm/provider.go\<close>, \<open>channels/webpush/provider.go\<close> and
  \<open>channels/email/emailservice/provider.go\<close>. The OAuth token source, the webpush library and the
  email sender are code outside the repository and stay parameters; the payloads, the routing on
  the answers and the sentinel errors are modelled in full.
\<close>

subsection \<open>fcm\<close>

definition fcm_defaultBaseURL :: string where "fcm_defaultBaseURL = ''https://fcm.googleapis.com''"
definition fcmScope :: string where "fcmScope = ''https://www.googleapis.com/auth/firebase.messaging''"

definition ErrUnregisteredToken :: goerror where
  "ErrUnregisteredToken = Sentinel ''fcm: registration token is no longer valid''"

type_synonym ('w, 't) token_source = "'w \<Rightarrow> 'w \<times> (goerror + 't)"

text \<open>What the provider takes from other packages: \<open>google.JWTConfigFromJSON\<close> with the token source
  of its result, \<open>Token.SetAuthHeader\<close>, \<open>url.JoinPath\<close> and the URL parser.\<close>

record ('w, 't) FcmEnv =
  fe_JWTConfigFromJSON :: "string \<Rightarrow> string \<Rightarrow> goerror + ('w, 't) token_source"
  fe_SetAuthHeader :: "'t \<Rightarrow> HttpRequest \<Rightarrow> HttpRequest"
  fe_JoinPath :: "string \<Rightarrow> string list \<Rightarrow> goerror + string"
  fe_url_parse :: "string \<Rightarrow> goerror option"

record ('w, 't) FcmProvider =
  fp_projectID :: string
  fp_baseURL :: string
  fp_httpClient :: "'w HttpClient"
  fp_tokens :: "('w, 't) token_source"

type_synonym ('w, 't) FcmOption = "('w, 't) FcmProvider \<Rightarrow> ('w, 't) FcmProvider"

definition fcm_WithHTTPClient :: "'w HttpClient option \<Rightarrow> ('w, 't) FcmOption" where
  "fcm_WithHTTPClient c = (\<lambda>p. case c of None \<Rightarrow> p | Some h \<Rightarrow> p\<lparr>fp_httpClient := h\<rparr>)"

definition fcm_WithTokenSource :: "('w, 't) token_source option \<Rightarrow> ('w, 't) FcmOption" where
  "fcm_WithTokenSource ts = (\<lambda>p. case ts of None \<Rightarrow> p | Some t \<Rightarrow> p\<lparr>fp_tokens := t\<rparr>)"

definition fcm_New ::
  "('w, 't) FcmEnv \<Rightarrow> (int \<Rightarrow> 'w HttpClient) \<Rightarrow> MobilePushConfig \<Rightarrow> ('w, 't) FcmOption list \<Rightarrow>
   goerror + ('w, 't) FcmProvider" where
  "fcm_New env client cfg opts =
     (if mp_FCMProjectID cfg = '''' then Inl (New ''fcm: FCMProjectID is required'')
      else if mp_FCMCredentialsJSON cfg = '''' then Inl (New ''fcm: FCMCredentialsJSON is required'')
      else case fe_JWTConfigFromJSON env (mp_FCMCredentialsJSON cfg) fcmScope of
        Inl err \<Rightarrow> Inl (Errorf ''fcm: parse credentials: %w'' [] (Some err))
      | Inr ts \<Rightarrow>
          Inr (fold (\<lambda>opt p. opt p) opts
            \<lparr>fp_projectID = mp_FCMProjectID cfg, fp_baseURL = fcm_defaultBaseURL,
             fp_httpClient = client (30 * 10 ^ 9), fp_tokens = ts\<rparr>))"

definition SetBaseURL :: "('w, 't) FcmProvider \<Rightarrow> string \<Rightarrow> ('w, 't) FcmProvider" where
  "SetBaseURL p u = p\<lparr>fp_baseURL := TrimRight_byte u (CHR ''/'')\<rparr>"

text \<open>The request body that the \<open>json\<close> tags of \<open>fcmMessage\<close> describe; \<open>omitempty\<close> fields are left
  out when empty.\<close>

definition omit_string :: "string \<Rightarrow> string \<Rightarrow> (string \<times> json) list" where
  "omit_string k s = (if s = '''' then [] else [(k, JStr s)])"

definition omit_map :: "string \<Rightarrow> (string, string) gomap \<Rightarrow> (string \<times> json) list" where
  "omit_map k m = (if m = [] then [] else [(k, string_map m)])"

definition fcmMessage :: "Message \<Rightarrow> json" where
  "fcmMessage msg =
     JObj [(''message'', JObj
       ((''token'', JStr (msg_To msg)) #
        (if msg_Title msg \<noteq> '''' \<or> msg_Body msg \<noteq> ''''
         then [(''notification'', JObj (omit_string ''title'' (msg_Title msg) @ omit_string ''body'' (msg_Body msg)))]
         else []) @
        omit_map ''data'' (msg_Data msg)))]"

record fcmDetail =
  fd_Type :: string
  fd_ErrorCode :: string

record fcmErrorEnvelope =
  fe_Code :: int
  fe_Message :: string
  fe_Status :: string
  fe_Details :: "fcmDetail slice"

definition fcmDetail_field :: "string \<Rightarrow> fcmDetail decoder" where
  "fcmDetail_field f v x =
     (if f = ''@type'' then let (s, e) = decode_string f v (fd_Type x) in (x\<lparr>fd_Type := s\<rparr>, e)
      else let (s, e) = decode_string f v (fd_ErrorCode x) in (x\<lparr>fd_ErrorCode := s\<rparr>, e))"

definition decode_fcmDetail :: "fcmDetail decoder" where
  "decode_fcmDetail = decode_struct [''@type'', ''errorCode''] fcmDetail_field ''details''"

definition fcmError_field :: "string \<Rightarrow> fcmErrorEnvelope decoder" where
  "fcmError_field f v x =
     (if f = ''code'' then let (i, e) = decode_int f v (fe_Code x) in (x\<lparr>fe_Code := i\<rparr>, e)
      else if f = ''message'' then let (s, e) = decode_string f v (fe_Message x) in (x\<lparr>fe_Message := s\<rparr>, e)
      else if f = ''status'' then let (s, e) = decode_string f v (fe_Status x) in (x\<lparr>fe_Status := s\<rparr>, e)
      else let (d, e) = decode_slice decode_fcmDetail \<lparr>fd_Type = '''', fd_ErrorCode = ''''\<rparr> f v (fe_Details x)
           in (x\<lparr>fe_Details := d\<rparr>, e))"

definition decode_fcmErrorEnvelope :: "fcmErrorEnvelope decoder" where
  "decode_fcmErrorEnvelope =
     decode_struct [''error'']
       (\<lambda>_. decode_struct [''code'', ''message'', ''status'', ''details''] fcmError_field ''error'')
       ''fcmErrorEnvelope''"

definition zero_envelope :: fcmErrorEnvelope where
  "zero_envelope = \<lparr>fe_Code = 0, fe_Message = '''', fe_Status = '''', fe_Details = ([], [])\<rparr>"

definition decode_fcmSendResponse :: "string decoder" where
  "decode_fcmSendResponse = decode_struct [''name''] decode_string ''fcmSendResponse''"

definition isUnregistered :: "int \<Rightarrow> fcmErrorEnvelope \<Rightarrow> bool" where
  "isUnregistered httpStatus env \<longleftrightarrow>
     (if list_ex (\<lambda>d. fd_ErrorCode d = ''UNREGISTERED'') (fst (fe_Details env)) then True
      else if httpStatus = 404 then True
      else if fe_Status env = ''NOT_FOUND'' then True
      else False)"

definition summarise :: "fcmErrorEnvelope \<Rightarrow> string \<Rightarrow> string" where
  "summarise env raw =
     (if fe_Message env \<noteq> '''' then fe_Message env
      else if fe_Status env \<noteq> '''' then fe_Status env
      else if raw = [] then ''(empty body)''
      else if length raw > 512 then take 512 raw @ [CHR 0xE2, CHR 0x80, CHR 0xA6]
      else raw)"

text \<open>The part of \<open>Send\<close> behind the response.\<close>

definition fcm_answer :: "HttpResponse \<Rightarrow> Receipt \<times> goerror option" where
  "fcm_answer resp =
     (case ReadAll resp of
        Inl err \<Rightarrow> (failed_receipt, Some (Errorf ''fcm: read response: %w'' [] (Some err)))
      | Inr respBody \<Rightarrow>
          if rs_StatusCode resp = 200 then
            (case Unmarshal decode_fcmSendResponse '''' respBody of
               (_, Some err) \<Rightarrow> (failed_receipt, Some (Errorf ''fcm: decode success: %w'' [] (Some err)))
             | (name, None) \<Rightarrow> (\<lparr>rc_ProviderMessageID = name, rc_Status = StatusDelivered\<rparr>, None))
          else
            let apiErr = fst (Unmarshal decode_fcmErrorEnvelope zero_envelope respBody) in
            if isUnregistered (rs_StatusCode resp) apiErr then
              (failed_receipt, Some (Errorf ''%w: %s'' [summarise apiErr respBody] (Some ErrUnregisteredToken)))
            else
              (failed_receipt, Some (Errorf ''fcm: send failed (http %d): %s''
                 [FormatInt (rs_StatusCode resp), summarise apiErr respBody] None)))"

definition fcm_Send ::
  "('w, 't) FcmEnv \<Rightarrow> ('w, 't) FcmProvider \<Rightarrow> 'w \<Rightarrow> Message \<Rightarrow> 'w \<times> Receipt \<times> goerror option" where
  "fcm_Send env p w msg =
     (if msg_To msg = '''' then (w, failed_receipt, Some (New ''fcm: empty device token''))
      else case Marshal (fcmMessage msg) of
        Inl err \<Rightarrow> (w, failed_receipt, Some (Errorf ''fcm: marshal payload: %w'' [] (Some err)))
      | Inr buf \<Rightarrow>
          (case fe_JoinPath env (fp_baseURL p) [''/v1/projects/'', fp_projectID p, ''/messages:send''] of
             Inl err \<Rightarrow> (w, failed_receipt, Some (Errorf ''fcm: build endpoint: %w'' [] (Some err)))
           | Inr endpoint \<Rightarrow>
               (case NewRequest (fe_url_parse env) ''POST'' endpoint buf of
                  Inl err \<Rightarrow> (w, failed_receipt, Some (Errorf ''fcm: build request: %w'' [] (Some err)))
                | Inr req \<Rightarrow>
                    let req = set_header ''Content-Type'' ''application/json'' req in
                    (case fp_tokens p w of
                       (w, Inl err) \<Rightarrow> (w, failed_receipt, Some (Errorf ''fcm: mint access token: %w'' [] (Some err)))
                     | (w, Inr tok) \<Rightarrow>
                         (case hc_Do (fp_httpClient p) w (fe_SetAuthHeader env tok req) of
                            (w, Inl err) \<Rightarrow> (w, failed_receipt, Some (Errorf ''fcm: post: %w'' [] (Some err)))
                          | (w, Inr resp) \<Rightarrow> (w, fcm_answer resp))))))"

definition fcm_Provider :: "('w, 't) FcmEnv \<Rightarrow> ('w, 't) FcmProvider \<Rightarrow> 'w Provider" where
  "fcm_Provider env p = \<lparr>Kind = ChannelMobilePush, Name = ''fcm'', Send = fcm_Send env p\<rparr>"

subsection \<open>webpush\<close>

definition ErrSubscriptionGone :: goerror where
  "ErrSubscriptionGone = Sentinel ''webpush: subscription gone''"

definition defaultTTL :: int where "defaultTTL = 60"
definition UrgencyNormal :: string where "UrgencyNormal = ''normal''"

record wp_Subscription =
  sub_Endpoint :: string
  sub_Auth :: string
  sub_P256dh :: string

record 'w wp_Options =
  wo_Subscriber :: string
  wo_VAPIDPublicKey :: string
  wo_VAPIDPrivateKey :: string
  wo_TTL :: int
  wo_Urgency :: string
  wo_HTTPClient :: "'w HttpClient option"

text \<open>The webpush library: decoding into its subscription type and
  \<open>SendNotificationWithContext\<close>.\<close>

record 'w WpEnv =
  we_Unmarshal :: "string \<Rightarrow> wp_Subscription \<times> goerror option"
  we_Send :: "'w \<Rightarrow> string \<Rightarrow> wp_Subscription \<Rightarrow> 'w wp_Options \<Rightarrow> 'w \<times> (goerror + HttpResponse)"

record 'w WpProvider =
  wpp_cfg :: WebPushConfig
  wpp_ttl :: int
  wpp_urgency :: string
  wpp_client :: "'w HttpClient option"

type_synonym 'w WpOption = "'w WpProvider \<Rightarrow> 'w WpProvider"

definition WithTTL :: "int \<Rightarrow> 'w WpOption" where
  "WithTTL seconds = (\<lambda>p. if seconds > 0 then p\<lparr>wpp_ttl := seconds\<rparr> else p)"

definition WithUrgency :: "string \<Rightarrow> 'w WpOption" where
  "WithUrgency u = (\<lambda>p. if u \<noteq> '''' then p\<lparr>wpp_urgency := u\<rparr> else p)"

definition wp_WithHTTPClient :: "'w HttpClient option \<Rightarrow> 'w WpOption" where
  "wp_WithHTTPClient c = (\<lambda>p. p\<lparr>wpp_client := c\<rparr>)"

definition validateSubscriber :: "(string \<Rightarrow> goerror option) \<Rightarrow> string \<Rightarrow> goerror option" where
  "validateSubscriber url_parse s =
     (if s = '''' then Some (New ''webpush: ContactEmail is required'')
      else if HasPrefix s ''mailto:'' then None
      else if HasPrefix s ''https://'' then
        (case url_parse s of
           Some err \<Rightarrow> Some (Errorf ''webpush: ContactEmail: invalid https URL: %w'' [] (Some err))
         | None \<Rightarrow> None)
      else let i = IndexByte s (CHR ''@'') in
        if i > 0 \<and> i < int (length s) - 1 then None
        else Some (Errorf ''webpush: ContactEmail must be a mailto: address or https URL, got %q'' [s] None))"

definition wp_New ::
  "(string \<Rightarrow> goerror option) \<Rightarrow> WebPushConfig \<Rightarrow> 'w WpOption list \<Rightarrow> goerror + 'w WpProvider" where
  "wp_New url_parse cfg opts =
     (if wp_VAPIDPublic cfg = '''' then Inl (New ''webpush: VAPIDPublic is required'')
      else if wp_VAPIDPrivate cfg = '''' then Inl (New ''webpush: VAPIDPrivate is required'')
      else case validateSubscriber url_parse (wp_ContactEmail cfg) of
        Some err \<Rightarrow> Inl err
      | None \<Rightarrow>
          Inr (fold (\<lambda>opt p. opt p) opts
            \<lparr>wpp_cfg = cfg, wpp_ttl = defaultTTL, wpp_urgency = UrgencyNormal, wpp_client = None\<rparr>))"

definition pushPayload :: "Message \<Rightarrow> json" where
  "pushPayload msg =
     JObj ((''title'', JStr (msg_Title msg)) # (''body'', JStr (msg_Body msg)) # omit_map ''data'' (msg_Data msg))"

definition decodeSubscription :: "'w WpEnv \<Rightarrow> string \<Rightarrow> goerror + wp_Subscription" where
  "decodeSubscription env raw =
     (if raw = '''' then Inl (New ''webpush: subscription is empty'')
      else case we_Unmarshal env raw of
        (s, Some err) \<Rightarrow> Inl (Errorf ''webpush: decode subscription: %w'' [] (Some err))
      | (s, None) \<Rightarrow>
          if sub_Endpoint s = '''' then Inl (New ''webpush: subscription missing endpoint'')
          else if sub_Auth s = '''' \<or> sub_P256dh s = '''' then
            Inl (New ''webpush: subscription missing keys (auth and p256dh required)'')
          else Inr s)"

definition wp_options :: "'w WpProvider \<Rightarrow> 'w wp_Options" where
  "wp_options p =
     \<lparr>wo_Subscriber = wp_ContactEmail (wpp_cfg p), wo_VAPIDPublicKey = wp_VAPIDPublic (wpp_cfg p),
      wo_VAPIDPrivateKey = wp_VAPIDPrivate (wpp_cfg p), wo_TTL = wpp_ttl p, wo_Urgency = wpp_urgency p,
      wo_HTTPClient = wpp_client p\<rparr>"

text \<open>The switch on the status; \<open>io.LimitReader\<close> stops after 4096 bytes and the read error is dropped.\<close>

definition wp_answer :: "HttpResponse \<Rightarrow> Receipt \<times> goerror option" where
  "wp_answer resp =
     (if rs_StatusCode resp = 200 \<or> rs_StatusCode resp = 201 \<or> rs_StatusCode resp = 202 then
        (\<lparr>rc_ProviderMessageID = '''', rc_Status = StatusDelivered\<rparr>, None)
      else if rs_StatusCode resp = 410 then (failed_receipt, Some ErrSubscriptionGone)
      else (failed_receipt, Some (Errorf ''webpush: push service returned %d: %s''
              [FormatInt (rs_StatusCode resp), TrimSpace (take (4 * 1024) (rs_Body resp))] None)))"

definition wp_Send :: "'w WpEnv \<Rightarrow> 'w WpProvider \<Rightarrow> 'w \<Rightarrow> Message \<Rightarrow> 'w \<times> Receipt \<times> goerror option" where
  "wp_Send env p w msg =
     (case decodeSubscription env (msg_To msg) of
        Inl err \<Rightarrow> (w, failed_receipt, Some err)
      | Inr sub \<Rightarrow>
          (case Marshal (pushPayload msg) of
             Inl err \<Rightarrow> (w, failed_receipt, Some (Errorf ''webpush: marshal payload: %w'' [] (Some err)))
           | Inr body \<Rightarrow>
               (case we_Send env w body sub (wp_options p) of
                  (w, Inl err) \<Rightarrow> (w, failed_receipt, Some (Errorf ''webpush: send: %w'' [] (Some err)))
                | (w, Inr resp) \<Rightarrow> (w, wp_answer resp))))"

definition wp_Provider_of :: "'w WpEnv \<Rightarrow> 'w WpProvider \<Rightarrow> 'w Provider" where
  "wp_Provider_of env p = \<lparr>Kind = ChannelWebPush, Name = ''vapid'', Send = wp_Send env p\<rparr>"

subsection \<open>emailservice\<close>

definition email_defaultName :: string where "email_defaultName = ''emailservice''"

record SendEmailInput =
  se_From :: string
  se_To :: string
  se_Subject :: string
  se_BodyText :: string
  se_BodyHTML :: string

record SendEmailOutput =
  se_MessageID :: string

type_synonym 'w Sender = "'w \<Rightarrow> SendEmailInput \<Rightarrow> 'w \<times> (goerror + SendEmailOutput)"

record 'w EmailProvider =
  ep_name :: string
  ep_sender :: "'w Sender"
  ep_from :: string

text \<open>\<open>None\<close> is a nil sender.\<close>

definition email_New :: "string \<Rightarrow> 'w Sender option \<Rightarrow> string \<Rightarrow> goerror + 'w EmailProvider" where
  "email_New name sender frm =
     (case sender of
        None \<Rightarrow> Inl (New ''emailservice: sender is required'')
      | Some s \<Rightarrow>
          if frm = '''' then Inl (New ''emailservice: from address is required'')
          else Inr \<lparr>ep_name = (if name = '''' then email_defaultName else name), ep_sender = s, ep_from = frm\<rparr>)"

definition email_Send :: "'w EmailProvider \<Rightarrow> 'w \<Rightarrow> Message \<Rightarrow> 'w \<times> Receipt \<times> goerror option" where
  "email_Send p w msg =
     (if msg_To msg = '''' then (w, failed_receipt, Some (New ''emailservice: message To is empty''))
      else case ep_sender p w
          \<lparr>se_From = ep_from p, se_To = msg_To msg, se_Subject = msg_Title msg, se_BodyText = msg_Body msg,
           se_BodyHTML = ''''\<rparr> of
        (w, Inl err) \<Rightarrow> (w, failed_receipt, Some (Errorf ''emailservice: send: %w'' [] (Some err)))
      | (w, Inr out) \<Rightarrow> (w, \<lparr>rc_ProviderMessageID = se_MessageID out, rc_Status = StatusDelivered\<rparr>, None))"

definition email_Provider :: "'w EmailProvider \<Rightarrow> 'w Provider" where
  "email_Provider p = \<lparr>Kind = ChannelEmail, Name = ep_name p, Send = email_Send p\<rparr>"

subsection \<open>The provider contract\<close>

lemma answer_status:
  "fcm_answer resp = (r, e) \<Longrightarrow> rc_Status r = (if e = None then StatusDelivered else StatusFailed)"
  "wp_answer resp = (r, e) \<Longrightarrow> rc_Status r = (if e = None then StatusDelivered else StatusFailed)"
  by (auto simp: fcm_answer_def wp_answer_def failed_receipt_def Let_def split: sum.splits if_splits prod.splits option.splits)

lemma fcm_Send_status:
  "Send (fcm_Provider env p) w m = (w', r, e) \<Longrightarrow> rc_Status r = (if e = None then StatusDelivered else StatusFailed)"
  by (auto simp: fcm_Provider_def fcm_Send_def Let_def failed_receipt_def answer_status(1)
      split: if_splits sum.splits prod.splits)

lemma wp_Send_status:
  "Send (wp_Provider_of wenv q) w m = (w', r, e) \<Longrightarrow> rc_Status r = (if e = None then StatusDelivered else StatusFailed)"
  by (auto simp: wp_Provider_of_def wp_Send_def failed_receipt_def answer_status(2) split: sum.splits prod.splits)

lemma email_Send_status:
  "Send (email_Provider ep) w m = (w', r, e) \<Longrightarrow> rc_Status r = (if e = None then StatusDelivered else StatusFailed)"
  by (auto simp: email_Provider_def email_Send_def failed_receipt_def split: if_splits sum.splits prod.splits)

interpretation fcm: provider "fcm_Provider env p" for env p
  by unfold_locales (auto dest: fcm_Send_status)

interpretation webpush: provider "wp_Provider_of env p" for env p
  by unfold_locales (auto dest: wp_Send_status)

interpretation email: provider "email_Provider p" for p
  by unfold_locales (auto dest: email_Send_status)

subsection \<open>Properties\<close>

text \<open>A message that can be written as JSON without loss.\<close>

definition utf8_message :: "Message \<Rightarrow> bool" where
  "utf8_message m \<longleftrightarrow> valid_utf8 (msg_To m) \<and> valid_utf8 (msg_Title m) \<and> valid_utf8 (msg_Body m) \<and>
     list_all (\<lambda>(k, v). valid_utf8 k \<and> valid_utf8 v) (msg_Data m)"

lemma plain_string_map:
  "list_all (\<lambda>(k, v). valid_utf8 k \<and> valid_utf8 v) m \<Longrightarrow> d < maxNestingDepth \<Longrightarrow> plain_json d (string_map m)"
  by (auto simp: string_map_def list_all_iff)

lemma valid_utf8_names:
  "valid_utf8 ''message''" "valid_utf8 ''token''" "valid_utf8 ''notification''" "valid_utf8 ''title''"
  "valid_utf8 ''body''" "valid_utf8 ''data''"
  by (rule valid_utf8_ascii, simp)+

lemma plain_fcmMessage: "utf8_message m \<Longrightarrow> plain_json 0 (fcmMessage m)"
  by (auto simp: fcmMessage_def utf8_message_def omit_string_def omit_map_def maxNestingDepth_def
      valid_utf8_names intro!: plain_string_map)

lemma plain_pushPayload: "utf8_message m \<Longrightarrow> plain_json 0 (pushPayload m)"
  by (auto simp: pushPayload_def utf8_message_def omit_map_def maxNestingDepth_def valid_utf8_names
      intro!: plain_string_map)

text \<open>The request of a mobile push before its credentials are set.\<close>

definition fcm_request :: "string \<Rightarrow> Message \<Rightarrow> HttpRequest" where
  "fcm_request endpoint msg = \<lparr>hq_Method = ''POST'', hq_URL = endpoint,
     hq_Header = [(''Content-Type'', ''application/json'')], hq_Body = encode (fcmMessage msg)\<rparr>"

text \<open>The surroundings of a send up to the point where the request is posted.\<close>

definition fcm_ready :: "('w, 't) FcmEnv \<Rightarrow> ('w, 't) FcmProvider \<Rightarrow> 'w \<Rightarrow> string \<Rightarrow> 'w \<Rightarrow> 't \<Rightarrow> bool" where
  "fcm_ready env p w endpoint w1 tok \<longleftrightarrow>
     fe_JoinPath env (fp_baseURL p) [''/v1/projects/'', fp_projectID p, ''/messages:send''] = Inr endpoint \<and>
     fe_url_parse env endpoint = None \<and> fp_tokens p w = (w1, Inr tok)"

lemma fcm_Send_ready:
  assumes "fcm_ready env p w endpoint w1 tok" "msg_To msg \<noteq> ''''"
  shows "fcm_Send env p w msg =
    (case hc_Do (fp_httpClient p) w1 (fe_SetAuthHeader env tok (fcm_request endpoint msg)) of
       (w, Inl err) \<Rightarrow> (w, failed_receipt, Some (Errorf ''fcm: post: %w'' [] (Some err)))
     | (w, Inr resp) \<Rightarrow> (w, fcm_answer resp))"
  using assms by (simp add: fcm_ready_def fcm_Send_def Marshal_def NewRequest_def set_header_def fcm_request_def)


text \<open>A demo environment whose transport records the requests and answers with a fixed response.\<close>

definition fcm_env :: "(HttpRequest list, string) FcmEnv" where
  "fcm_env = \<lparr>fe_JWTConfigFromJSON = (\<lambda>_ _. Inr (\<lambda>w. (w, Inr ''t''))),
     fe_SetAuthHeader = (\<lambda>t. set_header ''Authorization'' (''Bearer '' @ t)),
     fe_JoinPath = (\<lambda>b ps. Inr (b @ concat ps)), fe_url_parse = (\<lambda>_. None)\<rparr>"

definition answering :: "int \<Rightarrow> string \<Rightarrow> HttpRequest list HttpClient" where
  "answering code body = \<lparr>hc_Timeout = 0, hc_Do = (\<lambda>w req. (w @ [req],
     Inr \<lparr>rs_StatusCode = code, rs_Body = body, rs_ReadErr = None\<rparr>))\<rparr>"

definition fcm_demo :: "int \<Rightarrow> string \<Rightarrow> (HttpRequest list, string) FcmProvider" where
  "fcm_demo code body = \<lparr>fp_projectID = ''p'', fp_baseURL = ''https://fcm'', fp_httpClient = answering code body,
     fp_tokens = (\<lambda>w. (w, Inr ''t''))\<rparr>"

definition fcm_msg :: Message where
  "fcm_msg = \<lparr>msg_Notification = None, msg_To = ''dev1'', msg_Title = ''Hi'', msg_Body = '''', msg_Data = [(''k'', ''v'')]\<rparr>"

lemma fcm_msg_utf8: "utf8_message fcm_msg"
  by (simp add: utf8_message_def fcm_msg_def valid_utf8_ascii)

lemma fcm_demo_ready: "fcm_ready fcm_env (fcm_demo c b) w ''https://fcm/v1/projects/p/messages:send'' w ''t''"
  by (simp add: fcm_ready_def fcm_env_def fcm_demo_def)

lemma fcm_demo_do:
  "hc_Do (fp_httpClient (fcm_demo c b)) w req = (w @ [req], Inr \<lparr>rs_StatusCode = c, rs_Body = b, rs_ReadErr = None\<rparr>)"
  by (simp add: fcm_demo_def answering_def)

lemma fcm_demo_message: "fcmMessage fcm_msg = JObj [(''message'', JObj [(''token'', JStr ''dev1''),
      (''notification'', JObj [(''title'', JStr ''Hi'')]), (''data'', JObj [(''k'', JStr ''v'')])])]"
  by (simp add: fcmMessage_def fcm_msg_def omit_string_def omit_map_def string_map_def)


text \<open>When the endpoint answers, the error of a failed mobile push is the unregistered-token sentinel
  exactly if the status is not 200 and either the status is 404, or the envelope's status is
  \<open>NOT_FOUND\<close>, or a detail says \<open>UNREGISTERED\<close>; a caller that purges tokens by
  \<open>errors.Is\<close> acts on these answers and no others.\<close>

theorem fcm_unregistered_exact:
  assumes "fcm_ready env p w endpoint w1 tok" "msg_To msg \<noteq> ''''"
    and "hc_Do (fp_httpClient p) w1 (fe_SetAuthHeader env tok (fcm_request endpoint msg)) = (w2, Inr resp)"
    and "rs_ReadErr resp = None"
    and "apiErr = fst (Unmarshal decode_fcmErrorEnvelope zero_envelope (rs_Body resp))"
    and "Send (fcm_Provider env p) w msg = (w', r, e)"
  shows "(\<exists>err. e = Some err \<and> errors_Is err ErrUnregisteredToken) \<longleftrightarrow>
    rs_StatusCode resp \<noteq> 200 \<and>
    (rs_StatusCode resp = 404 \<or> fe_Status apiErr = ''NOT_FOUND'' \<or>
     (\<exists>d \<in> set (fst (fe_Details apiErr)). fd_ErrorCode d = ''UNREGISTERED''))"
proof -
  have json: "\<not> errors_Is err ErrUnregisteredToken"
    if "Unmarshal decode_fcmSendResponse '''' (rs_Body resp) = (n, Some err)" for n err
  proof -
    have "own_errors decode_fcmSendResponse"
      unfolding decode_fcmSendResponse_def by (intro own_errors_struct own_errors_string)
    with that have "plain_error err" by (rule Unmarshal_errors [rotated])
    then show ?thesis by (simp add: plain_error_def)
  qed
  have e: "e = snd (fcm_answer resp)"
    using assms(6) fcm_Send_ready [OF assms(1,2)] by (simp add: fcm_Provider_def assms(3))
  show ?thesis
  proof (cases "rs_StatusCode resp = 200")
    case True
    then show ?thesis
      using json by (auto simp: e fcm_answer_def ReadAll_def assms(4) split: prod.splits option.splits)
  next
    case False
    then show ?thesis
      by (auto simp: e fcm_answer_def ReadAll_def assms(4) Let_def isUnregistered_def ErrUnregisteredToken_def
          list_ex_iff simp flip: assms(5))
  qed
qed

theorem fcm_unregistered_exact_witness:
  "\<exists>err. snd (snd (Send (fcm_Provider fcm_env (fcm_demo 404 '''')) [] fcm_msg)) = Some err \<and>
     errors_Is err ErrUnregisteredToken"
proof -
  obtain w' r e where s: "Send (fcm_Provider fcm_env (fcm_demo 404 '''')) [] fcm_msg = (w', r, e)"
    using prod_cases3 by blast
  have "msg_To fcm_msg \<noteq> ''''" by (simp add: fcm_msg_def)
  from fcm_unregistered_exact [OF fcm_demo_ready this fcm_demo_do _ refl s] show ?thesis
    by (simp add: s)
qed

text \<open>C40. A web push posts nothing unless its address decodes to a subscription with an endpoint and both
  keys; a failure reports the gone-subscription sentinel exactly when the push service answered
  410, and the send succeeds exactly on 200, 201 and 202.\<close>

theorem webpush_outcome:
  assumes "Send (wp_Provider_of env p) w msg = (w', r, e)"
    and "\<And>t x. we_Unmarshal env (msg_To msg) = (x, Some t) \<Longrightarrow> plain_error t"
    and "\<And>b s o' w2 t. we_Send env w b s o' = (w2, Inl t) \<Longrightarrow> plain_error t"
  shows "case decodeSubscription env (msg_To msg) of
      Inl _ \<Rightarrow> w' = w \<and> r = failed_receipt \<and> (\<exists>err. e = Some err \<and> \<not> errors_Is err ErrSubscriptionGone)
    | Inr sub \<Rightarrow>
        sub_Endpoint sub \<noteq> '''' \<and> sub_Auth sub \<noteq> '''' \<and> sub_P256dh sub \<noteq> '''' \<and>
        (case we_Send env w (encode (pushPayload msg)) sub (wp_options p) of
           (w2, Inl _) \<Rightarrow> w' = w2 \<and> r = failed_receipt \<and> (\<exists>err. e = Some err \<and> \<not> errors_Is err ErrSubscriptionGone)
         | (w2, Inr resp) \<Rightarrow> w' = w2 \<and>
             (e = None \<longleftrightarrow> rs_StatusCode resp \<in> {200, 201, 202}) \<and>
             (rc_Status r = StatusDelivered \<longleftrightarrow> rs_StatusCode resp \<in> {200, 201, 202}) \<and>
             ((\<exists>err. e = Some err \<and> errors_Is err ErrSubscriptionGone) \<longleftrightarrow> rs_StatusCode resp = 410))"
proof -
  have s: "wp_Send env p w msg = (w', r, e)" using assms(1) by (simp add: wp_Provider_of_def)
  have d: "plain_error err" if "decodeSubscription env (msg_To msg) = Inl err" for err
    using that assms(2)
    by (auto simp: decodeSubscription_def plain_error_def split: if_splits prod.splits option.splits)
  show ?thesis
  proof (cases "decodeSubscription env (msg_To msg)")
    case (Inl err)
    with s d show ?thesis by (auto simp: wp_Send_def plain_error_def)
  next
    case (Inr sub)
    then have sub: "sub_Endpoint sub \<noteq> '''' \<and> sub_Auth sub \<noteq> '''' \<and> sub_P256dh sub \<noteq> ''''"
      by (auto simp: decodeSubscription_def split: if_splits prod.splits option.splits)
    obtain w2 a where a: "we_Send env w (encode (pushPayload msg)) sub (wp_options p) = (w2, a)" by fastforce
    show ?thesis
    proof (cases a)
      case (Inl t)
      with a assms(3) have "plain_error t" by blast
      with s Inr a Inl sub show ?thesis by (auto simp: wp_Send_def Marshal_def plain_error_def)
    next
      case (Inr resp)
      with \<open>decodeSubscription env (msg_To msg) = Inr sub\<close> s a
      have "w' = w2" "(r, e) = wp_answer resp" by (auto simp: wp_Send_def Marshal_def)
      with \<open>decodeSubscription env (msg_To msg) = Inr sub\<close> a Inr sub show ?thesis
        by (auto simp: wp_answer_def ErrSubscriptionGone_def failed_receipt_def status_defs split: if_splits)
    qed
  qed
qed

definition wp_env :: "nat WpEnv" where
  "wp_env = \<lparr>we_Unmarshal = (\<lambda>s. (\<lparr>sub_Endpoint = s, sub_Auth = ''a'', sub_P256dh = ''k''\<rparr>, None)),
     we_Send = (\<lambda>w _ _ _. (Suc w, Inr \<lparr>rs_StatusCode = 410, rs_Body = '''', rs_ReadErr = None\<rparr>))\<rparr>"

definition wp_demo :: "nat WpProvider" where
  "wp_demo = \<lparr>wpp_cfg = \<lparr>wp_Provider = ''vapid'', wp_VAPIDPublic = ''p'', wp_VAPIDPrivate = ''q'', wp_ContactEmail = ''a@b''\<rparr>,
     wpp_ttl = 60, wpp_urgency = ''normal'', wpp_client = None\<rparr>"

theorem webpush_outcome_witness:
  "\<exists>err. snd (snd (Send (wp_Provider_of wp_env wp_demo) 0 fcm_msg)) = Some err \<and> errors_Is err ErrSubscriptionGone"
proof -
  obtain w' r e where s: "Send (wp_Provider_of wp_env wp_demo) 0 fcm_msg = (w', r, e)"
    using prod_cases3 by blast
  have d: "decodeSubscription wp_env (msg_To fcm_msg) = Inr \<lparr>sub_Endpoint = ''dev1'', sub_Auth = ''a'', sub_P256dh = ''k''\<rparr>"
    by (simp add: decodeSubscription_def wp_env_def fcm_msg_def)
  from webpush_outcome [OF s] show ?thesis
    unfolding d s by (simp add: wp_env_def)
qed

end
