(* ===== verification/Sql.thy ===== *)
theory Sql
  imports Model
begin

text \<open>
  The fragment of SQL the postgres driver's statements are written in, as abstract syntax with its
  documented meaning, and the database behind \<open>pgxpool.Pool\<close> as a parameter of the driver. A
  command carries the types the server gives to its \<open>$n\<close> parameters; a Go argument that is not
  valid input for its type makes the whole command fail (\<open>coerce\<close>). The input syntax of \<open>uuid\<close>
  and \<open>text\<close> and the collation are the server's: they are parameters too. The locale
  \<open>sql_service\<close> names what the driver relies on: while the service is up, its answers are
  those of \<open>sql_cmd\<close> on the current tables.
\<close>

subsection \<open>Values, tables, statements\<close>

datatype val = VNull | VText string | VInt int | VUuid string | VTime

datatype coltype = TUuid | TText | TBigint | TInteger | TTimestamptz

record coldef =
  cd_name :: string
  cd_type :: coltype
  cd_default :: "val option"

record tabledef =
  td_cols :: "coldef list"
  td_keys :: "string list list"

text \<open>A tuple gives every column a value; the columns a table does not have are \<open>NULL\<close>.\<close>

type_synonym tuple = "string \<Rightarrow> val"

record reltab =
  tb_def :: tabledef
  tb_rows :: "tuple list"

record database =
  db_tables :: "(string, reltab) gomap"
  db_locks :: "int list"

datatype expr =
    Col string
  | Param nat
  | Lit val
  | Excluded string
  | CaseWhen expr expr expr expr

datatype cond = EqC expr expr | NeqC expr expr | LessC expr expr

datatype conflict =
    DoNothing "string list"
  | DoUpdate "string list" "(string \<times> expr) list"

datatype stmt =
    Insert string "string list" "expr list" "conflict option" "string list"
  | Update string "(string \<times> expr) list" "cond list"
  | Select "string list" string "cond list" "(string \<times> bool) list" "expr option"
  | Count_rows string "cond list"
  | Truncate "string list"
  | CreateTable string tabledef
  | CreateIndex string string "string list"
  | AdvisoryLock expr
  | AdvisoryUnlock expr

record sqlcmd =
  sc_types :: "coltype list"
  sc_stmts :: "stmt list"

datatype goarg = AText string | AInt int

datatype pgerror = PgNoRows | PgError string string | OtherErr string

subsection \<open>Expressions and conditions\<close>

primrec eval_expr :: "val list \<Rightarrow> tuple \<Rightarrow> tuple \<Rightarrow> expr \<Rightarrow> val" where
  "eval_expr ps r ex (Col c) = r c"
| "eval_expr ps r ex (Param k) = (if 0 < k \<and> k \<le> length ps then ps ! (k - 1) else VNull)"
| "eval_expr ps r ex (Lit v) = v"
| "eval_expr ps r ex (Excluded c) = ex c"
| "eval_expr ps r ex (CaseWhen a b t f) =
     (if eval_expr ps r ex a = eval_expr ps r ex b \<and> eval_expr ps r ex a \<noteq> VNull
      then eval_expr ps r ex t else eval_expr ps r ex f)"

text \<open>A comparison with \<open>NULL\<close> is not true.\<close>

fun holds :: "val list \<Rightarrow> tuple \<Rightarrow> cond \<Rightarrow> bool" where
  "holds ps r (EqC a b) \<longleftrightarrow> eval_expr ps r r a \<noteq> VNull \<and> eval_expr ps r r a = eval_expr ps r r b"
| "holds ps r (NeqC a b) \<longleftrightarrow> eval_expr ps r r a \<noteq> VNull \<and> eval_expr ps r r b \<noteq> VNull \<and>
     eval_expr ps r r a \<noteq> eval_expr ps r r b"
| "holds ps r (LessC a b) \<longleftrightarrow>
     (case (eval_expr ps r r a, eval_expr ps r r b) of (VInt x, VInt y) \<Rightarrow> x < y | _ \<Rightarrow> False)"

definition matches :: "val list \<Rightarrow> cond list \<Rightarrow> tuple \<Rightarrow> bool" where
  "matches ps conds r \<longleftrightarrow> list_all (holds ps r) conds"

definition apply_sets :: "val list \<Rightarrow> (string \<times> expr) list \<Rightarrow> tuple \<Rightarrow> tuple \<Rightarrow> tuple" where
  "apply_sets ps sets ex r = (\<lambda>c. case map_of sets c of None \<Rightarrow> r c | Some e \<Rightarrow> eval_expr ps r ex e)"

fun val_lt :: "(string \<Rightarrow> string \<Rightarrow> bool) \<Rightarrow> val \<Rightarrow> val \<Rightarrow> bool" where
  "val_lt coll (VInt a) (VInt b) \<longleftrightarrow> a < b"
| "val_lt coll (VUuid a) (VUuid b) \<longleftrightarrow> a < b"
| "val_lt coll (VText a) (VText b) \<longleftrightarrow> coll a b"
| "val_lt coll _ _ \<longleftrightarrow> False"

text \<open>\<open>ORDER BY\<close>: the flag of a column is \<open>DESC\<close>.\<close>

fun order_lt :: "(string \<Rightarrow> string \<Rightarrow> bool) \<Rightarrow> (string \<times> bool) list \<Rightarrow> tuple \<Rightarrow> tuple \<Rightarrow> bool" where
  "order_lt coll [] r r' \<longleftrightarrow> False"
| "order_lt coll ((c, desc) # os) r r' \<longleftrightarrow>
     (if val_lt coll (r c) (r' c) then \<not> desc
      else if val_lt coll (r' c) (r c) then desc
      else order_lt coll os r r')"

subsection \<open>Static checks\<close>

primrec expr_cols :: "expr \<Rightarrow> string list" where
  "expr_cols (Col c) = [c]"
| "expr_cols (Param k) = []"
| "expr_cols (Lit v) = []"
| "expr_cols (Excluded c) = [c]"
| "expr_cols (CaseWhen a b t f) = expr_cols a @ expr_cols b @ expr_cols t @ expr_cols f"

fun cond_cols :: "cond \<Rightarrow> string list" where
  "cond_cols (EqC a b) = expr_cols a @ expr_cols b"
| "cond_cols (NeqC a b) = expr_cols a @ expr_cols b"
| "cond_cols (LessC a b) = expr_cols a @ expr_cols b"

fun stmt_cols :: "stmt \<Rightarrow> string list" where
  "stmt_cols (Insert t cols es conf ret) = cols @ concat (map expr_cols es) @ ret @
     (case conf of None \<Rightarrow> [] | Some (DoNothing arb) \<Rightarrow> arb
      | Some (DoUpdate arb sets) \<Rightarrow> arb @ concat (map (\<lambda>(c, e). c # expr_cols e) sets))"
| "stmt_cols (Update t sets conds) =
     concat (map (\<lambda>(c, e). c # expr_cols e) sets) @ concat (map cond_cols conds)"
| "stmt_cols (Select cols t conds order limit) = cols @ concat (map cond_cols conds) @ map fst order"
| "stmt_cols (Count_rows t conds) = concat (map cond_cols conds)"
| "stmt_cols (CreateIndex i t cols) = cols"
| "stmt_cols _ = []"

definition undefined_column :: pgerror where
  "undefined_column = PgError ''42703'' ''column does not exist''"
definition undefined_table :: pgerror where
  "undefined_table = PgError ''42P01'' ''relation does not exist''"
definition no_arbiter :: pgerror where
  "no_arbiter = PgError ''42P10'' ''there is no unique or exclusion constraint matching the ON CONFLICT specification''"
definition null_violation :: pgerror where
  "null_violation = PgError ''23502'' ''null value in column violates not-null constraint''"
definition unique_violation :: pgerror where
  "unique_violation = PgError ''23505'' ''duplicate key value violates unique constraint''"

subsection \<open>Rows and constraints\<close>

definition default_of :: "tabledef \<Rightarrow> string \<Rightarrow> val" where
  "default_of d c = (case map_of (map (\<lambda>cd. (cd_name cd, cd_default cd)) (td_cols d)) c of
     Some (Some v) \<Rightarrow> v | _ \<Rightarrow> VNull)"

definition build_tuple :: "tabledef \<Rightarrow> string list \<Rightarrow> val list \<Rightarrow> tuple" where
  "build_tuple d cols vs = (\<lambda>c. case map_of (zip cols vs) c of Some v \<Rightarrow> v | None \<Rightarrow> default_of d c)"

definition not_null :: "tabledef \<Rightarrow> tuple \<Rightarrow> bool" where
  "not_null d r \<longleftrightarrow> list_all (\<lambda>cd. r (cd_name cd) \<noteq> VNull) (td_cols d)"

definition same_on :: "string list \<Rightarrow> tuple \<Rightarrow> tuple \<Rightarrow> bool" where
  "same_on cols r r' \<longleftrightarrow> map r cols = map r' cols"

definition keys_ok :: "tabledef \<Rightarrow> tuple list \<Rightarrow> bool" where
  "keys_ok d rows \<longleftrightarrow> list_all (\<lambda>k. distinct (map (\<lambda>r. map r k) rows)) (td_keys d)"

definition set_rows :: "string \<Rightarrow> reltab \<Rightarrow> tuple list \<Rightarrow> database \<Rightarrow> database" where
  "set_rows t tb rows db = db\<lparr>db_tables := AList.update t (tb\<lparr>tb_rows := rows\<rparr>) (db_tables db)\<rparr>"

type_synonym sqlresult = "pgerror + (database \<times> val list list \<times> nat)"

definition change_rows :: "string \<Rightarrow> reltab \<Rightarrow> tuple list \<Rightarrow> val list list \<Rightarrow> nat \<Rightarrow> database \<Rightarrow> sqlresult" where
  "change_rows t tb rows out k db =
     (if \<not> list_all (not_null (tb_def tb)) rows then Inl null_violation
      else if \<not> keys_ok (tb_def tb) rows then Inl unique_violation
      else Inr (set_rows t tb rows db, out, k))"

subsection \<open>Statements\<close>

text \<open>An \<open>INSERT\<close>: the arbiter of \<open>ON CONFLICT\<close> decides first, every other constraint after it.\<close>

definition insert_rows ::
  "val list \<Rightarrow> database \<Rightarrow> string \<Rightarrow> reltab \<Rightarrow> tuple \<Rightarrow> conflict option \<Rightarrow> string list \<Rightarrow> sqlresult" where
  "insert_rows ps db t tb new conf ret =
     (let append = change_rows t tb (tb_rows tb @ [new]) [map new ret] 1 db in
      case conf of
        None \<Rightarrow> append
      | Some (DoNothing arb) \<Rightarrow>
          if arb \<notin> set (td_keys (tb_def tb)) then Inl no_arbiter
          else if list_ex (same_on arb new) (tb_rows tb) then Inr (db, [], 0)
          else append
      | Some (DoUpdate arb sets) \<Rightarrow>
          if arb \<notin> set (td_keys (tb_def tb)) then Inl no_arbiter
          else (case find (same_on arb new) (tb_rows tb) of
                  None \<Rightarrow> append
                | Some old \<Rightarrow>
                    change_rows t tb
                      (map (\<lambda>r. if same_on arb new r then apply_sets ps sets new r else r) (tb_rows tb))
                      [map (apply_sets ps sets new old) ret] 1 db))"

definition limit_rows :: "val list \<Rightarrow> expr option \<Rightarrow> tuple list \<Rightarrow> tuple list" where
  "limit_rows ps limit rows = (case limit of None \<Rightarrow> rows
     | Some e \<Rightarrow> (case eval_expr ps (\<lambda>_. VNull) (\<lambda>_. VNull) e of VInt n \<Rightarrow> take (nat n) rows | _ \<Rightarrow> rows))"

definition on_table :: "database \<Rightarrow> string \<Rightarrow> stmt \<Rightarrow> (reltab \<Rightarrow> sqlresult) \<Rightarrow> sqlresult" where
  "on_table db t st k = (case map_of (db_tables db) t of
     None \<Rightarrow> Inl undefined_table
   | Some tb \<Rightarrow>
       if list_all (\<lambda>c. c \<in> set (map cd_name (td_cols (tb_def tb)))) (stmt_cols st) then k tb
       else Inl undefined_column)"

fun sql_stmt :: "(string \<Rightarrow> string \<Rightarrow> bool) \<Rightarrow> val list \<Rightarrow> database \<Rightarrow> stmt \<Rightarrow> sqlresult" where
  "sql_stmt coll ps db (Insert t cols es conf ret) =
     on_table db t (Insert t cols es conf ret) (\<lambda>tb.
       let new = build_tuple (tb_def tb) cols (map (eval_expr ps (\<lambda>_. VNull) (\<lambda>_. VNull)) es) in
       if not_null (tb_def tb) new then insert_rows ps db t tb new conf ret else Inl null_violation)"
| "sql_stmt coll ps db (Update t sets conds) =
     on_table db t (Update t sets conds) (\<lambda>tb.
       change_rows t tb (map (\<lambda>r. if matches ps conds r then apply_sets ps sets r r else r) (tb_rows tb))
         [] (length (filter (matches ps conds) (tb_rows tb))) db)"
| "sql_stmt coll ps db (Select cols t conds order limit) =
     on_table db t (Select cols t conds order limit) (\<lambda>tb.
       let rows = limit_rows ps limit
             (sort_Slice (order_lt coll order) (filter (matches ps conds) (tb_rows tb)))
       in Inr (db, map (\<lambda>r. map r cols) rows, length rows))"
| "sql_stmt coll ps db (Count_rows t conds) =
     on_table db t (Count_rows t conds) (\<lambda>tb.
       Inr (db, [[VInt (int (length (filter (matches ps conds) (tb_rows tb))))]], 1))"
| "sql_stmt coll ps db (Truncate ts) =
     (if list_all (\<lambda>t. map_of (db_tables db) t \<noteq> None) ts
      then Inr (db\<lparr>db_tables := map (\<lambda>(t, tb). (t, if t \<in> set ts then tb\<lparr>tb_rows := []\<rparr> else tb)) (db_tables db)\<rparr>, [], 0)
      else Inl undefined_table)"
| "sql_stmt coll ps db (CreateTable t d) =
     (case map_of (db_tables db) t of
        Some _ \<Rightarrow> Inr (db, [], 0)
      | None \<Rightarrow> Inr (db\<lparr>db_tables := AList.update t \<lparr>tb_def = d, tb_rows = []\<rparr> (db_tables db)\<rparr>, [], 0))"
| "sql_stmt coll ps db (CreateIndex i t cols) = on_table db t (CreateIndex i t cols) (\<lambda>tb. Inr (db, [], 0))"
| "sql_stmt coll ps db (AdvisoryLock e) =
     (case eval_expr ps (\<lambda>_. VNull) (\<lambda>_. VNull) e of
        VInt k \<Rightarrow> Inr (db\<lparr>db_locks := k # db_locks db\<rparr>, [[VNull]], 1)
      | _ \<Rightarrow> Inl (OtherErr ''advisory lock key''))"
| "sql_stmt coll ps db (AdvisoryUnlock e) =
     (case eval_expr ps (\<lambda>_. VNull) (\<lambda>_. VNull) e of
        VInt k \<Rightarrow> Inr (db\<lparr>db_locks := remove1 k (db_locks db)\<rparr>, [[VNull]], 1)
      | _ \<Rightarrow> Inl (OtherErr ''advisory lock key''))"

text \<open>The statements of one command run in one transaction: the first error undoes them all.\<close>

fun sql_stmts :: "(string \<Rightarrow> string \<Rightarrow> bool) \<Rightarrow> val list \<Rightarrow> database \<Rightarrow> stmt list \<Rightarrow> sqlresult" where
  "sql_stmts coll ps db [] = Inr (db, [], 0)"
| "sql_stmts coll ps db [st] = sql_stmt coll ps db st"
| "sql_stmts coll ps db (st # sts) =
     (case sql_stmt coll ps db st of Inl e \<Rightarrow> Inl e | Inr (db', _, _) \<Rightarrow> sql_stmts coll ps db' sts)"

subsection \<open>Statements on a known table\<close>

definition knows :: "reltab \<Rightarrow> stmt \<Rightarrow> bool" where
  "knows tb st \<longleftrightarrow> list_all (\<lambda>c. c \<in> set (map cd_name (td_cols (tb_def tb)))) (stmt_cols st)"

lemma on_table_known: "map_of (db_tables db) t = Some tb \<Longrightarrow> knows tb st \<Longrightarrow> on_table db t st k = k tb"
  by (simp add: on_table_def knows_def)

lemma insert_known:
  assumes "map_of (db_tables db) t = Some tb" "knows tb (Insert t cols es conf ret)"
    and "map (eval_expr ps (\<lambda>_. VNull) (\<lambda>_. VNull)) es = vs" "build_tuple (tb_def tb) cols vs = new" "not_null (tb_def tb) new"
  shows "sql_stmt coll ps db (Insert t cols es conf ret) = insert_rows ps db t tb new conf ret"
  using assms by (simp add: on_table_known)

text \<open>Queries on a table whose rows represent the list \<open>xs\<close>.\<close>

lemma filter_tuples:
  "(\<And>x. matches ps conds (f x) \<longleftrightarrow> P x) \<Longrightarrow> filter (matches ps conds) (map f xs) = map f (filter P xs)"
  by (simp add: filter_map comp_def)

lemma sort_tuples:
  "(\<And>a b. order_lt coll order (f a) (f b) \<longleftrightarrow> lt a b) \<Longrightarrow>
   sort_Slice (order_lt coll order) (map f xs) = map f (sort_Slice lt xs)"
  by (simp add: sort_Slice_map)

lemma select_all:
  assumes "map_of (db_tables db) t = Some tb" "tb_rows tb = map f xs" "knows tb (Select cols t conds order None)"
    and "\<And>x. matches ps conds (f x) \<longleftrightarrow> P x" "\<And>a b. order_lt coll order (f a) (f b) \<longleftrightarrow> lt a b"
  shows "sql_stmt coll ps db (Select cols t conds order None) =
    Inr (db, map (\<lambda>x. map (f x) cols) (sort_Slice lt (filter P xs)), length (filter P xs))"
  unfolding sql_stmt.simps on_table_known [OF assms(1,3)] assms(2) filter_tuples [of ps conds f P, OF assms(4)]
    sort_tuples [of coll order f lt, OF assms(5)]
  by (simp add: limit_rows_def)

lemma select_limit:
  assumes "map_of (db_tables db) t = Some tb" "tb_rows tb = map f xs" "knows tb (Select cols t conds order (Some e))"
    and "\<And>x. matches ps conds (f x) \<longleftrightarrow> P x" "\<And>a b. order_lt coll order (f a) (f b) \<longleftrightarrow> lt a b"
    and "eval_expr ps (\<lambda>_. VNull) (\<lambda>_. VNull) e = VInt n" "ys = take (nat n) (sort_Slice lt (filter P xs))"
  shows "sql_stmt coll ps db (Select cols t conds order (Some e)) = Inr (db, map (\<lambda>x. map (f x) cols) ys, length ys)"
  unfolding sql_stmt.simps on_table_known [OF assms(1,3)] assms(2) filter_tuples [of ps conds f P, OF assms(4)]
    sort_tuples [of coll order f lt, OF assms(5)] assms(7)
  using assms(6) by (simp add: limit_rows_def take_map)

lemma count_known:
  assumes "map_of (db_tables db) t = Some tb" "tb_rows tb = map f xs" "knows tb (Count_rows t conds)"
    and "\<And>x. matches ps conds (f x) \<longleftrightarrow> P x"
  shows "sql_stmt coll ps db (Count_rows t conds) = Inr (db, [[VInt (int (length (filter P xs)))]], 1)"
  unfolding sql_stmt.simps on_table_known [OF assms(1,3)] assms(2) filter_tuples [of ps conds f P, OF assms(4)]
  by simp

text \<open>An update of the rows that represent \<open>xs\<close>.\<close>

lemma update_known:
  assumes "map_of (db_tables db) t = Some tb" "tb_rows tb = map f xs" "knows tb (Update t sets conds)"
    and "\<And>x. matches ps conds (f x) \<longleftrightarrow> P x" "\<And>x. P x \<Longrightarrow> apply_sets ps sets (f x) (f x) = f (g x)"
  shows "sql_stmt coll ps db (Update t sets conds) =
    change_rows t tb (map f (map (\<lambda>x. if P x then g x else x) xs)) [] (length (filter P xs)) db"
proof -
  have "map (\<lambda>r. if matches ps conds r then apply_sets ps sets r r else r) (map f xs) =
      map f (map (\<lambda>x. if P x then g x else x) xs)"
    by (simp add: assms(4,5))
  then show ?thesis
    unfolding sql_stmt.simps on_table_known [OF assms(1,3)] assms(2) filter_tuples [of ps conds f P, OF assms(4)] length_map
    by (simp only:)
qed

declare sql_stmt.simps [simp del]

subsection \<open>Parameters\<close>

definition invalid_text :: pgerror where
  "invalid_text = PgError ''22021'' ''invalid byte sequence for encoding UTF8''"
definition invalid_uuid :: "string \<Rightarrow> pgerror" where
  "invalid_uuid s = PgError ''22P02'' (''invalid input syntax for type uuid: '' @ s)"

fun coerce :: "(string \<Rightarrow> bool) \<Rightarrow> (string \<Rightarrow> string option) \<Rightarrow> coltype \<Rightarrow> goarg \<Rightarrow> pgerror + val" where
  "coerce text_in uuid_in TText (AText s) = (if text_in s then Inr (VText s) else Inl invalid_text)"
| "coerce text_in uuid_in TUuid (AText s) =
     (if text_in s then (case uuid_in s of None \<Rightarrow> Inl (invalid_uuid s) | Some c \<Rightarrow> Inr (VUuid c))
      else Inl invalid_text)"
| "coerce text_in uuid_in TBigint (AInt i) = Inr (VInt i)"
| "coerce text_in uuid_in TInteger (AInt i) = Inr (VInt i)"
| "coerce text_in uuid_in _ _ = Inl (OtherErr ''unable to encode the argument'')"

fun bind_args ::
  "(string \<Rightarrow> bool) \<Rightarrow> (string \<Rightarrow> string option) \<Rightarrow> coltype list \<Rightarrow> goarg list \<Rightarrow> pgerror + val list" where
  "bind_args text_in uuid_in [] [] = Inr []"
| "bind_args text_in uuid_in (ty # tys) (a # as) =
     (case coerce text_in uuid_in ty a of
        Inl e \<Rightarrow> Inl e
      | Inr v \<Rightarrow> (case bind_args text_in uuid_in tys as of Inl e \<Rightarrow> Inl e | Inr vs \<Rightarrow> Inr (v # vs)))"
| "bind_args text_in uuid_in _ _ = Inl (OtherErr ''wrong number of arguments'')"

definition sql_cmd ::
  "(string \<Rightarrow> bool) \<Rightarrow> (string \<Rightarrow> string option) \<Rightarrow> (string \<Rightarrow> string \<Rightarrow> bool) \<Rightarrow>
   database \<Rightarrow> sqlcmd \<Rightarrow> goarg list \<Rightarrow> sqlresult" where
  "sql_cmd text_in uuid_in coll db cmd args =
     (case bind_args text_in uuid_in (sc_types cmd) args of
        Inl e \<Rightarrow> Inl e
      | Inr ps \<Rightarrow> sql_stmts coll ps db (sc_stmts cmd))"

subsection \<open>The connection pool\<close>

text \<open>\<open>pgxpool.Pool\<close>, as far as the driver uses it. \<open>Query\<close> returns the rows together with what
  \<open>rows.Err()\<close> reports after the last one; \<open>Exec\<close> the number of rows affected.\<close>

record 'db Pool =
  pool_Query :: "'db \<Rightarrow> sqlcmd \<Rightarrow> goarg list \<Rightarrow> 'db \<times> (pgerror + (val list list \<times> pgerror option))"
  pool_Exec :: "'db \<Rightarrow> sqlcmd \<Rightarrow> goarg list \<Rightarrow> 'db \<times> (pgerror + nat)"
  pool_Acquire :: "'db \<Rightarrow> 'db \<times> pgerror option"
  pool_Release :: "'db \<Rightarrow> 'db"
  pool_Ping :: "'db \<Rightarrow> 'db \<times> pgerror option"
  pool_Close :: "'db \<Rightarrow> 'db"

text \<open>\<open>QueryRow(...).Scan(...)\<close>: the first row, or \<open>ErrNoRows\<close>.\<close>

definition QueryRow_Scan ::
  "'db Pool \<Rightarrow> 'db \<Rightarrow> sqlcmd \<Rightarrow> goarg list \<Rightarrow> (val list \<Rightarrow> pgerror + 'a) \<Rightarrow> 'db \<times> (pgerror + 'a)" where
  "QueryRow_Scan pool db cmd args scan =
     (case pool_Query pool db cmd args of
        (db, Inl e) \<Rightarrow> (db, Inl e)
      | (db, Inr ([], Some e)) \<Rightarrow> (db, Inl e)
      | (db, Inr ([], None)) \<Rightarrow> (db, Inl PgNoRows)
      | (db, Inr (row # _, e)) \<Rightarrow>
          (case scan row of
             Inl err \<Rightarrow> (db, Inl err)
           | Inr x \<Rightarrow> (case e of Some err \<Rightarrow> (db, Inl err) | None \<Rightarrow> (db, Inr x))))"

definition pg_Error :: "pgerror \<Rightarrow> string" where
  "pg_Error e = (case e of
     PgNoRows \<Rightarrow> ''no rows in result set''
   | PgError code msg \<Rightarrow> ''ERROR: '' @ msg @ '' (SQLSTATE '' @ code @ '')''
   | OtherErr msg \<Rightarrow> msg)"

definition pg_goerror :: "pgerror \<Rightarrow> goerror" where
  "pg_goerror e = (if e = PgNoRows then Sentinel (pg_Error e) else New (pg_Error e))"

subsection \<open>The service\<close>

locale sql_service =
  fixes pool :: "'db Pool"
    and db_of :: "'db \<Rightarrow> database"
    and up :: "'db \<Rightarrow> bool"
    and text_in :: "string \<Rightarrow> bool"
    and uuid_in :: "string \<Rightarrow> string option"
    and coll :: "string \<Rightarrow> string \<Rightarrow> bool"
  assumes query_ok: "up db \<Longrightarrow> sql_cmd text_in uuid_in coll (db_of db) cmd args = Inr (d, rows, k) \<Longrightarrow>
      \<exists>db'. pool_Query pool db cmd args = (db', Inr (rows, None)) \<and> db_of db' = d \<and> up db' \<and>
        (d = db_of db \<longrightarrow> db' = db)"
    and query_fails: "up db \<Longrightarrow> sql_cmd text_in uuid_in coll (db_of db) cmd args = Inl e \<Longrightarrow>
      pool_Query pool db cmd args = (db, Inl e)"
    and exec_ok: "up db \<Longrightarrow> sql_cmd text_in uuid_in coll (db_of db) cmd args = Inr (d, rows, k) \<Longrightarrow>
      \<exists>db'. pool_Exec pool db cmd args = (db', Inr k) \<and> db_of db' = d \<and> up db' \<and>
        (d = db_of db \<longrightarrow> db' = db)"
    and exec_fails: "up db \<Longrightarrow> sql_cmd text_in uuid_in coll (db_of db) cmd args = Inl e \<Longrightarrow>
      pool_Exec pool db cmd args = (db, Inl e)"
    and acquire_ok: "up db \<Longrightarrow> pool_Acquire pool db = (db, None)"
    and release_ok: "up db \<Longrightarrow> pool_Release pool db = db"
    and ping_ok: "up db \<Longrightarrow> pool_Ping pool db = (db, None)"
    and uuid_canonical: "uuid_in s = Some c \<Longrightarrow> uuid_in c = Some c \<and> text_in c"
    and uuid_not_empty: "uuid_in '''' = None"
    and ascii_text: "plain_text s \<Longrightarrow> text_in s"
    and byte_collation: "coll a b \<longleftrightarrow> a < b"
begin

lemma scan_one:
  assumes "up db" "sql_cmd text_in uuid_in coll (db_of db) cmd args = Inr (d, row # rows, k)" "scan row = Inr x"
  obtains db' where "QueryRow_Scan pool db cmd args scan = (db', Inr x)" "db_of db' = d" "up db'"
    "d = db_of db \<longrightarrow> db' = db"
proof -
  obtain db' where q: "pool_Query pool db cmd args = (db', Inr (row # rows, None))" "db_of db' = d" "up db'"
    "d = db_of db \<longrightarrow> db' = db"
    using query_ok [OF assms(1,2)] by blast
  have "QueryRow_Scan pool db cmd args scan = (db', Inr x)"
    using q(1) assms(3) by (simp add: QueryRow_Scan_def)
  then show thesis using q(2-) by (rule that)
qed

lemma scan_read:
  assumes "up db" "sql_cmd text_in uuid_in coll (db_of db) cmd args = Inr (db_of db, row # rows, k)" "scan row = Inr x"
  shows "QueryRow_Scan pool db cmd args scan = (db, Inr x)"
  using scan_one [where scan = scan, OF assms] by metis

lemma query_read:
  assumes "up db" "sql_cmd text_in uuid_in coll (db_of db) cmd args = Inr (db_of db, rows, k)"
  shows "pool_Query pool db cmd args = (db, Inr (rows, None))"
  using query_ok [OF assms] by auto

lemma scan_none:
  assumes "up db" "sql_cmd text_in uuid_in coll (db_of db) cmd args = Inr (db_of db, [], k)"
  shows "QueryRow_Scan pool db cmd args scan = (db, Inl PgNoRows)"
  using query_ok [OF assms] by (auto simp: QueryRow_Scan_def)

lemma scan_fails:
  assumes "up db" "sql_cmd text_in uuid_in coll (db_of db) cmd args = Inl e"
  shows "QueryRow_Scan pool db cmd args scan = (db, Inl e)"
  using query_fails [OF assms] by (auto simp: QueryRow_Scan_def)

end

end
