(* ===== verification/Postgres.thy ===== *)
theory Postgres
  imports Sql Memory_Store
begin

text \<open>
  \<open>store/postgres\<close>: the driver on a relational database. \<open>config.go\<close>, \<open>errors.go\<close>, the schema and
  the migration runner of \<open>migrations.go\<close>, and every operation of \<open>store.go\<close>, as functions of the
  connection pool. The SQL texts are the abstract syntax of \<open>Sql\<close>, with their placeholders and
  the order of their arguments and result columns.
\<close>

subsection \<open>config.go\<close>

record PgConfig =
  pc_DSN :: string
  pc_MaxConns :: int
  pc_ConnTimeout :: int
  pc_AutoMigrate :: bool

definition DefaultMaxConns :: int where "DefaultMaxConns = 25"
definition DefaultConnTimeout :: int where "DefaultConnTimeout = 5 * 1000000000"

definition pg_applyDefaults :: "PgConfig \<Rightarrow> PgConfig" where
  "pg_applyDefaults c =
     (let c = (if pc_MaxConns c = 0 then c\<lparr>pc_MaxConns := DefaultMaxConns\<rparr> else c)
      in if pc_ConnTimeout c = 0 then c\<lparr>pc_ConnTimeout := DefaultConnTimeout\<rparr> else c)"

definition pg_validate :: "PgConfig option \<Rightarrow> goerror option" where
  "pg_validate c = (case c of
     None \<Rightarrow> Some (New ''postgres: nil config'')
   | Some c \<Rightarrow> if TrimSpace (pc_DSN c) = '''' then Some (New ''postgres: DSN is required'') else None)"

subsection \<open>errors.go\<close>

definition pgErrCodeUniqueViolation :: string where "pgErrCodeUniqueViolation = ''23505''"

definition isUniqueViolation :: "pgerror \<Rightarrow> bool" where
  "isUniqueViolation e = (case e of PgError code msg \<Rightarrow> code = pgErrCodeUniqueViolation | _ \<Rightarrow> False)"

subsection \<open>The schema\<close>

definition text_col :: "string \<Rightarrow> val option \<Rightarrow> coldef" where
  "text_col c d = \<lparr>cd_name = c, cd_type = TText, cd_default = d\<rparr>"
definition bigint_col :: "string \<Rightarrow> val option \<Rightarrow> coldef" where
  "bigint_col c d = \<lparr>cd_name = c, cd_type = TBigint, cd_default = d\<rparr>"

definition notifications_def :: tabledef where
  "notifications_def = \<lparr>td_cols =
     [\<lparr>cd_name = ''id'', cd_type = TUuid, cd_default = None\<rparr>,
      text_col ''tenant_id'' None, text_col ''user_id'' None, text_col ''notification_id'' None,
      text_col ''subject_ref'' (Some (VText '''')), text_col ''subject_type'' (Some (VText '''')),
      text_col ''title'' (Some (VText '''')), text_col ''body'' (Some (VText '''')),
      text_col ''channel'' (Some (VText '''')), text_col ''status'' None,
      bigint_col ''created_at_ms'' None, bigint_col ''delivered_at_ms'' (Some (VInt 0)),
      bigint_col ''ack_at_ms'' (Some (VInt 0)), bigint_col ''read_at_ms'' (Some (VInt 0))],
     td_keys = [[''id''], [''tenant_id'', ''user_id'', ''notification_id'']]\<rparr>"

definition devices_def :: tabledef where
  "devices_def = \<lparr>td_cols =
     [\<lparr>cd_name = ''id'', cd_type = TUuid, cd_default = None\<rparr>,
      text_col ''tenant_id'' None, text_col ''user_id'' None, text_col ''device_type'' None,
      text_col ''token'' (Some (VText '''')), bigint_col ''created_at_ms'' (Some (VInt 0)),
      bigint_col ''last_active_ms'' (Some (VInt 0))],
     td_keys = [[''id''], [''tenant_id'', ''user_id'', ''device_type'']]\<rparr>"

definition ledger_def :: tabledef where
  "ledger_def = \<lparr>td_cols =
     [\<lparr>cd_name = ''version'', cd_type = TInteger, cd_default = None\<rparr>, text_col ''name'' None,
      \<lparr>cd_name = ''applied_at'', cd_type = TTimestamptz, cd_default = Some VTime\<rparr>],
     td_keys = [[''version'']]\<rparr>"

definition notifications_tab :: string where "notifications_tab = ''notify_notifications''"
definition devices_tab :: string where "devices_tab = ''notify_devices''"
definition ledger_tab :: string where "ledger_tab = ''notify_schema_migrations''"

lemmas tab_defs = notifications_tab_def devices_tab_def ledger_tab_def
lemmas table_defs = notifications_def_def devices_def_def ledger_def_def text_col_def bigint_col_def

subsection \<open>migrations.go\<close>

record migration =
  mg_version :: int
  mg_name :: string
  mg_sql :: sqlcmd

definition migrations :: "migration list" where
  "migrations = [\<lparr>mg_version = 1, mg_name = ''init'', mg_sql = \<lparr>sc_types = [], sc_stmts =
     [CreateTable notifications_tab notifications_def,
      CreateIndex ''notify_notifications_user_created'' notifications_tab
        [''tenant_id'', ''user_id'', ''created_at_ms'', ''id''],
      CreateIndex ''notify_notifications_user_unread'' notifications_tab [''tenant_id'', ''user_id'', ''status''],
      CreateTable devices_tab devices_def,
      CreateIndex ''notify_devices_user'' devices_tab [''tenant_id'', ''user_id'', ''device_type'']]\<rparr>\<rparr>]"

definition migrationAdvisoryLockKey :: int where "migrationAdvisoryLockKey = 0x6E6F7469667900"

definition lockSQL :: sqlcmd where
  "lockSQL = \<lparr>sc_types = [TBigint], sc_stmts = [AdvisoryLock (Param 1)]\<rparr>"
definition unlockSQL :: sqlcmd where
  "unlockSQL = \<lparr>sc_types = [TBigint], sc_stmts = [AdvisoryUnlock (Param 1)]\<rparr>"
definition ensureLedgerSQL :: sqlcmd where
  "ensureLedgerSQL = \<lparr>sc_types = [], sc_stmts = [CreateTable ledger_tab ledger_def]\<rparr>"
definition versionsSQL :: sqlcmd where
  "versionsSQL = \<lparr>sc_types = [], sc_stmts = [Select [''version''] ledger_tab [] [] None]\<rparr>"
definition recordSQL :: sqlcmd where
  "recordSQL = \<lparr>sc_types = [TInteger, TText],
     sc_stmts = [Insert ledger_tab [''version'', ''name''] [Param 1, Param 2] None []]\<rparr>"

lemmas migration_sql = lockSQL_def unlockSQL_def ensureLedgerSQL_def versionsSQL_def recordSQL_def

definition pg_wrap :: "string \<Rightarrow> pgerror \<Rightarrow> goerror" where
  "pg_wrap f e = Errorf f [] (Some (pg_goerror e))"

definition scan_int :: "val list \<Rightarrow> pgerror + int" where
  "scan_int r = (case r of [VInt v] \<Rightarrow> Inr v | _ \<Rightarrow> Inl (OtherErr ''cannot scan into int''))"

definition scan_string :: "val list \<Rightarrow> pgerror + string" where
  "scan_string r = (case r of [VText v] \<Rightarrow> Inr v | [VUuid v] \<Rightarrow> Inr v | _ \<Rightarrow> Inl (OtherErr ''cannot scan into string''))"

text \<open>The loops \<open>for rows.Next() { rows.Scan(...) }\<close> with their early return.\<close>

fun scan_rows :: "(val list \<Rightarrow> pgerror + 'a) \<Rightarrow> val list list \<Rightarrow> pgerror + 'a list" where
  "scan_rows scan [] = Inr []"
| "scan_rows scan (r # rs) = (case scan r of
     Inl e \<Rightarrow> Inl e
   | Inr x \<Rightarrow> (case scan_rows scan rs of Inl e \<Rightarrow> Inl e | Inr xs \<Rightarrow> Inr (x # xs)))"

fun migrate_loop :: "'db Pool \<Rightarrow> int list \<Rightarrow> migration list \<Rightarrow> 'db \<Rightarrow> 'db \<times> goerror option" where
  "migrate_loop conn applied [] db = (db, None)"
| "migrate_loop conn applied (m # ms) db =
     (if mg_version m \<in> set applied then migrate_loop conn applied ms db
      else case pool_Exec conn db (mg_sql m) [] of
        (db, Inl e) \<Rightarrow> (db, Some (Errorf ''postgres: apply migration %d (%s): %w''
            [FormatInt (mg_version m), mg_name m] (Some (pg_goerror e))))
      | (db, Inr _) \<Rightarrow>
          (case pool_Exec conn db recordSQL [AInt (mg_version m), AText (mg_name m)] of
             (db, Inl e) \<Rightarrow> (db, Some (Errorf ''postgres: record migration %d: %w''
                 [FormatInt (mg_version m)] (Some (pg_goerror e))))
           | (db, Inr _) \<Rightarrow> migrate_loop conn applied ms db))"

text \<open>The part of \<open>applyMigrations\<close> between taking and releasing the advisory lock.\<close>

definition migrate_locked :: "'db Pool \<Rightarrow> 'db \<Rightarrow> 'db \<times> goerror option" where
  "migrate_locked conn db =
     (case pool_Exec conn db ensureLedgerSQL [] of
        (db, Inl e) \<Rightarrow> (db, Some (pg_wrap ''postgres: ensure schema_migrations: %w'' e))
      | (db, Inr _) \<Rightarrow>
          (case pool_Query conn db versionsSQL [] of
             (db, Inl e) \<Rightarrow> (db, Some (pg_wrap ''postgres: read applied migrations: %w'' e))
           | (db, Inr (rows, rerr)) \<Rightarrow>
               (case scan_rows scan_int rows of
                  Inl e \<Rightarrow> (db, Some (pg_wrap ''postgres: scan applied migration: %w'' e))
                | Inr applied \<Rightarrow>
                    (case rerr of
                       Some e \<Rightarrow> (db, Some (pg_wrap ''postgres: iterate applied migrations: %w'' e))
                     | None \<Rightarrow> migrate_loop conn applied migrations db))))"

text \<open>\<open>applyMigrations\<close> with its deferred unlock and release.\<close>

definition applyMigrations :: "'db Pool \<Rightarrow> 'db \<Rightarrow> 'db \<times> goerror option" where
  "applyMigrations pool db =
     (case pool_Acquire pool db of
        (db, Some e) \<Rightarrow> (db, Some (pg_wrap ''postgres: acquire migration conn: %w'' e))
      | (db, None) \<Rightarrow>
          (case pool_Exec pool db lockSQL [AInt migrationAdvisoryLockKey] of
             (db, Inl e) \<Rightarrow> (pool_Release pool db, Some (pg_wrap ''postgres: acquire migration lock: %w'' e))
           | (db, Inr _) \<Rightarrow>
               let (db, res) = migrate_locked pool db;
                   (db, _) = pool_Exec pool db unlockSQL [AInt migrationAdvisoryLockKey]
               in (pool_Release pool db, res)))"

subsection \<open>Opening the store\<close>

record PoolConfig =
  pl_MaxConns :: int
  pl_MaxConnLifetime :: int
  pl_MaxConnIdleTime :: int
  pl_ConnectTimeout :: int

definition pg_pool_config :: "PgConfig \<Rightarrow> PoolConfig \<Rightarrow> PoolConfig" where
  "pg_pool_config cfg p =
     (let p = p\<lparr>pl_MaxConns := pc_MaxConns cfg, pl_MaxConnLifetime := 3600 * 1000000000,
                pl_MaxConnIdleTime := 30 * 60 * 1000000000\<rparr>
      in if pc_ConnTimeout cfg > 0 then p\<lparr>pl_ConnectTimeout := pc_ConnTimeout cfg\<rparr> else p)"

text \<open>\<open>New\<close>: \<open>parse\<close> is \<open>pgxpool.ParseConfig\<close> and \<open>open_pool\<close> is \<open>pgxpool.NewWithConfig\<close>. The first
  component is the pool after the call, when one was opened.\<close>

definition New_postgres ::
  "(string \<Rightarrow> pgerror + PoolConfig) \<Rightarrow> (PoolConfig \<Rightarrow> pgerror + 'db) \<Rightarrow> 'db Pool \<Rightarrow> PgConfig \<Rightarrow>
   'db option \<times> (goerror + PgConfig)" where
  "New_postgres parse open_pool pool cfg =
     (let cfg = pg_applyDefaults cfg in
      case pg_validate (Some cfg) of
        Some err \<Rightarrow> (None, Inl err)
      | None \<Rightarrow>
          (case parse (pc_DSN cfg) of
             Inl e \<Rightarrow> (None, Inl (pg_wrap ''postgres: parse DSN: %w'' e))
           | Inr poolCfg \<Rightarrow>
               (case open_pool (pg_pool_config cfg poolCfg) of
                  Inl e \<Rightarrow> (None, Inl (pg_wrap ''postgres: open pool: %w'' e))
                | Inr db \<Rightarrow>
                    (case pool_Ping pool db of
                       (db, Some e) \<Rightarrow> (Some (pool_Close pool db), Inl (pg_wrap ''postgres: ping: %w'' e))
                     | (db, None) \<Rightarrow>
                         if pc_AutoMigrate cfg
                         then (case applyMigrations pool db of
                                 (db, Some err) \<Rightarrow> (Some (pool_Close pool db), Inl err)
                               | (db, None) \<Rightarrow> (Some db, Inr cfg))
                         else (Some db, Inr cfg)))))"

subsection \<open>Error classification\<close>

text \<open>The two loops of \<open>containsFold\<close>, on the indexes \<open>i\<close> and \<open>j\<close>.\<close>

function match_from :: "string \<Rightarrow> string \<Rightarrow> nat \<Rightarrow> nat \<Rightarrow> bool" where
  "match_from s substr i j =
     (if j < length substr
      then if lower_char (s ! (i + j)) \<noteq> lower_char (substr ! j) then False
           else match_from s substr i (j + 1)
      else True)"
  by pat_completeness auto
termination by (relation "measure (\<lambda>(s, substr, i, j). length substr - j)") auto

function contains_from :: "string \<Rightarrow> string \<Rightarrow> nat \<Rightarrow> bool" where
  "contains_from s substr i =
     (if i + length substr \<le> length s
      then if match_from s substr i 0 then True else contains_from s substr (i + 1)
      else False)"
  by pat_completeness auto
termination by (relation "measure (\<lambda>(s, substr, i). Suc (length s) - i)") auto

declare match_from.simps [simp del] contains_from.simps [simp del]

definition containsFold :: "string \<Rightarrow> string \<Rightarrow> bool" where
  "containsFold s substr =
     (if length substr = 0 then True
      else if length s < length substr then False
      else contains_from s substr 0)"

definition isInvalidUUID :: "pgerror option \<Rightarrow> bool" where
  "isInvalidUUID err = (case err of None \<Rightarrow> False
     | Some e \<Rightarrow> list_ex (containsFold (pg_Error e))
         [''invalid input syntax for type uuid'', ''cannot parse'', ''invalid UUID'', ''invalid byte sequence''])"

subsection \<open>The statements of store.go\<close>

definition notif_cols :: "string list" where
  "notif_cols = [''id'', ''tenant_id'', ''user_id'', ''notification_id'', ''subject_ref'', ''subject_type'',
     ''title'', ''body'', ''channel'', ''status'', ''created_at_ms'', ''delivered_at_ms'', ''ack_at_ms'', ''read_at_ms'']"

definition dev_cols :: "string list" where
  "dev_cols = [''id'', ''tenant_id'', ''user_id'', ''device_type'', ''token'', ''created_at_ms'', ''last_active_ms'']"

definition truncateSQL :: sqlcmd where
  "truncateSQL = \<lparr>sc_types = [], sc_stmts = [Truncate [notifications_tab, devices_tab]]\<rparr>"

definition insertSQL :: sqlcmd where
  "insertSQL = \<lparr>sc_types = [TUuid, TText, TText, TText, TText, TText, TText, TText, TText, TText,
       TBigint, TBigint, TBigint, TBigint],
     sc_stmts = [Insert notifications_tab notif_cols
       [Param 1, Param 2, Param 3, Param 4, Param 5, Param 6, Param 7, Param 8, Param 9, Param 10,
        Param 11, Param 12, Param 13, Param 14]
       (Some (DoNothing [''tenant_id'', ''user_id'', ''notification_id''])) [''id'']]\<rparr>"

definition existingSQL :: sqlcmd where
  "existingSQL = \<lparr>sc_types = [TText, TText, TText],
     sc_stmts = [Select [''id''] notifications_tab
       [EqC (Col ''tenant_id'') (Param 1), EqC (Col ''user_id'') (Param 2), EqC (Col ''notification_id'') (Param 3)]
       [] None]\<rparr>"

definition getSQL :: sqlcmd where
  "getSQL = \<lparr>sc_types = [TText, TText, TUuid],
     sc_stmts = [Select notif_cols notifications_tab
       [EqC (Col ''tenant_id'') (Param 1), EqC (Col ''user_id'') (Param 2), EqC (Col ''id'') (Param 3)] [] None]\<rparr>"

definition updateSQL :: sqlcmd where
  "updateSQL = \<lparr>sc_types = [TText, TUuid, TText, TBigint],
     sc_stmts = [Update notifications_tab
       [(''status'', Param 3),
        (''delivered_at_ms'', CaseWhen (Param 3) (Lit (VText ''delivered'')) (Param 4) (Col ''delivered_at_ms'')),
        (''ack_at_ms'', CaseWhen (Param 3) (Lit (VText ''acked'')) (Param 4) (Col ''ack_at_ms'')),
        (''read_at_ms'', CaseWhen (Param 3) (Lit (VText ''read'')) (Param 4) (Col ''read_at_ms''))]
       [EqC (Col ''tenant_id'') (Param 1), EqC (Col ''id'') (Param 2)]]\<rparr>"

definition unreadSQL :: sqlcmd where
  "unreadSQL = \<lparr>sc_types = [TText, TText],
     sc_stmts = [Count_rows notifications_tab
       [EqC (Col ''tenant_id'') (Param 1), EqC (Col ''user_id'') (Param 2),
        NeqC (Col ''status'') (Lit (VText ''read''))]]\<rparr>"

definition upsertSQL :: sqlcmd where
  "upsertSQL = \<lparr>sc_types = [TUuid, TText, TText, TText, TText, TBigint, TBigint],
     sc_stmts = [Insert devices_tab dev_cols
       [Param 1, Param 2, Param 3, Param 4, Param 5, Param 6, Param 7]
       (Some (DoUpdate [''tenant_id'', ''user_id'', ''device_type'']
          [(''token'', Excluded ''token''), (''last_active_ms'', Excluded ''last_active_ms'')]))
       dev_cols]\<rparr>"

definition devicesSQL :: sqlcmd where
  "devicesSQL = \<lparr>sc_types = [TText, TText],
     sc_stmts = [Select dev_cols devices_tab
       [EqC (Col ''tenant_id'') (Param 1), EqC (Col ''user_id'') (Param 2)] [(''device_type'', False)] None]\<rparr>"

subsection \<open>store.go\<close>

definition scanNotification :: "val list \<Rightarrow> pgerror + Notification" where
  "scanNotification r =
     (case r of
        [VUuid i, VText t, VText u, VText nid, VText sr, VText sty, VText ti, VText b, VText channel, VText status,
         VInt c, VInt d, VInt a, VInt rd] \<Rightarrow>
          Inr \<lparr>ID = i, NotificationID = nid, TenantID = t, UserID = u, SubjectRef = sr, SubjectType = sty, Title = ti,
            Body = b, Channel = channel, Status = status, CreatedAtMS = c, DeliveredAtMS = d, AckAtMS = a, ReadAtMS = rd\<rparr>
      | _ \<Rightarrow> Inl (OtherErr ''cannot scan notification''))"

definition scanDevice :: "val list \<Rightarrow> pgerror + Device" where
  "scanDevice r =
     (case r of
        [VUuid i, VText t, VText u, VText dt, VText tok, VInt c, VInt l] \<Rightarrow>
          Inr \<lparr>dev_ID = i, dev_TenantID = t, dev_UserID = u, dev_DeviceType = dt, dev_Token = tok,
            dev_CreatedAtMS = c, dev_LastActiveMS = l\<rparr>
      | _ \<Rightarrow> Inl (OtherErr ''cannot scan device''))"

text \<open>The driver's state: the database behind the pool and the ids \<open>uuid.NewString\<close> will hand out.\<close>

record 'db PgStore =
  pg_db :: 'db
  pg_uuid :: "nat \<Rightarrow> string"
  pg_pos :: nat

text \<open>\<open>Close\<close>, safe on a nil receiver.\<close>

definition pg_Close :: "'db Pool \<Rightarrow> 'db PgStore option \<Rightarrow> 'db PgStore option" where
  "pg_Close pool s = map_option (\<lambda>st. st\<lparr>pg_db := pool_Close pool (pg_db st)\<rparr>) s"

definition pg_NewString :: "'db PgStore \<Rightarrow> string \<times> 'db PgStore" where
  "pg_NewString s = (pg_uuid s (pg_pos s), s\<lparr>pg_pos := Suc (pg_pos s)\<rparr>)"

definition pg_TruncateAll :: "'db Pool \<Rightarrow> 'db PgStore \<Rightarrow> 'db PgStore \<times> goerror option" where
  "pg_TruncateAll pool s =
     (case pool_Exec pool (pg_db s) truncateSQL [] of
        (db, Inl e) \<Rightarrow> (s\<lparr>pg_db := db\<rparr>, Some (pg_wrap ''postgres: truncate: %w'' e))
      | (db, Inr _) \<Rightarrow> (s\<lparr>pg_db := db\<rparr>, None))"

definition insert_args :: "Notification \<Rightarrow> goarg list" where
  "insert_args n = [AText (ID n), AText (TenantID n), AText (UserID n), AText (NotificationID n),
     AText (SubjectRef n), AText (SubjectType n), AText (Title n), AText (Body n),
     AText (Channel n), AText (Status n),
     AInt (CreatedAtMS n), AInt (DeliveredAtMS n), AInt (AckAtMS n), AInt (ReadAtMS n)]"

text \<open>The second statement of \<open>CreateNotification\<close>: the id of the row that was there first.\<close>

definition pg_recover :: "'db Pool \<Rightarrow> 'db PgStore \<Rightarrow> Notification \<Rightarrow> 'db PgStore \<times> Notification \<times> (goerror + bool)" where
  "pg_recover pool s n =
     (case QueryRow_Scan pool (pg_db s) existingSQL
             [AText (TenantID n), AText (UserID n), AText (NotificationID n)] scan_string of
        (db, Inl e) \<Rightarrow> (s\<lparr>pg_db := db\<rparr>, n, Inl (pg_wrap ''postgres: select existing notification: %w'' e))
      | (db, Inr existingID) \<Rightarrow> (s\<lparr>pg_db := db\<rparr>, n\<lparr>ID := existingID\<rparr>, Inr False))"

text \<open>The first statement; \<open>None\<close> as the result means that the row existed.\<close>

definition pg_insert ::
  "'db Pool \<Rightarrow> 'db PgStore \<Rightarrow> Notification \<Rightarrow> 'db PgStore \<times> Notification \<times> (goerror + bool) option" where
  "pg_insert pool s n =
     (let (i, s) = (if ID n = '''' then pg_NewString s else (ID n, s));
          n = n\<lparr>ID := i\<rparr>;
          (db, r) = QueryRow_Scan pool (pg_db s) insertSQL (insert_args n) scan_string;
          s = s\<lparr>pg_db := db\<rparr>
      in case r of
           Inr insertedID \<Rightarrow> (s, n\<lparr>ID := insertedID\<rparr>, Some (Inr True))
         | Inl err \<Rightarrow>
             if err = PgNoRows then (s, n, None)
             else if isUniqueViolation err
               then (s, n, Some (Inl (Errorf ''postgres: insert notification: %w'' [] (Some ErrConflict))))
             else (s, n, Some (Inl (pg_wrap ''postgres: insert notification: %w'' err))))"

definition pg_create :: "'db Pool \<Rightarrow> 'db PgStore \<Rightarrow> Notification \<Rightarrow> 'db PgStore \<times> Notification \<times> (goerror + bool)" where
  "pg_create pool s n =
     (case pg_insert pool s n of
        (s, n, Some r) \<Rightarrow> (s, n, r)
      | (s, n, None) \<Rightarrow> pg_recover pool s n)"

definition pg_CreateNotification ::
  "'db Pool \<Rightarrow> 'db PgStore \<Rightarrow> Notification option \<Rightarrow> 'db PgStore \<times> Notification option \<times> (goerror + bool)" where
  "pg_CreateNotification pool s n =
     (case n of
        None \<Rightarrow> (s, None, Inl (New ''postgres: nil notification''))
      | Some n \<Rightarrow> let (s, n, r) = pg_create pool s n in (s, Some n, r))"

definition pg_GetNotification ::
  "'db Pool \<Rightarrow> 'db PgStore \<Rightarrow> string \<Rightarrow> string \<Rightarrow> string \<Rightarrow> goerror + Notification" where
  "pg_GetNotification pool s tenantID userID i =
     (case snd (QueryRow_Scan pool (pg_db s) getSQL [AText tenantID, AText userID, AText i] scanNotification) of
        Inr n \<Rightarrow> Inr n
      | Inl err \<Rightarrow>
          if err = PgNoRows then Inl ErrNotFound
          else if isInvalidUUID (Some err) then Inl ErrNotFound
          else Inl (pg_wrap ''postgres: select notification: %w'' err))"

definition pg_UpdateStatus ::
  "'db Pool \<Rightarrow> 'db PgStore \<Rightarrow> string \<Rightarrow> string \<Rightarrow> DeliveryStatus \<Rightarrow> int \<Rightarrow> 'db PgStore \<times> goerror option" where
  "pg_UpdateStatus pool s tenantID i status atMS =
     (case pool_Exec pool (pg_db s) updateSQL [AText tenantID, AText i, AText status, AInt atMS] of
        (db, Inl err) \<Rightarrow>
          if isInvalidUUID (Some err) then (s\<lparr>pg_db := db\<rparr>, Some ErrNotFound)
          else (s\<lparr>pg_db := db\<rparr>, Some (pg_wrap ''postgres: update status: %w'' err))
      | (db, Inr affected) \<Rightarrow>
          if affected = 0 then (s\<lparr>pg_db := db\<rparr>, Some ErrNotFound) else (s\<lparr>pg_db := db\<rparr>, None))"

text \<open>The text of the page query is put together from its parts; a placeholder is the number of
  arguments so far.\<close>

definition page_command :: "Query \<Rightarrow> sqlcmd \<times> goarg list" where
  "page_command q =
     (let limit = ClampLimit (q_Limit q);
          args = [AText (q_TenantID q), AText (q_UserID q)];
          types = [TText, TText];
          cond = [EqC (Col ''tenant_id'') (Param 1), EqC (Col ''user_id'') (Param 2)];
          (args, types, cond) = (case q_CursorMS q of
             None \<Rightarrow> (args, types, cond)
           | Some c \<Rightarrow> let args = args @ [AInt c] in
               (args, types @ [TBigint], cond @ [LessC (Col ''created_at_ms'') (Param (length args))]));
          cond = (if q_UnreadOnly q then cond @ [NeqC (Col ''status'') (Lit (VText ''read''))] else cond);
          args = args @ [AInt (limit + 1)];
          types = types @ [TBigint];
          limitPlaceholder = length args
      in (\<lparr>sc_types = types, sc_stmts = [Select notif_cols notifications_tab cond
             [(''created_at_ms'', True), (''id'', True)] (Some (Param limitPlaceholder))]\<rparr>, args))"

definition pg_QueryUserNotifications ::
  "'db Pool \<Rightarrow> 'db PgStore \<Rightarrow> Query \<Rightarrow> goerror + (Notification list \<times> string \<times> int)" where
  "pg_QueryUserNotifications pool s q =
     (let limit = ClampLimit (q_Limit q); (sel, args) = page_command q in
      case pool_Query pool (pg_db s) sel args of
        (db, Inl e) \<Rightarrow> Inl (pg_wrap ''postgres: query notifications: %w'' e)
      | (db, Inr (rows, rerr)) \<Rightarrow>
          (case scan_rows scanNotification rows of
             Inl e \<Rightarrow> Inl (pg_wrap ''postgres: scan notification: %w'' e)
           | Inr items \<Rightarrow>
               (case rerr of
                  Some e \<Rightarrow> Inl (pg_wrap ''postgres: iterate notifications: %w'' e)
                | None \<Rightarrow>
                    let (items, nextCursor) =
                          (if int (length items) > limit
                           then let items = take (nat limit) items
                                in (items, FormatInt (CreatedAtMS (items ! (length items - 1))))
                           else (items, ''''))
                    in case QueryRow_Scan pool db unreadSQL [AText (q_TenantID q), AText (q_UserID q)] scan_int of
                         (db, Inl e) \<Rightarrow> Inl (pg_wrap ''postgres: count unread: %w'' e)
                       | (db, Inr unread) \<Rightarrow> Inr (items, nextCursor, unread))))"

definition pg_upsert :: "'db Pool \<Rightarrow> 'db PgStore \<Rightarrow> Device \<Rightarrow> 'db PgStore \<times> Device \<times> (goerror + Device)" where
  "pg_upsert pool s d =
     (let (i, s) = (if dev_ID d = '''' then pg_NewString s else (dev_ID d, s));
          d = d\<lparr>dev_ID := i\<rparr>;
          (db, r) = QueryRow_Scan pool (pg_db s) upsertSQL
            [AText (dev_ID d), AText (dev_TenantID d), AText (dev_UserID d), AText (dev_DeviceType d),
             AText (dev_Token d), AInt (dev_CreatedAtMS d), AInt (dev_LastActiveMS d)] scanDevice;
          s = s\<lparr>pg_db := db\<rparr>
      in case r of
           Inl e \<Rightarrow> (s, d, Inl (pg_wrap ''postgres: upsert device: %w'' e))
         | Inr out \<Rightarrow> (s, d, Inr out))"

definition pg_UpsertDevice ::
  "'db Pool \<Rightarrow> 'db PgStore \<Rightarrow> Device option \<Rightarrow> 'db PgStore \<times> Device option \<times> (goerror + Device)" where
  "pg_UpsertDevice pool s d =
     (case d of
        None \<Rightarrow> (s, None, Inl (New ''postgres: nil device''))
      | Some d \<Rightarrow> let (s, d, r) = pg_upsert pool s d in (s, Some d, r))"

definition pg_ListDevices :: "'db Pool \<Rightarrow> 'db PgStore \<Rightarrow> string \<Rightarrow> string \<Rightarrow> goerror + Device list" where
  "pg_ListDevices pool s tenantID userID =
     (case pool_Query pool (pg_db s) devicesSQL [AText tenantID, AText userID] of
        (db, Inl e) \<Rightarrow> Inl (pg_wrap ''postgres: list devices: %w'' e)
      | (db, Inr (rows, rerr)) \<Rightarrow>
          (case scan_rows scanDevice rows of
             Inl e \<Rightarrow> Inl (pg_wrap ''postgres: scan device: %w'' e)
           | Inr out \<Rightarrow>
               (case rerr of
                  Some e \<Rightarrow> Inl (pg_wrap ''postgres: iterate devices: %w'' e)
                | None \<Rightarrow> Inr out)))"

definition postgres_ops :: "'db Pool \<Rightarrow> 'db PgStore StoreOps" where
  "postgres_ops pool = \<lparr>CreateNotification = pg_create pool, GetNotification = pg_GetNotification pool,
     UpdateStatus = pg_UpdateStatus pool, QueryUserNotifications = pg_QueryUserNotifications pool,
     UpsertDevice = pg_upsert pool, ListDevices = pg_ListDevices pool\<rparr>"

lemma postgres_ops_simps [simp]:
  "CreateNotification (postgres_ops pool) = pg_create pool"
  "GetNotification (postgres_ops pool) = pg_GetNotification pool"
  "UpdateStatus (postgres_ops pool) = pg_UpdateStatus pool"
  "QueryUserNotifications (postgres_ops pool) = pg_QueryUserNotifications pool"
  "UpsertDevice (postgres_ops pool) = pg_upsert pool"
  "ListDevices (postgres_ops pool) = pg_ListDevices pool"
  by (simp_all add: postgres_ops_def)


subsection \<open>Case folding\<close>

lemma match_from_iff:
  assumes "i + length sub \<le> length s" "j \<le> length sub"
  shows "match_from s sub i j \<longleftrightarrow> map lower_char (take (length sub - j) (drop (i + j) s)) = map lower_char (drop j sub)"
  using assms
proof (induction s sub i j rule: match_from.induct)
  case (1 s sub i j)
  show ?case
  proof (cases "j < length sub")
    case True
    then have "drop j sub = sub ! j # drop (Suc j) sub" "drop (i + j) s = s ! (i + j) # drop (Suc (i + j)) s"
      "length sub - j = Suc (length sub - Suc j)"
      using 1(2) by (simp_all add: Cons_nth_drop_Suc)
    with 1 True show ?thesis by (subst match_from.simps) auto
  qed (use 1 in \<open>subst match_from.simps, simp\<close>)
qed

lemma contains_from_iff:
  "contains_from s sub i \<longleftrightarrow>
     (\<exists>k\<ge>i. k + length sub \<le> length s \<and> map lower_char (take (length sub) (drop k s)) = map lower_char sub)"
proof (induction s sub i rule: contains_from.induct)
  case (1 s sub i)
  show ?case
  proof (cases "i + length sub \<le> length s")
    case True
    have "match_from s sub i 0 \<longleftrightarrow> map lower_char (take (length sub) (drop i s)) = map lower_char sub"
      using match_from_iff [OF True, of 0] by simp
    moreover have split: "(\<exists>k\<ge>i. P k) \<longleftrightarrow> P i \<or> (\<exists>k\<ge>i + 1. P k)" for P
      by (metis Suc_eq_plus1 le_refl not_less_eq_eq order_antisym Suc_leD)
    ultimately show ?thesis
      using True 1 [OF True] by (subst contains_from.simps, subst split) simp
  next
    case False
    then show ?thesis by (subst contains_from.simps) auto
  qed
qed

lemma containsFold_sublist: "containsFold s sub \<longleftrightarrow> sublist (map lower_char sub) (map lower_char s)"
proof -
  let ?l = "map lower_char"
  have "sublist (?l sub) (?l s) \<longleftrightarrow> (\<exists>k. k + length sub \<le> length s \<and> ?l (take (length sub) (drop k s)) = ?l sub)"
  proof
    assume "sublist (?l sub) (?l s)"
    then obtain ps ss where s: "?l s = ps @ ?l sub @ ss" by (auto simp: sublist_def)
    from arg_cong [OF s, of length] arg_cong [OF s, of "\<lambda>xs. take (length sub) (drop (length ps) xs)"]
    show "\<exists>k. k + length sub \<le> length s \<and> ?l (take (length sub) (drop k s)) = ?l sub"
      by (intro exI [of _ "length ps"]) (simp add: take_map drop_map)
  next
    assume "\<exists>k. k + length sub \<le> length s \<and> ?l (take (length sub) (drop k s)) = ?l sub"
    then obtain k where k: "?l (take (length sub) (drop k s)) = ?l sub" by blast
    have "s = take k s @ take (length sub) (drop k s) @ drop (length sub) (drop k s)"
      by (simp add: append_take_drop_id del: drop_drop)
    from arg_cong [OF this, of ?l] k have "?l s = ?l (take k s) @ ?l sub @ ?l (drop (length sub) (drop k s))"
      by (metis map_append)
    then show "sublist (?l sub) (?l s)" unfolding sublist_def by blast
  qed
  then show ?thesis by (auto simp: containsFold_def contains_from_iff)
qed

lemma isInvalidUUID_engine [simp]: "isInvalidUUID (Some invalid_text)" "isInvalidUUID (Some (invalid_uuid s))"
proof -
  have "sublist (map lower_char p) (map lower_char (a @ p @ b))" for p a b
    by (simp add: sublist_appendI)
  from this [of "''invalid byte sequence''" "''ERROR: ''" "'' for encoding UTF8 (SQLSTATE 22021)''"]
    this [of "''invalid input syntax for type uuid''" "''ERROR: ''" "'': '' @ s @ '' (SQLSTATE 22P02)''"]
  show "isInvalidUUID (Some invalid_text)" "isInvalidUUID (Some (invalid_uuid s))"
    by (simp_all add: isInvalidUUID_def containsFold_sublist invalid_text_def invalid_uuid_def pg_Error_def)
qed

text \<open>C37. The hand-written search \<open>containsFold\<close>, with its two loops over indexes, is the search for a
  substring up to the case of ASCII letters.\<close>

theorem containsFold_iff: "containsFold s sub \<longleftrightarrow> (\<exists>a b. map lower_char s = a @ map lower_char sub @ b)"
  by (simp add: containsFold_sublist sublist_def)

end
