(* ===== verification/Postgres_Store.thy ===== *)
theory Postgres_Store
  imports Postgres
begin

text \<open>
  The postgres driver against the store contracts. The tables are read as lists of notifications
  and devices (\<open>notif_tuple\<close>, \<open>dev_tuple\<close>); every statement of the driver is computed on such tables;
  the operations are shown to keep the invariant \<open>pg_inv\<close> and to meet \<open>notification_store\<close> and
  \<open>device_store\<close> on every \<open>sql_service\<close>. Then the migrations, a reference service, and the race of
  concurrent creates at the granularity of single statements.
\<close>

subsection \<open>Rows of the tables\<close>

definition notif_vals :: "Notification \<Rightarrow> val list" where
  "notif_vals n = [VUuid (ID n), VText (TenantID n), VText (UserID n), VText (NotificationID n), VText (SubjectRef n),
     VText (SubjectType n), VText (Title n), VText (Body n), VText (Channel n), VText (Status n), VInt (CreatedAtMS n),
     VInt (DeliveredAtMS n), VInt (AckAtMS n), VInt (ReadAtMS n)]"

definition notif_tuple :: "Notification \<Rightarrow> tuple" where
  "notif_tuple n = build_tuple notifications_def notif_cols (notif_vals n)"

definition dev_vals :: "Device \<Rightarrow> val list" where
  "dev_vals d = [VUuid (dev_ID d), VText (dev_TenantID d), VText (dev_UserID d), VText (dev_DeviceType d),
     VText (dev_Token d), VInt (dev_CreatedAtMS d), VInt (dev_LastActiveMS d)]"

definition dev_tuple :: "Device \<Rightarrow> tuple" where
  "dev_tuple d = build_tuple devices_def dev_cols (dev_vals d)"

lemma notif_tuple_simps [simp]:
  "notif_tuple n ''id'' = VUuid (ID n)" "notif_tuple n ''tenant_id'' = VText (TenantID n)"
  "notif_tuple n ''user_id'' = VText (UserID n)" "notif_tuple n ''notification_id'' = VText (NotificationID n)"
  "notif_tuple n ''subject_ref'' = VText (SubjectRef n)" "notif_tuple n ''subject_type'' = VText (SubjectType n)"
  "notif_tuple n ''title'' = VText (Title n)" "notif_tuple n ''body'' = VText (Body n)"
  "notif_tuple n ''channel'' = VText (Channel n)" "notif_tuple n ''status'' = VText (Status n)"
  "notif_tuple n ''created_at_ms'' = VInt (CreatedAtMS n)" "notif_tuple n ''delivered_at_ms'' = VInt (DeliveredAtMS n)"
  "notif_tuple n ''ack_at_ms'' = VInt (AckAtMS n)" "notif_tuple n ''read_at_ms'' = VInt (ReadAtMS n)"
  by (simp_all add: notif_tuple_def build_tuple_def notif_cols_def notif_vals_def)

lemma dev_tuple_simps [simp]:
  "dev_tuple d ''id'' = VUuid (dev_ID d)" "dev_tuple d ''tenant_id'' = VText (dev_TenantID d)"
  "dev_tuple d ''user_id'' = VText (dev_UserID d)" "dev_tuple d ''device_type'' = VText (dev_DeviceType d)"
  "dev_tuple d ''token'' = VText (dev_Token d)" "dev_tuple d ''created_at_ms'' = VInt (dev_CreatedAtMS d)"
  "dev_tuple d ''last_active_ms'' = VInt (dev_LastActiveMS d)"
  by (simp_all add: dev_tuple_def build_tuple_def dev_cols_def dev_vals_def)

lemma default_other: "c \<notin> cd_name ` set (td_cols d) \<Longrightarrow> default_of d c = VNull"
proof -
  assume "c \<notin> cd_name ` set (td_cols d)"
  then have "map_of (map (\<lambda>cd. (cd_name cd, cd_default cd)) (td_cols d)) c = None"
    by (simp add: map_of_eq_None_iff image_image)
  then show ?thesis by (simp add: default_of_def)
qed

lemma notif_tuple_other: "c \<notin> set notif_cols \<Longrightarrow> notif_tuple n c = VNull"
  by (auto simp: notif_tuple_def build_tuple_def notif_cols_def notif_vals_def table_defs default_other)

lemma dev_tuple_other: "c \<notin> set dev_cols \<Longrightarrow> dev_tuple d c = VNull"
  by (auto simp: dev_tuple_def build_tuple_def dev_cols_def dev_vals_def table_defs default_other)

lemma tuple_cols [simp]:
  "map (notif_tuple n) notif_cols = notif_vals n" "map (dev_tuple d) dev_cols = dev_vals d"
  by (simp_all add: notif_cols_def notif_vals_def dev_cols_def dev_vals_def)

lemma notif_tuple_eqI:
  assumes "map f notif_cols = notif_vals n" "\<And>c. c \<notin> set notif_cols \<Longrightarrow> f c = VNull"
  shows "f = notif_tuple n"
  using assms(1) [folded tuple_cols] assms(2) notif_tuple_other by (intro ext) (metis map_eq_conv)

lemma dev_tuple_eqI:
  assumes "map f dev_cols = dev_vals d" "\<And>c. c \<notin> set dev_cols \<Longrightarrow> f c = VNull"
  shows "f = dev_tuple d"
  using assms(1) [folded tuple_cols] assms(2) dev_tuple_other by (intro ext) (metis map_eq_conv)

lemma scan_vals [simp]: "scanNotification (notif_vals n) = Inr n" "scanDevice (dev_vals d) = Inr d"
  by (simp_all add: scanNotification_def notif_vals_def scanDevice_def dev_vals_def)

lemma scan_rows_map [simp]: "(\<And>x. x \<in> set xs \<Longrightarrow> scan (f x) = Inr (g x)) \<Longrightarrow> scan_rows scan (map f xs) = Inr (map g xs)"
  by (induction xs) auto

lemma not_null_tuple [simp]: "not_null notifications_def (notif_tuple n)" "not_null devices_def (dev_tuple d)"
  by (simp_all add: not_null_def table_defs)

lemma not_null_tuples [simp]:
  "list_all (not_null notifications_def) (map notif_tuple ns)" "list_all (not_null devices_def) (map dev_tuple ds)"
  by (simp_all add: list_all_iff)

lemma same_on_keys [simp]:
  "same_on [''tenant_id'', ''user_id'', ''notification_id''] (notif_tuple a) (notif_tuple b) \<longleftrightarrow> notif_key a = notif_key b"
  "same_on [''tenant_id'', ''user_id'', ''device_type''] (dev_tuple x) (dev_tuple y) \<longleftrightarrow> dev_key x = dev_key y"
  by (auto simp: same_on_def notif_key_def dev_key_def)

lemma keys_ok_tuples [simp]:
  "keys_ok notifications_def (map notif_tuple ns) \<longleftrightarrow> distinct (map ID ns) \<and> distinct (map notif_key ns)"
  "keys_ok devices_def (map dev_tuple ds) \<longleftrightarrow> distinct (map dev_ID ds) \<and> distinct (map dev_key ds)"
proof -
  have 1: "distinct (map (\<lambda>n. [VUuid (ID n)]) ns) \<longleftrightarrow> distinct (map ID ns)"
    "distinct (map (\<lambda>n. [VText (TenantID n), VText (UserID n), VText (NotificationID n)]) ns) \<longleftrightarrow> distinct (map notif_key ns)"
    by (rule distinct_map_iff_cong; simp add: notif_key_def)+
  have 2: "distinct (map (\<lambda>n. [VUuid (dev_ID n)]) ds) \<longleftrightarrow> distinct (map dev_ID ds)"
    "distinct (map (\<lambda>n. [VText (dev_TenantID n), VText (dev_UserID n), VText (dev_DeviceType n)]) ds) \<longleftrightarrow> distinct (map dev_key ds)"
    by (rule distinct_map_iff_cong; simp add: dev_key_def)+
  show "keys_ok notifications_def (map notif_tuple ns) \<longleftrightarrow> distinct (map ID ns) \<and> distinct (map notif_key ns)"
    "keys_ok devices_def (map dev_tuple ds) \<longleftrightarrow> distinct (map dev_ID ds) \<and> distinct (map dev_key ds)"
    using 1 2 by (simp_all add: keys_ok_def notifications_def_def devices_def_def comp_def)
qed


subsection \<open>The statements on the tables\<close>

abbreviation notif_table :: "Notification list \<Rightarrow> reltab" where
  "notif_table ns \<equiv> \<lparr>tb_def = notifications_def, tb_rows = map notif_tuple ns\<rparr>"

abbreviation dev_table :: "Device list \<Rightarrow> reltab" where
  "dev_table ds \<equiv> \<lparr>tb_def = devices_def, tb_rows = map dev_tuple ds\<rparr>"

definition set_table :: "string \<Rightarrow> reltab \<Rightarrow> database \<Rightarrow> database" where
  "set_table t tb db = db\<lparr>db_tables := AList.update t tb (db_tables db)\<rparr>"

lemma set_table_simps [simp]:
  "map_of (db_tables (set_table t tb db)) t' = (if t' = t then Some tb else map_of (db_tables db) t')"
  "db_locks (set_table t tb db) = db_locks db"
  "set_rows t tb rows db = set_table t (tb\<lparr>tb_rows := rows\<rparr>) db"
  by (simp_all add: set_table_def set_rows_def update_conv)

lemma table_cols: "map cd_name (td_cols notifications_def) = notif_cols" "map cd_name (td_cols devices_def) = dev_cols"
  by (simp_all add: table_defs notif_cols_def dev_cols_def)

lemma knows_iff:
  "knows (notif_table ns) st \<longleftrightarrow> list_all (\<lambda>c. c \<in> set notif_cols) (stmt_cols st)"
  "knows (dev_table ds) st \<longleftrightarrow> list_all (\<lambda>c. c \<in> set dev_cols) (stmt_cols st)"
  by (simp_all add: knows_def table_cols del: set_map)

lemmas statement_defs = insertSQL_def existingSQL_def getSQL_def updateSQL_def unreadSQL_def upsertSQL_def devicesSQL_def

lemma statements_known [simp]:
  "list_all (knows (notif_table ns)) (sc_stmts insertSQL)" "list_all (knows (notif_table ns)) (sc_stmts existingSQL)"
  "list_all (knows (notif_table ns)) (sc_stmts getSQL)" "list_all (knows (notif_table ns)) (sc_stmts updateSQL)"
  "list_all (knows (notif_table ns)) (sc_stmts unreadSQL)"
  "list_all (knows (notif_table ns)) (sc_stmts (fst (page_command q)))"
  "list_all (knows (dev_table ds)) (sc_stmts upsertSQL)" "list_all (knows (dev_table ds)) (sc_stmts devicesSQL)"
  by (simp_all add: knows_iff statement_defs notif_cols_def dev_cols_def page_command_def Let_def split: option.split)

definition pg_row_ok :: "(string \<Rightarrow> bool) \<Rightarrow> Notification \<Rightarrow> bool" where
  "pg_row_ok text_in n \<longleftrightarrow> list_all text_in [TenantID n, UserID n, NotificationID n, SubjectRef n, SubjectType n,
     Title n, Body n, Channel n, Status n]"

definition pg_dev_ok :: "(string \<Rightarrow> bool) \<Rightarrow> Device \<Rightarrow> bool" where
  "pg_dev_ok text_in d \<longleftrightarrow> list_all text_in [dev_TenantID d, dev_UserID d, dev_DeviceType d, dev_Token d]"

subsection \<open>What the tables hold\<close>

definition pg_notifs :: "database \<Rightarrow> Notification list" where
  "pg_notifs db = (case map_of (db_tables db) notifications_tab of None \<Rightarrow> []
     | Some tb \<Rightarrow> map (\<lambda>r. projr (scanNotification (map r notif_cols))) (tb_rows tb))"

definition pg_devs :: "database \<Rightarrow> Device list" where
  "pg_devs db = (case map_of (db_tables db) devices_tab of None \<Rightarrow> []
     | Some tb \<Rightarrow> map (\<lambda>r. projr (scanDevice (map r dev_cols))) (tb_rows tb))"

definition pg_tables_ok :: "(string \<Rightarrow> bool) \<Rightarrow> (string \<Rightarrow> string option) \<Rightarrow> database \<Rightarrow> Notification list \<Rightarrow> Device list \<Rightarrow> bool" where
  "pg_tables_ok text_in uuid_in db ns ds \<longleftrightarrow>
     map_of (db_tables db) notifications_tab = Some (notif_table ns) \<and>
     map_of (db_tables db) devices_tab = Some (dev_table ds) \<and>
     distinct (map ID ns) \<and> distinct (map notif_key ns) \<and> distinct (map dev_ID ds) \<and> distinct (map dev_key ds) \<and>
     (\<forall>n \<in> set ns. uuid_in (ID n) = Some (ID n) \<and> pg_row_ok text_in n)"

text \<open>The driver's invariant: the service is up, the tables hold rows under their constraints, and
  the ids still to come are fresh uuids in canonical form.\<close>

definition pg_uuid_ok :: "(string \<Rightarrow> string option) \<Rightarrow> 'db PgStore \<Rightarrow> string set \<Rightarrow> bool" where
  "pg_uuid_ok uuid_in s used \<longleftrightarrow> inj (pg_uuid s) \<and>
     (\<forall>k\<ge>pg_pos s. uuid_in (pg_uuid s k) = Some (pg_uuid s k) \<and> pg_uuid s k \<notin> used)"

definition pg_inv ::
  "('db \<Rightarrow> database) \<Rightarrow> ('db \<Rightarrow> bool) \<Rightarrow> (string \<Rightarrow> bool) \<Rightarrow> (string \<Rightarrow> string option) \<Rightarrow> 'db PgStore \<Rightarrow> bool" where
  "pg_inv db_of up text_in uuid_in s \<longleftrightarrow> up (pg_db s) \<and>
     (\<exists>ns ds. pg_tables_ok text_in uuid_in (db_of (pg_db s)) ns ds \<and>
        pg_uuid_ok uuid_in s (ID ` set ns \<union> dev_ID ` set ds))"

text \<open>An id a caller may bring along: none, or a uuid that is neither stored nor still to come.\<close>

definition pg_fresh_arg :: "(string \<Rightarrow> bool) \<Rightarrow> (string \<Rightarrow> string option) \<Rightarrow> 'db PgStore \<Rightarrow> string set \<Rightarrow> string \<Rightarrow> bool" where
  "pg_fresh_arg text_in uuid_in s used i \<longleftrightarrow> i = '''' \<or>
     text_in i \<and> (\<exists>c. uuid_in i = Some c \<and> c \<notin> used \<and> (\<forall>k\<ge>pg_pos s. pg_uuid s k \<noteq> c))"

definition pg_row :: "('db \<Rightarrow> database) \<Rightarrow> 'db PgStore \<Rightarrow> string \<Rightarrow> Notification option" where
  "pg_row db_of s = index_by ID (pg_notifs (db_of (pg_db s)))"

definition pg_dev :: "('db \<Rightarrow> database) \<Rightarrow> 'db PgStore \<Rightarrow> devKey \<Rightarrow> Device option" where
  "pg_dev db_of s = index_by dev_key (pg_devs (db_of (pg_db s)))"

definition pg_id_ok :: "('db \<Rightarrow> database) \<Rightarrow> (string \<Rightarrow> bool) \<Rightarrow> (string \<Rightarrow> string option) \<Rightarrow> 'db PgStore \<Rightarrow> string \<Rightarrow> bool" where
  "pg_id_ok db_of text_in uuid_in s i \<longleftrightarrow> pg_fresh_arg text_in uuid_in s (ID ` set (pg_notifs (db_of (pg_db s)))) i"

definition pg_dev_id_ok :: "('db \<Rightarrow> database) \<Rightarrow> (string \<Rightarrow> bool) \<Rightarrow> (string \<Rightarrow> string option) \<Rightarrow> 'db PgStore \<Rightarrow> string \<Rightarrow> bool" where
  "pg_dev_id_ok db_of text_in uuid_in s i \<longleftrightarrow> pg_fresh_arg text_in uuid_in s (dev_ID ` set (pg_devs (db_of (pg_db s)))) i"

text \<open>The ids the driver compares exactly: uuids in canonical form, and strings that are no uuid.\<close>

definition pg_id_arg :: "(string \<Rightarrow> string option) \<Rightarrow> string \<Rightarrow> bool" where
  "pg_id_arg uuid_in i \<longleftrightarrow> uuid_in i = None \<or> uuid_in i = Some i"

lemma pg_notifs_eq: "pg_tables_ok text_in uuid_in db ns ds \<Longrightarrow> pg_notifs db = ns"
  by (simp add: pg_notifs_def pg_tables_ok_def comp_def)

lemma pg_devs_eq: "pg_tables_ok text_in uuid_in db ns ds \<Longrightarrow> pg_devs db = ds"
  by (simp add: pg_devs_def pg_tables_ok_def comp_def)

lemma pg_invI:
  "up (pg_db s) \<Longrightarrow> pg_tables_ok text_in uuid_in (db_of (pg_db s)) ns ds \<Longrightarrow>
   pg_uuid_ok uuid_in s (ID ` set ns \<union> dev_ID ` set ds) \<Longrightarrow> pg_inv db_of up text_in uuid_in s"
  by (auto simp: pg_inv_def)

lemma pg_invE:
  assumes "pg_inv db_of up text_in uuid_in s"
  obtains ns ds where "up (pg_db s)" "pg_tables_ok text_in uuid_in (db_of (pg_db s)) ns ds"
    "pg_uuid_ok uuid_in s (ID ` set ns \<union> dev_ID ` set ds)"
    "pg_row db_of s = index_by ID ns" "pg_dev db_of s = index_by dev_key ds"
    "pg_notifs (db_of (pg_db s)) = ns" "pg_devs (db_of (pg_db s)) = ds"
  using assms by (auto simp: pg_inv_def pg_row_def pg_dev_def pg_notifs_eq pg_devs_eq)

lemma pg_row_eq: "pg_tables_ok text_in uuid_in (db_of (pg_db s)) ns ds \<Longrightarrow> pg_row db_of s = index_by ID ns"
  by (simp add: pg_row_def pg_notifs_eq)

lemma pg_dev_eq: "pg_tables_ok text_in uuid_in (db_of (pg_db s)) ns ds \<Longrightarrow> pg_dev db_of s = index_by dev_key ds"
  by (simp add: pg_dev_def pg_devs_eq)

lemma pg_uuid_ok_mono: "pg_uuid_ok uuid_in s A \<Longrightarrow> B \<subseteq> A \<Longrightarrow> pg_uuid_ok uuid_in s B"
  by (auto simp: pg_uuid_ok_def)

lemma pg_uuid_ok_db [simp]: "pg_uuid_ok uuid_in (s\<lparr>pg_db := db\<rparr>) A \<longleftrightarrow> pg_uuid_ok uuid_in s A"
  by (simp add: pg_uuid_ok_def)

lemma pg_tables_okD:
  assumes "pg_tables_ok text_in uuid_in db ns ds"
  shows "map_of (db_tables db) notifications_tab = Some (notif_table ns)"
    and "map_of (db_tables db) devices_tab = Some (dev_table ds)"
    and "distinct (map ID ns)" and "distinct (map notif_key ns)" and "distinct (map dev_ID ds)" and "distinct (map dev_key ds)"
    and "n \<in> set ns \<Longrightarrow> uuid_in (ID n) = Some (ID n)" and "n \<in> set ns \<Longrightarrow> pg_row_ok text_in n"
  using assms by (auto simp: pg_tables_ok_def)

lemma pg_tables_ok_notifs:
  assumes "pg_tables_ok text_in uuid_in db ns ds" "distinct (map ID ns')" "distinct (map notif_key ns')"
    "\<And>n. n \<in> set ns' \<Longrightarrow> uuid_in (ID n) = Some (ID n) \<and> pg_row_ok text_in n"
  shows "pg_tables_ok text_in uuid_in (set_table notifications_tab (notif_table ns') db) ns' ds"
  using assms by (simp add: pg_tables_ok_def tab_defs)

lemma pg_tables_ok_devs:
  assumes "pg_tables_ok text_in uuid_in db ns ds" "distinct (map dev_ID ds')" "distinct (map dev_key ds')"
  shows "pg_tables_ok text_in uuid_in (set_table devices_tab (dev_table ds') db) ns ds'"
  using assms by (simp add: pg_tables_ok_def tab_defs)

lemma pg_next_id:
  assumes "pg_uuid_ok uuid_in s (A \<union> B)" "pg_fresh_arg text_in uuid_in s A arg"
    and "(if arg = '''' then pg_NewString s else (arg, s)) = (i, t)"
    and canon: "\<And>x c. uuid_in x = Some c \<Longrightarrow> uuid_in c = Some c \<and> text_in c"
  obtains c where "uuid_in i = Some c" "text_in i" "c \<notin> A" "pg_db t = pg_db s" "uuid_in c = Some c"
    "pg_uuid_ok uuid_in t (insert c (A \<union> B))" "pg_uuid t = pg_uuid s" "pg_pos s \<le> pg_pos t"
proof (cases "arg = ''''")
  case True
  let ?c = "pg_uuid s (pg_pos s)"
  have c: "uuid_in ?c = Some ?c" "?c \<notin> A" using assms(1) by (auto simp: pg_uuid_ok_def)
  have t: "i = ?c" "t = s\<lparr>pg_pos := Suc (pg_pos s)\<rparr>" using True assms(3) by (auto simp: pg_NewString_def)
  have "pg_uuid_ok uuid_in t (insert ?c (A \<union> B))"
    using assms(1) t by (auto simp: pg_uuid_ok_def dest: injD)
  with c t canon [OF c(1)] show ?thesis by (intro that [of ?c]) auto
next
  case False
  then obtain c where c: "text_in arg" "uuid_in arg = Some c" "c \<notin> A" "\<forall>k\<ge>pg_pos s. pg_uuid s k \<noteq> c"
    using assms(2) by (auto simp: pg_fresh_arg_def)
  have t: "i = arg" "t = s" using False assms(3) by auto
  have "pg_uuid_ok uuid_in t (insert c (A \<union> B))" using assms(1) c(4) t by (auto simp: pg_uuid_ok_def)
  with c t canon [OF c(2)] show ?thesis by (intro that [of c]) auto
qed

context sql_service
begin

lemma insert_bind:
  assumes "pg_row_ok text_in n" "text_in (ID n)" "uuid_in (ID n) = Some c"
  shows "bind_args text_in uuid_in (sc_types insertSQL) (insert_args n) = Inr (notif_vals (n\<lparr>ID := c\<rparr>))"
  using assms by (simp add: pg_row_ok_def insertSQL_def insert_args_def notif_vals_def)

lemma insert_cmd:
  assumes "pg_row_ok text_in n" "text_in (ID n)" "uuid_in (ID n) = Some c"
    and "map_of (db_tables db) notifications_tab = Some (notif_table ns)"
  shows "sql_cmd text_in uuid_in coll db insertSQL (insert_args n) =
    (if list_ex (\<lambda>m. notif_key m = notif_key n) ns then Inr (db, [], 0)
     else change_rows notifications_tab (notif_table ns) (map notif_tuple (ns @ [n\<lparr>ID := c\<rparr>])) [[VUuid c]] 1 db)"
proof -
  let ?n = "n\<lparr>ID := c\<rparr>"
  have vals: "map (eval_expr (notif_vals ?n) r ex) [Param 1, Param 2, Param 3, Param 4, Param 5, Param 6, Param 7, Param 8,
      Param 9, Param 10, Param 11, Param 12, Param 13, Param 14] = notif_vals ?n" for r ex
    by (simp add: notif_vals_def)
  have ex: "list_ex (same_on [''tenant_id'', ''user_id'', ''notification_id''] (notif_tuple ?n)) (map notif_tuple ns) \<longleftrightarrow>
      list_ex (\<lambda>m. notif_key m = notif_key n) ns"
    by (simp add: list_ex_iff) metis
  have arb: "[''tenant_id'', ''user_id'', ''notification_id''] \<in> set (td_keys notifications_def)"
    by (simp add: notifications_def_def)
  have "sql_stmts coll (notif_vals ?n) db (sc_stmts insertSQL) = insert_rows (notif_vals ?n) db notifications_tab
      (notif_table ns) (notif_tuple ?n) (Some (DoNothing [''tenant_id'', ''user_id'', ''notification_id''])) [''id'']"
    unfolding insertSQL_def sqlcmd.select_convs sql_stmts.simps
    by (rule insert_known [OF assms(4) _ vals])
       (use statements_known(1) [of ns] in \<open>simp_all add: insertSQL_def notif_tuple_def [symmetric]\<close>)
  also have "\<dots> = (if list_ex (\<lambda>m. notif_key m = notif_key n) ns then Inr (db, [], 0)
     else change_rows notifications_tab (notif_table ns) (map notif_tuple (ns @ [?n])) [[VUuid c]] 1 db)"
    using arb ex by (simp add: insert_rows_def)
  finally show ?thesis
    unfolding sql_cmd_def insert_bind [OF assms(1-3)] sum.case .
qed

lemma key_filter:
  assumes "distinct (map notif_key ns)" "m \<in> set ns"
  shows "filter (\<lambda>x. TenantID x = TenantID m \<and> UserID x = UserID m \<and> NotificationID x = NotificationID m) ns = [m]"
  using assms
  by (intro filter_unique) (auto simp: distinct_map inj_on_def notif_key_def)

lemma existing_cmd:
  assumes "pg_row_ok text_in n" "map_of (db_tables db) notifications_tab = Some (notif_table ns)"
    and "distinct (map notif_key ns)" "m \<in> set ns" "notif_key m = notif_key n"
  shows "sql_cmd text_in uuid_in coll db existingSQL [AText (TenantID n), AText (UserID n), AText (NotificationID n)] =
    Inr (db, [[VUuid (ID m)]], 1)"
proof -
  let ?P = "\<lambda>x. TenantID x = TenantID n \<and> UserID x = UserID n \<and> NotificationID x = NotificationID n"
  have f: "filter ?P ns = [m]"
    using key_filter [OF assms(3,4)] assms(5) by (simp add: notif_key_def)
  have "sql_stmts coll [VText (TenantID n), VText (UserID n), VText (NotificationID n)] db (sc_stmts existingSQL) =
      Inr (db, map (\<lambda>x. map (notif_tuple x) [''id'']) (sort_Slice (\<lambda>_ _. False) (filter ?P ns)), length (filter ?P ns))"
    unfolding existingSQL_def sqlcmd.select_convs sql_stmts.simps
    by (rule select_all [OF assms(2)]) (use statements_known(2) [of ns] in \<open>auto simp: existingSQL_def matches_def\<close>)
  then show ?thesis
    unfolding f using assms(1) by (simp add: sql_cmd_def existingSQL_def pg_row_ok_def)
qed

lemma get_cmd:
  assumes "text_in t" "text_in u" "text_in i" "uuid_in i = Some c"
    and "map_of (db_tables db) notifications_tab = Some (notif_table ns)"
  shows "\<exists>k. sql_cmd text_in uuid_in coll db getSQL [AText t, AText u, AText i] =
    Inr (db, map notif_vals (sort_Slice (\<lambda>_ _. False) (filter (\<lambda>m. TenantID m = t \<and> UserID m = u \<and> ID m = c) ns)), k)"
proof -
  let ?P = "\<lambda>m. TenantID m = t \<and> UserID m = u \<and> ID m = c"
  have "sql_stmts coll [VText t, VText u, VUuid c] db (sc_stmts getSQL) =
      Inr (db, map (\<lambda>x. map (notif_tuple x) notif_cols) (sort_Slice (\<lambda>_ _. False) (filter ?P ns)), length (filter ?P ns))"
    unfolding getSQL_def sqlcmd.select_convs sql_stmts.simps
    by (rule select_all [OF assms(5)]) (use statements_known(3) [of ns] in \<open>auto simp: getSQL_def matches_def\<close>)
  then show ?thesis using assms(1-4) by (simp add: sql_cmd_def getSQL_def)
qed

lemma update_tuple:
  "apply_sets [VText t, VUuid c, VText st, VInt ms]
     [(''status'', Param 3),
      (''delivered_at_ms'', CaseWhen (Param 3) (Lit (VText ''delivered'')) (Param 4) (Col ''delivered_at_ms'')),
      (''ack_at_ms'', CaseWhen (Param 3) (Lit (VText ''acked'')) (Param 4) (Col ''ack_at_ms'')),
      (''read_at_ms'', CaseWhen (Param 3) (Lit (VText ''read'')) (Param 4) (Col ''read_at_ms''))]
     (notif_tuple n) (notif_tuple n) = notif_tuple (stamp_status st ms n)"
  (is "?f = _")
proof (rule notif_tuple_eqI)
  show "map ?f notif_cols = notif_vals (stamp_status st ms n)"
    by (simp add: notif_cols_def notif_vals_def apply_sets_def stamp_status_times status_defs)
next
  fix c assume c: "c \<notin> set notif_cols"
  then have "c \<notin> {''status'', ''delivered_at_ms'', ''ack_at_ms'', ''read_at_ms''}" by (auto simp: notif_cols_def)
  with notif_tuple_other [OF c] show "?f c = VNull" by (simp add: apply_sets_def)
qed

lemma update_cmd:
  assumes "text_in t" "text_in i" "text_in st" "uuid_in i = Some c"
    and "map_of (db_tables db) notifications_tab = Some (notif_table ns)"
    and "distinct (map ID ns)" "distinct (map notif_key ns)"
  shows "sql_cmd text_in uuid_in coll db updateSQL [AText t, AText i, AText st, AInt ms] =
    Inr (set_table notifications_tab (notif_table (map (\<lambda>n. if TenantID n = t \<and> ID n = c then stamp_status st ms n else n) ns)) db,
      [], length (filter (\<lambda>n. TenantID n = t \<and> ID n = c) ns))"
proof -
  define ns' where "ns' = map (\<lambda>n. if TenantID n = t \<and> ID n = c then stamp_status st ms n else n) ns"
  have "map ID ns' = map ID ns" "map notif_key ns' = map notif_key ns" by (simp_all add: ns'_def)
  then have ok: "keys_ok notifications_def (map notif_tuple ns')"
    using assms(6,7) by (simp only: keys_ok_tuples)
  have "sql_stmts coll [VText t, VUuid c, VText st, VInt ms] db (sc_stmts updateSQL) =
      change_rows notifications_tab (notif_table ns) (map notif_tuple ns') []
        (length (filter (\<lambda>n. TenantID n = t \<and> ID n = c) ns)) db"
    unfolding updateSQL_def sqlcmd.select_convs sql_stmts.simps ns'_def
    by (rule update_known [OF assms(5)])
       (use statements_known(4) [of ns] in \<open>simp_all only: updateSQL_def sqlcmd.select_convs list.pred_inject update_tuple,
        simp_all add: matches_def\<close>)
  also have "\<dots> = Inr (set_table notifications_tab (notif_table ns') db, [],
      length (filter (\<lambda>n. TenantID n = t \<and> ID n = c) ns))"
    using ok unfolding change_rows_def reltab.select_convs not_null_tuples by simp
  finally show ?thesis
    using assms(1-4) by (simp add: sql_cmd_def updateSQL_def ns'_def)
qed

text \<open>The page query and the count of unread rows.\<close>

lemma page_cmd:
  assumes "text_in (q_TenantID q)" "text_in (q_UserID q)"
    and "map_of (db_tables db) notifications_tab = Some (notif_table ns)"
  shows "\<exists>k. sql_cmd text_in uuid_in coll db (fst (page_command q)) (snd (page_command q)) =
    Inr (db, map notif_vals (take (Suc (nat (ClampLimit (q_Limit q)))) (sort_Slice newest_first (filter (query_match q) ns))), k)"
proof -
  let ?l = "ClampLimit (q_Limit q)"
  let ?T = "VText (q_TenantID q)" and ?U = "VText (q_UserID q)"
  define ps where "ps = (case q_CursorMS q of None \<Rightarrow> [?T, ?U, VInt (?l + 1)] | Some c \<Rightarrow> [?T, ?U, VInt c, VInt (?l + 1)])"
  define conds where "conds = [EqC (Col ''tenant_id'') (Param 1), EqC (Col ''user_id'') (Param 2)] @
      (case q_CursorMS q of None \<Rightarrow> [] | Some c \<Rightarrow> [LessC (Col ''created_at_ms'') (Param 3)]) @
      (if q_UnreadOnly q then [NeqC (Col ''status'') (Lit (VText ''read''))] else [])"
  define e where "e = Param (case q_CursorMS q of None \<Rightarrow> 3 | Some c \<Rightarrow> 4)"
  have st: "sc_stmts (fst (page_command q)) =
      [Select notif_cols notifications_tab conds [(''created_at_ms'', True), (''id'', True)] (Some e)]"
    by (simp add: page_command_def Let_def conds_def e_def split: option.split)
  have bind: "bind_args text_in uuid_in (sc_types (fst (page_command q))) (snd (page_command q)) = Inr ps"
    using assms(1,2) by (simp add: page_command_def ps_def Let_def split: option.split)
  have e: "eval_expr ps (\<lambda>_. VNull) (\<lambda>_. VNull) e = VInt (?l + 1)"
    by (simp add: e_def ps_def split: option.split)
  have m: "matches ps conds (notif_tuple n) \<longleftrightarrow> query_match q n" for n
    by (cases "q_UnreadOnly q"; cases "q_CursorMS q")
      (auto simp: conds_def ps_def matches_def query_match_def owned_by_def status_defs)
  have o: "order_lt coll [(''created_at_ms'', True), (''id'', True)] (notif_tuple a) (notif_tuple b) \<longleftrightarrow> newest_first a b" for a b
    by (auto simp: newest_first_def)
  have "0 < ?l" using ClampLimit_bounds [of "q_Limit q"] by simp
  then have l: "nat (?l + 1) = Suc (nat ?l)" by simp
  have "sql_stmts coll ps db (sc_stmts (fst (page_command q))) =
      Inr (db, map (\<lambda>x. map (notif_tuple x) notif_cols) (take (nat (?l + 1)) (sort_Slice newest_first (filter (query_match q) ns))),
        length (take (nat (?l + 1)) (sort_Slice newest_first (filter (query_match q) ns))))"
    unfolding st sql_stmts.simps
    by (rule select_limit [OF assms(3) _ _ m o e refl]) (use statements_known(6) [of ns q] st in simp_all)
  then show ?thesis unfolding sql_cmd_def bind sum.case l by auto
qed

lemma unread_cmd:
  assumes "text_in t" "text_in u" "map_of (db_tables db) notifications_tab = Some (notif_table ns)"
  shows "sql_cmd text_in uuid_in coll db unreadSQL [AText t, AText u] =
    Inr (db, [[VInt (int (length (filter (\<lambda>n. owned_by t u n \<and> Status n \<noteq> StatusRead) ns)))]], 1)"
proof -
  have "sql_stmts coll [VText t, VText u] db (sc_stmts unreadSQL) =
      Inr (db, [[VInt (int (length (filter (\<lambda>n. owned_by t u n \<and> Status n \<noteq> StatusRead) ns)))]], 1)"
    unfolding unreadSQL_def sqlcmd.select_convs sql_stmts.simps
    by (rule count_known [OF assms(3)])
       (use statements_known(5) [of ns] in \<open>auto simp: unreadSQL_def matches_def owned_by_def status_defs\<close>)
  then show ?thesis using assms(1,2) by (simp add: sql_cmd_def unreadSQL_def)
qed

text \<open>The statements on the device table.\<close>

lemma upsert_bind:
  assumes "pg_dev_ok text_in d" "text_in (dev_ID d)" "uuid_in (dev_ID d) = Some c"
  shows "bind_args text_in uuid_in (sc_types upsertSQL)
    [AText (dev_ID d), AText (dev_TenantID d), AText (dev_UserID d), AText (dev_DeviceType d),
     AText (dev_Token d), AInt (dev_CreatedAtMS d), AInt (dev_LastActiveMS d)] = Inr (dev_vals (d\<lparr>dev_ID := c\<rparr>))"
  using assms by (simp add: pg_dev_ok_def upsertSQL_def dev_vals_def)

lemma rotate_tuple:
  "apply_sets ps [(''token'', Excluded ''token''), (''last_active_ms'', Excluded ''last_active_ms'')] (dev_tuple d) (dev_tuple e) =
    dev_tuple (e\<lparr>dev_Token := dev_Token d, dev_LastActiveMS := dev_LastActiveMS d\<rparr>)"
  (is "?f = _")
proof (rule dev_tuple_eqI)
  show "map ?f dev_cols = dev_vals (e\<lparr>dev_Token := dev_Token d, dev_LastActiveMS := dev_LastActiveMS d\<rparr>)"
    by (simp add: dev_cols_def dev_vals_def apply_sets_def)
next
  fix c assume c: "c \<notin> set dev_cols"
  then have "c \<notin> {''token'', ''last_active_ms''}" by (auto simp: dev_cols_def)
  with dev_tuple_other [OF c] show "?f c = VNull" by (simp add: apply_sets_def)
qed

lemma upsert_cmd:
  assumes "pg_dev_ok text_in d" "text_in (dev_ID d)" "uuid_in (dev_ID d) = Some c"
    and "map_of (db_tables db) devices_tab = Some (dev_table ds)"
    and "args = [AText (dev_ID d), AText (dev_TenantID d), AText (dev_UserID d), AText (dev_DeviceType d),
       AText (dev_Token d), AInt (dev_CreatedAtMS d), AInt (dev_LastActiveMS d)]"
    and "rot = (\<lambda>e. e\<lparr>dev_Token := dev_Token d, dev_LastActiveMS := dev_LastActiveMS d\<rparr>)"
  shows "sql_cmd text_in uuid_in coll db upsertSQL args =
    (case find (\<lambda>e. dev_key e = dev_key d) ds of
       None \<Rightarrow> change_rows devices_tab (dev_table ds) (map dev_tuple (ds @ [d\<lparr>dev_ID := c\<rparr>]))
         [dev_vals (d\<lparr>dev_ID := c\<rparr>)] 1 db
     | Some e \<Rightarrow> change_rows devices_tab (dev_table ds)
         (map dev_tuple (map (\<lambda>x. if dev_key x = dev_key d then rot x else x) ds)) [dev_vals (rot e)] 1 db)"
proof -
  let ?d = "d\<lparr>dev_ID := c\<rparr>"
  let ?arb = "[''tenant_id'', ''user_id'', ''device_type'']"
  let ?sets = "[(''token'', Excluded ''token''), (''last_active_ms'', Excluded ''last_active_ms'')]"
  have vals: "map (eval_expr (dev_vals ?d) r ex) [Param 1, Param 2, Param 3, Param 4, Param 5, Param 6, Param 7] = dev_vals ?d" for r ex
    by (simp add: dev_vals_def)
  have key: "dev_key ?d = dev_key d" by (simp add: dev_key_def)
  have same: "same_on ?arb (dev_tuple ?d) (dev_tuple e) \<longleftrightarrow> dev_key e = dev_key d" for e
    unfolding same_on_keys key by auto
  have find: "find (same_on ?arb (dev_tuple ?d)) (map dev_tuple ds) = map_option dev_tuple (find (\<lambda>e. dev_key e = dev_key d) ds)"
    by (induction ds) (simp_all only: find.simps list.map same option.map split: if_split, auto)
  have rot: "apply_sets ps ?sets (dev_tuple ?d) (dev_tuple e) = dev_tuple (rot e)" for ps e
    using rotate_tuple [of ps ?d e] by (simp add: assms(6))
  have rows: "map (\<lambda>r. if same_on ?arb (dev_tuple ?d) r then apply_sets ps ?sets (dev_tuple ?d) r else r) (map dev_tuple ds) =
      map dev_tuple (map (\<lambda>x. if dev_key x = dev_key d then rot x else x) ds)" for ps
    unfolding map_map by (rule map_cong [OF refl]) (simp only: comp_def same rot split: if_split, simp)
  have arb: "?arb \<in> set (td_keys devices_def)" by (simp add: devices_def_def)
  have "sql_stmts coll (dev_vals ?d) db (sc_stmts upsertSQL) = insert_rows (dev_vals ?d) db devices_tab (dev_table ds)
      (dev_tuple ?d) (Some (DoUpdate ?arb ?sets)) dev_cols"
    unfolding upsertSQL_def sqlcmd.select_convs sql_stmts.simps
    by (rule insert_known [OF assms(4) _ vals])
       (use statements_known(7) [of ds] in \<open>simp_all add: upsertSQL_def dev_tuple_def [symmetric]\<close>)
  also have "\<dots> = (case find (\<lambda>e. dev_key e = dev_key d) ds of
       None \<Rightarrow> change_rows devices_tab (dev_table ds) (map dev_tuple (ds @ [?d])) [dev_vals ?d] 1 db
     | Some e \<Rightarrow> change_rows devices_tab (dev_table ds)
         (map dev_tuple (map (\<lambda>x. if dev_key x = dev_key d then rot x else x) ds)) [dev_vals (rot e)] 1 db)"
    unfolding insert_rows_def Let_def reltab.select_convs option.case conflict.case find rows
    using arb by (simp add: rot split: option.split)
  finally show ?thesis
    unfolding sql_cmd_def assms(5) upsert_bind [OF assms(1-3)] sum.case .
qed

lemma devices_cmd:
  assumes "text_in t" "text_in u" "map_of (db_tables db) devices_tab = Some (dev_table ds)"
  shows "\<exists>k. sql_cmd text_in uuid_in coll db devicesSQL [AText t, AText u] =
    Inr (db, map dev_vals (sort_Slice (\<lambda>a b. dev_DeviceType a < dev_DeviceType b)
      (filter (\<lambda>d. dev_TenantID d = t \<and> dev_UserID d = u) ds)), k)"
proof -
  let ?P = "\<lambda>d. dev_TenantID d = t \<and> dev_UserID d = u"
  have "sql_stmts coll [VText t, VText u] db (sc_stmts devicesSQL) =
      Inr (db, map (\<lambda>x. map (dev_tuple x) dev_cols) (sort_Slice (\<lambda>a b. dev_DeviceType a < dev_DeviceType b) (filter ?P ds)),
        length (filter ?P ds))"
    unfolding devicesSQL_def sqlcmd.select_convs sql_stmts.simps
    by (rule select_all [OF assms(3)])
       (use statements_known(8) [of ds] in \<open>auto simp: devicesSQL_def matches_def byte_collation\<close>)
  then show ?thesis using assms(1,2) by (simp add: sql_cmd_def devicesSQL_def)
qed

subsection \<open>The operations on the invariant\<close>

lemmas invI = pg_invI [of up _ text_in uuid_in db_of]
lemmas row_eq = pg_row_eq [of text_in uuid_in db_of]
lemmas dev_eq = pg_dev_eq [of text_in uuid_in db_of]

lemma pg_row_id_ok [simp]: "pg_row_ok text_in (n\<lparr>ID := i\<rparr>) \<longleftrightarrow> pg_row_ok text_in n"
  "pg_dev_ok text_in (d\<lparr>dev_ID := i\<rparr>) \<longleftrightarrow> pg_dev_ok text_in d"
  by (simp_all add: pg_row_ok_def pg_dev_ok_def)

lemma pg_row_stamp_ok: "pg_row_ok text_in n \<Longrightarrow> text_in st \<Longrightarrow> pg_row_ok text_in (stamp_status st ms n)"
  by (simp add: pg_row_ok_def)

lemma pg_insert_new:
  assumes "pg_inv db_of up text_in uuid_in s" "pg_id_ok db_of text_in uuid_in s (ID n)" "pg_row_ok text_in n"
    and "\<And>i m. pg_row db_of s i = Some m \<Longrightarrow> notif_key m \<noteq> notif_key n"
  shows "\<exists>s' i. pg_insert pool s n = (s', n\<lparr>ID := i\<rparr>, Some (Inr True)) \<and> pg_inv db_of up text_in uuid_in s' \<and>
    i \<noteq> '''' \<and> pg_row db_of s i = None \<and> pg_row db_of s' = (pg_row db_of s)(i \<mapsto> n\<lparr>ID := i\<rparr>) \<and>
    pg_dev db_of s' = pg_dev db_of s"
proof -
  obtain ns ds where up: "up (pg_db s)" and tab: "pg_tables_ok text_in uuid_in (db_of (pg_db s)) ns ds"
    and uu: "pg_uuid_ok uuid_in s (ID ` set ns \<union> dev_ID ` set ds)" and row: "pg_row db_of s = index_by ID ns"
    using assms(1) by (rule pg_invE)
  note T = pg_tables_okD [OF tab]
  obtain i t where it: "(if ID n = '''' then pg_NewString s else (ID n, s)) = (i, t)" by (metis surj_pair)
  have "pg_fresh_arg text_in uuid_in s (ID ` set ns) (ID n)"
    using assms(2) by (simp add: pg_id_ok_def pg_notifs_eq [OF tab])
  then obtain c where c: "uuid_in i = Some c" "text_in i" "c \<notin> ID ` set ns" "pg_db t = pg_db s" "uuid_in c = Some c"
    "pg_uuid_ok uuid_in t (insert c (ID ` set ns \<union> dev_ID ` set ds))"
    using pg_next_id [OF uu _ it] uuid_canonical by metis
  let ?n = "n\<lparr>ID := c\<rparr>"
  have nk: "\<not> list_ex (\<lambda>m. notif_key m = notif_key n) ns"
    using assms(4) index_by_iff [OF T(3)] by (auto simp: row list_ex_iff)
  then have keys: "distinct (map ID (ns @ [?n]))" "distinct (map notif_key (ns @ [?n]))"
    using T(3,4) c(3) by (auto simp: list_ex_iff)
  have "sql_cmd text_in uuid_in coll (db_of (pg_db t)) insertSQL (insert_args (n\<lparr>ID := i\<rparr>)) =
      Inr (set_table notifications_tab (notif_table (ns @ [?n])) (db_of (pg_db s)), [[VUuid c]], 1)"
    using insert_cmd [of "n\<lparr>ID := i\<rparr>" c "db_of (pg_db s)" ns] T(1) assms(3) c(1,2,4) nk keys
    by (simp add: change_rows_def del: map_append list_all_append)
  moreover have "up (pg_db t)" using up c(4) by simp
  moreover have "scan_string [VUuid c] = Inr c" by (simp add: scan_string_def)
  ultimately obtain db' where db': "QueryRow_Scan pool (pg_db t) insertSQL (insert_args (n\<lparr>ID := i\<rparr>)) scan_string = (db', Inr c)"
    "db_of db' = set_table notifications_tab (notif_table (ns @ [?n])) (db_of (pg_db s))" "up db'"
    using scan_one by metis
  have "pg_insert pool s n = (t\<lparr>pg_db := db'\<rparr>, ?n, Some (Inr True))"
    using it db'(1) by (simp add: pg_insert_def Let_def)
  moreover have tab': "pg_tables_ok text_in uuid_in (db_of db') (ns @ [?n]) ds"
    unfolding db'(2) by (rule pg_tables_ok_notifs [OF tab keys]) (use T(7,8) c(5) assms(3) in auto)
  moreover have "pg_inv db_of up text_in uuid_in (t\<lparr>pg_db := db'\<rparr>)"
    by (rule invI [of _ "ns @ [?n]" ds]) (use c(6) db'(3) tab' in simp_all)
  moreover have "pg_row db_of (t\<lparr>pg_db := db'\<rparr>) = (pg_row db_of s)(c \<mapsto> ?n)"
    using index_by_snoc [OF T(3), of ?n] c(3) row_eq [of "t\<lparr>pg_db := db'\<rparr>"] tab'
    by (simp add: row)
  moreover have "pg_dev db_of (t\<lparr>pg_db := db'\<rparr>) = pg_dev db_of s"
    using dev_eq [of "t\<lparr>pg_db := db'\<rparr>"] tab' dev_eq [OF tab] by simp
  moreover have "pg_row db_of s c = None" using c(3) by (simp add: row index_by_None)
  moreover have "c \<noteq> ''''" using c(5) uuid_not_empty by auto
  ultimately show ?thesis by blast
qed

lemma pg_insert_existing:
  assumes "pg_inv db_of up text_in uuid_in s" "pg_id_ok db_of text_in uuid_in s (ID n)" "pg_row_ok text_in n"
    and "pg_row db_of s j = Some m" "notif_key m = notif_key n"
  shows "\<exists>s' i. pg_insert pool s n = (s', n\<lparr>ID := i\<rparr>, None) \<and> pg_inv db_of up text_in uuid_in s' \<and>
    pg_row db_of s' = pg_row db_of s \<and> pg_dev db_of s' = pg_dev db_of s"
proof -
  obtain ns ds where up: "up (pg_db s)" and tab: "pg_tables_ok text_in uuid_in (db_of (pg_db s)) ns ds"
    and uu: "pg_uuid_ok uuid_in s (ID ` set ns \<union> dev_ID ` set ds)"
    using assms(1) by (auto simp: pg_inv_def)
  note T = pg_tables_okD [OF tab]
  have m: "m \<in> set ns" "ID m = j"
    using assms(4) index_by_iff [OF T(3)] by (auto simp: pg_row_def pg_notifs_eq [OF tab])
  obtain i t where it: "(if ID n = '''' then pg_NewString s else (ID n, s)) = (i, t)" by (metis surj_pair)
  have "pg_fresh_arg text_in uuid_in s (ID ` set ns) (ID n)"
    using assms(2) by (simp add: pg_id_ok_def pg_notifs_eq [OF tab])
  then obtain c where c: "uuid_in i = Some c" "text_in i" "pg_db t = pg_db s"
    "pg_uuid_ok uuid_in t (insert c (ID ` set ns \<union> dev_ID ` set ds))"
    using pg_next_id [OF uu _ it] uuid_canonical by metis
  have "list_ex (\<lambda>m. notif_key m = notif_key n) ns" using m assms(5) by (auto simp: list_ex_iff)
  then have "sql_cmd text_in uuid_in coll (db_of (pg_db s)) insertSQL (insert_args (n\<lparr>ID := i\<rparr>)) = Inr (db_of (pg_db s), [], 0)"
    using insert_cmd [of "n\<lparr>ID := i\<rparr>" c "db_of (pg_db s)" ns] T(1) assms(3) c(1,2) by simp
  from scan_none [OF up this] have ins: "QueryRow_Scan pool (pg_db s) insertSQL (insert_args (n\<lparr>ID := i\<rparr>)) scan_string =
      (pg_db s, Inl PgNoRows)" .
  with it ins c(3) have "pg_insert pool s n = (t, n\<lparr>ID := i\<rparr>, None)"
    by (simp add: pg_insert_def Let_def)
  moreover have "pg_inv db_of up text_in uuid_in t"
    by (rule invI [of _ ns ds]) (use up tab c(3) pg_uuid_ok_mono [OF c(4)] in auto)
  ultimately show ?thesis using c(3) by (auto simp: pg_row_def pg_dev_def)
qed

lemma pg_recover_found:
  assumes "pg_inv db_of up text_in uuid_in s" "pg_row_ok text_in n" "pg_row db_of s j = Some m" "notif_key m = notif_key n"
  shows "pg_recover pool s n = (s, n\<lparr>ID := j\<rparr>, Inr False)"
proof -
  obtain ns ds where up: "up (pg_db s)" and tab: "pg_tables_ok text_in uuid_in (db_of (pg_db s)) ns ds"
    and row: "pg_row db_of s = index_by ID ns"
    using assms(1) by (rule pg_invE)
  note T = pg_tables_okD [OF tab]
  have m: "m \<in> set ns" "ID m = j" using assms(3) index_by_iff [OF T(3)] by (auto simp: row)
  have "scan_string [VUuid j] = Inr j" by (simp add: scan_string_def)
  moreover have "sql_cmd text_in uuid_in coll (db_of (pg_db s)) existingSQL
      [AText (TenantID n), AText (UserID n), AText (NotificationID n)] = Inr (db_of (pg_db s), [[VUuid j]], 1)"
    using existing_cmd [OF assms(2) T(1,4) m(1) assms(4)] m(2) by simp
  ultimately have "QueryRow_Scan pool (pg_db s) existingSQL
      [AText (TenantID n), AText (UserID n), AText (NotificationID n)] scan_string = (pg_db s, Inr j)"
    by (intro scan_read [OF up])
  then show ?thesis by (simp add: pg_recover_def)
qed

lemma pg_get:
  assumes "pg_inv db_of up text_in uuid_in s" "pg_id_arg uuid_in i"
  shows "pg_GetNotification pool s t u i =
    (case pg_row db_of s i of None \<Rightarrow> Inl ErrNotFound
     | Some n \<Rightarrow> if owned_by t u n then Inr n else Inl ErrNotFound)"
proof -
  obtain ns ds where up: "up (pg_db s)" and tab: "pg_tables_ok text_in uuid_in (db_of (pg_db s)) ns ds"
    using assms(1) by (auto simp: pg_inv_def)
  note T = pg_tables_okD [OF tab]
  let ?cmd = "sql_cmd text_in uuid_in coll (db_of (pg_db s)) getSQL [AText t, AText u, AText i]"
  let ?P = "\<lambda>m. TenantID m = t \<and> UserID m = u \<and> ID m = i"
  have row: "pg_row db_of s i = Some n \<longleftrightarrow> n \<in> set ns \<and> ID n = i" for n
    by (simp add: pg_row_def pg_notifs_eq [OF tab] index_by_iff [OF T(3)])
  show ?thesis
  proof (cases "text_in t \<and> text_in u \<and> text_in i \<and> uuid_in i \<noteq> None")
    case True
    then have "uuid_in i = Some i" using assms(2) by (auto simp: pg_id_arg_def)
    then obtain k where cmd: "?cmd = Inr (db_of (pg_db s), map notif_vals (sort_Slice (\<lambda>_ _. False) (filter ?P ns)), k)"
      using get_cmd [OF _ _ _ _ T(1), of t u i i] True by blast
    show ?thesis
    proof (cases "\<exists>m \<in> set ns. ?P m")
      case True
      then obtain m where m: "m \<in> set ns" "?P m" by blast
      have "filter ?P ns = [m]"
        using T(3) m by (intro filter_unique) (auto simp: distinct_map inj_on_def)
      with cmd have "?cmd = Inr (db_of (pg_db s), [notif_vals m], k)" by simp
      from scan_read [where scan = scanNotification, OF up this scan_vals(1)]
      have "snd (QueryRow_Scan pool (pg_db s) getSQL [AText t, AText u, AText i] scanNotification) = Inr m" by simp
      moreover have "pg_row db_of s i = Some m" using m row by simp
      ultimately show ?thesis using m by (simp add: pg_GetNotification_def owned_by_def)
    next
      case False
      then have "filter ?P ns = []" by (auto simp: filter_empty_conv)
      with cmd have "?cmd = Inr (db_of (pg_db s), [], k)" by simp
      from scan_none [where scan = scanNotification, OF up this] False row show ?thesis
        by (auto simp: pg_GetNotification_def owned_by_def split: option.split)
    qed
  next
    case False
    then have "?cmd = Inl invalid_text \<or> ?cmd = Inl (invalid_uuid i)"
      by (auto simp: sql_cmd_def getSQL_def split: option.splits)
    then have "pg_GetNotification pool s t u i = Inl ErrNotFound"
      using scan_fails [where scan = scanNotification, OF up] by (auto simp: pg_GetNotification_def)
    moreover have "\<not> owned_by t u n" if "pg_row db_of s i = Some n" for n
    proof -
      have n: "n \<in> set ns" "ID n = i" using that row by auto
      with T(7) [OF n(1)] uuid_canonical have "uuid_in i \<noteq> None" "text_in i" by auto
      with False T(8) [OF n(1)] show ?thesis by (auto simp: owned_by_def pg_row_ok_def)
    qed
    ultimately show ?thesis by (auto split: option.split)
  qed
qed

lemma pg_update_missing:
  assumes "pg_inv db_of up text_in uuid_in s" "pg_id_arg uuid_in i" "\<And>n. pg_row db_of s i = Some n \<Longrightarrow> TenantID n \<noteq> t"
  shows "pg_UpdateStatus pool s t i st ms = (s, Some ErrNotFound)"
proof -
  obtain ns ds where up: "up (pg_db s)" and tab: "pg_tables_ok text_in uuid_in (db_of (pg_db s)) ns ds"
    and row: "pg_row db_of s = index_by ID ns"
    using assms(1) by (rule pg_invE)
  note T = pg_tables_okD [OF tab]
  let ?args = "[AText t, AText i, AText st, AInt ms]"
  let ?cmd = "sql_cmd text_in uuid_in coll (db_of (pg_db s)) updateSQL ?args"
  show ?thesis
  proof (cases "text_in t \<and> text_in i \<and> text_in st \<and> uuid_in i \<noteq> None")
    case True
    then have c: "uuid_in i = Some i" using assms(2) by (auto simp: pg_id_arg_def)
    have none: "\<not> (TenantID n = t \<and> ID n = i)" if "n \<in> set ns" for n
      using that assms(3) index_by_iff [OF T(3)] by (auto simp: row)
    then have "map (\<lambda>n. if TenantID n = t \<and> ID n = i then stamp_status st ms n else n) ns = ns"
      by (intro map_idI) auto
    moreover have "filter (\<lambda>n. TenantID n = t \<and> ID n = i) ns = []" using none by (auto simp: filter_empty_conv)
    moreover have "set_table notifications_tab (notif_table ns) (db_of (pg_db s)) = db_of (pg_db s)"
      using update_same [OF T(1)] by (simp add: set_table_def)
    ultimately have "?cmd = Inr (db_of (pg_db s), [], 0)"
      using update_cmd [OF _ _ _ c T(1,3,4), of t st ms] True by simp
    from exec_ok [OF up this] show ?thesis by (auto simp: pg_UpdateStatus_def)
  next
    case False
    then have "?cmd = Inl invalid_text \<or> ?cmd = Inl (invalid_uuid i)"
      by (auto simp: sql_cmd_def updateSQL_def split: option.splits)
    then show ?thesis using exec_fails [OF up] by (auto simp: pg_UpdateStatus_def)
  qed
qed

lemma pg_update_found:
  assumes "pg_inv db_of up text_in uuid_in s" "text_in st" "pg_row db_of s i = Some n" "TenantID n = t"
  shows "\<exists>s'. pg_UpdateStatus pool s t i st ms = (s', None) \<and> pg_inv db_of up text_in uuid_in s' \<and>
    pg_row db_of s' = (pg_row db_of s)(i \<mapsto> stamp_status st ms n) \<and> pg_dev db_of s' = pg_dev db_of s"
proof -
  obtain ns ds where up: "up (pg_db s)" and tab: "pg_tables_ok text_in uuid_in (db_of (pg_db s)) ns ds"
    and uu: "pg_uuid_ok uuid_in s (ID ` set ns \<union> dev_ID ` set ds)" and row: "pg_row db_of s = index_by ID ns"
    using assms(1) by (rule pg_invE)
  note T = pg_tables_okD [OF tab]
  let ?P = "\<lambda>x. TenantID x = t \<and> ID x = i"
  let ?g = "\<lambda>x. if ?P x then stamp_status st ms x else x"
  have n: "n \<in> set ns" "ID n = i" using assms(3) index_by_iff [OF T(3)] by (auto simp: row)
  have c: "uuid_in i = Some i" and tx: "text_in i" "text_in t"
    using T(7,8) [OF n(1)] n(2) uuid_canonical [of i i] assms(4) by (auto simp: pg_row_ok_def)
  have uniq: "filter ?P ns = [n]"
    using T(3) n assms(4) by (intro filter_unique) (auto simp: distinct_map inj_on_def)
  have only: "?g y = y" if "y \<in> set ns" "y \<noteq> n" for y
    using that T(3) n by (auto simp: distinct_map inj_on_def)
  have keys: "distinct (map ID (map ?g ns))" "distinct (map notif_key (map ?g ns))"
  proof -
    have "map ID (map ?g ns) = map ID ns" "map notif_key (map ?g ns) = map notif_key ns" by simp_all
    with T(3,4) show "distinct (map ID (map ?g ns))" "distinct (map notif_key (map ?g ns))" by (simp_all only:)
  qed
  from exec_ok [OF up update_cmd [OF tx(2,1) assms(2) c T(1,3,4)], of ms] uniq obtain db' where
    db': "pool_Exec pool (pg_db s) updateSQL [AText t, AText i, AText st, AInt ms] = (db', Inr 1)" "up db'"
    "db_of db' = set_table notifications_tab (notif_table (map ?g ns)) (db_of (pg_db s))"
    by auto
  let ?s = "s\<lparr>pg_db := db'\<rparr>"
  have ok: "uuid_in (ID x) = Some (ID x) \<and> pg_row_ok text_in x" if "x \<in> set (map ?g ns)" for x
    using that T(7,8) pg_row_stamp_ok [OF _ assms(2)] by (auto split: if_splits)
  have tab': "pg_tables_ok text_in uuid_in (db_of (pg_db ?s)) (map ?g ns) ds"
    using pg_tables_ok_notifs [of text_in uuid_in _ ns ds "map ?g ns", OF tab keys, folded db'(3)] ok by simp
  have "pg_UpdateStatus pool s t i st ms = (?s, None)" using db'(1) by (simp add: pg_UpdateStatus_def)
  moreover have "pg_inv db_of up text_in uuid_in ?s"
  proof (rule invI [OF _ tab'])
    have "ID ` set (map ?g ns) \<union> dev_ID ` set ds \<subseteq> ID ` set ns \<union> dev_ID ` set ds" by auto
    from pg_uuid_ok_mono [OF uu this] show "pg_uuid_ok uuid_in ?s (ID ` set (map ?g ns) \<union> dev_ID ` set ds)" by simp
  qed (simp add: db'(2))
  moreover have "pg_row db_of ?s = (pg_row db_of s)(i \<mapsto> stamp_status st ms n)"
  proof -
    have "index_by ID (map ?g ns) = (index_by ID ns)(ID n \<mapsto> ?g n)"
      by (rule index_by_map [OF T(3) n(1) _ only]) simp_all
    then show ?thesis using row_eq [OF tab'] n(2) assms(4) row by simp
  qed
  moreover have "pg_dev db_of ?s = pg_dev db_of s" using dev_eq [OF tab'] dev_eq [OF tab] by simp
  ultimately show ?thesis by blast
qed

lemma pg_query_page:
  assumes "pg_inv db_of up text_in uuid_in s" "text_in (q_TenantID q)" "text_in (q_UserID q)"
  shows "\<exists>p. pg_QueryUserNotifications pool s q = Inr p \<and> is_page (ran (pg_row db_of s)) q p"
proof -
  obtain ns ds where up: "up (pg_db s)" and tab: "pg_tables_ok text_in uuid_in (db_of (pg_db s)) ns ds"
    and row: "pg_row db_of s = index_by ID ns"
    using assms(1) by (rule pg_invE)
  note T = pg_tables_okD [OF tab]
  define xs where "xs = sort_Slice newest_first (filter (query_match q) ns)"
  define l where "l = ClampLimit (q_Limit q)"
  let ?u = "int (length (filter (\<lambda>n. owned_by (q_TenantID q) (q_UserID q) n \<and> Status n \<noteq> StatusRead) ns))"
  have l: "0 < l" using ClampLimit_bounds [of "q_Limit q"] by (simp add: l_def)
  obtain k where "sql_cmd text_in uuid_in coll (db_of (pg_db s)) (fst (page_command q)) (snd (page_command q)) =
      Inr (db_of (pg_db s), map notif_vals (take (Suc (nat l)) xs), k)"
    using page_cmd [OF assms(2,3) T(1)] unfolding l_def xs_def by blast
  from query_read [OF up this] have sel: "pool_Query pool (pg_db s) (fst (page_command q)) (snd (page_command q)) =
      (pg_db s, Inr (map notif_vals (take (Suc (nat l)) xs), None))" .
  have scan: "scan_rows scanNotification (map notif_vals (take (Suc (nat l)) xs)) = Inr (take (Suc (nat l)) xs)"
    using scan_rows_map [of "take (Suc (nat l)) xs" scanNotification notif_vals id] by simp
  have cnt: "QueryRow_Scan pool (pg_db s) unreadSQL [AText (q_TenantID q), AText (q_UserID q)] scan_int = (pg_db s, Inr ?u)"
    by (rule scan_read [OF up unread_cmd [OF assms(2,3) T(1)]]) (simp add: scan_int_def)
  have cut: "take (nat l) (take (Suc (nat l)) xs) = take (nat l) xs" "cursor_of (take (Suc (nat l)) xs) (nat l) = cursor_of xs (nat l)"
    by (auto simp: cursor_of_def min_def)
  have "pg_QueryUserNotifications pool s q = Inr (take (nat l) xs, cursor_of xs (nat l), ?u)"
    using page_cut [OF l, of "take (Suc (nat l)) xs"] cut
    by (simp add: pg_QueryUserNotifications_def sel scan cnt split_beta l_def [symmetric] Let_def)
  moreover have "is_page (ran (pg_row db_of s)) q (take (nat l) xs, cursor_of xs (nat l), ?u)"
    by (rule is_page_sort [OF _ _ _ xs_def]) (use T(3) in \<open>simp_all add: row index_by_ran l_def distinct_map\<close>)
  ultimately show ?thesis by blast
qed

lemma pg_upsert_new:
  assumes "pg_inv db_of up text_in uuid_in s" "pg_dev_id_ok db_of text_in uuid_in s (dev_ID d)" "pg_dev_ok text_in d"
    and "pg_dev db_of s (dev_key d) = None"
  shows "\<exists>s' d' i. pg_upsert pool s d = (s', d', Inr (d\<lparr>dev_ID := i\<rparr>)) \<and>
    pg_inv db_of up text_in uuid_in s' \<and> fresh_dev_id (pg_dev db_of s) i \<and>
    pg_dev db_of s' = (pg_dev db_of s)(dev_key d \<mapsto> d\<lparr>dev_ID := i\<rparr>) \<and> pg_row db_of s' = pg_row db_of s"
proof -
  obtain ns ds where up: "up (pg_db s)" and tab: "pg_tables_ok text_in uuid_in (db_of (pg_db s)) ns ds"
    and uu: "pg_uuid_ok uuid_in s (ID ` set ns \<union> dev_ID ` set ds)" and dev: "pg_dev db_of s = index_by dev_key ds"
    and ds: "pg_devs (db_of (pg_db s)) = ds"
    using assms(1) by (rule pg_invE)
  note T = pg_tables_okD [OF tab]
  obtain i t where it: "(if dev_ID d = '''' then pg_NewString s else (dev_ID d, s)) = (i, t)" by (metis surj_pair)
  have "pg_fresh_arg text_in uuid_in s (dev_ID ` set ds) (dev_ID d)"
    using assms(2) by (simp add: pg_dev_id_ok_def ds)
  then obtain c where c: "uuid_in i = Some c" "text_in i" "c \<notin> dev_ID ` set ds" "pg_db t = pg_db s" "uuid_in c = Some c"
    "pg_uuid_ok uuid_in t (insert c (dev_ID ` set ds \<union> ID ` set ns))"
    using pg_next_id [OF uu [unfolded Un_commute [of "ID ` set ns"]] _ it] uuid_canonical by metis
  let ?d = "d\<lparr>dev_ID := c\<rparr>"
  let ?args = "[AText i, AText (dev_TenantID d), AText (dev_UserID d), AText (dev_DeviceType d),
       AText (dev_Token d), AInt (dev_CreatedAtMS d), AInt (dev_LastActiveMS d)]"
  have kd: "dev_key ?d = dev_key d" by (simp add: dev_key_def)
  have nk: "dev_key d \<notin> dev_key ` set ds" using assms(4) by (simp add: dev index_by_None)
  then have f: "find (\<lambda>e. dev_key e = dev_key d) ds = None" by (metis (mono_tags) find_None_iff imageI)
  have keys: "distinct (map dev_ID (ds @ [?d]))" "distinct (map dev_key (ds @ [?d]))"
    using T(5,6) c(3) nk kd by auto
  have k2: "dev_key (d\<lparr>dev_ID := i\<rparr>) = dev_key d" by (simp add: dev_key_def)
  have "sql_cmd text_in uuid_in coll (db_of (pg_db s)) upsertSQL ?args =
      Inr (set_table devices_tab (dev_table (ds @ [?d])) (db_of (pg_db s)), [dev_vals ?d], 1)"
    using upsert_cmd [of "d\<lparr>dev_ID := i\<rparr>" c "db_of (pg_db s)" ds ?args, OF _ _ _ T(2) _ refl] assms(3) c(1,2) f keys
    by (simp add: k2 change_rows_def del: map_append list_all_append)
  then obtain db' where db': "QueryRow_Scan pool (pg_db s) upsertSQL ?args scanDevice = (db', Inr ?d)"
    "db_of db' = set_table devices_tab (dev_table (ds @ [?d])) (db_of (pg_db s))" "up db'"
    using scan_one [where scan = scanDevice, OF up _ scan_vals(2)] by metis
  let ?s = "t\<lparr>pg_db := db'\<rparr>"
  have "pg_upsert pool s d = (?s, d\<lparr>dev_ID := i\<rparr>, Inr ?d)"
    using it db'(1) c(4) by (simp add: pg_upsert_def Let_def)
  moreover have tab': "pg_tables_ok text_in uuid_in (db_of (pg_db ?s)) ns (ds @ [?d])"
    using pg_tables_ok_devs [OF tab keys] by (simp add: db'(2))
  moreover have "pg_inv db_of up text_in uuid_in ?s"
    by (rule invI [OF _ tab']) (use c(6) db'(3) in \<open>simp_all add: Un_commute\<close>)
  moreover have "pg_dev db_of ?s = (pg_dev db_of s)(dev_key d \<mapsto> ?d)"
    using index_by_snoc [OF T(6), of ?d] nk dev_eq [OF tab'] by (simp add: dev kd)
  moreover have "pg_row db_of ?s = pg_row db_of s" using row_eq [OF tab'] row_eq [OF tab] by simp
  moreover have "fresh_dev_id (pg_dev db_of s) c"
    using c(3,5) uuid_not_empty by (auto simp: fresh_dev_id_def dev index_by_ran [OF T(6)])
  ultimately show ?thesis by blast
qed

lemma rotate_devices:
  fixes rot :: "Device \<Rightarrow> Device"
  assumes "distinct (map dev_ID ds)" "distinct (map dev_key ds)" "e \<in> set ds" "dev_key e = k"
    and "\<And>x. dev_ID (rot x) = dev_ID x" "\<And>x. dev_key (rot x) = dev_key x" "g = (\<lambda>x. if dev_key x = k then rot x else x)"
  shows "distinct (map dev_ID (map g ds))" "distinct (map dev_key (map g ds))" "dev_ID ` set (map g ds) = dev_ID ` set ds"
    "index_by dev_key (map g ds) = (index_by dev_key ds)(k \<mapsto> rot e)"
proof -
  have g: "dev_ID (g x) = dev_ID x" "dev_key (g x) = dev_key x" for x by (simp_all add: assms(5-7))
  then have maps: "map dev_ID (map g ds) = map dev_ID ds" "map dev_key (map g ds) = map dev_key ds" by simp_all
  show "distinct (map dev_ID (map g ds))" "distinct (map dev_key (map g ds))" unfolding maps by (rule assms)+
  show "dev_ID ` set (map g ds) = dev_ID ` set ds" by (metis maps(1) set_map)
  have "g y = y" if "y \<in> set ds" "y \<noteq> e" for y using that assms(2-4,7) by (auto simp: distinct_map inj_on_def)
  then have "index_by dev_key (map g ds) = (index_by dev_key ds)(dev_key e \<mapsto> g e)"
    by (intro index_by_map [OF assms(2,3)] g(2))
  then show "index_by dev_key (map g ds) = (index_by dev_key ds)(k \<mapsto> rot e)" by (simp add: assms(4,7))
qed

lemma pg_upsert_existing:
  assumes "pg_inv db_of up text_in uuid_in s" "pg_dev_id_ok db_of text_in uuid_in s (dev_ID d)" "pg_dev_ok text_in d"
    and "pg_dev db_of s (dev_key d) = Some e"
  shows "\<exists>s' d'. pg_upsert pool s d =
      (s', d', Inr (e\<lparr>dev_Token := dev_Token d, dev_LastActiveMS := dev_LastActiveMS d\<rparr>)) \<and>
    pg_inv db_of up text_in uuid_in s' \<and> pg_dev db_of s' =
      (pg_dev db_of s)(dev_key d \<mapsto> e\<lparr>dev_Token := dev_Token d, dev_LastActiveMS := dev_LastActiveMS d\<rparr>) \<and>
    pg_row db_of s' = pg_row db_of s"
proof -
  obtain ns ds where up: "up (pg_db s)" and tab: "pg_tables_ok text_in uuid_in (db_of (pg_db s)) ns ds"
    and uu: "pg_uuid_ok uuid_in s (ID ` set ns \<union> dev_ID ` set ds)" and dev: "pg_dev db_of s = index_by dev_key ds"
    and ds: "pg_devs (db_of (pg_db s)) = ds"
    using assms(1) by (rule pg_invE)
  note T = pg_tables_okD [OF tab]
  obtain i t where it: "(if dev_ID d = '''' then pg_NewString s else (dev_ID d, s)) = (i, t)" by (metis surj_pair)
  have "pg_fresh_arg text_in uuid_in s (dev_ID ` set ds) (dev_ID d)"
    using assms(2) by (simp add: pg_dev_id_ok_def ds)
  then obtain c where c: "uuid_in i = Some c" "text_in i" "pg_db t = pg_db s"
    "pg_uuid_ok uuid_in t (insert c (dev_ID ` set ds \<union> ID ` set ns))"
    using pg_next_id [OF uu [unfolded Un_commute [of "ID ` set ns"]] _ it] uuid_canonical by metis
  define rot where "rot = (\<lambda>x :: Device. x\<lparr>dev_Token := dev_Token d, dev_LastActiveMS := dev_LastActiveMS d\<rparr>)"
  let ?g = "\<lambda>x. if dev_key x = dev_key d then rot x else x"
  let ?args = "[AText i, AText (dev_TenantID d), AText (dev_UserID d), AText (dev_DeviceType d),
       AText (dev_Token d), AInt (dev_CreatedAtMS d), AInt (dev_LastActiveMS d)]"
  have e: "e \<in> set ds" "dev_key e = dev_key d" using assms(4) index_by_iff [OF T(6)] by (auto simp: dev)
  have f: "find (\<lambda>x. dev_key x = dev_key d) ds = Some e" by (rule find_unique [OF e T(6)])
  note g = rotate_devices [OF T(5,6) e, of rot ?g]
  have keys: "distinct (map dev_ID (map ?g ds))" "distinct (map dev_key (map ?g ds))"
    and ids: "dev_ID ` set (map ?g ds) = dev_ID ` set ds" and ix: "index_by dev_key (map ?g ds) = (index_by dev_key ds)(dev_key d \<mapsto> rot e)"
    by (rule g; simp add: rot_def dev_key_def)+
  have k2: "dev_key (d\<lparr>dev_ID := i\<rparr>) = dev_key d" by (simp add: dev_key_def)
  have "sql_cmd text_in uuid_in coll (db_of (pg_db s)) upsertSQL ?args =
      change_rows devices_tab (dev_table ds) (map dev_tuple (map ?g ds)) [dev_vals (rot e)] 1 (db_of (pg_db s))"
    using upsert_cmd [of "d\<lparr>dev_ID := i\<rparr>" c "db_of (pg_db s)" ds ?args rot, OF _ _ _ T(2)] assms(3) c(1,2)
    unfolding k2 f by (simp add: rot_def)
  also have "\<dots> = Inr (set_table devices_tab (dev_table (map ?g ds)) (db_of (pg_db s)), [dev_vals (rot e)], 1)"
    using keys by (simp only: change_rows_def reltab.select_convs not_null_tuples keys_ok_tuples simp_thms if_False) simp
  finally have cmd: "sql_cmd text_in uuid_in coll (db_of (pg_db s)) upsertSQL ?args =
      Inr (set_table devices_tab (dev_table (map ?g ds)) (db_of (pg_db s)), [dev_vals (rot e)], 1)" .
  obtain db' where db': "QueryRow_Scan pool (pg_db s) upsertSQL ?args scanDevice = (db', Inr (rot e))"
    "db_of db' = set_table devices_tab (dev_table (map ?g ds)) (db_of (pg_db s))" "up db'"
    by (rule scan_one [where scan = scanDevice and x = "rot e", OF up cmd scan_vals(2)])
  let ?s = "t\<lparr>pg_db := db'\<rparr>"
  have "pg_upsert pool s d = (?s, d\<lparr>dev_ID := i\<rparr>, Inr (rot e))"
    using it db'(1) c(3) by (simp add: pg_upsert_def Let_def)
  moreover have tab': "pg_tables_ok text_in uuid_in (db_of (pg_db ?s)) ns (map ?g ds)"
    using pg_tables_ok_devs [of text_in uuid_in _ ns ds "map ?g ds", OF tab keys, folded db'(2)] by simp
  moreover have "pg_inv db_of up text_in uuid_in ?s"
  proof (rule invI [OF _ tab'])
    have "ID ` set ns \<union> dev_ID ` set (map ?g ds) \<subseteq> insert c (dev_ID ` set ds \<union> ID ` set ns)" unfolding ids by blast
    from pg_uuid_ok_mono [OF c(4) this] show "pg_uuid_ok uuid_in ?s (ID ` set ns \<union> dev_ID ` set (map ?g ds))" by simp
  qed (simp add: db'(3))
  moreover have "pg_dev db_of ?s = (pg_dev db_of s)(dev_key d \<mapsto> rot e)" using dev_eq [OF tab'] ix dev by simp
  moreover have "pg_row db_of ?s = pg_row db_of s" using row_eq [OF tab'] row_eq [OF tab] by simp
  ultimately show ?thesis unfolding rot_def by blast
qed

lemma pg_list_devices:
  assumes "pg_inv db_of up text_in uuid_in s" "text_in t" "text_in u"
  shows "\<exists>ds. pg_ListDevices pool s t u = Inr ds \<and> distinct ds \<and>
    set ds = {d. \<exists>dt. pg_dev db_of s \<lparr>dk_Tenant = t, dk_User = u, dk_DeviceType = dt\<rparr> = Some d} \<and>
    sorted_wrt (\<lambda>a b. dev_DeviceType a < dev_DeviceType b) ds"
proof -
  obtain ns ds where up: "up (pg_db s)" and tab: "pg_tables_ok text_in uuid_in (db_of (pg_db s)) ns ds"
    and dev: "pg_dev db_of s = index_by dev_key ds"
    using assms(1) by (rule pg_invE)
  note T = pg_tables_okD [OF tab]
  define out where "out = sort_Slice (\<lambda>a b. dev_DeviceType a < dev_DeviceType b)
    (filter (\<lambda>d. dev_TenantID d = t \<and> dev_UserID d = u) ds)"
  obtain k where "sql_cmd text_in uuid_in coll (db_of (pg_db s)) devicesSQL [AText t, AText u] =
      Inr (db_of (pg_db s), map dev_vals out, k)"
    using devices_cmd [OF assms(2,3) T(2)] unfolding out_def by blast
  from query_read [OF up this] have "pg_ListDevices pool s t u = Inr out"
    using scan_rows_map [of out scanDevice dev_vals id] by (simp add: pg_ListDevices_def)
  moreover have "distinct ds" using T(6) by (simp add: distinct_map)
  note device_list_sort [OF this _ out_def, of "pg_dev db_of s"]
  ultimately show ?thesis using index_by_iff [OF T(6)] by (simp add: dev)
qed

end

text \<open>The driver keeps both store contracts on every service that answers by the meaning of SQL.\<close>

sublocale sql_service \<subseteq> pgn: notification_store "postgres_ops pool" "pg_inv db_of up text_in uuid_in" "pg_row db_of"
  "pg_id_ok db_of text_in uuid_in" "pg_row_ok text_in" text_in "pg_id_arg uuid_in"
proof (unfold_locales, goal_cases)
  case (1 s) then show ?case by (auto elim!: pg_invE)
next
  case (2 s i n) then show ?case by (auto elim!: pg_invE simp: index_by_iff pg_tables_okD)
next
  case (3 s i n j m)
  then show ?case
    by (auto elim!: pg_invE simp: index_by_iff pg_tables_okD) (metis distinct_map inj_onD pg_tables_okD(4))
next
  case (4 s) then show ?case by (simp add: pg_id_ok_def pg_fresh_arg_def)
next
  case (5 s i n)
  then show ?case by (auto elim!: pg_invE simp: index_by_iff pg_tables_okD pg_id_arg_def)
next
  case (6 st)
  then show ?case by (intro ascii_text) (auto simp: status_defs is_ascii_def)
next
  case (7 s n) with pg_insert_new [of s n] show ?case by (auto simp: pg_create_def)
next
  case (8 s n i m)
  then obtain s' j where s': "pg_insert pool s n = (s', n\<lparr>ID := j\<rparr>, None)" "pg_inv db_of up text_in uuid_in s'"
    "pg_row db_of s' = pg_row db_of s" using pg_insert_existing by metis
  with 8 have "pg_recover pool s' (n\<lparr>ID := j\<rparr>) = (s', n\<lparr>ID := j\<rparr>\<lparr>ID := i\<rparr>, Inr False)"
    by (intro pg_recover_found [where m = m]) simp_all
  with s' show ?case by (simp add: pg_create_def)
next
  case (9 s i t u) then show ?case unfolding postgres_ops_simps by (rule pg_get)
next
  case (10 s i t st ms) then show ?case unfolding postgres_ops_simps by (rule pg_update_missing)
next
  case (11 s st i n t ms) then show ?case unfolding postgres_ops_simps using pg_update_found by blast
next
  case (12 s q) then show ?case unfolding postgres_ops_simps by (rule pg_query_page)
qed

sublocale sql_service \<subseteq> pgd: device_store "postgres_ops pool" "pg_inv db_of up text_in uuid_in" "pg_dev db_of"
  "pg_dev_id_ok db_of text_in uuid_in" "pg_dev_ok text_in" text_in
proof (unfold_locales, goal_cases)
  case (1 s k d) then show ?case by (auto elim!: pg_invE simp: index_by_iff pg_tables_okD)
next
  case (2 s) then show ?case by (simp add: pg_dev_id_ok_def pg_fresh_arg_def)
next
  case (3 s d) then show ?case unfolding postgres_ops_simps using pg_upsert_new by blast
next
  case (4 s d e) then show ?case unfolding postgres_ops_simps using pg_upsert_existing by blast
next
  case (5 s t u) then show ?case unfolding postgres_ops_simps by (rule pg_list_devices)
qed

sublocale sql_service \<subseteq> pgs: full_store "postgres_ops pool" "pg_inv db_of up text_in uuid_in" "pg_row db_of"
  "pg_id_ok db_of text_in uuid_in" "pg_row_ok text_in" text_in "pg_id_arg uuid_in" "pg_dev db_of"
  "pg_dev_id_ok db_of text_in uuid_in" "pg_dev_ok text_in"
proof (unfold_locales, goal_cases)
  case (1 s n s' nr)
  show ?case
  proof (cases "has_key (pg_row db_of s) (notif_key n)")
    case True
    then obtain i m where m: "pg_row db_of s i = Some m" "notif_key m = notif_key n" by (rule has_keyE)
    from pg_insert_existing [OF 1(1-3) m] obtain t j where t: "pg_insert pool s n = (t, n\<lparr>ID := j\<rparr>, None)"
      "pg_inv db_of up text_in uuid_in t" "pg_row db_of t = pg_row db_of s" "pg_dev db_of t = pg_dev db_of s" by blast
    with 1(3) m have "pg_recover pool t (n\<lparr>ID := j\<rparr>) = (t, n\<lparr>ID := j\<rparr>\<lparr>ID := i\<rparr>, Inr False)"
      by (intro pg_recover_found [where m = m]) simp_all
    with t 1(4) show ?thesis by (simp add: pg_create_def)
  next
    case False
    then have "\<And>i m. pg_row db_of s i = Some m \<Longrightarrow> notif_key m \<noteq> notif_key n" by (metis has_keyI)
    from pg_insert_new [OF 1(1-3)] this 1(4) show ?thesis by (auto simp: pg_create_def)
  qed
next
  case (2 s i st t ms s' e)
  show ?case
  proof (cases "\<exists>n. pg_row db_of s i = Some n \<and> TenantID n = t")
    case True
    then obtain n where "pg_row db_of s i = Some n" "TenantID n = t" by blast
    with pg_update_found [OF 2(1,3) this, of ms] 2(4) show ?thesis by auto
  next
    case False
    then have "pg_UpdateStatus pool s t i st ms = (s, Some ErrNotFound)" by (intro pg_update_missing 2(1,2)) auto
    with 2(4) show ?thesis by simp
  qed
next
  case (3 s d s' dr)
  then show ?case
    using pg_upsert_new [OF 3(1-3)] pg_upsert_existing [OF 3(1-3)] by (cases "pg_dev db_of s (dev_key d)") auto
qed

subsection \<open>Migrations\<close>

definition create_table :: "string \<Rightarrow> tabledef \<Rightarrow> database \<Rightarrow> database" where
  "create_table t d db = (case map_of (db_tables db) t of
     Some _ \<Rightarrow> db | None \<Rightarrow> set_table t \<lparr>tb_def = d, tb_rows = []\<rparr> db)"

definition rows_of :: "string \<Rightarrow> database \<Rightarrow> tuple list" where
  "rows_of t db = (case map_of (db_tables db) t of None \<Rightarrow> [] | Some tb \<Rightarrow> tb_rows tb)"

definition has_table :: "string \<Rightarrow> tabledef \<Rightarrow> database \<Rightarrow> bool" where
  "has_table t d db \<longleftrightarrow> map_of (db_tables db) t = Some \<lparr>tb_def = d, tb_rows = rows_of t db\<rparr>"

definition version_of :: "tuple \<Rightarrow> int" where
  "version_of r = (case r ''version'' of VInt v \<Rightarrow> v | _ \<Rightarrow> 0)"

definition versions_of :: "database \<Rightarrow> int list" where
  "versions_of db = map version_of (rows_of ledger_tab db)"

text \<open>A database the migrations can run on: a table of one of their names has their columns, and a
  version is in the ledger only when its tables exist.\<close>

definition schema_compatible :: "database \<Rightarrow> bool" where
  "schema_compatible db \<longleftrightarrow>
     (map_of (db_tables db) notifications_tab = None \<or> has_table notifications_tab notifications_def db) \<and>
     (map_of (db_tables db) devices_tab = None \<or> has_table devices_tab devices_def db) \<and>
     (map_of (db_tables db) ledger_tab = None \<or> has_table ledger_tab ledger_def db) \<and>
     (\<forall>r \<in> set (rows_of ledger_tab db). not_null ledger_def r \<and> r ''version'' = VInt (version_of r)) \<and>
     distinct (versions_of db) \<and>
     (1 \<in> set (versions_of db) \<longrightarrow>
        has_table notifications_tab notifications_def db \<and> has_table devices_tab devices_def db)"

lemma rows_of_simps [simp]:
  "rows_of t (set_table t' tb db) = (if t = t' then tb_rows tb else rows_of t db)"
  "rows_of t (db\<lparr>db_locks := ls\<rparr>) = rows_of t db"
  "rows_of t (create_table t' d db) = rows_of t db"
  by (auto simp: rows_of_def create_table_def split: option.split)

lemma versions_of_simps [simp]:
  "versions_of (db\<lparr>db_locks := ls\<rparr>) = versions_of db" "versions_of (create_table t d db) = versions_of db"
  by (simp_all add: versions_of_def)

lemma create_table_simps [simp]:
  "map_of (db_tables (create_table t d db)) t' =
     (if t' = t \<and> map_of (db_tables db) t = None then Some \<lparr>tb_def = d, tb_rows = []\<rparr> else map_of (db_tables db) t')"
  "db_locks (create_table t d db) = db_locks db"
  by (auto simp: create_table_def split: option.split)

lemma has_table_create [simp]:
  "map_of (db_tables db) t = None \<or> has_table t d db \<Longrightarrow> has_table t d (create_table t d db)"
  by (auto simp: has_table_def rows_of_def)

lemma has_table_other [simp]:
  "t \<noteq> t' \<Longrightarrow> has_table t d (create_table t' d' db) \<longleftrightarrow> has_table t d db"
  "t \<noteq> t' \<Longrightarrow> has_table t d (set_table t' tb db) \<longleftrightarrow> has_table t d db"
  "has_table t d (db\<lparr>db_locks := ls\<rparr>) \<longleftrightarrow> has_table t d db"
  by (auto simp: has_table_def)

lemma set_table_locks: "(set_table t tb db)\<lparr>db_locks := ls\<rparr> = set_table t tb (db\<lparr>db_locks := ls\<rparr>)"
  by (simp add: set_table_def)

lemma tab_neq [simp]: "notifications_tab \<noteq> devices_tab" "notifications_tab \<noteq> ledger_tab" "devices_tab \<noteq> ledger_tab"
  "devices_tab \<noteq> notifications_tab" "ledger_tab \<noteq> notifications_tab" "ledger_tab \<noteq> devices_tab"
  by (simp_all add: tab_defs)

lemma create_table_stmt: "sql_stmt coll ps db (CreateTable t d) = Inr (create_table t d db, [], 0)"
  by (simp add: sql_stmt.simps create_table_def set_table_def split: option.split)

lemma create_index_stmt:
  "has_table t d db \<Longrightarrow> set cols \<subseteq> set (map cd_name (td_cols d)) \<Longrightarrow> sql_stmt coll ps db (CreateIndex i t cols) = Inr (db, [], 0)"
  by (auto simp: sql_stmt.simps on_table_def has_table_def list_all_iff)

lemma migration_stmts:
  assumes "map_of (db_tables db) notifications_tab = None \<or> has_table notifications_tab notifications_def db"
    and "map_of (db_tables db) devices_tab = None \<or> has_table devices_tab devices_def db"
  shows "sql_stmts coll [] db (sc_stmts (mg_sql (hd migrations))) =
    Inr (create_table devices_tab devices_def (create_table notifications_tab notifications_def db), [], 0)"
proof -
  let ?d1 = "create_table notifications_tab notifications_def db"
  let ?d2 = "create_table devices_tab devices_def ?d1"
  have n: "has_table notifications_tab notifications_def ?d1" using assms(1) by simp
  have "map_of (db_tables ?d1) devices_tab = None \<or> has_table devices_tab devices_def ?d1"
    using assms(2) by simp
  then have d: "has_table devices_tab devices_def ?d2" by (rule has_table_create)
  have cols: "set [''tenant_id'', ''user_id'', ''created_at_ms'', ''id''] \<subseteq> set (map cd_name (td_cols notifications_def))"
    "set [''tenant_id'', ''user_id'', ''status''] \<subseteq> set (map cd_name (td_cols notifications_def))"
    "set [''tenant_id'', ''user_id'', ''device_type''] \<subseteq> set (map cd_name (td_cols devices_def))"
    by (simp_all add: table_defs)
  note steps = create_table_stmt create_index_stmt [OF n cols(1)] create_index_stmt [OF n cols(2)] create_index_stmt [OF d cols(3)]
  show ?thesis
    unfolding migrations_def list.sel migration.select_convs sqlcmd.select_convs sql_stmts.simps steps sum.case prod.case ..
qed

context sql_service
begin

lemma lock_cmd:
  "sql_cmd text_in uuid_in coll d lockSQL [AInt k] = Inr (d\<lparr>db_locks := k # db_locks d\<rparr>, [[VNull]], 1)"
  "sql_cmd text_in uuid_in coll d unlockSQL [AInt k] = Inr (d\<lparr>db_locks := remove1 k (db_locks d)\<rparr>, [[VNull]], 1)"
  by (simp_all add: sql_cmd_def migration_sql sql_stmt.simps)

lemma ledger_cmd: "sql_cmd text_in uuid_in coll d ensureLedgerSQL [] = Inr (create_table ledger_tab ledger_def d, [], 0)"
  by (simp add: sql_cmd_def migration_sql create_table_stmt)

lemma versions_cmd:
  assumes "has_table ledger_tab ledger_def d" "\<forall>r \<in> set (rows_of ledger_tab d). r ''version'' = VInt (version_of r)"
  obtains rs k vs where "sql_cmd text_in uuid_in coll d versionsSQL [] = Inr (d, rs, k)"
    "scan_rows scan_int rs = Inr vs" "set vs = set (versions_of d)"
proof -
  let ?rows = "sort_Slice (\<lambda>_ _. False) (rows_of ledger_tab d)"
  have "sql_stmts coll [] d (sc_stmts versionsSQL) =
      Inr (d, map (\<lambda>x. map (id x) [''version'']) (sort_Slice (\<lambda>_ _. False) (filter (\<lambda>_. True) (rows_of ledger_tab d))),
        length (filter (\<lambda>_. True) (rows_of ledger_tab d)))"
    unfolding versionsSQL_def sqlcmd.select_convs sql_stmts.simps
    by (rule select_all [OF assms(1) [unfolded has_table_def]]) (simp_all add: knows_def ledger_def_def matches_def)
  then have "sql_cmd text_in uuid_in coll d versionsSQL [] =
      Inr (d, map (\<lambda>r. [r ''version'']) ?rows, length (rows_of ledger_tab d))"
    by (simp add: sql_cmd_def versionsSQL_def)
  moreover have "scan_rows scan_int (map (\<lambda>r. [r ''version'']) ?rows) = Inr (map version_of ?rows)"
  proof (rule scan_rows_map)
    fix r assume "r \<in> set ?rows"
    with assms(2) have v: "r ''version'' = VInt (version_of r)" by simp
    have "scan_int [VInt v] = Inr v" for v by (simp add: scan_int_def)
    then show "scan_int [r ''version''] = Inr (version_of r)" by (subst v)
  qed
  moreover have "set (map version_of ?rows) = set (versions_of d)" by (simp add: versions_of_def)
  ultimately show thesis by (rule that)
qed

lemma record_cmd:
  assumes "has_table ledger_tab ledger_def d" "list_all (not_null ledger_def) (rows_of ledger_tab d)"
    and "\<forall>r \<in> set (rows_of ledger_tab d). r ''version'' = VInt (version_of r)" "distinct (versions_of d)"
    and "v \<notin> set (versions_of d)" "text_in nm"
  obtains new where "sql_cmd text_in uuid_in coll d recordSQL [AInt v, AText nm] =
      Inr (set_table ledger_tab \<lparr>tb_def = ledger_def, tb_rows = rows_of ledger_tab d @ [new]\<rparr> d, [[]], 1)"
    "new ''version'' = VInt v" "not_null ledger_def new"
proof -
  let ?tb = "\<lparr>tb_def = ledger_def, tb_rows = rows_of ledger_tab d\<rparr>"
  define new where "new = build_tuple ledger_def [''version'', ''name''] [VInt v, VText nm]"
  have new: "new ''version'' = VInt v" "not_null ledger_def new"
    by (simp_all add: new_def build_tuple_def not_null_def ledger_def_def text_col_def default_of_def)
  have "distinct (map (\<lambda>r. map r [''version'']) (rows_of ledger_tab d @ [new]))"
  proof -
    have "distinct (map (\<lambda>r. [r ''version'']) (rows_of ledger_tab d)) \<longleftrightarrow> distinct (map version_of (rows_of ledger_tab d))"
      using assms(3) by (intro distinct_map_iff_cong) (metis val.inject(2) list.inject)
    moreover have "[VInt v] \<notin> (\<lambda>r. [r ''version'']) ` set (rows_of ledger_tab d)"
      using assms(3,5) by (auto simp: versions_of_def)
    ultimately show ?thesis using assms(4) new(1) by (simp add: versions_of_def)
  qed
  then have keys: "keys_ok ledger_def (rows_of ledger_tab d @ [new])" by (simp add: keys_ok_def ledger_def_def)
  have "sql_stmts coll [VInt v, VText nm] d (sc_stmts recordSQL) =
      insert_rows [VInt v, VText nm] d ledger_tab ?tb new None []"
    unfolding recordSQL_def sqlcmd.select_convs sql_stmts.simps
    by (rule insert_known [OF assms(1) [unfolded has_table_def], where vs = "[VInt v, VText nm]"])
       (use new in \<open>simp_all add: knows_def ledger_def_def text_col_def new_def\<close>)
  also have "\<dots> = Inr (set_table ledger_tab \<lparr>tb_def = ledger_def, tb_rows = rows_of ledger_tab d @ [new]\<rparr> d, [[]], 1)"
    using keys assms(2) new(2) by (simp add: insert_rows_def change_rows_def)
  finally have "sql_cmd text_in uuid_in coll d recordSQL [AInt v, AText nm] =
      Inr (set_table ledger_tab \<lparr>tb_def = ledger_def, tb_rows = rows_of ledger_tab d @ [new]\<rparr> d, [[]], 1)"
    using assms(6) by (simp add: sql_cmd_def recordSQL_def)
  then show thesis using new by (rule that)
qed

lemma schema_compatibleD:
  assumes "schema_compatible d"
  shows "map_of (db_tables d) notifications_tab = None \<or> has_table notifications_tab notifications_def d"
    and "map_of (db_tables d) devices_tab = None \<or> has_table devices_tab devices_def d"
    and "map_of (db_tables d) ledger_tab = None \<or> has_table ledger_tab ledger_def d"
    and "list_all (not_null ledger_def) (rows_of ledger_tab d)"
    and "\<forall>r \<in> set (rows_of ledger_tab d). r ''version'' = VInt (version_of r)"
    and "distinct (versions_of d)"
    and "1 \<in> set (versions_of d) \<Longrightarrow> has_table notifications_tab notifications_def d \<and> has_table devices_tab devices_def d"
  using assms by (auto simp: schema_compatible_def list_all_iff)

lemma schema_compatible_frame:
  "schema_compatible d \<Longrightarrow> schema_compatible (create_table ledger_tab ledger_def d)"
  "schema_compatible (d\<lparr>db_locks := ls\<rparr>) \<longleftrightarrow> schema_compatible d"
  by (auto simp: schema_compatible_def)

text \<open>The loop over the migrations, once the lock is held and the ledger exists.\<close>

lemma migrate_loop_ok:
  assumes "up db" "schema_compatible (db_of db)" "has_table ledger_tab ledger_def (db_of db)"
    and "set applied = set (versions_of (db_of db))"
  obtains db' where "migrate_loop pool applied migrations db = (db', None)" "up db'" "schema_compatible (db_of db')"
    "1 \<in> set (versions_of (db_of db'))" "db_locks (db_of db') = db_locks (db_of db)"
    "rows_of notifications_tab (db_of db') = rows_of notifications_tab (db_of db)"
    "rows_of devices_tab (db_of db') = rows_of devices_tab (db_of db)"
    "has_table ledger_tab ledger_def (db_of db')"
    "1 \<in> set applied \<longrightarrow> db' = db"
proof (cases "1 \<in> set applied")
  case True
  then have "migrate_loop pool applied migrations db = (db, None)" by (simp add: migrations_def)
  then show thesis using True assms by (intro that [of db]) auto
next
  case False
  note C = schema_compatibleD [OF assms(2)]
  let ?m = "hd migrations"
  let ?d = "create_table devices_tab devices_def (create_table notifications_tab notifications_def (db_of db))"
  have m: "migrations = [?m]" "mg_version ?m = 1" "mg_name ?m = ''init''" "sc_types (mg_sql ?m) = []"
    by (simp_all add: migrations_def)
  have "sql_cmd text_in uuid_in coll (db_of db) (mg_sql ?m) [] = Inr (?d, [], 0)"
    using migration_stmts [OF C(1,2)] by (simp add: sql_cmd_def m(4))
  from exec_ok [OF assms(1) this] obtain db1 where
    x1: "pool_Exec pool db (mg_sql ?m) [] = (db1, Inr 0)" "db_of db1 = ?d" "up db1" by blast
  have led: "has_table ledger_tab ledger_def ?d" using assms(3) by simp
  have n1: "1 \<notin> set (versions_of ?d)" using False assms(4) by simp
  have "text_in ''init''" by (rule ascii_text) (simp add: is_ascii_def)
  then obtain new where rec: "sql_cmd text_in uuid_in coll ?d recordSQL [AInt 1, AText ''init''] =
      Inr (set_table ledger_tab \<lparr>tb_def = ledger_def, tb_rows = rows_of ledger_tab ?d @ [new]\<rparr> ?d, [[]], 1)"
    and new: "new ''version'' = VInt 1" "not_null ledger_def new"
    using record_cmd [OF led _ _ _ n1] C(4,5,6) by auto
  from exec_ok [OF x1(3) rec [folded x1(2)]] obtain db2 where
    x2: "pool_Exec pool db1 recordSQL [AInt 1, AText ''init''] = (db2, Inr 1)" "up db2"
    "db_of db2 = set_table ledger_tab \<lparr>tb_def = ledger_def, tb_rows = rows_of ledger_tab ?d @ [new]\<rparr> ?d"
    unfolding x1(2) by blast
  have nv: "version_of new = 1" using new(1) by (simp add: version_of_def)
  have led2: "has_table ledger_tab ledger_def (db_of db2)" by (simp add: x2(3) has_table_def)
  have vs: "versions_of (db_of db2) = versions_of (db_of db) @ [1]" by (simp add: x2(3) versions_of_def nv)
  have "has_table notifications_tab notifications_def (db_of db2)" "has_table devices_tab devices_def (db_of db2)"
    using C(1,2) by (simp_all add: x2(3))
  moreover have "\<forall>r \<in> set (rows_of ledger_tab (db_of db2)). not_null ledger_def r \<and> r ''version'' = VInt (version_of r)"
    using C(4,5) new nv by (auto simp: x2(3) list_all_iff)
  ultimately have "schema_compatible (db_of db2)"
    using led2 vs C(6) False assms(4) by (simp add: schema_compatible_def)
  moreover have "migrate_loop pool applied migrations db = (db2, None)"
    using False x1(1) x2(1) by (subst m(1)) (simp add: m(2,3))
  moreover have "db_locks (db_of db2) = db_locks (db_of db)"
    "rows_of notifications_tab (db_of db2) = rows_of notifications_tab (db_of db)"
    "rows_of devices_tab (db_of db2) = rows_of devices_tab (db_of db)"
    by (simp_all add: x2(3))
  moreover have "1 \<in> set (versions_of (db_of db2))" by (simp add: vs)
  ultimately show thesis
    using x2(2) led2 False by (intro that [of db2]) auto
qed

text \<open>The whole run: it succeeds, the schema is there, no row is lost, the lock is free again, and
  a second run changes nothing.\<close>

lemma applyMigrations_ok:
  assumes "up db" "schema_compatible (db_of db)"
  obtains db' where "applyMigrations pool db = (db', None)" "up db'" "schema_compatible (db_of db')"
    "1 \<in> set (versions_of (db_of db'))" "db_locks (db_of db') = db_locks (db_of db)"
    "rows_of notifications_tab (db_of db') = rows_of notifications_tab (db_of db)"
    "rows_of devices_tab (db_of db') = rows_of devices_tab (db_of db)"
    "has_table ledger_tab ledger_def (db_of db')"
    "1 \<in> set (versions_of (db_of db)) \<and> has_table ledger_tab ledger_def (db_of db) \<longrightarrow> db_of db' = db_of db"
proof -
  let ?k = migrationAdvisoryLockKey
  obtain db1 where l: "pool_Exec pool db lockSQL [AInt ?k] = (db1, Inr 1)" "up db1"
    "db_of db1 = (db_of db)\<lparr>db_locks := ?k # db_locks (db_of db)\<rparr>"
    using exec_ok [OF assms(1) lock_cmd(1)] by blast
  obtain db2 where e: "pool_Exec pool db1 ensureLedgerSQL [] = (db2, Inr 0)" "up db2"
    "db_of db2 = create_table ledger_tab ledger_def (db_of db1)" "db_of db2 = db_of db1 \<longrightarrow> db2 = db1"
    using exec_ok [OF l(2) ledger_cmd] by metis
  have c2: "schema_compatible (db_of db2)"
    using assms(2) by (simp add: e(3) l(3) schema_compatible_frame)
  have h2: "has_table ledger_tab ledger_def (db_of db2)"
    using schema_compatibleD(3) [OF assms(2)] by (simp add: e(3) l(3))
  obtain rs k vs where v: "sql_cmd text_in uuid_in coll (db_of db2) versionsSQL [] = Inr (db_of db2, rs, k)"
    "scan_rows scan_int rs = Inr vs" "set vs = set (versions_of (db_of db2))"
    using versions_cmd [OF h2 schema_compatibleD(5) [OF c2]] by blast
  obtain db3 where m: "migrate_loop pool vs migrations db2 = (db3, None)" "up db3" "schema_compatible (db_of db3)"
    "1 \<in> set (versions_of (db_of db3))" "db_locks (db_of db3) = db_locks (db_of db2)"
    "rows_of notifications_tab (db_of db3) = rows_of notifications_tab (db_of db2)"
    "rows_of devices_tab (db_of db3) = rows_of devices_tab (db_of db2)" "has_table ledger_tab ledger_def (db_of db3)"
    "1 \<in> set vs \<longrightarrow> db3 = db2"
    by (rule migrate_loop_ok [OF e(2) c2 h2 v(3)])
  obtain db4 where u: "pool_Exec pool db3 unlockSQL [AInt ?k] = (db4, Inr 1)" "up db4"
    "db_of db4 = (db_of db3)\<lparr>db_locks := remove1 ?k (db_locks (db_of db3))\<rparr>"
    using exec_ok [OF m(2) lock_cmd(2)] by blast
  have locks: "remove1 ?k (db_locks (db_of db3)) = db_locks (db_of db)" using m(5) by (simp add: e(3) l(3))
  have "migrate_locked pool db1 = (db3, None)"
    using e(1) query_read [OF e(2) v(1)] v(2) m(1) by (simp add: migrate_locked_def)
  then have "applyMigrations pool db = (db4, None)"
    using acquire_ok [OF assms(1)] l(1) u(1) release_ok [OF u(2)] by (simp add: applyMigrations_def)
  moreover have "db_of db4 = db_of db" if "1 \<in> set (versions_of (db_of db))" "has_table ledger_tab ledger_def (db_of db)"
  proof -
    have "create_table ledger_tab ledger_def (db_of db1) = db_of db1"
      using that(2) by (simp add: create_table_def l(3) has_table_def)
    moreover have "1 \<in> set vs" using that(1) v(3) by (simp add: e(3) l(3))
    ultimately show ?thesis using m(9) locks by (simp add: u(3) e(3) l(3))
  qed
  ultimately show thesis
    using m u locks e(3) l(3) by (intro that [of db4]) (simp_all add: schema_compatible_frame)
qed

end

end
