(* ===== verification/Create_Race.thy ===== *)
theory Create_Race
  imports Store_Refinement
begin

text \<open>
  Concurrent creates. In the database drivers \<open>CreateNotification\<close> is two calls of the service: one that
  inserts, and one that finds the id of the row that was there first. Between them other callers may run
  theirs, so a step of the race is one call of one caller. The locale \<open>create_race\<close> states what the two
  calls do to the rows and proves the outcome of every interleaving once for both drivers.
\<close>

type_synonym 's first_call = "'s \<Rightarrow> Notification \<Rightarrow> 's \<times> Notification \<times> (goerror + bool) option"
type_synonym 's second_call = "'s \<Rightarrow> Notification \<Rightarrow> 's \<times> Notification \<times> (goerror + bool)"

datatype creator = Inserting Notification | Recovering Notification | Finished Notification "goerror + bool"

fun creator_step :: "'s first_call \<Rightarrow> 's second_call \<Rightarrow> 's \<Rightarrow> creator \<Rightarrow> 's \<times> creator" where
  "creator_step first second s (Inserting n) =
     (case first s n of
        (s, n, Some r) \<Rightarrow> (s, Finished n r)
      | (s, n, None) \<Rightarrow> (s, Recovering n))"
| "creator_step first second s (Recovering n) = (case second s n of (s, n, r) \<Rightarrow> (s, Finished n r))"
| "creator_step first second s (Finished n r) = (s, Finished n r)"

inductive race_step :: "'s first_call \<Rightarrow> 's second_call \<Rightarrow> 's \<times> creator list \<Rightarrow> 's \<times> creator list \<Rightarrow> bool" for first second where
  race_step: "i < length cs \<Longrightarrow> creator_step first second s (cs ! i) = (s', c') \<Longrightarrow>
    race_step first second (s, cs) (s', cs[i := c'])"

inductive_cases race_stepE: "race_step first second (s, cs) sc"

fun won :: "creator \<Rightarrow> bool" where
  "won (Finished n (Inr b)) = b" | "won _ = False"

fun finished :: "creator \<Rightarrow> bool" where
  "finished (Finished n r) = True" | "finished _ = False"

definition winners :: "Notification list \<Rightarrow> creator list \<Rightarrow> notifKey \<Rightarrow> nat set" where
  "winners ns cs k = {i. i < length ns \<and> notif_key (ns ! i) = k \<and> won (cs ! i)}"

text \<open>Alone, the two calls are a create.\<close>

definition two_calls :: "'s first_call \<Rightarrow> 's second_call \<Rightarrow> 's second_call" where
  "two_calls first second s n = (case first s n of (s, n, Some r) \<Rightarrow> (s, n, r) | (s, n, None) \<Rightarrow> second s n)"

lemma creator_alone:
  "(let (s1, c1) = creator_step first second s (Inserting n) in creator_step first second s1 c1) =
   (case two_calls first second s n of (s', n', r) \<Rightarrow> (s', Finished n' r))"
  by (auto simp: two_calls_def split: prod.splits option.splits)

text \<open>A schedule as the list of the callers that run a call.\<close>

definition race_at :: "'s first_call \<Rightarrow> 's second_call \<Rightarrow> nat \<Rightarrow> 's \<times> creator list \<Rightarrow> 's \<times> creator list" where
  "race_at first second i sc = (let (s, cs) = sc; (s', c') = creator_step first second s (cs ! i) in (s', cs[i := c']))"

lemma race_schedule:
  "\<forall>i \<in> set is. i < length (snd sc) \<Longrightarrow> (race_step first second)\<^sup>*\<^sup>* sc (fold (race_at first second) is sc)"
proof (induction "is" arbitrary: sc)
  case (Cons i "is")
  obtain s cs s' c' where sc: "sc = (s, cs)" "creator_step first second s (cs ! i) = (s', c')" by (metis surj_pair)
  then have st: "race_step first second sc (race_at first second i sc)"
    "length (snd (race_at first second i sc)) = length (snd sc)"
    using Cons.prems by (auto simp: race_at_def intro!: race_step)
  have "(race_step first second)\<^sup>*\<^sup>* (race_at first second i sc) (fold (race_at first second) is (race_at first second i sc))"
    by (rule Cons.IH) (use Cons.prems st(2) in simp)
  with st(1) show ?case by (simp add: converse_rtranclp_into_rtranclp)
qed simp

text \<open>What holds of a caller while it runs: \<open>rows\<close> is the table now.\<close>

fun creator_ok :: "(string \<Rightarrow> Notification option) \<Rightarrow> Notification \<Rightarrow> creator \<Rightarrow> bool" where
  "creator_ok rows n (Inserting m) \<longleftrightarrow> m = n"
| "creator_ok rows n (Recovering m) \<longleftrightarrow> (\<exists>i. m = n\<lparr>ID := i\<rparr>) \<and> has_key rows (notif_key n)"
| "creator_ok rows n (Finished m r) \<longleftrightarrow>
     (\<exists>b x. r = Inr b \<and> rows (ID m) = Some x \<and> notif_key x = notif_key n \<and> (b \<longrightarrow> x = m))"

lemma has_key_mono: "has_key rows k \<Longrightarrow> rows \<subseteq>\<^sub>m rows' \<Longrightarrow> has_key rows' k"
  by (metis domI has_keyE has_keyI map_le_def)

lemma creator_ok_mono: "creator_ok rows n c \<Longrightarrow> rows \<subseteq>\<^sub>m rows' \<Longrightarrow> creator_ok rows' n c"
proof -
  assume c: "creator_ok rows n c" and le: "rows \<subseteq>\<^sub>m rows'"
  then have "rows' i = Some x" if "rows i = Some x" for i x using that by (metis domI map_le_def)
  with c has_key_mono [OF _ le] show ?thesis by (cases c) auto
qed

locale create_race =
  fixes inv :: "'s \<Rightarrow> bool"
    and row :: "'s \<Rightarrow> string \<Rightarrow> Notification option"
    and first :: "'s first_call"
    and second :: "'s second_call"
    and start_ok :: "Notification \<Rightarrow> bool"
  assumes first_new: "inv s \<Longrightarrow> start_ok n \<Longrightarrow> \<not> has_key (row s) (notif_key n) \<Longrightarrow>
      \<exists>s' i. first s n = (s', n\<lparr>ID := i\<rparr>, Some (Inr True)) \<and> inv s' \<and> row s i = None \<and> row s' = (row s)(i \<mapsto> n\<lparr>ID := i\<rparr>)"
    and first_existing: "inv s \<Longrightarrow> start_ok n \<Longrightarrow> has_key (row s) (notif_key n) \<Longrightarrow>
      \<exists>s' i. first s n = (s', n\<lparr>ID := i\<rparr>, None) \<and> inv s' \<and> row s' = row s"
    and second_found: "inv s \<Longrightarrow> start_ok n \<Longrightarrow> row s j = Some m \<Longrightarrow> notif_key m = notif_key n \<Longrightarrow>
      \<exists>s'. second s (n\<lparr>ID := i\<rparr>) = (s', n\<lparr>ID := j\<rparr>, Inr False) \<and> inv s' \<and> row s' = row s"
begin

lemma creator_progress:
  assumes "inv s" "creator_ok (row s) n c" "start_ok n" "creator_step first second s c = (s', c')"
  shows "inv s' \<and> row s \<subseteq>\<^sub>m row s' \<and> creator_ok (row s') n c' \<and>
    (\<forall>k. has_key (row s') k \<longleftrightarrow> has_key (row s) k \<or> won c' \<and> k = notif_key n) \<and>
    (won c' \<longrightarrow> won c \<or> \<not> has_key (row s) (notif_key n)) \<and> (won c \<longrightarrow> c' = c)"
proof (cases c)
  case (Inserting m)
  with assms(2) have m: "m = n" by simp
  show ?thesis
  proof (cases "has_key (row s) (notif_key n)")
    case True
    from first_existing [OF assms(1,3) this] obtain t i where
      "first s n = (t, n\<lparr>ID := i\<rparr>, None)" "inv t" "row t = row s" by blast
    with True show ?thesis using assms(4) Inserting m by (auto intro!: exI [of _ i])
  next
    case False
    from first_new [OF assms(1,3) this] obtain t i where
      t: "first s n = (t, n\<lparr>ID := i\<rparr>, Some (Inr True))" "inv t" "row s i = None" "row t = (row s)(i \<mapsto> n\<lparr>ID := i\<rparr>)" by blast
    then have "s' = t" "c' = Finished (n\<lparr>ID := i\<rparr>) (Inr True)" using assms(4) Inserting m by simp_all
    with t False show ?thesis by (auto simp: Inserting has_key_upd map_le_def)
  qed
next
  case (Recovering m)
  with assms(2) obtain i j x where m: "m = n\<lparr>ID := i\<rparr>" and x: "row s j = Some x" "notif_key x = notif_key n"
    by (auto elim: has_keyE)
  from second_found [OF assms(1,3) x, of i] assms(4) x m Recovering show ?thesis by auto blast
next
  case (Finished m r)
  with assms(1,2,4) show ?thesis by (auto simp: has_key_def ran_def)
qed

definition race_inv :: "'s \<Rightarrow> Notification list \<Rightarrow> 's \<times> creator list \<Rightarrow> bool" where
  "race_inv s ns sc \<longleftrightarrow> (case sc of (s', cs) \<Rightarrow> inv s' \<and> length cs = length ns \<and>
     row s \<subseteq>\<^sub>m row s' \<and> (\<forall>i < length ns. creator_ok (row s') (ns ! i) (cs ! i)) \<and>
     (\<forall>k. card (winners ns cs k) = of_bool (has_key (row s') k \<and> \<not> has_key (row s) k)))"

lemma race_inv_step:
  assumes "race_inv s ns sc" "race_step first second sc sc'" "\<forall>n \<in> set ns. start_ok n"
  shows "race_inv s ns sc'"
proof -
  obtain t cs where sc: "sc = (t, cs)" by (cases sc)
  from assms(1) have I: "inv t" "length cs = length ns" "row s \<subseteq>\<^sub>m row t"
    "\<And>i. i < length ns \<Longrightarrow> creator_ok (row t) (ns ! i) (cs ! i)"
    "\<And>k. card (winners ns cs k) = of_bool (has_key (row t) k \<and> \<not> has_key (row s) k)"
    by (simp_all add: race_inv_def sc)
  from assms(2) obtain i t' c' where i: "i < length cs" "creator_step first second t (cs ! i) = (t', c')"
    and sc': "sc' = (t', cs[i := c'])" by (auto simp: sc elim: race_stepE)
  let ?n = "ns ! i"
  have p: "inv t'" "row t \<subseteq>\<^sub>m row t'" "creator_ok (row t') ?n c'"
    "\<And>k. has_key (row t') k \<longleftrightarrow> has_key (row t) k \<or> won c' \<and> k = notif_key ?n"
    "won c' \<longrightarrow> won (cs ! i) \<or> \<not> has_key (row t) (notif_key ?n)" "won (cs ! i) \<longrightarrow> c' = cs ! i"
    using creator_progress [OF I(1) I(4) _ i(2)] i(1) I(2) assms(3) by auto
  have "card (winners ns (cs[i := c']) k) = of_bool (has_key (row t') k \<and> \<not> has_key (row s) k)" for k
  proof (cases "won c' \<and> \<not> won (cs ! i) \<and> k = notif_key ?n")
    case True
    then have "winners ns (cs[i := c']) k = insert i (winners ns cs k)" "i \<notin> winners ns cs k"
      using i(1) I(2) by (auto simp: winners_def nth_list_update)
    moreover have no: "\<not> has_key (row t) k" using True p(5) by blast
    then have "card (winners ns cs k) = 0" by (simp add: I(5))
    moreover have "finite (winners ns cs k)" by (simp add: winners_def)
    moreover have "\<not> has_key (row s) k" using no has_key_mono [OF _ I(3)] by blast
    ultimately show ?thesis using True p(4) [of k] by simp
  next
    case False
    then have "winners ns (cs[i := c']) k = winners ns cs k"
      using i(1) I(2) p(6) by (auto simp: winners_def nth_list_update split: if_splits)
    moreover have "has_key (row t') k \<longleftrightarrow> has_key (row t) k"
      using False p(4) [of k] I(4) [of i] i(1) I(2) p(6) by (cases "cs ! i"; auto simp: has_key_def ran_def)
    ultimately show ?thesis using I(5) by simp
  qed
  moreover have "creator_ok (row t') (ns ! j) (cs[i := c'] ! j)" if "j < length ns" for j
    using creator_ok_mono [OF I(4) [OF that] p(2)] p(3) i(1) by (cases "j = i") simp_all
  moreover have "row s \<subseteq>\<^sub>m row t'" using I(3) p(2) by (rule map_le_trans)
  ultimately show ?thesis using p(1) I(2) by (simp add: race_inv_def sc')
qed

lemma race_inv_reach:
  assumes "(race_step first second)\<^sup>*\<^sup>* (s, map Inserting ns) sc" "inv s" "\<forall>n \<in> set ns. start_ok n"
  shows "race_inv s ns sc"
  using assms(1)
proof (induction rule: rtranclp_induct)
  case base
  have "winners ns (map Inserting ns) k = {}" for k by (auto simp: winners_def)
  with assms(2) show ?case by (simp add: race_inv_def)
next
  case (step sc sc')
  then show ?case using race_inv_step assms(3) by blast
qed

text \<open>The outcome of every interleaving.\<close>

lemma single_winner:
  assumes "inv s" "\<forall>n \<in> set ns. start_ok n" "(race_step first second)\<^sup>*\<^sup>* (s, map Inserting ns) (s', cs)"
  shows "inv s' \<and> row s \<subseteq>\<^sub>m row s' \<and>
    (\<forall>i < length ns. \<forall>n r. cs ! i = Finished n r \<longrightarrow>
       (\<exists>b m. r = Inr b \<and> row s' (ID n) = Some m \<and> notif_key m = notif_key (ns ! i) \<and> (b \<longrightarrow> m = n))) \<and>
    (\<forall>k. card (winners ns cs k) \<le> 1 \<and> (has_key (row s) k \<longrightarrow> winners ns cs k = {})) \<and>
    (list_all finished cs \<longrightarrow>
       (\<forall>n \<in> set ns. \<not> has_key (row s) (notif_key n) \<longrightarrow> card (winners ns cs (notif_key n)) = 1))"
proof -
  have I: "inv s'" "length cs = length ns" "row s \<subseteq>\<^sub>m row s'"
    "\<And>i. i < length ns \<Longrightarrow> creator_ok (row s') (ns ! i) (cs ! i)"
    "\<And>k. card (winners ns cs k) = of_bool (has_key (row s') k \<and> \<not> has_key (row s) k)"
    using race_inv_reach [OF assms(3,1,2)] by (simp_all add: race_inv_def)
  have "has_key (row s') (notif_key n)" if fin: "list_all finished cs" and n: "n \<in> set ns" for n
  proof -
    obtain i where i: "i < length ns" "n = ns ! i" using n by (auto simp: in_set_conv_nth)
    with fin I(2) have "finished (cs ! i)" by (simp add: list_all_length)
    with I(4) [OF i(1)] i(2) show ?thesis by (cases "cs ! i") (auto simp: has_key_def ran_def)
  qed
  moreover have "winners ns cs k = {}" if "has_key (row s) k" for k
  proof -
    have "finite (winners ns cs k)" by (simp add: winners_def)
    then show ?thesis using I(5) [of k] that by simp
  qed
  moreover have "\<exists>b m. r = Inr b \<and> row s' (ID n) = Some m \<and> notif_key m = notif_key (ns ! i) \<and> (b \<longrightarrow> m = n)"
    if "i < length ns" "cs ! i = Finished n r" for i n r
    using I(4) [OF that(1)] by (simp add: that(2))
  ultimately show ?thesis using I(1,3,5) by simp
qed

end

end
