(* ===== verification/Postgres_Service.thy ===== *)
theory Postgres_Service
  imports Postgres_Store Create_Race Json
begin

text \<open>
  The postgres driver as a whole: opening the store (\<open>New\<close> with its migrations), the race of
  concurrent creates at the granularity of single SQL statements, and a reference service that
  answers by \<open>sql_cmd\<close>, on which the contracts are interpreted. The reference service accepts as a
  uuid any string of hexadecimal digits and hyphens, so that the supply of fresh ids is unbounded.
\<close>

subsection \<open>Opening the store\<close>

definition pg_content_ok :: "(string \<Rightarrow> bool) \<Rightarrow> (string \<Rightarrow> string option) \<Rightarrow> database \<Rightarrow> Notification list \<Rightarrow> Device list \<Rightarrow> bool" where
  "pg_content_ok text_in uuid_in db ns ds \<longleftrightarrow>
     rows_of notifications_tab db = map notif_tuple ns \<and> rows_of devices_tab db = map dev_tuple ds \<and>
     distinct (map ID ns) \<and> distinct (map notif_key ns) \<and> distinct (map dev_ID ds) \<and> distinct (map dev_key ds) \<and>
     (\<forall>n \<in> set ns. uuid_in (ID n) = Some (ID n) \<and> pg_row_ok text_in n)"

lemma pg_tables_of_content:
  "has_table notifications_tab notifications_def db \<Longrightarrow> has_table devices_tab devices_def db \<Longrightarrow>
   pg_content_ok text_in uuid_in db ns ds \<Longrightarrow> pg_tables_ok text_in uuid_in db ns ds"
  by (simp add: pg_tables_ok_def pg_content_ok_def has_table_def)

context sql_service
begin

lemma migrate_twice:
  assumes "up db" "schema_compatible (db_of db)" "1 \<in> set (versions_of (db_of db))" "has_table ledger_tab ledger_def (db_of db)"
  obtains db' where "applyMigrations pool db = (db', None)" "db_of db' = db_of db"
  using applyMigrations_ok [OF assms(1,2)] assms(3,4) by metis

lemma New_postgres_ok:
  assumes "TrimSpace (pc_DSN cfg) \<noteq> ''''" "parse (pc_DSN cfg) = Inr pc"
    and "open_pool (pg_pool_config (pg_applyDefaults cfg) pc) = Inr db" "up db" "schema_compatible (db_of db)"
    and "pc_AutoMigrate cfg" "pg_content_ok text_in uuid_in (db_of db) ns ds"
    and "pg_uuid_ok uuid_in \<lparr>pg_db = db, pg_uuid = src, pg_pos = 0\<rparr> (ID ` set ns \<union> dev_ID ` set ds)"
  obtains db' where "New_postgres parse open_pool pool cfg = (Some db', Inr (pg_applyDefaults cfg))"
    "pg_inv db_of up text_in uuid_in \<lparr>pg_db = db', pg_uuid = src, pg_pos = 0\<rparr>"
    "pg_row db_of \<lparr>pg_db = db', pg_uuid = src, pg_pos = 0\<rparr> = index_by ID ns"
    "pg_dev db_of \<lparr>pg_db = db', pg_uuid = src, pg_pos = 0\<rparr> = index_by dev_key ds"
    "db_locks (db_of db') = db_locks (db_of db)"
    "\<exists>db''. applyMigrations pool db' = (db'', None) \<and> db_of db'' = db_of db'"
proof -
  obtain db' where m: "applyMigrations pool db = (db', None)" "up db'" "schema_compatible (db_of db')"
    "1 \<in> set (versions_of (db_of db'))" "db_locks (db_of db') = db_locks (db_of db)"
    "rows_of notifications_tab (db_of db') = rows_of notifications_tab (db_of db)"
    "rows_of devices_tab (db_of db') = rows_of devices_tab (db_of db)" "has_table ledger_tab ledger_def (db_of db')"
    by (rule applyMigrations_ok [OF assms(4,5)])
  have cfg: "pc_DSN (pg_applyDefaults cfg) = pc_DSN cfg" "pc_AutoMigrate (pg_applyDefaults cfg) = pc_AutoMigrate cfg"
    by (simp_all add: pg_applyDefaults_def Let_def)
  have new: "New_postgres parse open_pool pool cfg = (Some db', Inr (pg_applyDefaults cfg))"
    using assms(1-3,6) ping_ok [OF assms(4)] m(1) by (simp add: New_postgres_def pg_validate_def cfg Let_def)
  let ?s = "\<lparr>pg_db = db', pg_uuid = src, pg_pos = 0\<rparr>"
  have "pg_content_ok text_in uuid_in (db_of db') ns ds"
    using assms(7) m(6,7) by (simp add: pg_content_ok_def)
  then have tab: "pg_tables_ok text_in uuid_in (db_of (pg_db ?s)) ns ds"
    using schema_compatibleD(7) [OF m(3,4)] by (intro pg_tables_of_content) auto
  have "pg_inv db_of up text_in uuid_in ?s"
    by (rule invI [OF _ tab]) (use m(2) assms(8) in \<open>simp_all add: pg_uuid_ok_def\<close>)
  moreover have "\<exists>db''. applyMigrations pool db' = (db'', None) \<and> db_of db'' = db_of db'"
    using migrate_twice [OF m(2-4,8)] by blast
  ultimately show thesis using m(5) by (intro that [OF new _ row_eq [OF tab] dev_eq [OF tab]])
qed

end

text \<open>Whenever \<open>New\<close> fails after a pool was opened, it closes the pool; a failure before that opens none.\<close>

theorem New_postgres_closes:
  assumes "New_postgres parse open_pool pool cfg = (r, Inl err)"
  shows "case r of
      None \<Rightarrow> TrimSpace (pc_DSN cfg) = '''' \<or> (\<exists>e. parse (pc_DSN cfg) = Inl e) \<or>
        (\<exists>pc e. parse (pc_DSN cfg) = Inr pc \<and> open_pool (pg_pool_config (pg_applyDefaults cfg) pc) = Inl e)
    | Some db' \<Rightarrow> \<exists>pc db db''. open_pool pc = Inr db \<and> db' = pool_Close pool db'' \<and>
        ((\<exists>e. pool_Ping pool db = (db'', Some e)) \<or>
         (\<exists>db1. pool_Ping pool db = (db1, None) \<and> pc_AutoMigrate cfg \<and> applyMigrations pool db1 = (db'', Some err)))"
proof -
  have cfg: "pc_DSN (pg_applyDefaults cfg) = pc_DSN cfg" "pc_AutoMigrate (pg_applyDefaults cfg) = pc_AutoMigrate cfg"
    by (simp_all add: pg_applyDefaults_def Let_def)
  show ?thesis
    using assms unfolding New_postgres_def Let_def
    by (auto simp: cfg pg_validate_def split: sum.splits prod.splits option.splits if_splits) blast+
qed

subsection \<open>The reference service\<close>

definition sql_pool :: "(string \<Rightarrow> bool) \<Rightarrow> (string \<Rightarrow> string option) \<Rightarrow> (string \<Rightarrow> string \<Rightarrow> bool) \<Rightarrow> database Pool" where
  "sql_pool text_in uuid_in coll = \<lparr>
     pool_Query = (\<lambda>db cmd args. case sql_cmd text_in uuid_in coll db cmd args of
        Inl e \<Rightarrow> (db, Inl e) | Inr (d, rows, k) \<Rightarrow> (d, Inr (rows, None))),
     pool_Exec = (\<lambda>db cmd args. case sql_cmd text_in uuid_in coll db cmd args of
        Inl e \<Rightarrow> (db, Inl e) | Inr (d, rows, k) \<Rightarrow> (d, Inr k)),
     pool_Acquire = (\<lambda>db. (db, None)), pool_Release = (\<lambda>db. db),
     pool_Ping = (\<lambda>db. (db, None)), pool_Close = (\<lambda>db. db)\<rparr>"

definition utf8_text :: "string \<Rightarrow> bool" where
  "utf8_text s \<longleftrightarrow> CHR 0x00 \<notin> set s \<and> valid_utf8 s"

definition hex_dash :: "char \<Rightarrow> bool" where
  "hex_dash c \<longleftrightarrow> c \<in> set ''0123456789abcdefABCDEF-''"

definition uuid_input :: "string \<Rightarrow> string option" where
  "uuid_input s = (if s \<noteq> '''' \<and> list_all hex_dash s then Some (map lower_char s) else None)"

lemma hex_dash_lower: "hex_dash c \<Longrightarrow> hex_dash (lower_char c) \<and> lower_char (lower_char c) = lower_char c \<and>
    is_ascii (lower_char c) \<and> lower_char c \<noteq> CHR 0x00"
proof -
  have "\<forall>c \<in> set ''0123456789abcdefABCDEF-''. hex_dash (lower_char c) \<and> lower_char (lower_char c) = lower_char c \<and>
      is_ascii (lower_char c) \<and> lower_char c \<noteq> CHR 0x00"
    by code_simp
  then show "hex_dash c \<Longrightarrow> ?thesis" unfolding hex_dash_def by blast
qed

lemma ascii_utf8_text: "plain_text s \<Longrightarrow> utf8_text s"
  by (auto simp: utf8_text_def plain_text_def list_all_iff is_ascii_def intro: valid_utf8_ascii)

lemma uuid_input_canonical: "uuid_input s = Some c \<Longrightarrow> uuid_input c = Some c \<and> utf8_text c"
proof -
  assume "uuid_input s = Some c"
  then have c: "c = map lower_char s" "s \<noteq> ''''" "\<forall>x \<in> set s. hex_dash x"
    by (auto simp: uuid_input_def list_all_iff split: if_splits)
  have "plain_text c" using c hex_dash_lower by (auto simp: plain_text_def list_all_iff)
  then have "utf8_text c" by (rule ascii_utf8_text)
  moreover have "uuid_input c = Some c" using c hex_dash_lower by (auto simp: uuid_input_def list_all_iff comp_def)
  ultimately show ?thesis by simp
qed

abbreviation ref_pool :: "database Pool" where
  "ref_pool \<equiv> sql_pool utf8_text uuid_input (<)"

interpretation refsql: sql_service ref_pool "\<lambda>db. db" "\<lambda>_. True" utf8_text uuid_input "(<)"
proof (unfold_locales, goal_cases)
  case (8 s c) then show ?case by (rule uuid_input_canonical)
next
  case (10 s) then show ?case by (rule ascii_utf8_text)
qed (auto simp: sql_pool_def uuid_input_def)

subsection \<open>Concurrent creates\<close>

sublocale sql_service \<subseteq> pgr: create_race "pg_inv db_of up text_in uuid_in" "pg_row db_of" "pg_insert pool" "pg_recover pool"
  "\<lambda>n. ID n = '''' \<and> pg_row_ok text_in n"
proof (unfold_locales, goal_cases)
  case (1 s n)
  then have "\<And>i m. pg_row db_of s i = Some m \<Longrightarrow> notif_key m \<noteq> notif_key n" by (metis has_keyI)
  with 1 pg_insert_new [of s n] pgn.id_ok_empty [of s] show ?case by auto
next
  case (2 s n)
  then obtain j m where m: "pg_row db_of s j = Some m" "notif_key m = notif_key n" by (auto elim: has_keyE)
  have "pg_id_ok db_of text_in uuid_in s (ID n)" using 2(1,2) pgn.id_ok_empty by simp
  from pg_insert_existing [OF 2(1) this _ m] 2(2) show ?case by blast
next
  case (3 s n j m i)
  then show ?case using pg_recover_found [OF 3(1), of "n\<lparr>ID := i\<rparr>" j m] by simp
qed

lemma pg_create_two_calls: "pg_create pool = two_calls (pg_insert pool) (pg_recover pool)"
  by (simp add: fun_eq_iff pg_create_def two_calls_def)

context sql_service
begin

lemmas pg_single_winner = pgr.single_winner

end



definition uuid_supply :: "nat \<Rightarrow> string" where
  "uuid_supply k = replicate (Suc k) (CHR ''a'')"

lemma uuid_supply_ok:
  "pg_uuid_ok uuid_input \<lparr>pg_db = db, pg_uuid = uuid_supply, pg_pos = 0\<rparr> {}"
proof -
  have "map lower_char ''a'' = ''a''" by code_simp
  moreover have "hex_dash (CHR ''a'')" by (simp add: hex_dash_def)
  ultimately show ?thesis
    by (auto simp: pg_uuid_ok_def uuid_input_def uuid_supply_def inj_def list_all_iff dest: arg_cong [where f = length])
qed

definition empty_db :: database where
  "empty_db = \<lparr>db_tables = [], db_locks = []\<rparr>"

definition demo_pg_config :: PgConfig where
  "demo_pg_config = \<lparr>pc_DSN = ''postgres://db'', pc_MaxConns = 0, pc_ConnTimeout = 0, pc_AutoMigrate = True\<rparr>"

definition demo_pool_config :: PoolConfig where
  "demo_pool_config = \<lparr>pl_MaxConns = 4, pl_MaxConnLifetime = 0, pl_MaxConnIdleTime = 0, pl_ConnectTimeout = 0\<rparr>"

lemma empty_db_ok: "schema_compatible empty_db" "pg_content_ok text_in uuid_in empty_db [] []"
  by (simp_all add: schema_compatible_def pg_content_ok_def rows_of_def versions_of_def empty_db_def)


definition demo_pg :: "database PgStore" where
  "demo_pg = \<lparr>pg_db = \<lparr>db_tables = [(notifications_tab, notif_table []), (devices_tab, dev_table [])], db_locks = []\<rparr>,
     pg_uuid = uuid_supply, pg_pos = 0\<rparr>"

lemma demo_pg_inv: "pg_inv (\<lambda>db. db) (\<lambda>_. True) utf8_text uuid_input demo_pg"
  unfolding demo_pg_def
  by (rule pg_invI [where ns = "[]" and ds = "[]"]) (simp_all add: pg_tables_ok_def uuid_supply_ok)

definition race_note :: "string \<Rightarrow> Notification" where
  "race_note title = \<lparr>ID = '''', NotificationID = ''n'', TenantID = ''t'', UserID = ''u'', SubjectRef = '''',
     SubjectType = '''', Title = title, Body = '''', Channel = ChannelInApp, Status = StatusPending, CreatedAtMS = 5,
     DeliveredAtMS = 0, AckAtMS = 0, ReadAtMS = 0\<rparr>"


subsection \<open>The driver as a store\<close>

context sql_service
begin

lemmas pg_refine_run = pgs.refine_run
lemmas pg_notify_spec = pgn.notify_spec

end


definition demo_calls :: "store_call list" where
  "demo_calls = [CreateCall (race_note ''x''), CreateCall (race_note ''y''), UpdateCall ''t'' ''a'' StatusRead 7,
     GetCall ''t'' ''u'' ''a'', ListCall ''t'' ''u'']"



definition pg_notifier :: "(database PgStore, nat) Notifier" where
  "pg_notifier = \<lparr>nt_store = postgres_ops ref_pool, nt_providers = Some [], nt_now = (\<lambda>w. (int w, Suc w))\<rparr>"

definition pg_request :: NotifyRequest where
  "pg_request = \<lparr>nr_TenantID = ''t'', nr_NotificationID = ''n1'', nr_UserIDs = [''alice'', ''bob''],
     nr_Channels = [ChannelSMS, ChannelEmail], nr_SubjectRef = '''', nr_SubjectType = '''', nr_Title = ''T'',
     nr_Body = ''B'', nr_Addresses = []\<rparr>"


theorem New_postgres_closes_witness:
  "New_postgres (\<lambda>_. Inr demo_pool_config) (\<lambda>_. Inr empty_db) (ref_pool\<lparr>pool_Ping := \<lambda>db. (db, Some (OtherErr ''down''))\<rparr>)
       demo_pg_config = (Some empty_db, Inl (pg_wrap ''postgres: ping: %w'' (OtherErr ''down''))) \<and>
   (\<exists>db''. empty_db = pool_Close (ref_pool\<lparr>pool_Ping := \<lambda>db. (db, Some (OtherErr ''down''))\<rparr>) db'')"
proof -
  let ?p = "ref_pool\<lparr>pool_Ping := \<lambda>db. (db, Some (OtherErr ''down''))\<rparr>"
  have "pg_validate (Some (pg_applyDefaults demo_pg_config)) = None" by code_simp
  then have r: "New_postgres (\<lambda>_. Inr demo_pool_config) (\<lambda>_. Inr empty_db) ?p demo_pg_config =
      (Some empty_db, Inl (pg_wrap ''postgres: ping: %w'' (OtherErr ''down'')))"
    by (simp add: New_postgres_def Let_def sql_pool_def)
  from New_postgres_closes [OF r] r show ?thesis by auto
qed

end
