(* ===== verification/EntDB.thy ===== *)
theory EntDB
  imports Memory_Store
begin

text \<open>
  \<open>store/entdb\<close>: the driver on the tenant-sharded database EntDB. \<open>client.go\<close>, \<open>helpers.go\<close> and every
  operation of \<open>store.go\<close>, as functions of the SDK. The SDK and the server behind it are a parameter
  (\<open>'db Sdk\<close>): the calls the driver makes, with their typed errors. All writes are committed with
  \<open>WithWaitApplied(true)\<close>, so a commit is one step; reads do not change the database.
\<close>

subsection \<open>The messages of the schema\<close>

record UserNotification =
  un_NotificationId :: string
  un_TenantId :: string
  un_UserId :: string
  un_SubjectRef :: string
  un_SubjectType :: string
  un_Title :: string
  un_Body :: string
  un_Channel :: string
  un_DeliveryStatus :: string
  un_CreatedAtMs :: int
  un_DeliveredAtMs :: int
  un_AckAtMs :: int
  un_ReadAtMs :: int
  un_CompositeKey :: string

record DeviceRegistration =
  dr_TenantId :: string
  dr_UserId :: string
  dr_DeviceType :: string
  dr_Token :: string
  dr_CreatedAtMs :: int
  dr_LastActiveMs :: int
  dr_CompositeKey :: string

datatype ent_msg = NotificationMsg UserNotification | DeviceMsg DeviceRegistration

text \<open>A message literal leaves the fields it does not name at their zero values.\<close>

definition empty_UserNotification :: UserNotification where
  "empty_UserNotification = \<lparr>un_NotificationId = '''', un_TenantId = '''', un_UserId = '''', un_SubjectRef = '''',
     un_SubjectType = '''', un_Title = '''', un_Body = '''', un_Channel = '''', un_DeliveryStatus = '''', un_CreatedAtMs = 0,
     un_DeliveredAtMs = 0, un_AckAtMs = 0, un_ReadAtMs = 0, un_CompositeKey = ''''\<rparr>"

definition empty_DeviceRegistration :: DeviceRegistration where
  "empty_DeviceRegistration = \<lparr>dr_TenantId = '''', dr_UserId = '''', dr_DeviceType = '''', dr_Token = '''',
     dr_CreatedAtMs = 0, dr_LastActiveMs = 0, dr_CompositeKey = ''''\<rparr>"

subsection \<open>The SDK\<close>

text \<open>Errors of the SDK: \<open>*sdk.UniqueConstraintError\<close>, any other one, and one that wraps another.\<close>

datatype sdk_error =
    UniqueConstraintError string
  | SdkError string
  | WrappedError string sdk_error

fun sdk_Error :: "sdk_error \<Rightarrow> string" where
  "sdk_Error (UniqueConstraintError m) = m"
| "sdk_Error (SdkError m) = m"
| "sdk_Error (WrappedError m e) = m @ '': '' @ sdk_Error e"

text \<open>\<open>errors.As(err, &uce)\<close>.\<close>

fun as_unique :: "sdk_error \<Rightarrow> bool" where
  "as_unique (UniqueConstraintError m) = True"
| "as_unique (SdkError m) = False"
| "as_unique (WrappedError m e) = as_unique e"

definition ent_goerror :: "sdk_error \<Rightarrow> goerror" where
  "ent_goerror e = New (sdk_Error e)"

record Node =
  nd_NodeID :: string

record UniqueKey =
  uk_TypeID :: int
  uk_FieldID :: int
  uk_Name :: string

record CommitResult =
  cr_Success :: bool
  cr_Error :: string
  cr_CreatedNodeIDs :: "string list"

record Scope =
  sco_Tenant :: string
  sco_Actor :: string

datatype plan_op =
    PlanCreate ent_msg
  | PlanUpdate string ent_msg
  | PlanUpdateFields string ent_msg "string list"

record 'db Sdk =
  sdk_ParseActor :: "string \<Rightarrow> sdk_error + string"
  sdk_Commit :: "'db \<Rightarrow> Scope \<Rightarrow> plan_op list \<Rightarrow> 'db \<times> (sdk_error + CommitResult option)"
  sdk_GetByKey :: "'db \<Rightarrow> Scope \<Rightarrow> UniqueKey \<Rightarrow> string \<Rightarrow> sdk_error + Node option"
  sdk_GetNotification :: "'db \<Rightarrow> Scope \<Rightarrow> string \<Rightarrow> sdk_error + UserNotification option"
  sdk_GetDevice :: "'db \<Rightarrow> Scope \<Rightarrow> string \<Rightarrow> sdk_error + DeviceRegistration option"
  sdk_QueryNodes :: "('db \<Rightarrow> string \<Rightarrow> string \<Rightarrow> int \<Rightarrow> (string \<times> string) list \<Rightarrow> int \<Rightarrow>
     sdk_error + Node option list) option"

subsection \<open>client.go\<close>

definition SchemaMessages :: "ent_msg list" where
  "SchemaMessages = [NotificationMsg empty_UserNotification, DeviceMsg empty_DeviceRegistration]"

definition systemActor :: string where "systemActor = ''system:notify''"

record 'db EntClient =
  ec_client :: "'db Sdk"
  ec_tenantID :: string

definition ent_NewClient :: "'db Sdk \<Rightarrow> string \<Rightarrow> 'db EntClient" where
  "ent_NewClient c tenantID = \<lparr>ec_client = c, ec_tenantID = tenantID\<rparr>"

definition scope :: "'db EntClient \<Rightarrow> string \<Rightarrow> sdk_error + Scope" where
  "scope c actor = (case sdk_ParseActor (ec_client c) actor of
     Inl err \<Rightarrow> Inl err
   | Inr a \<Rightarrow> Inr \<lparr>sco_Tenant = ec_tenantID c, sco_Actor = a\<rparr>)"

definition notifActor :: "string \<Rightarrow> string" where
  "notifActor userID = systemActor"

text \<open>\<open>strings.Contains\<close>.\<close>

definition Contains :: "string \<Rightarrow> string \<Rightarrow> bool" where
  "Contains s sub \<longleftrightarrow> (\<exists>k \<in> {0..length s}. take (length sub) (drop k s) = sub)"

definition isTenantNotOpened :: "sdk_error option \<Rightarrow> bool" where
  "isTenantNotOpened err = (case err of
     None \<Rightarrow> False
   | Some e \<Rightarrow>
       let msg = sdk_Error e in
       if Contains msg ''tenant not opened'' then True
       else if Contains msg ''tenant not found'' then True
       else False)"

subsection \<open>helpers.go: ids and keys\<close>

definition typeIDUserNotification :: int where "typeIDUserNotification = 1"
definition typeIDDeviceRegistration :: int where "typeIDDeviceRegistration = 2"

definition unFieldNotificationID :: int where "unFieldNotificationID = 1"
definition unFieldTenantID :: int where "unFieldTenantID = 2"
definition unFieldUserID :: int where "unFieldUserID = 3"
definition unFieldSubjectRef :: int where "unFieldSubjectRef = 4"
definition unFieldSubjectType :: int where "unFieldSubjectType = 5"
definition unFieldTitle :: int where "unFieldTitle = 6"
definition unFieldBody :: int where "unFieldBody = 7"
definition unFieldChannel :: int where "unFieldChannel = 8"
definition unFieldDeliveryStatus :: int where "unFieldDeliveryStatus = 9"
definition unFieldCreatedAtMS :: int where "unFieldCreatedAtMS = 10"
definition unFieldDeliveredAtMS :: int where "unFieldDeliveredAtMS = 11"
definition unFieldAckAtMS :: int where "unFieldAckAtMS = 12"
definition unFieldReadAtMS :: int where "unFieldReadAtMS = 13"
definition unFieldCompositeKey :: int where "unFieldCompositeKey = 14"

definition drFieldTenantID :: int where "drFieldTenantID = 1"
definition drFieldUserID :: int where "drFieldUserID = 2"
definition drFieldDeviceType :: int where "drFieldDeviceType = 3"
definition drFieldToken :: int where "drFieldToken = 4"
definition drFieldCreatedAtMS :: int where "drFieldCreatedAtMS = 5"
definition drFieldLastActiveMS :: int where "drFieldLastActiveMS = 6"
definition drFieldCompositeKey :: int where "drFieldCompositeKey = 7"

lemmas un_fields = unFieldNotificationID_def unFieldTenantID_def unFieldUserID_def unFieldSubjectRef_def
  unFieldSubjectType_def unFieldTitle_def unFieldBody_def unFieldChannel_def unFieldDeliveryStatus_def
  unFieldCreatedAtMS_def unFieldDeliveredAtMS_def unFieldAckAtMS_def unFieldReadAtMS_def unFieldCompositeKey_def
lemmas dr_fields = drFieldTenantID_def drFieldUserID_def drFieldDeviceType_def drFieldToken_def
  drFieldCreatedAtMS_def drFieldLastActiveMS_def drFieldCompositeKey_def
lemmas type_ids = typeIDUserNotification_def typeIDDeviceRegistration_def

definition notifByCompositeKey :: UniqueKey where
  "notifByCompositeKey = \<lparr>uk_TypeID = typeIDUserNotification, uk_FieldID = unFieldCompositeKey, uk_Name = ''composite_key''\<rparr>"

definition deviceByCompositeKey :: UniqueKey where
  "deviceByCompositeKey = \<lparr>uk_TypeID = typeIDDeviceRegistration, uk_FieldID = drFieldCompositeKey, uk_Name = ''composite_key''\<rparr>"

definition lpEncode :: "string \<Rightarrow> string" where
  "lpEncode s = FormatInt (int (length s)) @ '':'' @ s"

definition notificationCompositeKey :: "string \<Rightarrow> string \<Rightarrow> string \<Rightarrow> string" where
  "notificationCompositeKey tenantID userID notificationID =
     lpEncode tenantID @ lpEncode userID @ lpEncode notificationID"

definition deviceCompositeKey :: "string \<Rightarrow> string \<Rightarrow> string \<Rightarrow> string" where
  "deviceCompositeKey tenantID userID deviceType = lpEncode tenantID @ lpEncode userID @ lpEncode deviceType"

text \<open>The loop of \<open>decString\<close>, on the number left and the part of the buffer that is filled.\<close>

function dec_loop :: "int \<Rightarrow> string \<Rightarrow> string" where
  "dec_loop n buf = (if n > 0 then dec_loop (n div 10) (char_of (48 + nat (n mod 10)) # buf) else buf)"
  by pat_completeness auto
termination by (relation "measure (\<lambda>(n, buf). nat n)") auto

declare dec_loop.simps [simp del]

definition decString :: "int \<Rightarrow> string" where
  "decString n = (if n = 0 then ''0'' else dec_loop n '''')"

definition fieldKey :: "int \<Rightarrow> string" where
  "fieldKey fieldID = decString fieldID"

subsection \<open>helpers.go: calls of the SDK\<close>

definition find_node :: "'db EntClient \<Rightarrow> 'db \<Rightarrow> UniqueKey \<Rightarrow> string \<Rightarrow> string \<Rightarrow> sdk_error + string" where
  "find_node c db token actor key =
     (case scope c actor of
        Inl err \<Rightarrow> Inl err
      | Inr sc \<Rightarrow>
          (case sdk_GetByKey (ec_client c) db sc token key of
             Inl err \<Rightarrow> if isTenantNotOpened (Some err) then Inr '''' else Inl err
           | Inr None \<Rightarrow> Inr ''''
           | Inr (Some node) \<Rightarrow> Inr (nd_NodeID node)))"

definition findNotificationByKey :: "'db EntClient \<Rightarrow> 'db \<Rightarrow> string \<Rightarrow> string \<Rightarrow> sdk_error + string" where
  "findNotificationByKey c db actor key = find_node c db notifByCompositeKey actor key"

definition findDeviceByKey :: "'db EntClient \<Rightarrow> 'db \<Rightarrow> string \<Rightarrow> string \<Rightarrow> sdk_error + string" where
  "findDeviceByKey c db actor key = find_node c db deviceByCompositeKey actor key"

definition firstCreatedID :: "CommitResult option \<Rightarrow> sdk_error + string" where
  "firstCreatedID res = (case res of
     None \<Rightarrow> Inl (SdkError ''entdb: nil commit result'')
   | Some r \<Rightarrow>
       if \<not> cr_Success r
       then if cr_Error r \<noteq> '''' then Inl (SdkError (''entdb: commit failed: '' @ cr_Error r))
            else Inl (SdkError ''entdb: commit not successful'')
       else (case cr_CreatedNodeIDs r of
               [] \<Rightarrow> Inl (SdkError ''entdb: commit succeeded but no node id returned'')
             | i # _ \<Rightarrow> Inr i))"

definition commitCreate :: "'db EntClient \<Rightarrow> 'db \<Rightarrow> string \<Rightarrow> ent_msg \<Rightarrow> 'db \<times> (sdk_error + string)" where
  "commitCreate c db actor msg =
     (case scope c actor of
        Inl err \<Rightarrow> (db, Inl err)
      | Inr sc \<Rightarrow>
          (case sdk_Commit (ec_client c) db sc [PlanCreate msg] of
             (db, Inl err) \<Rightarrow> (db, Inl err)
           | (db, Inr res) \<Rightarrow> (db, firstCreatedID res)))"

definition commitUpdate :: "'db EntClient \<Rightarrow> 'db \<Rightarrow> string \<Rightarrow> string \<Rightarrow> ent_msg \<Rightarrow> 'db \<times> sdk_error option" where
  "commitUpdate c db actor nodeID patch =
     (case scope c actor of
        Inl err \<Rightarrow> (db, Some err)
      | Inr sc \<Rightarrow>
          (case sdk_Commit (ec_client c) db sc [PlanUpdate nodeID patch] of
             (db, Inl err) \<Rightarrow> (db, Some err)
           | (db, Inr _) \<Rightarrow> (db, None)))"

definition commitUpdateFields ::
  "'db EntClient \<Rightarrow> 'db \<Rightarrow> string \<Rightarrow> string \<Rightarrow> ent_msg \<Rightarrow> string list \<Rightarrow> 'db \<times> sdk_error option" where
  "commitUpdateFields c db actor nodeID patch flds =
     (case scope c actor of
        Inl err \<Rightarrow> (db, Some err)
      | Inr sc \<Rightarrow>
          (case sdk_Commit (ec_client c) db sc [PlanUpdateFields nodeID patch flds] of
             (db, Inl err) \<Rightarrow> (db, Some err)
           | (db, Inr _) \<Rightarrow> (db, None)))"

definition getUserNotification :: "'db EntClient \<Rightarrow> 'db \<Rightarrow> string \<Rightarrow> string \<Rightarrow> sdk_error + UserNotification option" where
  "getUserNotification c db actor nodeID =
     (case scope c actor of
        Inl err \<Rightarrow> Inl err
      | Inr sc \<Rightarrow> sdk_GetNotification (ec_client c) db sc nodeID)"

definition getDevice :: "'db EntClient \<Rightarrow> 'db \<Rightarrow> string \<Rightarrow> string \<Rightarrow> sdk_error + DeviceRegistration option" where
  "getDevice c db actor nodeID =
     (case scope c actor of
        Inl err \<Rightarrow> Inl err
      | Inr sc \<Rightarrow> sdk_GetDevice (ec_client c) db sc nodeID)"

definition query_nodes ::
  "'db EntClient \<Rightarrow> 'db \<Rightarrow> string \<Rightarrow> int \<Rightarrow> (string \<times> string) list \<Rightarrow> sdk_error + Node option list" where
  "query_nodes c db actor typeID filters =
     (case sdk_QueryNodes (ec_client c) of
        None \<Rightarrow> Inl (SdkError ''entdb: raw transport unavailable'')
      | Some QueryNodes \<Rightarrow>
          (case QueryNodes db (ec_tenantID c) actor typeID filters 0 of
             Inl err \<Rightarrow> if isTenantNotOpened (Some err) then Inr [] else Inl err
           | Inr nodes \<Rightarrow> Inr nodes))"

definition queryUserNotifications :: "'db EntClient \<Rightarrow> 'db \<Rightarrow> string \<Rightarrow> string \<Rightarrow> string \<Rightarrow> sdk_error + Node option list" where
  "queryUserNotifications c db actor tenantID userID =
     query_nodes c db actor typeIDUserNotification
       [(fieldKey unFieldTenantID, tenantID), (fieldKey unFieldUserID, userID)]"

definition queryDevices :: "'db EntClient \<Rightarrow> 'db \<Rightarrow> string \<Rightarrow> string \<Rightarrow> string \<Rightarrow> sdk_error + Node option list" where
  "queryDevices c db actor tenantID userID =
     query_nodes c db actor typeIDDeviceRegistration
       [(fieldKey drFieldTenantID, tenantID), (fieldKey drFieldUserID, userID)]"

definition unmarshalNotification ::
  "'db EntClient \<Rightarrow> 'db \<Rightarrow> string \<Rightarrow> Node option \<Rightarrow> sdk_error + (string \<times> UserNotification option)" where
  "unmarshalNotification c db actor node = (case node of
     None \<Rightarrow> Inr ('''', None)
   | Some nd \<Rightarrow> (case getUserNotification c db actor (nd_NodeID nd) of
        Inl err \<Rightarrow> Inl err
      | Inr msg \<Rightarrow> Inr (nd_NodeID nd, msg)))"

definition unmarshalDevice ::
  "'db EntClient \<Rightarrow> 'db \<Rightarrow> string \<Rightarrow> Node option \<Rightarrow> sdk_error + (string \<times> DeviceRegistration option)" where
  "unmarshalDevice c db actor node = (case node of
     None \<Rightarrow> Inr ('''', None)
   | Some nd \<Rightarrow> (case getDevice c db actor (nd_NodeID nd) of
        Inl err \<Rightarrow> Inl err
      | Inr msg \<Rightarrow> Inr (nd_NodeID nd, msg)))"

subsection \<open>store.go: messages\<close>

definition ent_notificationToProto :: "Notification \<Rightarrow> UserNotification" where
  "ent_notificationToProto n = \<lparr>un_NotificationId = NotificationID n, un_TenantId = TenantID n, un_UserId = UserID n,
     un_SubjectRef = SubjectRef n, un_SubjectType = SubjectType n, un_Title = Title n, un_Body = Body n,
     un_Channel = Channel n, un_DeliveryStatus = Status n, un_CreatedAtMs = CreatedAtMS n,
     un_DeliveredAtMs = DeliveredAtMS n, un_AckAtMs = AckAtMS n, un_ReadAtMs = ReadAtMS n,
     un_CompositeKey = notificationCompositeKey (TenantID n) (UserID n) (NotificationID n)\<rparr>"

definition ent_notificationFromProto :: "string \<Rightarrow> UserNotification \<Rightarrow> Notification" where
  "ent_notificationFromProto i p = \<lparr>ID = i, NotificationID = un_NotificationId p, TenantID = un_TenantId p,
     UserID = un_UserId p, SubjectRef = un_SubjectRef p, SubjectType = un_SubjectType p, Title = un_Title p,
     Body = un_Body p, Channel = un_Channel p, Status = un_DeliveryStatus p, CreatedAtMS = un_CreatedAtMs p,
     DeliveredAtMS = un_DeliveredAtMs p, AckAtMS = un_AckAtMs p, ReadAtMS = un_ReadAtMs p\<rparr>"

definition ent_deviceToProto :: "Device \<Rightarrow> DeviceRegistration" where
  "ent_deviceToProto d = \<lparr>dr_TenantId = dev_TenantID d, dr_UserId = dev_UserID d, dr_DeviceType = dev_DeviceType d,
     dr_Token = dev_Token d, dr_CreatedAtMs = dev_CreatedAtMS d, dr_LastActiveMs = dev_LastActiveMS d,
     dr_CompositeKey = deviceCompositeKey (dev_TenantID d) (dev_UserID d) (dev_DeviceType d)\<rparr>"

definition ent_deviceFromProto :: "string \<Rightarrow> DeviceRegistration \<Rightarrow> Device" where
  "ent_deviceFromProto i p = \<lparr>dev_ID = i, dev_TenantID = dr_TenantId p, dev_UserID = dr_UserId p,
     dev_DeviceType = dr_DeviceType p, dev_Token = dr_Token p, dev_CreatedAtMS = dr_CreatedAtMs p,
     dev_LastActiveMS = dr_LastActiveMs p\<rparr>"

subsection \<open>store.go: operations\<close>

definition ent_create :: "'db EntClient \<Rightarrow> 'db \<Rightarrow> Notification \<Rightarrow> 'db \<times> Notification \<times> (goerror + bool)" where
  "ent_create c db n =
     (let actor = notifActor (UserID n);
          msg = ent_notificationToProto n
      in case commitCreate c db actor (NotificationMsg msg) of
           (db, Inr canonicalID) \<Rightarrow> (db, n\<lparr>ID := canonicalID\<rparr>, Inr True)
         | (db, Inl err) \<Rightarrow>
             if \<not> as_unique err then (db, n, Inl (ent_goerror err))
             else let key = notificationCompositeKey (TenantID n) (UserID n) (NotificationID n)
                  in case findNotificationByKey c db actor key of
                       Inl ferr \<Rightarrow> (db, n, Inl (ent_goerror ferr))
                     | Inr existingID \<Rightarrow>
                         if existingID = ''''
                         then (db, n, Inl (Errorf ''entdb: unique constraint hit but key %q not resolvable'' [key] None))
                         else (db, n\<lparr>ID := existingID\<rparr>, Inr False))"

definition ent_CreateNotification ::
  "'db EntClient \<Rightarrow> 'db \<Rightarrow> Notification option \<Rightarrow> 'db \<times> Notification option \<times> (goerror + bool)" where
  "ent_CreateNotification c db n =
     (case n of
        None \<Rightarrow> (db, None, Inl (New ''entdb: CreateNotification: nil notification''))
      | Some n \<Rightarrow> let (db, n, r) = ent_create c db n in (db, Some n, r))"

definition ent_GetNotification ::
  "'db EntClient \<Rightarrow> 'db \<Rightarrow> string \<Rightarrow> string \<Rightarrow> string \<Rightarrow> goerror + Notification" where
  "ent_GetNotification c db tenantID userID i =
     (let scoped = (\<lambda>got. if un_TenantId got \<noteq> tenantID \<or> un_UserId got \<noteq> userID then Inl ErrNotFound
                          else Inr (ent_notificationFromProto i got))
      in case getUserNotification c db (notifActor userID) i of
           Inl err \<Rightarrow> Inl (ent_goerror err)
         | Inr (Some got) \<Rightarrow> scoped got
         | Inr None \<Rightarrow>
             (case getUserNotification c db systemActor i of
                Inl err \<Rightarrow> Inl (ent_goerror err)
              | Inr None \<Rightarrow> Inl ErrNotFound
              | Inr (Some got) \<Rightarrow> scoped got))"

text \<open>The patch of \<open>UpdateStatus\<close> and the fields it names.\<close>

definition status_patch :: "DeliveryStatus \<Rightarrow> int \<Rightarrow> UserNotification \<times> string list" where
  "status_patch status atMS =
     (let patch = empty_UserNotification\<lparr>un_DeliveryStatus := status\<rparr>; flds = [''delivery_status''] in
      if status = StatusDelivered then (patch\<lparr>un_DeliveredAtMs := atMS\<rparr>, flds @ [''delivered_at_ms''])
      else if status = StatusAcked then (patch\<lparr>un_AckAtMs := atMS\<rparr>, flds @ [''ack_at_ms''])
      else if status = StatusRead then (patch\<lparr>un_ReadAtMs := atMS\<rparr>, flds @ [''read_at_ms''])
      else (patch, flds))"

definition ent_UpdateStatus ::
  "'db EntClient \<Rightarrow> 'db \<Rightarrow> string \<Rightarrow> string \<Rightarrow> DeliveryStatus \<Rightarrow> int \<Rightarrow> 'db \<times> goerror option" where
  "ent_UpdateStatus c db tenantID i status atMS =
     (case getUserNotification c db systemActor i of
        Inl err \<Rightarrow> (db, Some (ent_goerror err))
      | Inr None \<Rightarrow> (db, Some ErrNotFound)
      | Inr (Some got) \<Rightarrow>
          if un_TenantId got \<noteq> tenantID then (db, Some ErrNotFound)
          else let actor = notifActor (un_UserId got);
                   (patch, flds) = status_patch status atMS;
                   (db, err) = commitUpdateFields c db actor i (NotificationMsg patch) flds
               in (db, map_option ent_goerror err))"

text \<open>The loop over the nodes of \<open>QueryUserNotifications\<close>: the rows of the page window and the unread count.\<close>

fun ent_query_loop ::
  "'db EntClient \<Rightarrow> 'db \<Rightarrow> Query \<Rightarrow> Node option list \<Rightarrow> Notification list \<Rightarrow> int \<Rightarrow> sdk_error + (Notification list \<times> int)" where
  "ent_query_loop c db q [] rows unread = Inr (rows, unread)"
| "ent_query_loop c db q (node # nodes) rows unread =
     (case unmarshalNotification c db systemActor node of
        Inl uerr \<Rightarrow> Inl uerr
      | Inr (i, None) \<Rightarrow> ent_query_loop c db q nodes rows unread
      | Inr (i, Some msg) \<Rightarrow>
          if un_TenantId msg \<noteq> q_TenantID q \<or> un_UserId msg \<noteq> q_UserID q then ent_query_loop c db q nodes rows unread
          else let unread = (if un_DeliveryStatus msg \<noteq> StatusRead then unread + 1 else unread) in
               if q_UnreadOnly q \<and> un_DeliveryStatus msg = StatusRead then ent_query_loop c db q nodes rows unread
               else if (case q_CursorMS q of None \<Rightarrow> False | Some cur \<Rightarrow> un_CreatedAtMs msg \<ge> cur)
               then ent_query_loop c db q nodes rows unread
               else ent_query_loop c db q nodes (rows @ [ent_notificationFromProto i msg]) unread)"

definition ent_QueryUserNotifications ::
  "'db EntClient \<Rightarrow> 'db \<Rightarrow> Query \<Rightarrow> goerror + (Notification list \<times> string \<times> int)" where
  "ent_QueryUserNotifications c db q =
     (let limit = ClampLimit (q_Limit q) in
      case queryUserNotifications c db systemActor (q_TenantID q) (q_UserID q) of
        Inl err \<Rightarrow> Inl (ent_goerror err)
      | Inr nodes \<Rightarrow>
          (case ent_query_loop c db q nodes [] 0 of
             Inl uerr \<Rightarrow> Inl (ent_goerror uerr)
           | Inr (rows, unread) \<Rightarrow>
               let rows = sort_Slice (\<lambda>a b. if CreatedAtMS a \<noteq> CreatedAtMS b then CreatedAtMS a > CreatedAtMS b
                                           else ID a > ID b) rows;
                   (rows, nextCursor) =
                     (if int (length rows) > limit
                      then let rows = take (nat limit) rows
                           in (rows, FormatInt (CreatedAtMS (rows ! (length rows - 1))))
                      else (rows, ''''))
               in Inr (rows, nextCursor, unread)))"

definition readDeviceBack :: "'db EntClient \<Rightarrow> 'db \<Rightarrow> string \<Rightarrow> string \<Rightarrow> Device \<Rightarrow> goerror + Device" where
  "readDeviceBack c db actor i fallback =
     (case getDevice c db actor i of
        Inl err \<Rightarrow> Inl (ent_goerror err)
      | Inr None \<Rightarrow> Inr \<lparr>dev_ID = i, dev_TenantID = dev_TenantID fallback, dev_UserID = dev_UserID fallback,
          dev_DeviceType = dev_DeviceType fallback, dev_Token = dev_Token fallback,
          dev_CreatedAtMS = dev_CreatedAtMS fallback, dev_LastActiveMS = dev_LastActiveMS fallback\<rparr>
      | Inr (Some got) \<Rightarrow> Inr (ent_deviceFromProto i got))"

definition ent_upsert :: "'db EntClient \<Rightarrow> 'db \<Rightarrow> Device \<Rightarrow> 'db \<times> Device \<times> (goerror + Device)" where
  "ent_upsert c db d =
     (let actor = notifActor (dev_UserID d) in
      case commitCreate c db actor (DeviceMsg (ent_deviceToProto d)) of
        (db, Inr canonicalID) \<Rightarrow>
          let d = d\<lparr>dev_ID := canonicalID\<rparr> in (db, d, readDeviceBack c db actor canonicalID d)
      | (db, Inl err) \<Rightarrow>
          if \<not> as_unique err then (db, d, Inl (ent_goerror err))
          else let key = deviceCompositeKey (dev_TenantID d) (dev_UserID d) (dev_DeviceType d)
               in case findDeviceByKey c db actor key of
                    Inl ferr \<Rightarrow> (db, d, Inl (ent_goerror ferr))
                  | Inr existingID \<Rightarrow>
                      if existingID = ''''
                      then (db, d, Inl (Errorf ''entdb: UpsertDevice: unique constraint hit but key %q not resolvable'' [key] None))
                      else let patch = empty_DeviceRegistration\<lparr>dr_Token := dev_Token d, dr_LastActiveMs := dev_LastActiveMS d\<rparr>
                           in case commitUpdateFields c db actor existingID (DeviceMsg patch) [''token'', ''last_active_ms''] of
                                (db, Some err) \<Rightarrow> (db, d, Inl (ent_goerror err))
                              | (db, None) \<Rightarrow> (db, d, readDeviceBack c db actor existingID d))"

definition ent_UpsertDevice ::
  "'db EntClient \<Rightarrow> 'db \<Rightarrow> Device option \<Rightarrow> 'db \<times> Device option \<times> (goerror + Device)" where
  "ent_UpsertDevice c db d =
     (case d of
        None \<Rightarrow> (db, None, Inl (New ''entdb: UpsertDevice: nil device''))
      | Some d \<Rightarrow> let (db, d, r) = ent_upsert c db d in (db, Some d, r))"

fun ent_list_loop ::
  "'db EntClient \<Rightarrow> 'db \<Rightarrow> string \<Rightarrow> string \<Rightarrow> Node option list \<Rightarrow> Device list \<Rightarrow> sdk_error + Device list" where
  "ent_list_loop c db tenantID userID [] out = Inr out"
| "ent_list_loop c db tenantID userID (node # nodes) out =
     (case unmarshalDevice c db systemActor node of
        Inl uerr \<Rightarrow> Inl uerr
      | Inr (i, None) \<Rightarrow> ent_list_loop c db tenantID userID nodes out
      | Inr (i, Some msg) \<Rightarrow>
          if dr_TenantId msg \<noteq> tenantID \<or> dr_UserId msg \<noteq> userID then ent_list_loop c db tenantID userID nodes out
          else ent_list_loop c db tenantID userID nodes (out @ [ent_deviceFromProto i msg]))"

definition ent_ListDevices :: "'db EntClient \<Rightarrow> 'db \<Rightarrow> string \<Rightarrow> string \<Rightarrow> goerror + Device list" where
  "ent_ListDevices c db tenantID userID =
     (case queryDevices c db systemActor tenantID userID of
        Inl err \<Rightarrow> Inl (ent_goerror err)
      | Inr nodes \<Rightarrow>
          (case ent_list_loop c db tenantID userID nodes [] of
             Inl uerr \<Rightarrow> Inl (ent_goerror uerr)
           | Inr out \<Rightarrow> Inr (sort_Slice (\<lambda>a b. dev_DeviceType a < dev_DeviceType b) out)))"

definition entdb_ops :: "'db EntClient \<Rightarrow> 'db StoreOps" where
  "entdb_ops c = \<lparr>CreateNotification = ent_create c, GetNotification = ent_GetNotification c,
     UpdateStatus = ent_UpdateStatus c, QueryUserNotifications = ent_QueryUserNotifications c,
     UpsertDevice = ent_upsert c, ListDevices = ent_ListDevices c\<rparr>"

definition NewFromClient :: "'db EntClient \<Rightarrow> 'db StoreOps" where
  "NewFromClient c = entdb_ops c"

definition New_entdb :: "'db Sdk \<Rightarrow> string \<Rightarrow> 'db StoreOps" where
  "New_entdb client tenantID = entdb_ops (ent_NewClient client tenantID)"

lemma entdb_ops_simps [simp]:
  "CreateNotification (entdb_ops c) = ent_create c"
  "GetNotification (entdb_ops c) = ent_GetNotification c"
  "UpdateStatus (entdb_ops c) = ent_UpdateStatus c"
  "QueryUserNotifications (entdb_ops c) = ent_QueryUserNotifications c"
  "UpsertDevice (entdb_ops c) = ent_upsert c"
  "ListDevices (entdb_ops c) = ent_ListDevices c"
  by (simp_all add: entdb_ops_def)

subsection \<open>Keys\<close>


lemma colon_not_digit: "CHR '':'' \<notin> set (format_uint n)"
proof
  assume "CHR '':'' \<in> set (format_uint n)"
  then have "digit_of (CHR '':'') \<noteq> None" by (rule format_uint_digits)
  then show False by (simp add: digit_of_def)
qed

text \<open>A length-prefixed part can be taken off whatever follows it.\<close>

lemma lpEncode_split:
  assumes "lpEncode a @ x = lpEncode b @ y"
  shows "a = b \<and> x = y"
proof -
  let ?d = "\<lambda>s. format_uint (length s)"
  have eq: "?d a @ CHR '':'' # a @ x = ?d b @ CHR '':'' # b @ y"
    using assms by (simp add: lpEncode_def FormatInt_nat)
  have "takeWhile (\<lambda>c. c \<noteq> CHR '':'') (?d s @ CHR '':'' # r) = ?d s" for s r
    by (rule takeWhile_tail [THEN trans]) (use colon_not_digit in auto)
  then have "?d a = ?d b" using arg_cong [OF eq, of "takeWhile (\<lambda>c. c \<noteq> CHR '':'')"] by metis
  then have len: "length a = length b" by (simp add: format_uint_inj)
  with eq show ?thesis by simp
qed

lemma composite_keys:
  "notificationCompositeKey t u i = notificationCompositeKey t' u' i' \<longleftrightarrow> t = t' \<and> u = u' \<and> i = i'"
  "deviceCompositeKey t u i = deviceCompositeKey t' u' i' \<longleftrightarrow> t = t' \<and> u = u' \<and> i = i'"
proof -
  have "lpEncode t @ lpEncode u @ lpEncode i = lpEncode t' @ lpEncode u' @ lpEncode i' \<Longrightarrow> t = t' \<and> u = u' \<and> i = i'"
    using lpEncode_split [of t "lpEncode u @ lpEncode i" t' "lpEncode u' @ lpEncode i'"]
      lpEncode_split [of u "lpEncode i" u' "lpEncode i'"] lpEncode_split [of i "[]" i' "[]"] by auto
  then show "notificationCompositeKey t u i = notificationCompositeKey t' u' i' \<longleftrightarrow> t = t' \<and> u = u' \<and> i = i'"
    "deviceCompositeKey t u i = deviceCompositeKey t' u' i' \<longleftrightarrow> t = t' \<and> u = u' \<and> i = i'"
    by (auto simp: notificationCompositeKey_def deviceCompositeKey_def)
qed

text \<open>C23. The composite keys are unambiguous: two keys are the same string only for the same tenant, user and
  third part, whatever bytes the parts contain, separators and digits included.\<close>

theorem composite_key_injective:
  "(notificationCompositeKey t u i = notificationCompositeKey t' u' i' \<longleftrightarrow> t = t' \<and> u = u' \<and> i = i') \<and>
   (deviceCompositeKey t u i = deviceCompositeKey t' u' i' \<longleftrightarrow> t = t' \<and> u = u' \<and> i = i')"
  by (simp add: composite_keys)


lemma dec_loop_eq: "dec_loop n buf = (if n > 0 then format_uint (nat n) @ buf else buf)"
proof (induction n buf rule: dec_loop.induct)
  case (1 n buf)
  show ?case
  proof (cases "n > 0")
    case True
    let ?c = "char_of (48 + nat (n mod 10)) :: char"
    have m: "nat (n mod 10) = nat n mod 10" "nat (n div 10) = nat n div 10" using True by (simp_all add: nat_mod_distrib nat_div_distrib)
    have "dec_loop n buf = dec_loop (n div 10) (?c # buf)" using True by (subst dec_loop.simps) simp
    also have "\<dots> = (if n div 10 > 0 then format_uint (nat (n div 10)) @ ?c # buf else ?c # buf)" by (rule 1 [OF True])
    also have "\<dots> = format_uint (nat n) @ buf"
      using True m by (subst (2) format_uint.simps) (auto simp: digit_char_def)
    finally show ?thesis using True by simp
  qed (simp add: dec_loop.simps)
qed

lemma decString_eq: "0 \<le> n \<Longrightarrow> decString n = FormatInt n"
proof (cases "n = 0")
  case True
  have "format_uint 0 = ''0''" by code_simp
  with True show ?thesis by (simp add: decString_def FormatInt_def)
qed (simp add: decString_def dec_loop_eq FormatInt_def)

lemma format_uint_length: "m < 10 ^ Suc k \<Longrightarrow> length (format_uint m) \<le> Suc k"
proof (induction k arbitrary: m)
  case 0
  then show ?case by (simp add: format_uint.simps)
next
  case (Suc k)
  show ?case
  proof (cases "m < 10")
    case False
    have "m div 10 < 10 ^ Suc k" using Suc.prems by (simp add: less_mult_imp_div_less mult.commute)
    from Suc.IH [OF this] False show ?thesis by (subst format_uint.simps) simp
  qed (simp add: format_uint.simps)
qed

text \<open>\<open>decString\<close> prints every non-negative 64-bit integer in decimal, and never needs more than the 20
  bytes of its buffer.\<close>

theorem decString_decimal:
  assumes "0 \<le> n" "is_int64 n"
  shows "decString n = FormatInt n \<and> length (decString n) \<le> 20"
proof -
  have "n < 10 ^ Suc 18" using assms(2) by (simp add: is_int64_def)
  then have "nat n < 10 ^ Suc 18" using assms(1) by (simp add: nat_less_iff)
  from format_uint_length [OF this] assms(1) show ?thesis by (simp add: decString_eq FormatInt_def)
qed

theorem decString_decimal_witness: "decString 9223372036854775807 = FormatInt 9223372036854775807 \<and> length (decString 9223372036854775807) \<le> 20"
  by (rule decString_decimal) (simp_all add: is_int64_def)

end
