(* ===== verification/EntDB_Store.thy ===== *)
theory EntDB_Store
  imports EntDB
begin

text \<open>
  The contracts of the entdb driver. \<open>entdb_service\<close> states what the SDK and the server promise: a
  commit of a create stores the message under a fresh node id unless its composite key is taken, which
  is the typed unique-constraint error; a commit of named fields changes those fields; reads see what
  was committed; a query by field ids returns the matching nodes, and on a tenant nothing was ever
  written to it may instead fail with the tenant-not-opened signal. The driver keeps both store
  contracts on every such service.
\<close>

subsection \<open>What the server holds\<close>

record ent_nodes =
  en_notifs :: "(string \<times> UserNotification) list"
  en_devs :: "(string \<times> DeviceRegistration) list"

text \<open>The string fields under their numbers in \<open>proto/entdb_notify/notify.proto\<close>.\<close>

definition un_field :: "UserNotification \<Rightarrow> int \<Rightarrow> string option" where
  "un_field m = map_of [(1, un_NotificationId m), (2, un_TenantId m), (3, un_UserId m), (4, un_SubjectRef m),
     (5, un_SubjectType m), (6, un_Title m), (7, un_Body m), (8, un_Channel m), (9, un_DeliveryStatus m),
     (14, un_CompositeKey m)]"

definition dr_field :: "DeviceRegistration \<Rightarrow> int \<Rightarrow> string option" where
  "dr_field m = map_of [(1, dr_TenantId m), (2, dr_UserId m), (3, dr_DeviceType m), (4, dr_Token m), (7, dr_CompositeKey m)]"

text \<open>A filter names fields by their numbers in decimal.\<close>

definition filters_match :: "(int \<Rightarrow> string option) \<Rightarrow> (string \<times> string) list \<Rightarrow> bool" where
  "filters_match field fs \<longleftrightarrow> list_all (\<lambda>(k, v). list_ex (\<lambda>j. k = FormatInt j \<and> field j = Some v) [1..20]) fs"

text \<open>The fields of a patch under their names in the schema.\<close>

definition un_set :: "UserNotification \<Rightarrow> string \<Rightarrow> UserNotification \<Rightarrow> UserNotification" where
  "un_set p f m =
     (if f = ''notification_id'' then m\<lparr>un_NotificationId := un_NotificationId p\<rparr>
      else if f = ''tenant_id'' then m\<lparr>un_TenantId := un_TenantId p\<rparr>
      else if f = ''user_id'' then m\<lparr>un_UserId := un_UserId p\<rparr>
      else if f = ''subject_ref'' then m\<lparr>un_SubjectRef := un_SubjectRef p\<rparr>
      else if f = ''subject_type'' then m\<lparr>un_SubjectType := un_SubjectType p\<rparr>
      else if f = ''title'' then m\<lparr>un_Title := un_Title p\<rparr>
      else if f = ''body'' then m\<lparr>un_Body := un_Body p\<rparr>
      else if f = ''channel'' then m\<lparr>un_Channel := un_Channel p\<rparr>
      else if f = ''delivery_status'' then m\<lparr>un_DeliveryStatus := un_DeliveryStatus p\<rparr>
      else if f = ''created_at_ms'' then m\<lparr>un_CreatedAtMs := un_CreatedAtMs p\<rparr>
      else if f = ''delivered_at_ms'' then m\<lparr>un_DeliveredAtMs := un_DeliveredAtMs p\<rparr>
      else if f = ''ack_at_ms'' then m\<lparr>un_AckAtMs := un_AckAtMs p\<rparr>
      else if f = ''read_at_ms'' then m\<lparr>un_ReadAtMs := un_ReadAtMs p\<rparr>
      else if f = ''composite_key'' then m\<lparr>un_CompositeKey := un_CompositeKey p\<rparr>
      else m)"

definition dr_set :: "DeviceRegistration \<Rightarrow> string \<Rightarrow> DeviceRegistration \<Rightarrow> DeviceRegistration" where
  "dr_set p f m =
     (if f = ''tenant_id'' then m\<lparr>dr_TenantId := dr_TenantId p\<rparr>
      else if f = ''user_id'' then m\<lparr>dr_UserId := dr_UserId p\<rparr>
      else if f = ''device_type'' then m\<lparr>dr_DeviceType := dr_DeviceType p\<rparr>
      else if f = ''token'' then m\<lparr>dr_Token := dr_Token p\<rparr>
      else if f = ''created_at_ms'' then m\<lparr>dr_CreatedAtMs := dr_CreatedAtMs p\<rparr>
      else if f = ''last_active_ms'' then m\<lparr>dr_LastActiveMs := dr_LastActiveMs p\<rparr>
      else if f = ''composite_key'' then m\<lparr>dr_CompositeKey := dr_CompositeKey p\<rparr>
      else m)"

text \<open>Messages the server accepts: strings it can hold, and no empty field that the schema requires.\<close>

definition un_ok :: "(string \<Rightarrow> bool) \<Rightarrow> UserNotification \<Rightarrow> bool" where
  "un_ok str_ok m \<longleftrightarrow> list_all str_ok [un_NotificationId m, un_TenantId m, un_UserId m, un_SubjectRef m,
       un_SubjectType m, un_Title m, un_Body m, un_Channel m, un_DeliveryStatus m, un_CompositeKey m] \<and>
     '''' \<notin> set [un_NotificationId m, un_TenantId m, un_UserId m, un_DeliveryStatus m, un_CompositeKey m]"

definition dr_ok :: "(string \<Rightarrow> bool) \<Rightarrow> DeviceRegistration \<Rightarrow> bool" where
  "dr_ok str_ok m \<longleftrightarrow> list_all str_ok [dr_TenantId m, dr_UserId m, dr_DeviceType m, dr_Token m, dr_CompositeKey m] \<and>
     '''' \<notin> set [dr_TenantId m, dr_UserId m, dr_DeviceType m, dr_Token m, dr_CompositeKey m]"

definition committed :: "string list \<Rightarrow> CommitResult option" where
  "committed ids = Some \<lparr>cr_Success = True, cr_Error = '''', cr_CreatedNodeIDs = ids\<rparr>"

definition node_list :: "string list \<Rightarrow> Node option list" where
  "node_list ids = map (\<lambda>i. Some \<lparr>nd_NodeID = i\<rparr>) ids"

subsection \<open>The service\<close>

definition ent_scope :: "'db EntClient \<Rightarrow> string \<Rightarrow> Scope" where
  "ent_scope c actor = \<lparr>sco_Tenant = ec_tenantID c, sco_Actor = actor\<rparr>"

locale entdb_service =
  fixes c :: "'db EntClient"
    and actor :: string
    and ent :: "'db \<Rightarrow> ent_nodes"
    and up :: "'db \<Rightarrow> bool"
    and str_ok :: "string \<Rightarrow> bool"
    and query :: "'db \<Rightarrow> string \<Rightarrow> string \<Rightarrow> int \<Rightarrow> (string \<times> string) list \<Rightarrow> int \<Rightarrow> sdk_error + Node option list"
  assumes parse_actor: "sdk_ParseActor (ec_client c) systemActor = Inr actor"
    and create_notif: "up db \<Longrightarrow> un_ok str_ok m \<Longrightarrow> un_CompositeKey m \<notin> un_CompositeKey ` snd ` set (en_notifs (ent db)) \<Longrightarrow>
      \<exists>db' i. sdk_Commit (ec_client c) db (ent_scope c actor) [PlanCreate (NotificationMsg m)] = (db', Inr (committed [i])) \<and> up db' \<and>
        i \<noteq> '''' \<and> str_ok i \<and> i \<notin> fst ` set (en_notifs (ent db)) \<and>
        ent db' = (ent db)\<lparr>en_notifs := en_notifs (ent db) @ [(i, m)]\<rparr>"
    and create_notif_taken: "up db \<Longrightarrow> un_ok str_ok m \<Longrightarrow> un_CompositeKey m \<in> un_CompositeKey ` snd ` set (en_notifs (ent db)) \<Longrightarrow>
      \<exists>db' e. sdk_Commit (ec_client c) db (ent_scope c actor) [PlanCreate (NotificationMsg m)] = (db', Inl e) \<and> as_unique e \<and>
        up db' \<and> ent db' = ent db"
    and create_dev: "up db \<Longrightarrow> dr_ok str_ok d \<Longrightarrow> dr_CompositeKey d \<notin> dr_CompositeKey ` snd ` set (en_devs (ent db)) \<Longrightarrow>
      \<exists>db' i. sdk_Commit (ec_client c) db (ent_scope c actor) [PlanCreate (DeviceMsg d)] = (db', Inr (committed [i])) \<and> up db' \<and>
        i \<noteq> '''' \<and> str_ok i \<and> i \<notin> fst ` set (en_devs (ent db)) \<and>
        ent db' = (ent db)\<lparr>en_devs := en_devs (ent db) @ [(i, d)]\<rparr>"
    and create_dev_taken: "up db \<Longrightarrow> dr_ok str_ok d \<Longrightarrow> dr_CompositeKey d \<in> dr_CompositeKey ` snd ` set (en_devs (ent db)) \<Longrightarrow>
      \<exists>db' e. sdk_Commit (ec_client c) db (ent_scope c actor) [PlanCreate (DeviceMsg d)] = (db', Inl e) \<and> as_unique e \<and>
        up db' \<and> ent db' = ent db"
    and update_notif: "up db \<Longrightarrow> map_of (en_notifs (ent db)) i = Some m \<Longrightarrow> m' = fold (un_set p) fs m \<Longrightarrow> un_ok str_ok m' \<Longrightarrow>
      un_CompositeKey m' = un_CompositeKey m \<Longrightarrow>
      \<exists>db'. sdk_Commit (ec_client c) db (ent_scope c actor) [PlanUpdateFields i (NotificationMsg p) fs] = (db', Inr (committed [])) \<and> up db' \<and>
        ent db' = (ent db)\<lparr>en_notifs := AList.update i m' (en_notifs (ent db))\<rparr>"
    and update_dev: "up db \<Longrightarrow> map_of (en_devs (ent db)) i = Some d \<Longrightarrow> d' = fold (dr_set p') fs d \<Longrightarrow> dr_ok str_ok d' \<Longrightarrow>
      dr_CompositeKey d' = dr_CompositeKey d \<Longrightarrow>
      \<exists>db'. sdk_Commit (ec_client c) db (ent_scope c actor) [PlanUpdateFields i (DeviceMsg p') fs] = (db', Inr (committed [])) \<and> up db' \<and>
        ent db' = (ent db)\<lparr>en_devs := AList.update i d' (en_devs (ent db))\<rparr>"
    and get_notif: "up db \<Longrightarrow> str_ok i \<Longrightarrow> sdk_GetNotification (ec_client c) db (ent_scope c actor) i = Inr (map_of (en_notifs (ent db)) i)"
    and get_dev: "up db \<Longrightarrow> str_ok i \<Longrightarrow> sdk_GetDevice (ec_client c) db (ent_scope c actor) i = Inr (map_of (en_devs (ent db)) i)"
    and notif_by_key: "up db \<Longrightarrow> uk_TypeID tok = 1 \<Longrightarrow> uk_FieldID tok = 14 \<Longrightarrow>
      (i, m) \<in> set (en_notifs (ent db)) \<Longrightarrow> un_CompositeKey m = key \<Longrightarrow>
      distinct (map (un_CompositeKey \<circ> snd) (en_notifs (ent db))) \<Longrightarrow>
      sdk_GetByKey (ec_client c) db (ent_scope c actor) tok key = Inr (Some \<lparr>nd_NodeID = i\<rparr>)"
    and dev_by_key: "up db \<Longrightarrow> uk_TypeID tok = 2 \<Longrightarrow> uk_FieldID tok = 7 \<Longrightarrow>
      (i, d) \<in> set (en_devs (ent db)) \<Longrightarrow> dr_CompositeKey d = key \<Longrightarrow>
      distinct (map (dr_CompositeKey \<circ> snd) (en_devs (ent db))) \<Longrightarrow>
      sdk_GetByKey (ec_client c) db (ent_scope c actor) tok key = Inr (Some \<lparr>nd_NodeID = i\<rparr>)"
    and transport: "sdk_QueryNodes (ec_client c) = Some query"
    and query_notifs: "up db \<Longrightarrow> list_all (str_ok \<circ> snd) flt \<Longrightarrow> distinct (map fst (en_notifs (ent db))) \<Longrightarrow>
      (\<exists>ids. query db (ec_tenantID c) systemActor 1 flt 0 = Inr (node_list ids) \<and> distinct ids \<and>
         set ids = {i. \<exists>m. (i, m) \<in> set (en_notifs (ent db)) \<and> filters_match (un_field m) flt}) \<or>
      en_notifs (ent db) = [] \<and> en_devs (ent db) = [] \<and>
        (\<exists>e. query db (ec_tenantID c) systemActor 1 flt 0 = Inl e \<and> isTenantNotOpened (Some e))"
    and query_devs: "up db \<Longrightarrow> list_all (str_ok \<circ> snd) flt \<Longrightarrow> distinct (map fst (en_devs (ent db))) \<Longrightarrow>
      (\<exists>ids. query db (ec_tenantID c) systemActor 2 flt 0 = Inr (node_list ids) \<and> distinct ids \<and>
         set ids = {i. \<exists>m. (i, m) \<in> set (en_devs (ent db)) \<and> filters_match (dr_field m) flt}) \<or>
      en_notifs (ent db) = [] \<and> en_devs (ent db) = [] \<and>
        (\<exists>e. query db (ec_tenantID c) systemActor 2 flt 0 = Inl e \<and> isTenantNotOpened (Some e))"
    and ascii_str: "plain_text s \<Longrightarrow> str_ok s"
    and str_append: "str_ok s \<Longrightarrow> str_ok t \<Longrightarrow> str_ok (s @ t)"

subsection \<open>The invariant and the rows\<close>

definition nodes_ok :: "(string \<Rightarrow> 'm \<Rightarrow> bool) \<Rightarrow> ('m \<Rightarrow> string) \<Rightarrow> (string \<times> 'm) list \<Rightarrow> bool" where
  "nodes_ok ok key xs \<longleftrightarrow> distinct (map fst xs) \<and> distinct (map (key \<circ> snd) xs) \<and> (\<forall>(i, m) \<in> set xs. ok i m)"

lemma update_map_same:
  "map_of xs i = Some x \<Longrightarrow> distinct (map fst xs) \<Longrightarrow> f y = f x \<Longrightarrow> map (f \<circ> snd) (AList.update i y xs) = map (f \<circ> snd) xs"
  by (induction xs) (auto split: if_splits simp: rev_image_eqI)

lemma update_fst_same: "map_of xs i = Some x \<Longrightarrow> map fst (AList.update i y xs) = map fst xs"
  by (induction xs) auto

lemma set_update_member: "(j, z) \<in> set (AList.update i y xs) \<Longrightarrow> (j, z) = (i, y) \<or> (j, z) \<in> set xs"
  by (induction xs) (auto split: if_splits)

lemma nodes_ok_snoc:
  "nodes_ok ok key xs \<Longrightarrow> i \<notin> fst ` set xs \<Longrightarrow> ok i m \<Longrightarrow> key m \<notin> key ` snd ` set xs \<Longrightarrow> nodes_ok ok key (xs @ [(i, m)])"
  by (auto simp: nodes_ok_def)

lemma nodes_ok_update:
  assumes "nodes_ok ok key xs" "map_of xs i = Some m" "ok i m'" "key m' = key m"
  shows "nodes_ok ok key (AList.update i m' xs)"
proof -
  have "\<forall>(j, z) \<in> set (AList.update i m' xs). ok j z"
    using assms(1,3) set_update_member unfolding nodes_ok_def by fastforce
  then show ?thesis
    using assms update_fst_same [OF assms(2)] update_map_same [OF assms(2), of key m'] by (simp add: nodes_ok_def)
qed

lemma nodes_ok_lookup: "nodes_ok ok key xs \<Longrightarrow> map_of xs i = Some m \<Longrightarrow> ok i m"
  by (auto simp: nodes_ok_def dest: map_of_SomeD)

definition un_node_ok :: "(string \<Rightarrow> bool) \<Rightarrow> string \<Rightarrow> UserNotification \<Rightarrow> bool" where
  "un_node_ok str_ok i m \<longleftrightarrow> i \<noteq> '''' \<and> str_ok i \<and> un_ok str_ok m \<and>
     un_CompositeKey m = notificationCompositeKey (un_TenantId m) (un_UserId m) (un_NotificationId m)"

definition dr_node_ok :: "(string \<Rightarrow> bool) \<Rightarrow> string \<Rightarrow> DeviceRegistration \<Rightarrow> bool" where
  "dr_node_ok str_ok i d \<longleftrightarrow> i \<noteq> '''' \<and> str_ok i \<and> dr_ok str_ok d \<and>
     dr_CompositeKey d = deviceCompositeKey (dr_TenantId d) (dr_UserId d) (dr_DeviceType d)"

definition ent_inv :: "('db \<Rightarrow> ent_nodes) \<Rightarrow> ('db \<Rightarrow> bool) \<Rightarrow> (string \<Rightarrow> bool) \<Rightarrow> 'db \<Rightarrow> bool" where
  "ent_inv ent up str_ok db \<longleftrightarrow> up db \<and> nodes_ok (un_node_ok str_ok) un_CompositeKey (en_notifs (ent db)) \<and>
     nodes_ok (dr_node_ok str_ok) dr_CompositeKey (en_devs (ent db))"

lemma ent_invD:
  assumes "ent_inv ent up str_ok db"
  shows "up db" "distinct (map fst (en_notifs (ent db)))" "distinct (map (un_CompositeKey \<circ> snd) (en_notifs (ent db)))"
    "distinct (map fst (en_devs (ent db)))" "distinct (map (dr_CompositeKey \<circ> snd) (en_devs (ent db)))"
    "(i, m) \<in> set (en_notifs (ent db)) \<Longrightarrow> un_node_ok str_ok i m"
    "(i, d) \<in> set (en_devs (ent db)) \<Longrightarrow> dr_node_ok str_ok i d"
    "nodes_ok (un_node_ok str_ok) un_CompositeKey (en_notifs (ent db))"
    "nodes_ok (dr_node_ok str_ok) dr_CompositeKey (en_devs (ent db))"
  using assms by (auto simp: ent_inv_def nodes_ok_def)

definition ent_row :: "('db \<Rightarrow> ent_nodes) \<Rightarrow> 'db \<Rightarrow> string \<Rightarrow> Notification option" where
  "ent_row ent db i = map_option (ent_notificationFromProto i) (map_of (en_notifs (ent db)) i)"

definition ent_devices :: "('db \<Rightarrow> ent_nodes) \<Rightarrow> 'db \<Rightarrow> Device list" where
  "ent_devices ent db = map (\<lambda>(i, d). ent_deviceFromProto i d) (en_devs (ent db))"

definition ent_dev :: "('db \<Rightarrow> ent_nodes) \<Rightarrow> 'db \<Rightarrow> devKey \<Rightarrow> Device option" where
  "ent_dev ent db = index_by dev_key (ent_devices ent db)"

definition ent_row_ok :: "(string \<Rightarrow> bool) \<Rightarrow> Notification \<Rightarrow> bool" where
  "ent_row_ok str_ok n \<longleftrightarrow> list_all str_ok [NotificationID n, TenantID n, UserID n, SubjectRef n, SubjectType n,
       Title n, Body n, Channel n, Status n] \<and> '''' \<notin> set [NotificationID n, TenantID n, UserID n, Status n]"

definition ent_dev_ok :: "(string \<Rightarrow> bool) \<Rightarrow> Device \<Rightarrow> bool" where
  "ent_dev_ok str_ok d \<longleftrightarrow> list_all str_ok [dev_TenantID d, dev_UserID d, dev_DeviceType d, dev_Token d] \<and>
     '''' \<notin> set [dev_TenantID d, dev_UserID d, dev_DeviceType d, dev_Token d]"

definition ent_arg_ok :: "(string \<Rightarrow> bool) \<Rightarrow> string \<Rightarrow> bool" where
  "ent_arg_ok str_ok s \<longleftrightarrow> str_ok s \<and> s \<noteq> ''''"

lemma from_to_proto [simp]:
  "ent_notificationFromProto i (ent_notificationToProto n) = n\<lparr>ID := i\<rparr>"
  "ent_deviceFromProto i (ent_deviceToProto d) = d\<lparr>dev_ID := i\<rparr>"
  by (simp_all add: ent_notificationFromProto_def ent_notificationToProto_def ent_deviceFromProto_def ent_deviceToProto_def)

lemma fromProto_simps [simp]:
  "ID (ent_notificationFromProto i m) = i" "TenantID (ent_notificationFromProto i m) = un_TenantId m"
  "UserID (ent_notificationFromProto i m) = un_UserId m" "Status (ent_notificationFromProto i m) = un_DeliveryStatus m"
  "NotificationID (ent_notificationFromProto i m) = un_NotificationId m"
  "CreatedAtMS (ent_notificationFromProto i m) = un_CreatedAtMs m"
  "dev_ID (ent_deviceFromProto i d) = i" "dev_TenantID (ent_deviceFromProto i d) = dr_TenantId d"
  "dev_UserID (ent_deviceFromProto i d) = dr_UserId d" "dev_DeviceType (ent_deviceFromProto i d) = dr_DeviceType d"
  by (simp_all add: ent_notificationFromProto_def ent_deviceFromProto_def)

lemma composite_notif_key:
  "notificationCompositeKey (TenantID m) (UserID m) (NotificationID m) =
   notificationCompositeKey (TenantID n) (UserID n) (NotificationID n) \<longleftrightarrow> notif_key m = notif_key n"
  by (simp add: composite_keys notif_key_def)

lemma composite_dev_key:
  "deviceCompositeKey (dev_TenantID d) (dev_UserID d) (dev_DeviceType d) =
   deviceCompositeKey (dev_TenantID e) (dev_UserID e) (dev_DeviceType e) \<longleftrightarrow> dev_key d = dev_key e"
  by (simp add: composite_keys dev_key_def)

lemma toProto_key [simp]:
  "un_CompositeKey (ent_notificationToProto n) = notificationCompositeKey (TenantID n) (UserID n) (NotificationID n)"
  "dr_CompositeKey (ent_deviceToProto d) = deviceCompositeKey (dev_TenantID d) (dev_UserID d) (dev_DeviceType d)"
  by (simp_all add: ent_notificationToProto_def ent_deviceToProto_def)

lemma map_of_update_distinct: "map_of (AList.update i x xs) = (map_of xs)(i \<mapsto> x)"
  by (simp add: update_conv')

text \<open>A status patch through the named fields is what the contract calls stamping the status.\<close>

lemma status_patch_stamp:
  assumes "status_patch st ms = (p, fs)"
  shows "ent_notificationFromProto i (fold (un_set p) fs m) = stamp_status st ms (ent_notificationFromProto i m)"
    and "un_CompositeKey (fold (un_set p) fs m) = un_CompositeKey m"
    and "un_TenantId (fold (un_set p) fs m) = un_TenantId m" "un_UserId (fold (un_set p) fs m) = un_UserId m"
      "un_NotificationId (fold (un_set p) fs m) = un_NotificationId m"
    and "un_ok str_ok m \<Longrightarrow> str_ok st \<Longrightarrow> st \<noteq> '''' \<Longrightarrow> un_ok str_ok (fold (un_set p) fs m)"
  using assms
  by (auto simp: status_patch_def un_set_def stamp_status_def ent_notificationFromProto_def status_defs un_ok_def
      empty_UserNotification_def Let_def split: if_splits)

subsection \<open>Single calls\<close>

context entdb_service
begin

lemma scope_system [simp]: "scope c systemActor = Inr (ent_scope c actor)"
  by (simp add: scope_def parse_actor ent_scope_def)

lemma lpEncode_str: "str_ok s \<Longrightarrow> str_ok (lpEncode s)"
proof -
  assume s: "str_ok s"
  have "str_ok (format_uint (length s))" by (rule ascii_str) simp
  moreover have "str_ok '':''" by (rule ascii_str) (simp add: is_ascii_def)
  ultimately show ?thesis using s str_append by (simp add: lpEncode_def FormatInt_nat del: append.simps)
qed

lemma composite_str:
  assumes "str_ok t" "str_ok u" "str_ok i"
  shows "str_ok (notificationCompositeKey t u i)" "str_ok (deviceCompositeKey t u i)"
    "'''' \<noteq> notificationCompositeKey t u i" "'''' \<noteq> deviceCompositeKey t u i"
  using assms by (simp_all add: notificationCompositeKey_def deviceCompositeKey_def str_append lpEncode_str) (simp_all add: lpEncode_def)

lemma toProto_ok: "ent_row_ok str_ok n \<Longrightarrow> un_ok str_ok (ent_notificationToProto n)"
  "ent_dev_ok str_ok d \<Longrightarrow> dr_ok str_ok (ent_deviceToProto d)"
  using composite_str
  by (simp_all add: ent_row_ok_def un_ok_def ent_notificationToProto_def ent_dev_ok_def dr_ok_def ent_deviceToProto_def)

lemma toProto_node_ok: "ent_row_ok str_ok n \<Longrightarrow> i \<noteq> '''' \<Longrightarrow> str_ok i \<Longrightarrow> un_node_ok str_ok i (ent_notificationToProto n)"
  "ent_dev_ok str_ok d \<Longrightarrow> i \<noteq> '''' \<Longrightarrow> str_ok i \<Longrightarrow> dr_node_ok str_ok i (ent_deviceToProto d)"
  using toProto_ok by (simp_all add: un_node_ok_def dr_node_ok_def) (simp_all add: ent_notificationToProto_def ent_deviceToProto_def)

lemma row_iff:
  assumes "ent_inv ent up str_ok db"
  shows "ent_row ent db i = Some n \<longleftrightarrow> (\<exists>m. (i, m) \<in> set (en_notifs (ent db)) \<and> n = ent_notificationFromProto i m)"
  using ent_invD(2) [OF assms] by (auto simp: ent_row_def)

text \<open>A row with the key of \<open>n\<close> is a node with its composite key.\<close>

lemma taken_iff:
  assumes "ent_inv ent up str_ok db"
  shows "un_CompositeKey (ent_notificationToProto n) \<in> un_CompositeKey ` snd ` set (en_notifs (ent db)) \<longleftrightarrow>
    (\<exists>i m. ent_row ent db i = Some m \<and> notif_key m = notif_key n)"
proof -
  have "un_CompositeKey m = un_CompositeKey (ent_notificationToProto n) \<longleftrightarrow> notif_key (ent_notificationFromProto i m) = notif_key n"
    if "(i, m) \<in> set (en_notifs (ent db))" for i m
    using ent_invD(6) [OF assms that] composite_notif_key [of "ent_notificationFromProto i m" n] by (simp add: un_node_ok_def)
  then show ?thesis unfolding row_iff [OF assms] by (force simp: image_iff)
qed

lemma commitCreate_new:
  assumes "ent_inv ent up str_ok db" "ent_row_ok str_ok n" "\<And>i m. ent_row ent db i = Some m \<Longrightarrow> notif_key m \<noteq> notif_key n"
  obtains db' i where "commitCreate c db systemActor (NotificationMsg (ent_notificationToProto n)) = (db', Inr i)"
    "ent_inv ent up str_ok db'" "i \<noteq> ''''" "ent_row ent db i = None" "ent_row ent db' = (ent_row ent db)(i \<mapsto> n\<lparr>ID := i\<rparr>)"
    "ent_dev ent db' = ent_dev ent db"
proof -
  let ?m = "ent_notificationToProto n"
  note I = ent_invD [OF assms(1)]
  have ok: "un_ok str_ok ?m" by (rule toProto_ok(1) [OF assms(2)])
  have key: "un_CompositeKey ?m \<notin> un_CompositeKey ` snd ` set (en_notifs (ent db))"
    using taken_iff [OF assms(1)] assms(3) by blast
  from create_notif [OF I(1) ok key] obtain db' i where
    d: "sdk_Commit (ec_client c) db (ent_scope c actor) [PlanCreate (NotificationMsg ?m)] = (db', Inr (committed [i]))" "up db'"
    "i \<noteq> ''''" "str_ok i" "i \<notin> fst ` set (en_notifs (ent db))"
    "ent db' = (ent db)\<lparr>en_notifs := en_notifs (ent db) @ [(i, ?m)]\<rparr>" by blast
  have "commitCreate c db systemActor (NotificationMsg ?m) = (db', Inr i)"
    by (simp add: commitCreate_def d(1) committed_def firstCreatedID_def)
  moreover have "ent_inv ent up str_ok db'"
    using nodes_ok_snoc [OF I(8) d(5) toProto_node_ok(1) [OF assms(2) d(3,4)] key] I(9) d(2) by (simp add: ent_inv_def d(6))
  moreover have "map_of (en_notifs (ent db)) i = None" using d(5) by (simp add: map_of_eq_None_iff)
  then have "ent_row ent db i = None" "ent_row ent db' = (ent_row ent db)(i \<mapsto> n\<lparr>ID := i\<rparr>)"
    by (auto simp: ent_row_def d(6) fun_eq_iff map_add_def split: option.split)
  moreover have "ent_dev ent db' = ent_dev ent db" by (simp add: ent_dev_def ent_devices_def d(6))
  ultimately show thesis using d(3) by (intro that)
qed

lemma commitCreate_taken:
  assumes "ent_inv ent up str_ok db" "ent_row_ok str_ok n" "ent_row ent db i = Some m" "notif_key m = notif_key n"
  obtains db' e where "commitCreate c db systemActor (NotificationMsg (ent_notificationToProto n)) = (db', Inl e)" "as_unique e"
    "ent_inv ent up str_ok db'" "ent db' = ent db"
    "findNotificationByKey c db' systemActor (notificationCompositeKey (TenantID n) (UserID n) (NotificationID n)) = Inr i"
proof -
  let ?m = "ent_notificationToProto n"
  note I = ent_invD [OF assms(1)]
  have "un_CompositeKey ?m \<in> un_CompositeKey ` snd ` set (en_notifs (ent db))"
    using taken_iff [OF assms(1)] assms(3,4) by blast
  from create_notif_taken [OF I(1) toProto_ok(1) [OF assms(2)] this] obtain db' e where
    d: "sdk_Commit (ec_client c) db (ent_scope c actor) [PlanCreate (NotificationMsg ?m)] = (db', Inl e)" "as_unique e"
    "up db'" "ent db' = ent db" by blast
  obtain p where p: "(i, p) \<in> set (en_notifs (ent db'))" "m = ent_notificationFromProto i p"
    using assms(3) row_iff [OF assms(1)] d(4) by auto
  have "un_CompositeKey p = notificationCompositeKey (TenantID n) (UserID n) (NotificationID n)"
    using ent_invD(6) [OF assms(1)] p d(4) composite_notif_key [of m n] assms(4) by (simp add: un_node_ok_def)
  from notif_by_key [OF d(3) _ _ p(1) this, of notifByCompositeKey] I(3)
  have "findNotificationByKey c db' systemActor (notificationCompositeKey (TenantID n) (UserID n) (NotificationID n)) = Inr i"
    by (simp add: findNotificationByKey_def find_node_def notifByCompositeKey_def type_ids un_fields d(4))
  moreover have "ent_inv ent up str_ok db'" using assms(1) d(3,4) by (simp add: ent_inv_def)
  moreover have "commitCreate c db systemActor (NotificationMsg ?m) = (db', Inl e)" by (simp add: commitCreate_def d(1))
  ultimately show thesis using d(2,4) by (intro that)
qed

lemma create_new_row:
  assumes "ent_inv ent up str_ok db" "ent_row_ok str_ok n" "\<And>i m. ent_row ent db i = Some m \<Longrightarrow> notif_key m \<noteq> notif_key n"
  shows "\<exists>db' i. ent_create c db n = (db', n\<lparr>ID := i\<rparr>, Inr True) \<and> ent_inv ent up str_ok db' \<and> i \<noteq> '''' \<and>
    ent_row ent db i = None \<and> ent_row ent db' = (ent_row ent db)(i \<mapsto> n\<lparr>ID := i\<rparr>) \<and> ent_dev ent db' = ent_dev ent db"
proof -
  obtain db' i where d: "commitCreate c db systemActor (NotificationMsg (ent_notificationToProto n)) = (db', Inr i)"
    "ent_inv ent up str_ok db'" "i \<noteq> ''''" "ent_row ent db i = None" "ent_row ent db' = (ent_row ent db)(i \<mapsto> n\<lparr>ID := i\<rparr>)"
    "ent_dev ent db' = ent_dev ent db" by (rule commitCreate_new [OF assms])
  have "ent_create c db n = (db', n\<lparr>ID := i\<rparr>, Inr True)" by (simp add: ent_create_def notifActor_def d(1))
  with d(2-) show ?thesis by blast
qed

lemma create_existing_row:
  assumes "ent_inv ent up str_ok db" "ent_row_ok str_ok n" "ent_row ent db i = Some m" "notif_key m = notif_key n"
  shows "\<exists>db'. ent_create c db n = (db', n\<lparr>ID := i\<rparr>, Inr False) \<and> ent_inv ent up str_ok db' \<and>
    ent_row ent db' = ent_row ent db \<and> ent_dev ent db' = ent_dev ent db"
proof -
  obtain db' e where d: "commitCreate c db systemActor (NotificationMsg (ent_notificationToProto n)) = (db', Inl e)" "as_unique e"
    "ent_inv ent up str_ok db'" "ent db' = ent db"
    "findNotificationByKey c db' systemActor (notificationCompositeKey (TenantID n) (UserID n) (NotificationID n)) = Inr i"
    by (rule commitCreate_taken [OF assms])
  have "i \<noteq> ''''" using assms(3) row_iff [OF assms(1)] ent_invD(6) [OF assms(1)] by (auto simp: un_node_ok_def)
  then have "ent_create c db n = (db', n\<lparr>ID := i\<rparr>, Inr False)" by (simp add: ent_create_def notifActor_def d(1,2,5) Let_def)
  moreover have "ent_row ent db' = ent_row ent db" "ent_dev ent db' = ent_dev ent db"
    by (simp_all add: ent_row_def ent_dev_def ent_devices_def d(4) fun_eq_iff)
  ultimately show ?thesis using d(3) by blast
qed

lemma get_row:
  assumes "ent_inv ent up str_ok db" "str_ok i"
  shows "ent_GetNotification c db t u i =
    (case ent_row ent db i of None \<Rightarrow> Inl ErrNotFound
     | Some n \<Rightarrow> if owned_by t u n then Inr n else Inl ErrNotFound)"
  using get_notif [OF ent_invD(1) [OF assms(1)] assms(2)]
  by (auto simp: ent_GetNotification_def getUserNotification_def notifActor_def ent_row_def owned_by_def Let_def split: option.split)

lemma update_missing_row:
  assumes "ent_inv ent up str_ok db" "str_ok i" "\<And>n. ent_row ent db i = Some n \<Longrightarrow> TenantID n \<noteq> t"
  shows "ent_UpdateStatus c db t i st ms = (db, Some ErrNotFound)"
  using get_notif [OF ent_invD(1) [OF assms(1)] assms(2)] assms(3)
  by (auto simp: ent_UpdateStatus_def getUserNotification_def ent_row_def split: option.split)

lemma update_found_row:
  assumes "ent_inv ent up str_ok db" "ent_arg_ok str_ok st" "ent_row ent db i = Some n" "TenantID n = t"
  shows "\<exists>db'. ent_UpdateStatus c db t i st ms = (db', None) \<and> ent_inv ent up str_ok db' \<and>
    ent_row ent db' = (ent_row ent db)(i \<mapsto> stamp_status st ms n) \<and> ent_dev ent db' = ent_dev ent db"
proof -
  note I = ent_invD [OF assms(1)]
  obtain m where m: "map_of (en_notifs (ent db)) i = Some m" "n = ent_notificationFromProto i m"
    using assms(3) by (auto simp: ent_row_def)
  then have mi: "str_ok i" "un_ok str_ok m" and node: "un_node_ok str_ok i m"
    using nodes_ok_lookup [OF I(8)] by (simp_all add: un_node_ok_def)
  obtain p fs where p: "status_patch st ms = (p, fs)" by fastforce
  let ?m = "fold (un_set p) fs m"
  have ok: "un_ok str_ok ?m" using status_patch_stamp(6) [OF p mi(2)] assms(2) by (simp add: ent_arg_ok_def)
  from update_notif [OF I(1) m(1) refl ok status_patch_stamp(2) [OF p]] obtain db' where
    d: "sdk_Commit (ec_client c) db (ent_scope c actor) [PlanUpdateFields i (NotificationMsg p) fs] = (db', Inr (committed []))"
    "up db'" "ent db' = (ent db)\<lparr>en_notifs := AList.update i ?m (en_notifs (ent db))\<rparr>" by blast
  have "ent_UpdateStatus c db t i st ms = (db', None)"
    using get_notif [OF I(1) mi(1)] m assms(4) p d(1)
    by (simp add: ent_UpdateStatus_def getUserNotification_def commitUpdateFields_def notifActor_def)
  moreover have "un_node_ok str_ok i ?m" using node ok status_patch_stamp(2-5) [OF p, of m] by (simp add: un_node_ok_def)
  with nodes_ok_update [where ok = "un_node_ok str_ok" and key = un_CompositeKey and m' = ?m and i = i, OF I(8) m(1)]
    status_patch_stamp(2) [OF p, of m] have "ent_inv ent up str_ok db'"
    using I(9) d(2) by (simp add: ent_inv_def d(3))
  moreover have "ent_row ent db' = (ent_row ent db)(i \<mapsto> stamp_status st ms n)"
    using status_patch_stamp(1) [OF p, of i m] m(2) by (auto simp: ent_row_def d(3) map_of_update_distinct fun_eq_iff)
  moreover have "ent_dev ent db' = ent_dev ent db" by (simp add: ent_dev_def ent_devices_def d(3))
  ultimately show ?thesis by blast
qed

end

subsection \<open>Queries\<close>

lemma filters_two:
  assumes "field a = Some x" "field b = Some y" "a \<in> {1..20}" "b \<in> {1..20}"
  shows "filters_match field [(fieldKey a, v), (fieldKey b, w)] \<longleftrightarrow> x = v \<and> y = w"
proof -
  have inj: "fieldKey k = FormatInt j \<longleftrightarrow> k = j" if "k \<in> {1..20}" "j \<in> {1..20}" for k j :: int
    using that by (auto simp: fieldKey_def decString_eq FormatInt_def format_uint_inj)
  have "list_ex (\<lambda>j. fieldKey k = FormatInt j \<and> field j = Some z) [1..20] \<longleftrightarrow> field k = Some z" if "k \<in> {1..20}" for k z
    unfolding list_ex_iff set_upto using that inj [OF that] by blast
  with assms show ?thesis by (simp add: filters_match_def)
qed

context entdb_service
begin

lemma ent_loop_eq:
  assumes "ent_inv ent up str_ok db" "set ids \<subseteq> fst ` set (en_notifs (ent db))"
    and "rs = map (\<lambda>i. ent_notificationFromProto i (the (map_of (en_notifs (ent db)) i))) ids"
  shows "ent_query_loop c db q (node_list ids) rows unread =
    Inr (rows @ filter (query_match q) rs,
         unread + int (length (filter (\<lambda>n. owned_by (q_TenantID q) (q_UserID q) n \<and> Status n \<noteq> StatusRead) rs)))"
  using assms(2,3)
proof (induction ids arbitrary: rows unread rs)
  case (Cons i ids)
  obtain m where m: "map_of (en_notifs (ent db)) i = Some m" using Cons.prems(1) by (force simp: map_of_eq_None_iff)
  then have "str_ok i" using nodes_ok_lookup [OF ent_invD(8) [OF assms(1)]] by (simp add: un_node_ok_def)
  then have un: "unmarshalNotification c db systemActor (Some \<lparr>nd_NodeID = i\<rparr>) = Inr (i, Some m)"
    using get_notif [OF ent_invD(1) [OF assms(1)]] m by (simp add: unmarshalNotification_def getUserNotification_def)
  have sub: "set ids \<subseteq> fst ` set (en_notifs (ent db))" using Cons.prems(1) by simp
  have split: "(case q_CursorMS q of None \<Rightarrow> False | Some cur \<Rightarrow> un_CreatedAtMs m \<ge> cur) \<longleftrightarrow>
      \<not> (case q_CursorMS q of None \<Rightarrow> True | Some cur \<Rightarrow> un_CreatedAtMs m < cur)" by (auto split: option.split)
  show ?case
    using Cons.IH [OF sub refl] Cons.prems(2) m
    by (cases "q_CursorMS q") (simp_all add: node_list_def un split query_match_def owned_by_def Let_def)
qed (simp add: node_list_def)

lemma query_ids:
  assumes "ent_inv ent up str_ok db" "str_ok t" "str_ok u"
  obtains ids where "queryUserNotifications c db systemActor t u = Inr (node_list ids)" "distinct ids"
    "set ids = {i. \<exists>m. (i, m) \<in> set (en_notifs (ent db)) \<and> un_TenantId m = t \<and> un_UserId m = u}"
proof -
  note I = ent_invD [OF assms(1)]
  let ?fs = "[(fieldKey unFieldTenantID, t), (fieldKey unFieldUserID, u)]"
  have fm: "filters_match (un_field m) ?fs \<longleftrightarrow> un_TenantId m = t \<and> un_UserId m = u" for m
    by (rule filters_two) (simp_all add: un_field_def un_fields)
  have "list_all (str_ok \<circ> snd) ?fs" using assms(2,3) by simp
  from query_notifs [OF I(1) this I(2)] show thesis
  proof (elim disjE conjE exE)
    fix ids assume "query db (ec_tenantID c) systemActor 1 ?fs 0 = Inr (node_list ids)" "distinct ids"
      "set ids = {i. \<exists>m. (i, m) \<in> set (en_notifs (ent db)) \<and> filters_match (un_field m) ?fs}"
    then show thesis unfolding fm
      by (intro that [of ids]) (simp_all add: queryUserNotifications_def query_nodes_def transport type_ids)
  next
    fix e assume "en_notifs (ent db) = []" "query db (ec_tenantID c) systemActor 1 ?fs 0 = Inl e" "isTenantNotOpened (Some e)"
    then show thesis
      by (intro that [of "[]"]) (simp_all add: queryUserNotifications_def query_nodes_def transport type_ids node_list_def)
  qed
qed

lemma query_row_page:
  assumes "ent_inv ent up str_ok db" "ent_arg_ok str_ok (q_TenantID q)" "ent_arg_ok str_ok (q_UserID q)"
  shows "\<exists>p. ent_QueryUserNotifications c db q = Inr p \<and> is_page (ran (ent_row ent db)) q p"
proof -
  let ?t = "q_TenantID q" and ?u = "q_UserID q"
  let ?ns = "en_notifs (ent db)"
  have s: "str_ok ?t" "str_ok ?u" using assms(2,3) by (simp_all add: ent_arg_ok_def)
  obtain ids where ids: "queryUserNotifications c db systemActor ?t ?u = Inr (node_list ids)" "distinct ids"
    "set ids = {i. \<exists>m. (i, m) \<in> set ?ns \<and> un_TenantId m = ?t \<and> un_UserId m = ?u}"
    by (rule query_ids [OF assms(1) s])
  define rs where "rs = map (\<lambda>i. ent_notificationFromProto i (the (map_of ?ns i))) ids"
  define l where "l = ClampLimit (q_Limit q)"
  define xs where "xs = sort_Slice newest_first (filter (query_match q) rs)"
  have "set ids \<subseteq> fst ` set ?ns" using ids(3) by force
  note loop = ent_loop_eq [OF assms(1) this rs_def, of q "[]" 0]
  have lt: "(\<lambda>a b. if CreatedAtMS a \<noteq> CreatedAtMS b then CreatedAtMS a > CreatedAtMS b else ID a > ID b) = newest_first"
    by (simp add: fun_eq_iff newest_first_def)
  have l0: "0 < l" using ClampLimit_bounds [of "q_Limit q"] by (simp add: l_def)
  have "ent_QueryUserNotifications c db q = Inr (take (nat l) xs, cursor_of xs (nat l),
      int (length (filter (\<lambda>n. owned_by ?t ?u n \<and> Status n \<noteq> StatusRead) rs)))"
    by (simp only: ent_QueryUserNotifications_def ids(1) sum.case loop lt Let_def append_Nil prod.case xs_def [symmetric]
        l_def [symmetric] page_cut [OF l0, of xs, unfolded Let_def] add_0)
  moreover have "inj_on ID (set rs)" by (auto simp: rs_def inj_on_def)
  moreover have "distinct rs" using ids(2) by (auto simp: rs_def distinct_map inj_on_def) (metis fromProto_simps(1))
  moreover have "n \<in> ran (ent_row ent db) \<longleftrightarrow> n \<in> set rs" if "owned_by ?t ?u n" for n
  proof -
    have "n \<in> ran (ent_row ent db) \<longleftrightarrow> (\<exists>i m. (i, m) \<in> set ?ns \<and> n = ent_notificationFromProto i m)"
      by (simp add: ran_def row_iff [OF assms(1)])
    also have "\<dots> \<longleftrightarrow> (\<exists>i m. (i, m) \<in> set ?ns \<and> un_TenantId m = ?t \<and> un_UserId m = ?u \<and> n = ent_notificationFromProto i m)"
      using that by (auto simp: owned_by_def) blast
    also have "\<dots> \<longleftrightarrow> n \<in> set rs"
      using ent_invD(2) [OF assms(1)] by (force simp: rs_def ids(3) image_iff)
    finally show ?thesis .
  qed
  ultimately show ?thesis
    using is_page_sort [of rs q "ran (ent_row ent db)" xs "nat l"] by (auto simp: xs_def l_def)
qed

end

subsection \<open>Devices\<close>

context entdb_service
begin

lemma devs_distinct:
  assumes "ent_inv ent up str_ok db"
  shows "distinct (map dev_key (ent_devices ent db))" "distinct (ent_devices ent db)"
proof -
  note I = ent_invD [OF assms]
  have "inj_on (\<lambda>(i, d). dev_key (ent_deviceFromProto i d)) (set (en_devs (ent db)))"
  proof (rule inj_onI, clarify)
    fix i d j e assume a: "(i, d) \<in> set (en_devs (ent db))" "(j, e) \<in> set (en_devs (ent db))"
      "dev_key (ent_deviceFromProto i d) = dev_key (ent_deviceFromProto j e)"
    then have "dr_CompositeKey d = dr_CompositeKey e"
      using I(7) [of i d] I(7) [of j e] by (simp add: dr_node_ok_def dev_key_def)
    moreover have "inj_on (dr_CompositeKey \<circ> snd) (set (en_devs (ent db)))" using I(5) by (simp add: distinct_map)
    ultimately show "i = j \<and> d = e" using a(1,2) by (auto dest: inj_onD [of _ _ "(i, d)" "(j, e)"])
  qed
  moreover have "distinct (en_devs (ent db))" using I(4) by (simp add: distinct_map)
  ultimately show "distinct (map dev_key (ent_devices ent db))"
    by (simp add: ent_devices_def distinct_map comp_def case_prod_unfold)
  then show "distinct (ent_devices ent db)" by (simp add: distinct_map)
qed

lemma dev_iff:
  assumes "ent_inv ent up str_ok db"
  shows "ent_dev ent db k = Some x \<longleftrightarrow> (\<exists>i d. (i, d) \<in> set (en_devs (ent db)) \<and> x = ent_deviceFromProto i d \<and> dev_key x = k)"
  unfolding ent_dev_def index_by_iff [OF devs_distinct(1) [OF assms]] by (auto simp: ent_devices_def)

lemma dev_taken_iff:
  assumes "ent_inv ent up str_ok db"
  shows "dr_CompositeKey (ent_deviceToProto d) \<in> dr_CompositeKey ` snd ` set (en_devs (ent db)) \<longleftrightarrow>
    ent_dev ent db (dev_key d) \<noteq> None"
proof -
  have "dr_CompositeKey e = dr_CompositeKey (ent_deviceToProto d) \<longleftrightarrow> dev_key (ent_deviceFromProto i e) = dev_key d"
    if "(i, e) \<in> set (en_devs (ent db))" for i e
    using ent_invD(7) [OF assms that] composite_dev_key [of "ent_deviceFromProto i e" d] by (simp add: dr_node_ok_def)
  moreover have "ent_dev ent db (dev_key d) \<noteq> None \<longleftrightarrow>
      (\<exists>i e. (i, e) \<in> set (en_devs (ent db)) \<and> dev_key (ent_deviceFromProto i e) = dev_key d)"
    using dev_iff [OF assms] by fastforce
  ultimately show ?thesis by (force simp: image_iff)
qed

lemma upsert_new_dev:
  assumes "ent_inv ent up str_ok db" "ent_dev_ok str_ok d" "ent_dev ent db (dev_key d) = None"
  shows "\<exists>db' d' i. ent_upsert c db d = (db', d', Inr (d\<lparr>dev_ID := i\<rparr>)) \<and> ent_inv ent up str_ok db' \<and>
    fresh_dev_id (ent_dev ent db) i \<and> ent_dev ent db' = (ent_dev ent db)(dev_key d \<mapsto> d\<lparr>dev_ID := i\<rparr>) \<and> ent_row ent db' = ent_row ent db"
proof -
  let ?m = "ent_deviceToProto d"
  note I = ent_invD [OF assms(1)]
  have key: "dr_CompositeKey ?m \<notin> dr_CompositeKey ` snd ` set (en_devs (ent db))"
    using dev_taken_iff [OF assms(1)] assms(3) by blast
  from create_dev [OF I(1) toProto_ok(2) [OF assms(2)] key] obtain db' i where
    d: "sdk_Commit (ec_client c) db (ent_scope c actor) [PlanCreate (DeviceMsg ?m)] = (db', Inr (committed [i]))" "up db'"
    "i \<noteq> ''''" "str_ok i" "i \<notin> fst ` set (en_devs (ent db))"
    "ent db' = (ent db)\<lparr>en_devs := en_devs (ent db) @ [(i, ?m)]\<rparr>" by blast
  have "map_of (en_devs (ent db)) i = None" using d(5) by (simp add: map_of_eq_None_iff)
  then have "map_of (en_devs (ent db')) i = Some ?m" by (simp add: d(6) map_add_def)
  then have "ent_upsert c db d = (db', d\<lparr>dev_ID := i\<rparr>, Inr (d\<lparr>dev_ID := i\<rparr>))"
    using get_dev [OF d(2,4)] by (simp add: ent_upsert_def notifActor_def commitCreate_def d(1) committed_def
        firstCreatedID_def readDeviceBack_def getDevice_def)
  moreover have "ent_inv ent up str_ok db'"
    using nodes_ok_snoc [OF I(9) d(5) toProto_node_ok(2) [OF assms(2) d(3,4)] key] I(8) d(2) by (simp add: ent_inv_def d(6))
  moreover have "ent_dev ent db' = (ent_dev ent db)(dev_key d \<mapsto> d\<lparr>dev_ID := i\<rparr>)"
  proof -
    have "dev_key (d\<lparr>dev_ID := i\<rparr>) = dev_key d" by (simp add: dev_key_def)
    moreover have "dev_key d \<notin> dev_key ` set (ent_devices ent db)" using assms(3) by (simp add: ent_dev_def index_by_None)
    ultimately show ?thesis
      using index_by_snoc [OF devs_distinct(1) [OF assms(1)], of "d\<lparr>dev_ID := i\<rparr>"] by (simp add: ent_dev_def ent_devices_def d(6))
  qed
  moreover have "ent_row ent db' = ent_row ent db" by (simp add: ent_row_def d(6) fun_eq_iff)
  moreover have "fresh_dev_id (ent_dev ent db) i"
    using d(3,5) by (force simp: fresh_dev_id_def ran_def dev_iff [OF assms(1)])
  ultimately show ?thesis by blast
qed

lemma rotate_devs:
  assumes "ent_inv ent up str_ok db" "map_of (en_devs (ent db)) i = Some e" "dev_key (ent_deviceFromProto i e') = dev_key (ent_deviceFromProto i e)"
  shows "index_by dev_key (map (\<lambda>(i, d). ent_deviceFromProto i d) (AList.update i e' (en_devs (ent db)))) =
    (ent_dev ent db)(dev_key (ent_deviceFromProto i e) \<mapsto> ent_deviceFromProto i e')"
proof -
  let ?f = "\<lambda>(i, d). ent_deviceFromProto i d"
  let ?g = "\<lambda>x. if dev_ID x = i then ent_deviceFromProto i e' else x"
  have "map ?f (AList.update i e' xs) = map ?g (map ?f xs)" if "distinct (map fst xs)" "map_of xs i = Some y" for xs y
    using that
  proof (induction xs)
    case (Cons x xs)
    obtain j z where x: "x = (j, z)" by fastforce
    have "map ?g (map ?f xs) = map ?f xs" if "i \<notin> fst ` set xs" using that by (auto simp: rev_image_eqI)
    with Cons x show ?case by (cases "j = i") auto
  qed simp
  from this [OF ent_invD(4) [OF assms(1)] assms(2)]
  have "map ?f (AList.update i e' (en_devs (ent db))) = map ?g (ent_devices ent db)" by (simp add: ent_devices_def)
  moreover have "ent_deviceFromProto i e \<in> set (ent_devices ent db)"
    using map_of_SomeD [OF assms(2)] by (force simp: ent_devices_def)
  moreover have uniq: "d = e" if "(i, d) \<in> set (en_devs (ent db))" for d
    using map_of_is_SomeI [OF ent_invD(4) [OF assms(1)] that] assms(2) by simp
  moreover have "?g y = y" if "y \<in> set (ent_devices ent db)" "y \<noteq> ent_deviceFromProto i e" for y
    using that uniq by (auto simp: ent_devices_def)
  moreover have "dev_key (?g y) = dev_key y" if "y \<in> set (ent_devices ent db)" for y
    using that uniq assms(3) by (auto simp: ent_devices_def)
  ultimately show ?thesis
    using index_by_map [OF devs_distinct(1) [OF assms(1)], of "ent_deviceFromProto i e" ?g] by (simp add: ent_dev_def)
qed

lemma upsert_existing_dev:
  assumes "ent_inv ent up str_ok db" "ent_dev_ok str_ok d" "ent_dev ent db (dev_key d) = Some e"
  shows "\<exists>db' d'. ent_upsert c db d =
      (db', d', Inr (e\<lparr>dev_Token := dev_Token d, dev_LastActiveMS := dev_LastActiveMS d\<rparr>)) \<and> ent_inv ent up str_ok db' \<and>
    ent_dev ent db' = (ent_dev ent db)(dev_key d \<mapsto> e\<lparr>dev_Token := dev_Token d, dev_LastActiveMS := dev_LastActiveMS d\<rparr>) \<and>
    ent_row ent db' = ent_row ent db"
proof -
  let ?m = "ent_deviceToProto d"
  note I = ent_invD [OF assms(1)]
  have "dr_CompositeKey ?m \<in> dr_CompositeKey ` snd ` set (en_devs (ent db))"
    using dev_taken_iff [OF assms(1)] assms(3) by simp
  from create_dev_taken [OF I(1) toProto_ok(2) [OF assms(2)] this] obtain db1 err where
    t: "sdk_Commit (ec_client c) db (ent_scope c actor) [PlanCreate (DeviceMsg ?m)] = (db1, Inl err)" "as_unique err"
    "up db1" "ent db1 = ent db" by blast
  obtain i p where p: "(i, p) \<in> set (en_devs (ent db1))" "e = ent_deviceFromProto i p" "dev_key e = dev_key d"
    using assms(3) dev_iff [OF assms(1)] t(4) by auto
  have mp: "map_of (en_devs (ent db1)) i = Some p" using p(1) I(4) by (simp add: t(4))
  have node: "dr_node_ok str_ok i p" using I(7) p(1) t(4) by simp
  then have i: "i \<noteq> ''''" "str_ok i" by (simp_all add: dr_node_ok_def)
  let ?key = "deviceCompositeKey (dev_TenantID d) (dev_UserID d) (dev_DeviceType d)"
  have "dr_CompositeKey p = ?key" using node p(2,3) composite_dev_key [of e d] by (simp add: dr_node_ok_def)
  from dev_by_key [OF t(3) _ _ p(1) this, of deviceByCompositeKey] I(5)
  have find: "findDeviceByKey c db1 systemActor ?key = Inr i"
    by (simp add: findDeviceByKey_def find_node_def deviceByCompositeKey_def type_ids dr_fields t(4))
  let ?patch = "empty_DeviceRegistration\<lparr>dr_Token := dev_Token d, dr_LastActiveMs := dev_LastActiveMS d\<rparr>"
  let ?p = "p\<lparr>dr_Token := dev_Token d, dr_LastActiveMs := dev_LastActiveMS d\<rparr>"
  have fold: "?p = fold (dr_set ?patch) [''token'', ''last_active_ms''] p" by (simp add: dr_set_def)
  have "dr_ok str_ok p" using node by (simp add: dr_node_ok_def)
  then have "dr_ok str_ok ?p" using assms(2) by (simp add: dr_ok_def ent_dev_ok_def)
  from update_dev [OF t(3) mp fold this] obtain db2 where
    d: "sdk_Commit (ec_client c) db1 (ent_scope c actor) [PlanUpdateFields i (DeviceMsg ?patch) [''token'', ''last_active_ms'']] =
      (db2, Inr (committed []))" "up db2" "ent db2 = (ent db1)\<lparr>en_devs := AList.update i ?p (en_devs (ent db1))\<rparr>" by auto
  have rot: "ent_deviceFromProto i ?p = e\<lparr>dev_Token := dev_Token d, dev_LastActiveMS := dev_LastActiveMS d\<rparr>"
    by (simp add: p(2) ent_deviceFromProto_def)
  have "map_of (en_devs (ent db2)) i = Some ?p" by (simp add: d(3) map_of_update_distinct)
  then have "ent_upsert c db d = (db2, d, Inr (e\<lparr>dev_Token := dev_Token d, dev_LastActiveMS := dev_LastActiveMS d\<rparr>))"
    using get_dev [OF d(2) i(2)] rot
    by (simp add: ent_upsert_def notifActor_def commitCreate_def t(1,2) find i(1) commitUpdateFields_def d(1) readDeviceBack_def
        getDevice_def Let_def)
  moreover have "dr_node_ok str_ok i ?p" using node \<open>dr_ok str_ok ?p\<close> by (simp add: dr_node_ok_def)
  with nodes_ok_update [where ok = "dr_node_ok str_ok" and key = dr_CompositeKey and m' = ?p and i = i, OF I(9) mp [unfolded t(4)]]
  have "ent_inv ent up str_ok db2" using I(8) d(2) by (simp add: ent_inv_def d(3) t(4))
  moreover have "dev_key (ent_deviceFromProto i ?p) = dev_key (ent_deviceFromProto i p)"
    by (simp add: dev_key_def ent_deviceFromProto_def)
  from rotate_devs [OF assms(1) mp [unfolded t(4)] this]
  have "ent_dev ent db2 = (ent_dev ent db)(dev_key d \<mapsto> e\<lparr>dev_Token := dev_Token d, dev_LastActiveMS := dev_LastActiveMS d\<rparr>)"
    unfolding rot p(2) [symmetric] p(3) by (simp add: ent_dev_def ent_devices_def d(3) t(4))
  moreover have "ent_row ent db2 = ent_row ent db" by (simp add: ent_row_def d(3) t(4) fun_eq_iff)
  ultimately show ?thesis by blast
qed

lemma list_loop_eq:
  assumes "ent_inv ent up str_ok db" "set ids \<subseteq> fst ` set (en_devs (ent db))"
    and "rs = map (\<lambda>i. ent_deviceFromProto i (the (map_of (en_devs (ent db)) i))) ids"
  shows "ent_list_loop c db t u (node_list ids) out = Inr (out @ filter (\<lambda>d. dev_TenantID d = t \<and> dev_UserID d = u) rs)"
  using assms(2,3)
proof (induction ids arbitrary: out rs)
  case (Cons i ids)
  obtain m where m: "map_of (en_devs (ent db)) i = Some m" using Cons.prems(1) by (force simp: map_of_eq_None_iff)
  then have "str_ok i" using nodes_ok_lookup [OF ent_invD(9) [OF assms(1)]] by (simp add: dr_node_ok_def)
  then have un: "unmarshalDevice c db systemActor (Some \<lparr>nd_NodeID = i\<rparr>) = Inr (i, Some m)"
    using get_dev [OF ent_invD(1) [OF assms(1)]] m by (simp add: unmarshalDevice_def getDevice_def)
  have sub: "set ids \<subseteq> fst ` set (en_devs (ent db))" using Cons.prems(1) by simp
  show ?case using Cons.IH [OF sub refl] Cons.prems(2) m by (simp add: node_list_def un)
qed (simp add: node_list_def)

lemma device_ids:
  assumes "ent_inv ent up str_ok db" "str_ok t" "str_ok u"
  obtains ids where "queryDevices c db systemActor t u = Inr (node_list ids)" "distinct ids"
    "set ids = {i. \<exists>m. (i, m) \<in> set (en_devs (ent db)) \<and> dr_TenantId m = t \<and> dr_UserId m = u}"
proof -
  note I = ent_invD [OF assms(1)]
  let ?fs = "[(fieldKey drFieldTenantID, t), (fieldKey drFieldUserID, u)]"
  have fm: "filters_match (dr_field m) ?fs \<longleftrightarrow> dr_TenantId m = t \<and> dr_UserId m = u" for m
    by (rule filters_two) (simp_all add: dr_field_def dr_fields)
  have "list_all (str_ok \<circ> snd) ?fs" using assms(2,3) by simp
  from query_devs [OF I(1) this I(4)] show thesis
  proof (elim disjE conjE exE)
    fix ids assume "query db (ec_tenantID c) systemActor 2 ?fs 0 = Inr (node_list ids)" "distinct ids"
      "set ids = {i. \<exists>m. (i, m) \<in> set (en_devs (ent db)) \<and> filters_match (dr_field m) ?fs}"
    then show thesis unfolding fm
      by (intro that [of ids]) (simp_all add: queryDevices_def query_nodes_def transport type_ids)
  next
    fix e assume "en_devs (ent db) = []" "query db (ec_tenantID c) systemActor 2 ?fs 0 = Inl e" "isTenantNotOpened (Some e)"
    then show thesis
      by (intro that [of "[]"]) (simp_all add: queryDevices_def query_nodes_def transport type_ids node_list_def)
  qed
qed

lemma list_user_devices:
  assumes "ent_inv ent up str_ok db" "ent_arg_ok str_ok t" "ent_arg_ok str_ok u"
  shows "\<exists>ds. ent_ListDevices c db t u = Inr ds \<and> distinct ds \<and>
    set ds = {d. \<exists>dt. ent_dev ent db \<lparr>dk_Tenant = t, dk_User = u, dk_DeviceType = dt\<rparr> = Some d} \<and>
    sorted_wrt (\<lambda>a b. dev_DeviceType a < dev_DeviceType b) ds"
proof -
  let ?ns = "en_devs (ent db)"
  have s: "str_ok t" "str_ok u" using assms(2,3) by (simp_all add: ent_arg_ok_def)
  obtain ids where ids: "queryDevices c db systemActor t u = Inr (node_list ids)" "distinct ids"
    "set ids = {i. \<exists>m. (i, m) \<in> set ?ns \<and> dr_TenantId m = t \<and> dr_UserId m = u}"
    by (rule device_ids [OF assms(1) s])
  define rs where "rs = map (\<lambda>i. ent_deviceFromProto i (the (map_of ?ns i))) ids"
  have "set ids \<subseteq> fst ` set ?ns" using ids(3) by force
  note loop = list_loop_eq [OF assms(1) this rs_def, of t u "[]"]
  define out where "out = sort_Slice (\<lambda>a b. dev_DeviceType a < dev_DeviceType b)
      (filter (\<lambda>d. dev_TenantID d = t \<and> dev_UserID d = u) rs)"
  have "ent_ListDevices c db t u = Inr out" by (simp add: ent_ListDevices_def ids(1) loop out_def)
  moreover have "distinct rs" using ids(2) by (auto simp: rs_def distinct_map inj_on_def) (metis fromProto_simps(7))
  moreover have "ent_dev ent db k = Some d \<longleftrightarrow> d \<in> set rs \<and> dev_key d = k" if k: "dk_Tenant k = t" "dk_User k = u" for k d
  proof -
    have "d \<in> set rs \<longleftrightarrow> (\<exists>i m. (i, m) \<in> set ?ns \<and> dr_TenantId m = t \<and> dr_UserId m = u \<and> d = ent_deviceFromProto i m)"
      using ent_invD(4) [OF assms(1)] by (force simp: rs_def ids(3) image_iff)
    moreover have "dr_TenantId m = t \<and> dr_UserId m = u" if "dev_key (ent_deviceFromProto i m) = k" for i m
      using that k by (auto simp: dev_key_def)
    ultimately show ?thesis unfolding dev_iff [OF assms(1)] by blast
  qed
  ultimately show ?thesis using device_list_sort [of rs t u "ent_dev ent db" out] out_def by blast
qed

lemma row_key_unique:
  assumes "ent_inv ent up str_ok s" "ent_row ent s i = Some n" "ent_row ent s j = Some m" "notif_key n = notif_key m"
  shows "i = j"
proof -
  obtain p q where pq: "(i, p) \<in> set (en_notifs (ent s))" "n = ent_notificationFromProto i p"
    "(j, q) \<in> set (en_notifs (ent s))" "m = ent_notificationFromProto j q" using assms row_iff by blast
  then have "un_CompositeKey p = un_CompositeKey q"
    using ent_invD(6) [OF assms(1)] assms(4) by (simp add: un_node_ok_def notif_key_def)
  moreover have "inj_on (un_CompositeKey \<circ> snd) (set (en_notifs (ent s)))" using ent_invD(3) [OF assms(1)] by (simp add: distinct_map)
  ultimately show ?thesis using pq by (auto dest: inj_onD [of _ _ "(i, p)" "(j, q)"])
qed

lemma own_status_arg:
  assumes "st \<in> {StatusPending, StatusDelivered, StatusAcked, StatusRead, StatusFailed}"
  shows "ent_arg_ok str_ok st"
proof -
  have "str_ok st" using assms by (intro ascii_str) (auto simp: status_defs is_ascii_def)
  with assms show ?thesis by (auto simp: ent_arg_ok_def status_defs)
qed

lemma create_keeps_devs:
  assumes "ent_inv ent up str_ok s" "ent_row_ok str_ok n" "ent_create c s n = (s', nr)"
  shows "ent_dev ent s' = ent_dev ent s"
proof (cases "has_key (ent_row ent s) (notif_key n)")
  case True
  then obtain i m where "ent_row ent s i = Some m" "notif_key m = notif_key n" by (rule has_keyE)
  from create_existing_row [OF assms(1,2) this] assms(3) show ?thesis by auto
next
  case False
  then have "\<And>i m. ent_row ent s i = Some m \<Longrightarrow> notif_key m \<noteq> notif_key n" by (metis has_keyI)
  from create_new_row [OF assms(1,2)] this assms(3) show ?thesis by auto
qed

lemma update_keeps_devs:
  assumes "ent_inv ent up str_ok s" "str_ok i" "ent_arg_ok str_ok st" "ent_UpdateStatus c s t i st ms = (s', e)"
  shows "ent_dev ent s' = ent_dev ent s"
proof (cases "\<exists>n. ent_row ent s i = Some n \<and> TenantID n = t")
  case True
  then obtain n where "ent_row ent s i = Some n" "TenantID n = t" by blast
  from update_found_row [OF assms(1,3) this, of ms] assms(4) show ?thesis by auto
next
  case False
  then have "ent_UpdateStatus c s t i st ms = (s, Some ErrNotFound)" by (intro update_missing_row assms(1,2)) auto
  with assms(4) show ?thesis by simp
qed

end

sublocale entdb_service \<subseteq> ens: full_store "entdb_ops c" "ent_inv ent up str_ok" "ent_row ent" "\<lambda>_ _. True" "ent_row_ok str_ok"
  "ent_arg_ok str_ok" str_ok "ent_dev ent" "\<lambda>_ _. True" "ent_dev_ok str_ok"
proof (unfold_locales, goal_cases)
  case (1 s)
  have "dom (ent_row ent s) = dom (map_of (en_notifs (ent s)))" by (auto simp: ent_row_def dom_def)
  then show ?case by (simp add: finite_dom_map_of)
next
  case (2 s i n) then show ?case by (auto simp: ent_row_def)
next
  case (3 s i n j m) then show ?case by (rule row_key_unique)
next
  case (5 s i n) then show ?case using row_iff ent_invD(6) by (fastforce simp: un_node_ok_def)
next
  case (6 st) then show ?case by (rule own_status_arg)
next
  case (7 s n) with create_new_row [of s n] show ?case unfolding entdb_ops_simps by blast
next
  case (8 s n i m) with create_existing_row [of s n i m] show ?case unfolding entdb_ops_simps by blast
next
  case (9 s i t u) then show ?case unfolding entdb_ops_simps by (rule get_row)
next
  case (10 s i t st ms) then show ?case unfolding entdb_ops_simps by (rule update_missing_row)
next
  case (11 s st i n t ms) with update_found_row show ?case unfolding entdb_ops_simps by blast
next
  case (12 s q) then show ?case unfolding entdb_ops_simps by (rule query_row_page)
next
  case (13 s k d) then show ?case by (auto simp: dev_iff)
next
  case (14 s d) with upsert_new_dev show ?case unfolding entdb_ops_simps by blast
next
  case (15 s d e) with upsert_existing_dev show ?case unfolding entdb_ops_simps by blast
next
  case (16 s t u) then show ?case unfolding entdb_ops_simps by (rule list_user_devices)
next
  case (17 s n s' nr) then show ?case unfolding entdb_ops_simps by (intro create_keeps_devs)
next
  case (18 s i st t ms s' e) then show ?case unfolding entdb_ops_simps by (intro update_keeps_devs)
next
  case (19 s d s' dr)
  then show ?case
    using upsert_new_dev [OF 19(1,3)] upsert_existing_dev [OF 19(1,3)] by (cases "ent_dev ent s (dev_key d)") auto
qed (simp_all)

end
