(* ===== verification/EntDB_Service.thy ===== *)
theory EntDB_Service
  imports EntDB_Store Create_Race
begin

text \<open>
  The entdb driver as a whole: concurrent creates at the granularity of single SDK calls, a reference
  service on which \<open>entdb_service\<close> is interpreted, and the driver against the abstract store.
\<close>

subsection \<open>The two calls of a create\<close>

definition ent_submit :: "'db EntClient \<Rightarrow> 'db first_call" where
  "ent_submit c db n =
     (case commitCreate c db (notifActor (UserID n)) (NotificationMsg (ent_notificationToProto n)) of
        (db, Inr canonicalID) \<Rightarrow> (db, n\<lparr>ID := canonicalID\<rparr>, Some (Inr True))
      | (db, Inl err) \<Rightarrow> if \<not> as_unique err then (db, n, Some (Inl (ent_goerror err))) else (db, n, None))"

definition ent_resolve :: "'db EntClient \<Rightarrow> 'db second_call" where
  "ent_resolve c db n =
     (let key = notificationCompositeKey (TenantID n) (UserID n) (NotificationID n)
      in case findNotificationByKey c db (notifActor (UserID n)) key of
           Inl ferr \<Rightarrow> (db, n, Inl (ent_goerror ferr))
         | Inr existingID \<Rightarrow>
             if existingID = ''''
             then (db, n, Inl (Errorf ''entdb: unique constraint hit but key %q not resolvable'' [key] None))
             else (db, n\<lparr>ID := existingID\<rparr>, Inr False))"

lemma ent_create_two_calls: "ent_create c = two_calls (ent_submit c) (ent_resolve c)"
  by (simp add: fun_eq_iff ent_create_def two_calls_def ent_submit_def ent_resolve_def Let_def split: prod.split sum.split)

context entdb_service
begin

lemma resolve_found:
  assumes "ent_inv ent up str_ok db" "ent_row ent db j = Some m" "notif_key m = notif_key n"
  shows "ent_resolve c db n = (db, n\<lparr>ID := j\<rparr>, Inr False)"
proof -
  note I = ent_invD [OF assms(1)]
  obtain p where p: "(j, p) \<in> set (en_notifs (ent db))" "m = ent_notificationFromProto j p"
    using assms(2) row_iff [OF assms(1)] by auto
  have "un_node_ok str_ok j p" by (rule I(6) [OF p(1)])
  then have j: "j \<noteq> ''''" and key: "un_CompositeKey p = notificationCompositeKey (TenantID n) (UserID n) (NotificationID n)"
    using p(2) composite_notif_key [of m n] assms(3) by (simp_all add: un_node_ok_def)
  from notif_by_key [OF I(1) _ _ p(1) key I(3), of notifByCompositeKey] j show ?thesis
    by (simp add: ent_resolve_def notifActor_def findNotificationByKey_def find_node_def notifByCompositeKey_def type_ids
        un_fields Let_def)
qed

end

sublocale entdb_service \<subseteq> enr: create_race "ent_inv ent up str_ok" "ent_row ent" "ent_submit c" "ent_resolve c" "ent_row_ok str_ok"
proof (unfold_locales, goal_cases)
  case (1 s n)
  then have new: "\<And>i m. ent_row ent s i = Some m \<Longrightarrow> notif_key m \<noteq> notif_key n" by (metis has_keyI)
  obtain db' i where "commitCreate c s systemActor (NotificationMsg (ent_notificationToProto n)) = (db', Inr i)"
    "ent_inv ent up str_ok db'" "ent_row ent s i = None" "ent_row ent db' = (ent_row ent s)(i \<mapsto> n\<lparr>ID := i\<rparr>)"
    by (rule commitCreate_new [OF 1(1,2)]) (use new in auto)
  then show ?case by (auto simp: ent_submit_def notifActor_def)
next
  case (2 s n)
  then obtain j m where m: "ent_row ent s j = Some m" "notif_key m = notif_key n" by (auto elim: has_keyE)
  obtain db' e where d: "commitCreate c s systemActor (NotificationMsg (ent_notificationToProto n)) = (db', Inl e)" "as_unique e"
    "ent_inv ent up str_ok db'" "ent db' = ent s" by (rule commitCreate_taken [OF 2(1,2) m])
  then have "ent_row ent db' = ent_row ent s" by (simp add: ent_row_def fun_eq_iff)
  with d show ?case by (auto simp: ent_submit_def notifActor_def intro!: exI [of _ "ID n"])
next
  case (3 s n j m i)
  then show ?case using resolve_found [OF 3(1,3), of "n\<lparr>ID := i\<rparr>"] by simp
qed

context entdb_service
begin

lemmas ent_single_winner = enr.single_winner
lemmas ent_refine_run = ens.refine_run
lemmas ent_notify_spec = ens.notify_spec

end

text \<open>C8. Any number of concurrent creates through the entdb driver, interleaved call by call: every caller that
  has its answer got no error and reports the id of the one row under its key; at most one caller per key
  is told that it created the row, none when the key existed before, and exactly one for each new key once
  all have their answers.\<close>

theorem entdb_single_winner:
  assumes "entdb_service c actor ent up str_ok query" "ent_inv ent up str_ok s" "\<forall>n \<in> set ns. ent_row_ok str_ok n"
    and "(race_step (ent_submit c) (ent_resolve c))\<^sup>*\<^sup>* (s, map Inserting ns) (s', cs)"
  shows "ent_inv ent up str_ok s' \<and> ent_row ent s \<subseteq>\<^sub>m ent_row ent s' \<and>
    (\<forall>i < length ns. \<forall>n r. cs ! i = Finished n r \<longrightarrow>
       (\<exists>b m. r = Inr b \<and> ent_row ent s' (ID n) = Some m \<and> notif_key m = notif_key (ns ! i) \<and> (b \<longrightarrow> m = n))) \<and>
    (\<forall>k. card (winners ns cs k) \<le> 1 \<and> (has_key (ent_row ent s) k \<longrightarrow> winners ns cs k = {})) \<and>
    (list_all finished cs \<longrightarrow>
       (\<forall>n \<in> set ns. \<not> has_key (ent_row ent s) (notif_key n) \<longrightarrow> card (winners ns cs (notif_key n)) = 1))"
  using assms(2-4) by (rule entdb_service.ent_single_winner [OF assms(1)])


text \<open>The orchestrator on the entdb driver.\<close>

theorem notify_on_entdb:
  assumes "entdb_service c actor ent up str_ok query" "ent_inv ent up str_ok s"
    and "nt_store n = entdb_ops c" "statuses_storable (ent_arg_ok str_ok) n"
    and "rows_storable (ent_row_ok str_ok) req (nr_UserIDs req) (notify_targets n req)"
    and "Notify n req s w = (s', w', res, e)"
  shows "e = None \<and> ent_inv ent up str_ok s' \<and>
    Delivered res + Pending res + Failed res = int (length (nr_UserIDs req) * length (notify_targets n req)) \<and>
    rows_extend (request_key req ` set (nr_UserIDs req)) (ent_row ent s) (ent_row ent s')"
  using entdb_service.ent_notify_spec [OF assms(1-6)] by (simp add: total_of_def)

subsection \<open>A commit the server did not apply\<close>

text \<open>A create whose commit comes back without success is an error. A status update is not: the result of
  the commit is dropped, so \<open>UpdateStatus\<close> reports success although nothing was written.\<close>

theorem entdb_failed_commit:
  assumes "scope c systemActor = Inr sc" "\<And>op. sdk_Commit (ec_client c) db sc [op] = (db, Inr (Some \<lparr>cr_Success = False, cr_Error = e, cr_CreatedNodeIDs = []\<rparr>))"
    and "sdk_GetNotification (ec_client c) db sc i = Inr (Some m)"
  shows "(\<exists>err. snd (snd (ent_create c db n)) = Inl err) \<and> ent_UpdateStatus c db (un_TenantId m) i st ms = (db, None)"
  using assms by (auto simp: ent_create_def commitCreate_def firstCreatedID_def notifActor_def ent_UpdateStatus_def
      getUserNotification_def commitUpdateFields_def split: prod.split)

subsection \<open>The reference service\<close>

definition fresh_node :: "(string \<times> 'm) list \<Rightarrow> string" where
  "fresh_node xs = replicate (Suc (sum_list (map (length \<circ> fst) xs))) (CHR ''a'')"

lemma fresh_node: "fresh_node xs \<notin> fst ` set xs" "fresh_node xs \<noteq> ''''"
proof -
  have "length i \<le> sum_list (map (length \<circ> fst) xs)" if "(i, m) \<in> set xs" for i m
    using that member_le_sum_list [of "length i" "map (length \<circ> fst) xs"] by force
  then show "fresh_node xs \<notin> fst ` set xs" by (force simp: fresh_node_def)
qed (simp add: fresh_node_def)

fun ref_commit :: "ent_nodes \<Rightarrow> plan_op list \<Rightarrow> ent_nodes \<times> (sdk_error + CommitResult option)" where
  "ref_commit db [PlanCreate (NotificationMsg m)] =
     (if un_CompositeKey m \<in> set (map (un_CompositeKey \<circ> snd) (en_notifs db))
      then (db, Inl (WrappedError ''commit'' (UniqueConstraintError ''composite_key'')))
      else (db\<lparr>en_notifs := en_notifs db @ [(fresh_node (en_notifs db), m)]\<rparr>, Inr (committed [fresh_node (en_notifs db)])))"
| "ref_commit db [PlanCreate (DeviceMsg d)] =
     (if dr_CompositeKey d \<in> set (map (dr_CompositeKey \<circ> snd) (en_devs db))
      then (db, Inl (WrappedError ''commit'' (UniqueConstraintError ''composite_key'')))
      else (db\<lparr>en_devs := en_devs db @ [(fresh_node (en_devs db), d)]\<rparr>, Inr (committed [fresh_node (en_devs db)])))"
| "ref_commit db [PlanUpdateFields i (NotificationMsg p) fs] =
     (case map_of (en_notifs db) i of
        None \<Rightarrow> (db, Inl (SdkError ''node not found''))
      | Some m \<Rightarrow> (db\<lparr>en_notifs := AList.update i (fold (un_set p) fs m) (en_notifs db)\<rparr>, Inr (committed [])))"
| "ref_commit db [PlanUpdateFields i (DeviceMsg p) fs] =
     (case map_of (en_devs db) i of
        None \<Rightarrow> (db, Inl (SdkError ''node not found''))
      | Some d \<Rightarrow> (db\<lparr>en_devs := AList.update i (fold (dr_set p) fs d) (en_devs db)\<rparr>, Inr (committed [])))"
| "ref_commit db ops = (db, Inl (SdkError ''unsupported plan''))"

definition ref_by_key :: "ent_nodes \<Rightarrow> UniqueKey \<Rightarrow> string \<Rightarrow> sdk_error + Node option" where
  "ref_by_key db tok key =
     (if uk_TypeID tok = 1 \<and> uk_FieldID tok = 14
      then Inr (map_option (\<lambda>(i, m). \<lparr>nd_NodeID = i\<rparr>) (find (\<lambda>(i, m). un_CompositeKey m = key) (en_notifs db)))
      else if uk_TypeID tok = 2 \<and> uk_FieldID tok = 7
      then Inr (map_option (\<lambda>(i, m). \<lparr>nd_NodeID = i\<rparr>) (find (\<lambda>(i, m). dr_CompositeKey m = key) (en_devs db)))
      else Inl (SdkError ''no such key''))"

definition ref_query :: "ent_nodes \<Rightarrow> string \<Rightarrow> string \<Rightarrow> int \<Rightarrow> (string \<times> string) list \<Rightarrow> int \<Rightarrow> sdk_error + Node option list" where
  "ref_query db tenant act typeID flt limit =
     (if en_notifs db = [] \<and> en_devs db = [] then Inl (SdkError ''rpc error: tenant not opened'')
      else if typeID = 1 then Inr (node_list (map fst (filter (\<lambda>(i, m). filters_match (un_field m) flt) (en_notifs db))))
      else Inr (node_list (map fst (filter (\<lambda>(i, m). filters_match (dr_field m) flt) (en_devs db)))))"

definition ref_sdk :: "ent_nodes Sdk" where
  "ref_sdk = \<lparr>sdk_ParseActor = Inr, sdk_Commit = (\<lambda>db sc. ref_commit db), sdk_GetByKey = (\<lambda>db sc. ref_by_key db),
     sdk_GetNotification = (\<lambda>db sc i. Inr (map_of (en_notifs db) i)), sdk_GetDevice = (\<lambda>db sc i. Inr (map_of (en_devs db) i)),
     sdk_QueryNodes = Some ref_query\<rparr>"

abbreviation ref_ent :: "ent_nodes EntClient" where
  "ref_ent \<equiv> ent_NewClient ref_sdk ''main''"

lemma matching_ids:
  fixes xs :: "(string \<times> 'm) list"
  assumes "distinct (map fst xs)"
  shows "\<exists>ids. node_list (map fst (filter (\<lambda>(i, m). P m) xs)) = node_list ids \<and> distinct ids \<and>
    set ids = {i. \<exists>m. (i, m) \<in> set xs \<and> P m}"
proof (intro exI conjI)
  show "distinct (map fst (filter (\<lambda>(i, m). P m) xs))" using assms by (rule distinct_map_filter)
  show "set (map fst (filter (\<lambda>(i, m). P m) xs)) = {i. \<exists>m. (i, m) \<in> set xs \<and> P m}" by force
qed (rule refl)

lemma tenant_signal: "isTenantNotOpened (Some (SdkError ''rpc error: tenant not opened''))"
  by code_simp

interpretation refent: entdb_service ref_ent systemActor "\<lambda>db. db" "\<lambda>_. True" "\<lambda>_. True" ref_query
proof (unfold_locales, goal_cases)
  case (2 db m)
  then show ?case using fresh_node [of "en_notifs db"] by (auto simp: ent_NewClient_def ref_sdk_def)
next
  case (4 db d)
  then show ?case using fresh_node [of "en_devs db"] by (auto simp: ent_NewClient_def ref_sdk_def)
next
  case (10 db tok i m key)
  then show ?case using find_unique [of "(i, m)" "en_notifs db" "un_CompositeKey \<circ> snd" key]
    by (simp add: ent_NewClient_def ref_sdk_def ref_by_key_def case_prod_unfold comp_def)
next
  case (11 db tok i d key)
  then show ?case using find_unique [of "(i, d)" "en_devs db" "dr_CompositeKey \<circ> snd" key]
    by (simp add: ent_NewClient_def ref_sdk_def ref_by_key_def case_prod_unfold comp_def)
next
  case (13 db flt)
  show ?case
  proof (cases "en_notifs db = [] \<and> en_devs db = []")
    case True
    then show ?thesis using tenant_signal by (simp add: ref_query_def)
  next
    case False
    then have "ref_query db (ec_tenantID ref_ent) systemActor 1 flt 0 =
        Inr (node_list (map fst (filter (\<lambda>(i, m). filters_match (un_field m) flt) (en_notifs db))))"
      by (simp add: ref_query_def)
    then show ?thesis using matching_ids [OF 13(3), of "\<lambda>m. filters_match (un_field m) flt"] by (simp only: sum.inject) blast
  qed
next
  case (14 db flt)
  show ?case
  proof (cases "en_notifs db = [] \<and> en_devs db = []")
    case True
    then show ?thesis using tenant_signal by (simp add: ref_query_def)
  next
    case False
    then have "ref_query db (ec_tenantID ref_ent) systemActor 2 flt 0 =
        Inr (node_list (map fst (filter (\<lambda>(i, m). filters_match (dr_field m) flt) (en_devs db))))"
      by (simp add: ref_query_def)
    then show ?thesis using matching_ids [OF 14(3), of "\<lambda>m. filters_match (dr_field m) flt"] by (simp only: sum.inject) blast
  qed
qed (auto simp: ent_NewClient_def ref_sdk_def image_iff)

subsection \<open>Witnesses\<close>

definition empty_ent :: ent_nodes where
  "empty_ent = \<lparr>en_notifs = [], en_devs = []\<rparr>"

lemma empty_ent_inv: "ent_inv (\<lambda>db. db) (\<lambda>_. True) (\<lambda>_. True) empty_ent"
  by (simp add: ent_inv_def nodes_ok_def empty_ent_def)

definition ent_note :: "string \<Rightarrow> Notification" where
  "ent_note title = \<lparr>ID = '''', NotificationID = ''n'', TenantID = ''t'', UserID = ''u'', SubjectRef = '''',
     SubjectType = '''', Title = title, Body = '''', Channel = ChannelInApp, Status = StatusPending, CreatedAtMS = 5,
     DeliveredAtMS = 0, AckAtMS = 0, ReadAtMS = 0\<rparr>"

theorem entdb_single_winner_witness:
  "\<exists>s' cs. (race_step (ent_submit ref_ent) (ent_resolve ref_ent))\<^sup>*\<^sup>*
       (empty_ent, map Inserting [ent_note ''x'', ent_note ''y'']) (s', cs) \<and>
     card (winners [ent_note ''x'', ent_note ''y''] cs (notif_key (ent_note ''y''))) = 1"
proof -
  let ?ns = "[ent_note ''x'', ent_note ''y'']"
  let ?r = "fold (race_at (ent_submit ref_ent) (ent_resolve ref_ent)) [0, 1, 1] (empty_ent, map Inserting ?ns)"
  have run: "(race_step (ent_submit ref_ent) (ent_resolve ref_ent))\<^sup>*\<^sup>* (empty_ent, map Inserting ?ns) (fst ?r, snd ?r)"
    using race_schedule [of "[0, 1, 1]" "(empty_ent, map Inserting ?ns)" "ent_submit ref_ent" "ent_resolve ref_ent"] by simp
  have "\<forall>n \<in> set ?ns. ent_row_ok (\<lambda>_. True) n" by code_simp
  moreover have "list_all finished (snd ?r)" by code_simp
  moreover have "\<not> has_key (ent_row (\<lambda>db. db) empty_ent) (notif_key (ent_note ''y''))"
    by (simp add: has_key_def ent_row_def empty_ent_def ran_def)
  ultimately have "card (winners ?ns (snd ?r) (notif_key (ent_note ''y''))) = 1"
    using entdb_single_winner [OF refent.entdb_service_axioms empty_ent_inv _ run] by simp
  with run show ?thesis by blast
qed

definition ent_calls :: "store_call list" where
  "ent_calls = [QueryCall \<lparr>q_TenantID = ''t'', q_UserID = ''u'', q_CursorMS = None, q_Limit = 10, q_UnreadOnly = False\<rparr>,
     CreateCall (ent_note ''x''), CreateCall (ent_note ''y''), UpdateCall ''t'' ''a'' StatusRead 7,
     GetCall ''t'' ''u'' ''a'', ListCall ''t'' ''u'']"


end
