(* ===== verification/Conformance.thy ===== *)
theory Conformance
  imports Store_Refinement
begin

text \<open>
  The conformance suite of the repository (\<open>store/conformance\<close>): every subtest as a function from a driver and
  a fresh store to the list of failures it reports. \<open>t.Fatal\<close> ends a subtest, \<open>t.Errorf\<close> adds a failure and goes on.
  In the concurrency subtests each call of a goroutine is one step and the order in which the goroutines run is
  an argument. The locale \<open>conformant\<close> proves that a driver with the contract of \<open>full_store\<close>, which accepts the
  strings the suite uses, passes every subtest under every schedule.
\<close>

subsection \<open>conformance.go\<close>

record 's Driver =
  drv_Name :: string
  drv_New :: "(string \<Rightarrow> 's StoreOps \<times> 's) option"

definition t_Run :: "string \<Rightarrow> string list \<Rightarrow> string list" where
  "t_Run name errs = map (\<lambda>e. name @ ''/'' @ e) errs"

definition mkNotif :: "string \<Rightarrow> string \<Rightarrow> string \<Rightarrow> int \<Rightarrow> Notification" where
  "mkNotif tenant user nid createdMS =
     \<lparr>ID = '''', NotificationID = nid, TenantID = tenant, UserID = user, SubjectRef = '''', SubjectType = '''',
      Title = ''t-'' @ nid, Body = '''', Channel = ChannelInApp, Status = StatusPending, CreatedAtMS = createdMS,
      DeliveredAtMS = 0, AckAtMS = 0, ReadAtMS = 0\<rparr>"

definition conf_ids :: "Notification list \<Rightarrow> string list" where
  "conf_ids ns = map NotificationID ns"

definition parseCursor :: "string \<Rightarrow> goerror + int" where
  "parseCursor cursor = ParseInt cursor"

definition user_query :: "string \<Rightarrow> int \<Rightarrow> int option \<Rightarrow> bool \<Rightarrow> Query" where
  "user_query tenant limit cursor unread =
     \<lparr>q_TenantID = tenant, q_UserID = ''u1'', q_CursorMS = cursor, q_Limit = limit, q_UnreadOnly = unread\<rparr>"

definition mkDevice :: "string \<Rightarrow> string \<Rightarrow> int \<Rightarrow> int \<Rightarrow> Device" where
  "mkDevice deviceType token createdMS activeMS =
     \<lparr>dev_ID = '''', dev_TenantID = ''acme'', dev_UserID = ''u1'', dev_DeviceType = deviceType, dev_Token = token,
      dev_CreatedAtMS = createdMS, dev_LastActiveMS = activeMS\<rparr>"

text \<open>A loop that creates rows and stops at the first error.\<close>

fun create_all :: "'s StoreOps \<Rightarrow> 's \<Rightarrow> Notification list \<Rightarrow> 's \<times> (goerror + Notification list)" where
  "create_all ops s [] = (s, Inr [])"
| "create_all ops s (n # ns) =
     (case CreateNotification ops s n of
        (s, n, Inl err) \<Rightarrow> (s, Inl err)
      | (s, n, Inr isnew) \<Rightarrow>
          (case create_all ops s ns of
             (s, Inl err) \<Rightarrow> (s, Inl err)
           | (s, Inr ns) \<Rightarrow> (s, Inr (n # ns))))"

definition t_CreateGet :: "'s StoreOps \<Rightarrow> 's \<Rightarrow> string list" where
  "t_CreateGet ops s =
     (case CreateNotification ops s (mkNotif ''acme'' ''u1'' ''nid-1'' 1000) of
        (s, n, Inl err) \<Rightarrow> [''CreateNotification: %v'']
      | (s, n, Inr isnew) \<Rightarrow>
          if \<not> isnew then [''CreateNotification: created=false on first insert'']
          else if ID n = '''' then [''CreateNotification: did not assign ID'']
          else (case GetNotification ops s ''acme'' ''u1'' (ID n) of
                  Inl err \<Rightarrow> [''GetNotification: %v'']
                | Inr got \<Rightarrow>
                    if NotificationID got \<noteq> ''nid-1'' \<or> Title got \<noteq> ''t-nid-1'' then [''round-trip mismatch: %#v'']
                    else if Status got \<noteq> StatusPending then [''status = %q, want pending'']
                    else []))"

definition t_GetNotFound :: "'s StoreOps \<Rightarrow> 's \<Rightarrow> string list" where
  "t_GetNotFound ops s =
     (case GetNotification ops s ''acme'' ''u1'' ''no-such'' of
        Inl err \<Rightarrow> if \<not> errors_Is err ErrNotFound then [''GetNotification unknown: want ErrNotFound, got %v''] else []
      | Inr got \<Rightarrow> [''GetNotification unknown: want ErrNotFound, got %v''])"

definition t_Idempotency :: "'s StoreOps \<Rightarrow> 's \<Rightarrow> string list" where
  "t_Idempotency ops s =
     (case CreateNotification ops s (mkNotif ''acme'' ''u1'' ''dup'' 1000) of
        (s, n1, Inl err) \<Rightarrow> [''first create: created=%v err=%v'']
      | (s, n1, Inr isnew) \<Rightarrow>
          if \<not> isnew then [''first create: created=%v err=%v'']
          else (case CreateNotification ops s ((mkNotif ''acme'' ''u1'' ''dup'' 2000)\<lparr>Title := ''changed''\<rparr>) of
                  (s, n2, Inl err) \<Rightarrow> [''second create: %v'']
                | (s, n2, Inr isnew) \<Rightarrow>
                    if isnew then [''second create on same (tenant,user,notificationID): want created=false'']
                    else if ID n2 \<noteq> ID n1 then [''idempotent create id = %q, want existing %q'']
                    else (case GetNotification ops s ''acme'' ''u1'' (ID n1) of
                            Inl err \<Rightarrow> [''get: %v'']
                          | Inr got \<Rightarrow>
                              if Title got \<noteq> ''t-dup'' then [''idempotent create mutated the stored row: title=%q'']
                              else [])))"

text \<open>The first two lookups drop the error: a failed one leaves a nil row, and reading its status panics.\<close>

definition t_StatusTransitions :: "'s StoreOps \<Rightarrow> 's \<Rightarrow> string list" where
  "t_StatusTransitions ops s =
     (case CreateNotification ops s (mkNotif ''acme'' ''u1'' ''s'' 1000) of
        (s, n, Inl err) \<Rightarrow> [''create: %v'']
      | (s, n, Inr isnew) \<Rightarrow>
          (case UpdateStatus ops s ''acme'' (ID n) StatusDelivered 1100 of
             (s, Some err) \<Rightarrow> [''UpdateStatus delivered: %v'']
           | (s, None) \<Rightarrow>
               (case GetNotification ops s ''acme'' ''u1'' (ID n) of
                  Inl err \<Rightarrow> [''panic: nil pointer dereference'']
                | Inr got \<Rightarrow>
                    if Status got \<noteq> StatusDelivered \<or> DeliveredAtMS got \<noteq> 1100 then [''after delivered: status=%q at=%d'']
                    else (case UpdateStatus ops s ''acme'' (ID n) StatusRead 1200 of
                            (s, Some err) \<Rightarrow> [''UpdateStatus read: %v'']
                          | (s, None) \<Rightarrow>
                              (case GetNotification ops s ''acme'' ''u1'' (ID n) of
                                 Inl err \<Rightarrow> [''panic: nil pointer dereference'']
                               | Inr got \<Rightarrow>
                                   if Status got \<noteq> StatusRead \<or> ReadAtMS got \<noteq> 1200 then [''after read: status=%q at=%d'']
                                   else (case UpdateStatus ops s ''acme'' ''no-such'' StatusRead 1 of
                                           (s, None) \<Rightarrow> [''UpdateStatus unknown: want ErrNotFound, got %v'']
                                         | (s, Some err) \<Rightarrow>
                                             if \<not> errors_Is err ErrNotFound
                                             then [''UpdateStatus unknown: want ErrNotFound, got %v''] else []))))))"

definition expect_page :: "'s StoreOps \<Rightarrow> 's \<Rightarrow> string \<Rightarrow> int option \<Rightarrow> string list \<Rightarrow> (string \<Rightarrow> string list) \<Rightarrow> string list" where
  "expect_page ops s name cursorMS want next =
     (case QueryUserNotifications ops s (user_query ''acme'' 2 cursorMS False) of
        Inl err \<Rightarrow> [name @ '': %v'']
      | Inr (items, cursor, unread) \<Rightarrow> if conf_ids items \<noteq> want then [name @ '' order = %v''] else next cursor)"

definition parse_page_cursor :: "string \<Rightarrow> string \<Rightarrow> (int \<Rightarrow> string list) \<Rightarrow> string list" where
  "parse_page_cursor name cursor next =
     (if cursor = '''' then [name @ '': expected a non-empty cursor'']
      else (case parseCursor cursor of Inl err \<Rightarrow> [''cursor %q is not an int64: %v''] | Inr cur \<Rightarrow> next cur))"

definition walk_rows :: "Notification list" where
  "walk_rows = map (\<lambda>i. mkNotif ''acme'' ''u1'' (''p'' @ FormatInt (int i)) (1000 + int i * 10)) [0..<5]"

definition t_CursorWalk :: "'s StoreOps \<Rightarrow> 's \<Rightarrow> string list" where
  "t_CursorWalk ops s =
     (case create_all ops s walk_rows of
        (s, Inl err) \<Rightarrow> [''create p%d: %v'']
      | (s, Inr ns) \<Rightarrow>
          expect_page ops s ''page1'' None [''p4'', ''p3''] (\<lambda>cursor.
          parse_page_cursor ''page1'' cursor (\<lambda>cur.
          expect_page ops s ''page2'' (Some cur) [''p2'', ''p1''] (\<lambda>cursor.
          parse_page_cursor ''page2'' cursor (\<lambda>cur.
          expect_page ops s ''page3'' (Some cur) [''p0''] (\<lambda>cursor.
          if cursor \<noteq> '''' then [''page3: expected empty cursor, got %q''] else []))))))"

fun unread_loop :: "'s StoreOps \<Rightarrow> 's \<Rightarrow> string list \<Rightarrow> 's \<times> string option" where
  "unread_loop ops s [] = (s, None)"
| "unread_loop ops s (nid # nids) =
     (case CreateNotification ops s (mkNotif ''acme'' ''u1'' nid 1000) of
        (s, n, Inl err) \<Rightarrow> (s, Some ''create %s: %v'')
      | (s, n, Inr isnew) \<Rightarrow>
          if nid = ''a''
          then (case UpdateStatus ops s ''acme'' (ID n) StatusRead 1100 of
                  (s, Some err) \<Rightarrow> (s, Some ''mark read: %v'')
                | (s, None) \<Rightarrow> unread_loop ops s nids)
          else unread_loop ops s nids)"

definition t_UnreadFilterAndCount :: "'s StoreOps \<Rightarrow> 's \<Rightarrow> string list" where
  "t_UnreadFilterAndCount ops s =
     (case unread_loop ops s [''a'', ''b'', ''c''] of
        (s, Some e) \<Rightarrow> [e]
      | (s, None) \<Rightarrow>
          (case QueryUserNotifications ops s (user_query ''acme'' 0 None True) of
             Inl err \<Rightarrow> [''unreadOnly: %v'']
           | Inr (items, cursor, unread) \<Rightarrow>
               if length items \<noteq> 2 then [''unreadOnly returned %d, want 2'']
               else if unread \<noteq> 2 then [''unreadCount = %d, want 2'']
               else (case QueryUserNotifications ops s (user_query ''acme'' 0 None False) of
                       Inl err \<Rightarrow> [''all: %v'']
                     | Inr (items, cursor, unread) \<Rightarrow>
                         if length items \<noteq> 3 then [''all returned %d, want 3'']
                         else if unread \<noteq> 2 then [''unreadCount (all) = %d, want 2'']
                         else [])))"

definition t_DeviceUpsertRotation :: "'s StoreOps \<Rightarrow> 's \<Rightarrow> string list" where
  "t_DeviceUpsertRotation ops s =
     (case UpsertDevice ops s (mkDevice ''android'' ''tok-1'' 100 100) of
        (s, d, Inl err) \<Rightarrow> [''first upsert: %v'']
      | (s, d, Inr first) \<Rightarrow>
          if dev_ID first = '''' then [''upsert did not assign device ID'']
          else (case UpsertDevice ops s (mkDevice ''android'' ''tok-2'' 0 200) of
                  (s, d, Inl err) \<Rightarrow> [''rotate upsert: %v'']
                | (s, d, Inr rotated) \<Rightarrow>
                    if dev_ID rotated \<noteq> dev_ID first then [''rotation created a new row: %q vs %q'']
                    else if dev_Token rotated \<noteq> ''tok-2'' then [''token not rotated: %q'']
                    else (case ListDevices ops s ''acme'' ''u1'' of
                            Inl err \<Rightarrow> [''list: %v'']
                          | Inr list \<Rightarrow>
                              if length list \<noteq> 1 then [''after rotation: %d devices, want 1'']
                              else (case UpsertDevice ops s (mkDevice ''ios'' ''tok-ios'' 0 0) of
                                      (s, d, Inl err) \<Rightarrow> [''second device: %v'']
                                    | (s, d, Inr second) \<Rightarrow>
                                        (let list = (case ListDevices ops s ''acme'' ''u1'' of Inl err \<Rightarrow> [] | Inr ds \<Rightarrow> ds)
                                         in if length list \<noteq> 2 then [''two device types: %d devices, want 2''] else [])))))"

definition isolation_rows :: "Notification list" where
  "isolation_rows = [mkNotif ''acme'' ''u1'' ''x'' 1000, mkNotif ''acme'' ''u2'' ''x'' 1000, mkNotif ''beta'' ''u1'' ''x'' 1000]"

definition misses :: "goerror + Notification \<Rightarrow> bool" where
  "misses r = (case r of Inl err \<Rightarrow> errors_Is err ErrNotFound | Inr n \<Rightarrow> False)"

definition t_UserIsolation :: "'s StoreOps \<Rightarrow> 's \<Rightarrow> string list" where
  "t_UserIsolation ops s =
     (case create_all ops s isolation_rows of
        (s, Inl err) \<Rightarrow> [''create: %v'']
      | (s, Inr ns) \<Rightarrow>
          (let a = ns ! 0 in
           case QueryUserNotifications ops s (user_query ''acme'' 0 None False) of
             Inl err \<Rightarrow> [''query: %v'']
           | Inr (items, cursor, unread) \<Rightarrow>
               if map ID items \<noteq> [ID a] then [''isolation leak: %v'']
               else if \<not> misses (GetNotification ops s ''acme'' ''u2'' (ID a)) then [''cross-user get: want ErrNotFound, got %v'']
               else if \<not> misses (GetNotification ops s ''beta'' ''u1'' (ID a)) then [''cross-tenant get: want ErrNotFound, got %v'']
               else []))"

subsection \<open>queryedge.go\<close>

definition paginationRows :: nat where "paginationRows = 250"

definition zero_pad :: "nat \<Rightarrow> string \<Rightarrow> string" where
  "zero_pad w s = replicate (w - length s) (CHR ''0'') @ s"

definition pagination_rows :: "Notification list" where
  "pagination_rows =
     map (\<lambda>i. mkNotif ''acme'' ''u1'' (''page-'' @ zero_pad 4 (FormatInt (int i))) (1000 + int i)) [0..<paginationRows]"

text \<open>The loop over the items of a page: the ids seen and the duplicates reported.\<close>

fun seen_loop :: "Notification list \<Rightarrow> string list \<Rightarrow> string list \<Rightarrow> string list \<times> string list" where
  "seen_loop [] seen errs = (seen, errs)"
| "seen_loop (n # ns) seen errs =
     (if NotificationID n \<in> set seen then seen_loop ns seen (errs @ [''duplicate row across pages: %q''])
      else seen_loop ns (NotificationID n # seen) errs)"

primrec page_loop :: "'s StoreOps \<Rightarrow> 's \<Rightarrow> nat \<Rightarrow> int option \<Rightarrow> string list \<Rightarrow> string list \<Rightarrow> string list + (string list \<times> string list)" where
  "page_loop ops s 0 cursorMS seen errs = Inr (seen, errs)"
| "page_loop ops s (Suc pages) cursorMS seen errs =
     (case QueryUserNotifications ops s (user_query ''acme'' 100 cursorMS False) of
        Inl err \<Rightarrow> Inl (errs @ [''page %d: %v''])
      | Inr (items, cursor, unread) \<Rightarrow>
          (case seen_loop items seen errs of
             (seen, errs) \<Rightarrow>
               if cursor = '''' then Inr (seen, errs)
               else (case ParseInt cursor of
                       Inl err \<Rightarrow> Inl (errs @ [''cursor parse: %v''])
                     | Inr v \<Rightarrow> page_loop ops s pages (Some v) seen errs)))"

definition t_AllPages :: "'s StoreOps \<Rightarrow> 's \<Rightarrow> string list" where
  "t_AllPages ops s =
     (case create_all ops s pagination_rows of
        (s, Inl err) \<Rightarrow> [''create %d: %v'']
      | (s, Inr ns) \<Rightarrow>
          (case page_loop ops s (paginationRows + 5) None [] [] of
             Inl errs \<Rightarrow> errs
           | Inr (seen, errs) \<Rightarrow>
               if length seen \<noteq> paginationRows then errs @ [''paged read returned %d of %d rows''] else errs))"

definition cutoff_rows :: "Notification list" where
  "cutoff_rows = map (\<lambda>(i, ms). mkNotif ''acme'' ''u1'' (''s'' @ FormatInt (int i)) ms) (enumerate 0 [1000, 2000, 3000])"

definition t_StrictLessThanCutoff :: "'s StoreOps \<Rightarrow> 's \<Rightarrow> string list" where
  "t_StrictLessThanCutoff ops s =
     (case create_all ops s cutoff_rows of
        (s, Inl err) \<Rightarrow> [''create: %v'']
      | (s, Inr ns) \<Rightarrow>
          (case QueryUserNotifications ops s (user_query ''acme'' 0 (Some 2000) False) of
             Inl err \<Rightarrow> [''query: %v'']
           | Inr (items, cursor, unread) \<Rightarrow>
               if conf_ids items \<noteq> [''s0''] then [''cursor=2000 must return ONLY rows with CreatedAtMS < 2000; got %v''] else []))"

text \<open>A failed query returns no rows, no cursor and a zero count, so only its error is reported.\<close>

definition t_QueryEmpty :: "'s StoreOps \<Rightarrow> 's \<Rightarrow> string list" where
  "t_QueryEmpty ops s =
     (case QueryUserNotifications ops s (user_query ''fresh'' 0 None False) of
        Inl err \<Rightarrow> [''QueryUserNotifications on fresh tenant: want nil err, got %v'']
      | Inr (items, cursor, unread) \<Rightarrow>
          (if length items \<noteq> 0 then [''QueryUserNotifications on fresh tenant: want 0 rows, got %d''] else []) @
          (if cursor \<noteq> '''' then [''QueryUserNotifications on fresh tenant: want empty cursor, got %q''] else []) @
          (if unread \<noteq> 0 then [''QueryUserNotifications on fresh tenant: want unread=0, got %d''] else []))"

definition t_GetFresh :: "'s StoreOps \<Rightarrow> 's \<Rightarrow> string list" where
  "t_GetFresh ops s =
     (if \<not> misses (GetNotification ops s ''fresh'' ''u1'' ''no-such'')
      then [''GetNotification on fresh tenant: want ErrNotFound, got %v''] else [])"

definition t_ListEmpty :: "'s StoreOps \<Rightarrow> 's \<Rightarrow> string list" where
  "t_ListEmpty ops s =
     (case ListDevices ops s ''fresh'' ''u1'' of
        Inl err \<Rightarrow> [''ListDevices on fresh tenant: want nil err, got %v'']
      | Inr devs \<Rightarrow> if length devs \<noteq> 0 then [''ListDevices on fresh tenant: want 0 devices, got %d''] else [])"

subsection \<open>roundtrip.go\<close>

definition unicode_value :: string where
  "unicode_value = ''Zo'' @ [CHR 0xC3, CHR 0xAB] @ '' M'' @ [CHR 0xC3, CHR 0xBC] @ ''ller '' @
     [CHR 0xE6, CHR 0x97, CHR 0xA5, CHR 0xE6, CHR 0x9C, CHR 0xAC, CHR 0xE8, CHR 0xAA, CHR 0x9E] @ '' caf'' @
     [CHR 0xC3, CHR 0xA9] @ '' '' @ [CHR 0xF0, CHR 0x9F, CHR 0x94, CHR 0x90, CHR 0xF0, CHR 0x9F, CHR 0x9B, CHR 0x82]"

definition quotes_value :: string where
  "quotes_value = ''O'Brien '' @ [CHR 0x22] @ ''quoted'' @ [CHR 0x22] @ '' back'' @ [CHR 0x5C] @ ''slash'' @ [CHR 0x0A] @
     ''newline'' @ [CHR 0x09] @ ''tab''"

definition json_value :: string where
  "json_value = ''{'' @ [CHR 0x22] @ ''k'' @ [CHR 0x22] @ '':'' @ [CHR 0x22] @ ''v'' @ [CHR 0x22] @ '','' @
     [CHR 0x22] @ ''nested'' @ [CHR 0x22] @ '':[1,2,{'' @ [CHR 0x22] @ ''x'' @ [CHR 0x22] @ '':null}]}''"

definition adversarialValues :: "string list" where
  "adversarialValues = [unicode_value, quotes_value, ''Robert'); DROP TABLE notifications;--'', ''100%_off _every_ thing%'',
     json_value, ''   padded value   '', replicate 10000 (CHR ''Z''), ''x'']"

definition string_row :: "nat \<Rightarrow> string \<Rightarrow> Notification" where
  "string_row i v =
     \<lparr>ID = '''', NotificationID = ''rt-'' @ FormatInt (int i), TenantID = ''acme'', UserID = ''u1'', SubjectRef = v,
      SubjectType = v, Title = v, Body = v, Channel = ChannelInApp, Status = StatusPending, CreatedAtMS = 1000 + int i,
      DeliveredAtMS = 0, AckAtMS = 0, ReadAtMS = 0\<rparr>"

definition assertEqualField :: "string \<Rightarrow> string \<Rightarrow> string \<Rightarrow> string list" where
  "assertEqualField field want got = (if got \<noteq> want then [field @ '' round-trip mismatch''] else [])"

fun string_loop :: "'s StoreOps \<Rightarrow> 's \<Rightarrow> (nat \<times> string) list \<Rightarrow> string list" where
  "string_loop ops s [] = []"
| "string_loop ops s ((i, v) # vs) =
     (case CreateNotification ops s (string_row i v) of
        (s, n, Inl err) \<Rightarrow> [''%s: create: %v'']
      | (s, n, Inr isnew) \<Rightarrow>
          (case GetNotification ops s ''acme'' ''u1'' (ID n) of
             Inl err \<Rightarrow> [''%s: get: %v'']
           | Inr got \<Rightarrow>
               assertEqualField ''Title'' v (Title got) @ assertEqualField ''Body'' v (Body got) @
               assertEqualField ''SubjectRef'' v (SubjectRef got) @ assertEqualField ''SubjectType'' v (SubjectType got) @
               string_loop ops s vs))"

definition t_StringFields :: "'s StoreOps \<Rightarrow> 's \<Rightarrow> string list" where
  "t_StringFields ops s = string_loop ops s (enumerate 0 adversarialValues)"

definition timestamp_cases :: "int list" where
  "timestamp_cases = [1, 1700000000000, 2 ^ 53 - 1, 2 ^ 53, 2 ^ 53 + 1, 2 ^ 63 - 1]"

definition timestamp_row :: "nat \<Rightarrow> int \<Rightarrow> Notification" where
  "timestamp_row i v = (mkNotif ''acme'' ''u1'' (''ts-'' @ FormatInt (int i)) v)\<lparr>Title := ''t''\<rparr>"

fun timestamp_loop :: "'s StoreOps \<Rightarrow> 's \<Rightarrow> (nat \<times> int) list \<Rightarrow> string list" where
  "timestamp_loop ops s [] = []"
| "timestamp_loop ops s ((i, v) # vs) =
     (case CreateNotification ops s (timestamp_row i v) of
        (s, n, Inl err) \<Rightarrow> [''%s: create: %v'']
      | (s, n, Inr isnew) \<Rightarrow>
          (case UpdateStatus ops s ''acme'' (ID n) StatusDelivered v of
             (s, Some err) \<Rightarrow> [''%s: update: %v'']
           | (s, None) \<Rightarrow>
               (case GetNotification ops s ''acme'' ''u1'' (ID n) of
                  Inl err \<Rightarrow> [''%s: get: %v'']
                | Inr got \<Rightarrow>
                    (if CreatedAtMS got \<noteq> v then [''%s: CreatedAtMS round-trip = %d, want %d''] else []) @
                    (if DeliveredAtMS got \<noteq> v then [''%s: DeliveredAtMS round-trip = %d, want %d''] else []) @
                    timestamp_loop ops s vs)))"

definition t_Int64Fidelity :: "'s StoreOps \<Rightarrow> 's \<Rightarrow> string list" where
  "t_Int64Fidelity ops s = timestamp_loop ops s (enumerate 0 timestamp_cases)"

definition large_row :: "nat \<Rightarrow> nat \<Rightarrow> Notification" where
  "large_row i sz =
     (mkNotif ''acme'' ''u1'' (''lp-'' @ FormatInt (int i)) (1000 + int i))
       \<lparr>Title := ''large'', Body := replicate sz (CHR ''x'')\<rparr>"

fun large_loop :: "'s StoreOps \<Rightarrow> 's \<Rightarrow> (nat \<times> nat) list \<Rightarrow> string list" where
  "large_loop ops s [] = []"
| "large_loop ops s ((i, sz) # sizes) =
     (case CreateNotification ops s (large_row i sz) of
        (s, n, Inl err) \<Rightarrow> [''size %d: create: %v'']
      | (s, n, Inr isnew) \<Rightarrow>
          (case GetNotification ops s ''acme'' ''u1'' (ID n) of
             Inl err \<Rightarrow> [''size %d: get: %v'']
           | Inr got \<Rightarrow>
               (if length (Body got) \<noteq> sz then [''size %d: truncated to %d bytes'']
                else if Body got \<noteq> replicate sz (CHR ''x'') then [''size %d: corrupted (length matches)'']
                else []) @ large_loop ops s sizes))"

definition t_LargePayload :: "'s StoreOps \<Rightarrow> 's \<Rightarrow> string list" where
  "t_LargePayload ops s = large_loop ops s (enumerate 0 [64 * 1024, 512 * 1024])"

subsection \<open>keyedge.go\<close>

definition t_LongValue :: "'s StoreOps \<Rightarrow> 's \<Rightarrow> string list" where
  "t_LongValue ops s =
     (let longID = replicate 256 (CHR ''a'') in
      case CreateNotification ops s (mkNotif ''acme'' ''u1'' longID 1000) of
        (s, n, Inl err) \<Rightarrow> [''create long-id: %v'']
      | (s, n, Inr isnew) \<Rightarrow>
          (case CreateNotification ops s (mkNotif ''acme'' ''u1'' longID 2000) of
             (s, n2, Inl err) \<Rightarrow> [''re-create long-id: %v'']
           | (s, n2, Inr isnew) \<Rightarrow>
               if isnew then [''re-create returned created=true on the same long key'']
               else if ID n2 \<noteq> ID n then [''idempotent id mismatch: %q vs %q'']
               else []))"

definition t_SeparatorBytes :: "'s StoreOps \<Rightarrow> 's \<Rightarrow> string list" where
  "t_SeparatorBytes ops s =
     (case CreateNotification ops s (mkNotif ''acme'' ''u1'' ''n1|n2'' 1000) of
        (s, a, Inl err) \<Rightarrow> [''create a: %v'']
      | (s, a, Inr isnew) \<Rightarrow>
          (case CreateNotification ops s (mkNotif ''acme'' ''u1|n1'' ''n2'' 1001) of
             (s, b, Inl err) \<Rightarrow> [''create b: %v'']
           | (s, b, Inr isnew) \<Rightarrow>
               if ID a = ID b then [''naive '|' separator collision: a and b share id %q'']
               else (case GetNotification ops s ''acme'' ''u1'' (ID a) of
                       Inl err \<Rightarrow> [''get a: %v'']
                     | Inr got \<Rightarrow>
                         if NotificationID got \<noteq> ''n1|n2'' then [''NotificationID round-trip mismatch: %q''] else [])))"

definition t_CaseSensitive :: "'s StoreOps \<Rightarrow> 's \<Rightarrow> string list" where
  "t_CaseSensitive ops s =
     (case UpsertDevice ops s (mkDevice ''android'' ''t-lower'' 0 0) of
        (s, d, Inl err) \<Rightarrow> [''upsert lower: %v'']
      | (s, d, Inr lower) \<Rightarrow>
          (case UpsertDevice ops s (mkDevice ''Android'' ''t-upper'' 0 0) of
             (s, d, Inl err) \<Rightarrow> [''upsert upper: %v'']
           | (s, d, Inr upper) \<Rightarrow>
               if dev_ID lower = dev_ID upper then [''device upsert treated android and Android as the same key'']
               else (let list = (case ListDevices ops s ''acme'' ''u1'' of Inl err \<Rightarrow> [] | Inr ds \<Rightarrow> ds)
                     in if length list \<noteq> 2 then [''case-sensitive upserts produced %d rows, want 2''] else [])))"

subsection \<open>concurrency.go\<close>

text \<open>The order in which the goroutines of a subtest make their calls, and the order in which the results of the
  same-key race are received. Every goroutine makes one call, but for the last subtest where it makes two.\<close>

record schedules =
  sch_distinct :: "nat list"
  sch_results :: "nat list"
  sch_upserts :: "nat list"
  sch_updates :: "nat list"
  sch_reads :: "nat list"

definition schedules_ok :: "schedules \<Rightarrow> bool" where
  "schedules_ok sch \<longleftrightarrow> list_all (\<lambda>xs. mset xs = mset [0..<16]) [sch_distinct sch, sch_results sch, sch_upserts sch, sch_updates sch] \<and>
     mset (sch_reads sch) = mset ([0..<32] @ [0..<32])"

fun create_each :: "'s StoreOps \<Rightarrow> 's \<Rightarrow> Notification list \<Rightarrow> 's \<times> string list" where
  "create_each ops s [] = (s, [])"
| "create_each ops s (n # ns) =
     (case CreateNotification ops s n of
        (s, n, r) \<Rightarrow>
          (case create_each ops s ns of
             (s, errs) \<Rightarrow> (s, (case r of Inl err \<Rightarrow> [''goroutine %d create: %v''] | Inr isnew \<Rightarrow> []) @ errs)))"

definition distinct_row :: "nat \<Rightarrow> Notification" where
  "distinct_row i = mkNotif ''acme'' ''u1'' (''d-'' @ FormatInt (int i)) (1000 + int i)"

definition t_DistinctKeys :: "'s StoreOps \<Rightarrow> 's \<Rightarrow> nat list \<Rightarrow> string list" where
  "t_DistinctKeys ops s sched =
     (case create_each ops s (map distinct_row sched) of
        (s, errs) \<Rightarrow>
          (case QueryUserNotifications ops s (user_query ''acme'' MaxPageLimit None False) of
             Inl err \<Rightarrow> errs @ [''query: %v'']
           | Inr (items, cursor, unread) \<Rightarrow>
               if length items \<noteq> 16 then errs @ [''concurrent distinct creates: %d of %d rows survived''] else errs))"

fun race_calls :: "'s StoreOps \<Rightarrow> 's \<Rightarrow> nat \<Rightarrow> 's \<times> (string \<times> (goerror + bool)) list" where
  "race_calls ops s 0 = (s, [])"
| "race_calls ops s (Suc k) =
     (case CreateNotification ops s (mkNotif ''acme'' ''u1'' ''race'' 1000) of
        (s, n, r) \<Rightarrow> (case race_calls ops s k of (s, os) \<Rightarrow> (s, (ID n, r) # os)))"

fun race_collect :: "(string \<times> (goerror + bool)) list \<Rightarrow> string \<Rightarrow> nat \<Rightarrow> nat \<Rightarrow> string list \<Rightarrow> nat \<times> nat \<times> string list" where
  "race_collect [] canonicalID won lost errs = (won, lost, errs)"
| "race_collect ((rowID, Inl err) # os) canonicalID won lost errs =
     race_collect os canonicalID won lost (errs @ [''goroutine err: %v''])"
| "race_collect ((rowID, Inr isnew) # os) canonicalID won lost errs =
     (let errs = (if rowID = '''' then errs @ [''goroutine got empty ID''] else errs);
          canonicalID = (if canonicalID = '''' then rowID else canonicalID);
          errs = (if rowID \<noteq> canonicalID then errs @ [''idempotent create returned %q, want canonical %q''] else errs)
      in if isnew then race_collect os canonicalID (won + 1) lost errs
         else race_collect os canonicalID won (lost + 1) errs)"

definition t_SameKey :: "'s StoreOps \<Rightarrow> 's \<Rightarrow> nat list \<Rightarrow> string list" where
  "t_SameKey ops s received =
     (case race_calls ops s 16 of
        (s, results) \<Rightarrow>
          (case race_collect (map ((!) results) received) '''' 0 0 [] of
             (won, lost, errs) \<Rightarrow>
               errs @
               (if won \<noteq> 1 then [''race winners = %d, want 1 (losers=%d)''] else []) @
               (if lost \<noteq> 16 - 1 then [''race losers = %d, want %d''] else []) @
               (let items = (case QueryUserNotifications ops s (user_query ''acme'' 0 None False) of
                               Inl err \<Rightarrow> [] | Inr (items, cursor, unread) \<Rightarrow> items)
                in if length items \<noteq> 1 then [''same-key race left %d rows, want 1''] else [])))"

fun upsert_each :: "'s StoreOps \<Rightarrow> 's \<Rightarrow> nat list \<Rightarrow> 's \<times> string list" where
  "upsert_each ops s [] = (s, [])"
| "upsert_each ops s (i # is) =
     (case UpsertDevice ops s (mkDevice ''android'' (''tok-'' @ FormatInt (int i)) 100 (100 + int i)) of
        (s, d, r) \<Rightarrow>
          (case upsert_each ops s is of
             (s, errs) \<Rightarrow> (s, (case r of Inl err \<Rightarrow> [''goroutine %d upsert: %v''] | Inr d \<Rightarrow> []) @ errs)))"

definition t_UpsertRace :: "'s StoreOps \<Rightarrow> 's \<Rightarrow> nat list \<Rightarrow> string list" where
  "t_UpsertRace ops s sched =
     (case upsert_each ops s sched of
        (s, errs) \<Rightarrow>
          (case ListDevices ops s ''acme'' ''u1'' of
             Inl err \<Rightarrow> errs @ [''list: %v'']
           | Inr list \<Rightarrow> if length list \<noteq> 1 then errs @ [''same-key concurrent upserts left %d rows, want 1''] else errs))"

definition targets :: "DeliveryStatus list" where
  "targets = [StatusDelivered, StatusAcked, StatusRead]"

fun update_each :: "'s StoreOps \<Rightarrow> 's \<Rightarrow> string \<Rightarrow> nat list \<Rightarrow> 's \<times> string list" where
  "update_each ops s rowID [] = (s, [])"
| "update_each ops s rowID (i # is) =
     (case UpdateStatus ops s ''acme'' rowID (targets ! (i mod length targets)) (2000 + int i) of
        (s, r) \<Rightarrow>
          (case update_each ops s rowID is of
             (s, errs) \<Rightarrow>
               (s, (case r of None \<Rightarrow> [] | Some err \<Rightarrow> if errors_Is err ErrNotFound then [] else [''UpdateStatus race err: %v'']) @ errs)))"

definition t_UpdateRace :: "'s StoreOps \<Rightarrow> 's \<Rightarrow> nat list \<Rightarrow> string list" where
  "t_UpdateRace ops s sched =
     (case CreateNotification ops s (mkNotif ''acme'' ''u1'' ''upd'' 1000) of
        (s, n, Inl err) \<Rightarrow> [''create: %v'']
      | (s, n, Inr isnew) \<Rightarrow>
          (case update_each ops s (ID n) sched of
             (s, errs) \<Rightarrow>
               (case GetNotification ops s ''acme'' ''u1'' (ID n) of
                  Inl err \<Rightarrow> errs @ [''get post-race: %v %#v'']
                | Inr got \<Rightarrow>
                    if Status got \<in> {StatusDelivered, StatusAcked, StatusRead} then errs
                    else errs @ [''post-race status = %q, want one of delivered/acked/read''])))"

datatype reader = ToCreate | ToQuery Notification | Returned

definition reader_row :: "nat \<Rightarrow> Notification" where
  "reader_row i = mkNotif ''acme'' ''u1'' (''ryw-'' @ FormatInt (int i)) (1000 + int i)"

definition reader_step :: "'s StoreOps \<Rightarrow> nat \<Rightarrow> 's \<times> (nat \<Rightarrow> reader) \<times> string list \<Rightarrow> 's \<times> (nat \<Rightarrow> reader) \<times> string list" where
  "reader_step ops i st =
     (case st of (s, g, errs) \<Rightarrow>
        (case g i of
           ToCreate \<Rightarrow>
             (case CreateNotification ops s (reader_row i) of
                (s, n, Inl err) \<Rightarrow> (s, g(i := Returned), errs @ [''create: %v''])
              | (s, n, Inr isnew) \<Rightarrow> (s, g(i := ToQuery n), errs))
         | ToQuery n \<Rightarrow>
             (case QueryUserNotifications ops s (user_query ''acme'' MaxPageLimit None False) of
                Inl err \<Rightarrow> (s, g(i := Returned), errs @ [''query: %v''])
              | Inr (items, cursor, unread) \<Rightarrow>
                  (s, g(i := Returned),
                   if \<not> list_ex (\<lambda>it. ID it = ID n) items then errs @ [''read-your-writes violated''] else errs))
         | Returned \<Rightarrow> st))"

definition t_ReadYourWrites :: "'s StoreOps \<Rightarrow> 's \<Rightarrow> nat list \<Rightarrow> string list" where
  "t_ReadYourWrites ops s sched = snd (snd (fold (reader_step ops) sched (s, (\<lambda>_. ToCreate), [])))"

subsection \<open>The suite\<close>

definition subtest :: "(string \<Rightarrow> 's StoreOps \<times> 's) \<Rightarrow> string \<Rightarrow> ('s StoreOps \<Rightarrow> 's \<Rightarrow> string list) \<Rightarrow> string list" where
  "subtest new name test = t_Run name (case new name of (ops, s) \<Rightarrow> test ops s)"

definition runPaginationConformance :: "(string \<Rightarrow> 's StoreOps \<times> 's) \<Rightarrow> string list" where
  "runPaginationConformance new =
     subtest new ''QueryUserNotifications_AllPagesReturnEveryRow'' t_AllPages @
     subtest new ''StrictLessThanCutoff'' t_StrictLessThanCutoff"

definition runFreshTenantConformance :: "(string \<Rightarrow> 's StoreOps \<times> 's) \<Rightarrow> string list" where
  "runFreshTenantConformance new =
     subtest new ''QueryUserNotifications_Empty'' t_QueryEmpty @ subtest new ''GetNotification_NotFound'' t_GetFresh @
     subtest new ''ListDevices_Empty'' t_ListEmpty"

definition runRoundTripConformance :: "(string \<Rightarrow> 's StoreOps \<times> 's) \<Rightarrow> string list" where
  "runRoundTripConformance new =
     subtest new ''StringFields_OnCreate'' t_StringFields @ subtest new ''Int64_Fidelity_Timestamps'' t_Int64Fidelity @
     subtest new ''LargePayload_Body'' t_LargePayload"

definition runConcurrencyConformance :: "(string \<Rightarrow> 's StoreOps \<times> 's) \<Rightarrow> schedules \<Rightarrow> string list" where
  "runConcurrencyConformance new sch =
     subtest new ''ConcurrentCreate_DistinctKeys_NoLostWrites'' (\<lambda>ops s. t_DistinctKeys ops s (sch_distinct sch)) @
     subtest new ''ConcurrentCreate_SameKey_SingleWinner'' (\<lambda>ops s. t_SameKey ops s (sch_results sch)) @
     subtest new ''ConcurrentUpsertDevice_SameKey_SingleRow'' (\<lambda>ops s. t_UpsertRace ops s (sch_upserts sch)) @
     subtest new ''ConcurrentUpdateStatus_NoError'' (\<lambda>ops s. t_UpdateRace ops s (sch_updates sch)) @
     subtest new ''ConcurrentReadYourWrites_QueryAfterCreate'' (\<lambda>ops s. t_ReadYourWrites ops s (sch_reads sch))"

definition runKeyEdgeConformance :: "(string \<Rightarrow> 's StoreOps \<times> 's) \<Rightarrow> string list" where
  "runKeyEdgeConformance new =
     subtest new ''NotificationID_LongValue'' t_LongValue @
     subtest new ''NotificationID_SeparatorBytesDoNotCollide'' t_SeparatorBytes @
     subtest new ''DeviceType_CaseSensitive_SeparateRows'' t_CaseSensitive"

definition RunConformance :: "'s Driver \<Rightarrow> schedules \<Rightarrow> string list" where
  "RunConformance d sch =
     (if drv_Name d = '''' then [''conformance: Driver.Name is required'']
      else (case drv_New d of
              None \<Rightarrow> [''conformance: Driver.New is required'']
            | Some new \<Rightarrow>
                t_Run (drv_Name d)
                  (subtest new ''CreateGet'' t_CreateGet @ subtest new ''GetNotFound'' t_GetNotFound @
                   subtest new ''Idempotency'' t_Idempotency @ subtest new ''StatusTransitions'' t_StatusTransitions @
                   subtest new ''CursorWalk_ThreePages'' t_CursorWalk @
                   subtest new ''UnreadFilterAndCount'' t_UnreadFilterAndCount @
                   subtest new ''DeviceUpsertRotation'' t_DeviceUpsertRotation @ subtest new ''UserIsolation'' t_UserIsolation) @
                t_Run (drv_Name d @ ''/Pagination'') (runPaginationConformance new) @
                t_Run (drv_Name d @ ''/FreshTenant'') (runFreshTenantConformance new) @
                t_Run (drv_Name d @ ''/RoundTrip'') (runRoundTripConformance new) @
                t_Run (drv_Name d @ ''/Concurrency'') (runConcurrencyConformance new sch) @
                t_Run (drv_Name d @ ''/KeyEdge'') (runKeyEdgeConformance new)))"

end
