(* ===== verification/Conformance_Contract.thy ===== *)
theory Conformance_Contract
  imports Conformance
begin

text \<open>
  Every driver with the contract of \<open>full_store\<close> passes the conformance suite, under every schedule of the
  concurrency subtests, provided it accepts the strings the suite uses. Each subtest has its own lemma in the
  locale \<open>conformant\<close>; the drivers get the whole suite by interpretation.
\<close>

definition suite_text :: "string \<Rightarrow> bool" where
  "suite_text s \<longleftrightarrow> plain_text s \<or> s = unicode_value"

definition suite_row :: "Notification \<Rightarrow> bool" where
  "suite_row n \<longleftrightarrow> list_all suite_text [TenantID n, UserID n, NotificationID n, SubjectRef n, SubjectType n, Title n, Body n,
       Channel n, Status n] \<and> '''' \<notin> set [NotificationID n, TenantID n, UserID n, Status n]"

definition suite_dev :: "Device \<Rightarrow> bool" where
  "suite_dev d \<longleftrightarrow> list_all (\<lambda>s. plain_text s \<and> s \<noteq> '''') [dev_TenantID d, dev_UserID d, dev_DeviceType d, dev_Token d]"

lemma suite_mkNotif:
  "plain_text t \<Longrightarrow> plain_text u \<Longrightarrow> plain_text i \<Longrightarrow> t \<noteq> '''' \<Longrightarrow> u \<noteq> '''' \<Longrightarrow> i \<noteq> '''' \<Longrightarrow> suite_row (mkNotif t u i ms)"
  by (simp add: suite_row_def mkNotif_def suite_text_def channel_defs status_defs is_ascii_def)

lemma mkNotif_simps [simp]:
  "ID (mkNotif t u i ms) = ''''" "NotificationID (mkNotif t u i ms) = i" "TenantID (mkNotif t u i ms) = t"
  "UserID (mkNotif t u i ms) = u" "Title (mkNotif t u i ms) = ''t-'' @ i" "Status (mkNotif t u i ms) = StatusPending"
  "CreatedAtMS (mkNotif t u i ms) = ms"
  "notif_key (mkNotif t u i ms) = \<lparr>nk_Tenant = t, nk_User = u, nk_NotificationID = i\<rparr>"
  "notif_key (mkNotif t u i ms\<lparr>Title := x\<rparr>) = \<lparr>nk_Tenant = t, nk_User = u, nk_NotificationID = i\<rparr>"
  "notif_key (mkNotif t u i ms\<lparr>Title := x, Body := y\<rparr>) = \<lparr>nk_Tenant = t, nk_User = u, nk_NotificationID = i\<rparr>"
  by (simp_all add: mkNotif_def notif_key_def)

definition phone_key :: "string \<Rightarrow> devKey" where
  "phone_key dt = \<lparr>dk_Tenant = ''acme'', dk_User = ''u1'', dk_DeviceType = dt\<rparr>"

lemma phone_key_inj [simp]: "phone_key a = phone_key b \<longleftrightarrow> a = b"
  by (simp add: phone_key_def)

lemma mkDevice_simps [simp]:
  "dev_ID (mkDevice t k a b) = ''''" "dev_Token (mkDevice t k a b) = k" "dev_LastActiveMS (mkDevice t k a b) = b"
  "dev_key (mkDevice t k a b) = phone_key t"
  "suite_dev (mkDevice t k a b) \<longleftrightarrow> plain_text t \<and> t \<noteq> '''' \<and> plain_text k \<and> k \<noteq> ''''"
  by (simp_all add: mkDevice_def dev_key_def phone_key_def suite_dev_def is_ascii_def)

lemma user_query_simps [simp]:
  "q_TenantID (user_query t l c u) = t" "q_UserID (user_query t l c u) = ''u1''" "q_CursorMS (user_query t l c u) = c"
  "q_Limit (user_query t l c u) = l" "q_UnreadOnly (user_query t l c u) = u"
  by (simp_all add: user_query_def)

lemma has_key_empty [simp]: "\<not> has_key Map.empty k" "\<not> has_key (\<lambda>x. None) k"
  by (simp_all add: has_key_def)

lemma t_Run_Nil [simp]: "t_Run name [] = []"
  by (simp add: t_Run_def)

definition with_ids :: "Notification list \<Rightarrow> string list \<Rightarrow> Notification list" where
  "with_ids ns is = map2 (\<lambda>n i. n\<lparr>ID := i\<rparr>) ns is"

lemma with_ids_simps [simp]: "with_ids [] is = []" "with_ids (n # ns) (i # is) = n\<lparr>ID := i\<rparr> # with_ids ns is"
  by (simp_all add: with_ids_def)

text \<open>A page is determined by the rows.\<close>

lemma is_page_unique:
  assumes "inj_on ID R" "is_page R q p" "is_page R q p'"
  shows "p = p'"
proof -
  obtain xs ys where xs: "distinct xs" "set xs = {n \<in> R. query_match q n}" "sorted_wrt newest_first xs"
    and ys: "distinct ys" "set ys = set xs" "sorted_wrt newest_first ys"
    and p: "p = (take (nat (ClampLimit (q_Limit q))) xs, cursor_of xs (nat (ClampLimit (q_Limit q))),
             int (card {n \<in> R. owned_by (q_TenantID q) (q_UserID q) n \<and> Status n \<noteq> StatusRead}))"
    and p': "p' = (take (nat (ClampLimit (q_Limit q))) ys, cursor_of ys (nat (ClampLimit (q_Limit q))),
             int (card {n \<in> R. owned_by (q_TenantID q) (q_UserID q) n \<and> Status n \<noteq> StatusRead}))"
    using assms(2,3) unfolding is_page_def by force
  have "inj_on ID (set xs)" using assms(1) by (rule inj_on_subset) (use xs(2) in auto)
  moreover have "mset xs = mset ys" using xs(1) ys(1,2) by (simp add: set_eq_iff_mset_eq_distinct [symmetric])
  ultimately have "xs = ys" using xs(3) ys(3) by (intro sorted_wrt_unique [OF newest_first_total])
  with p p' show ?thesis by simp
qed

locale conformant =
  full_store ops inv row id_ok row_ok arg_ok id_arg dev dev_id_ok dev_ok
  for ops :: "'s StoreOps" and inv row id_ok row_ok arg_ok id_arg dev dev_id_ok dev_ok +
  fixes new_ids :: "'s \<Rightarrow> bool"
  assumes suite_row_ok: "suite_row n \<Longrightarrow> row_ok n"
    and suite_dev_ok: "suite_dev d \<Longrightarrow> dev_ok d"
    and plain_arg: "plain_text x \<Longrightarrow> x \<noteq> '''' \<Longrightarrow> arg_ok x"
    and no_such: "id_arg ''no-such''"
    and first_id: "inv s \<Longrightarrow> new_ids s \<Longrightarrow> row_ok n \<Longrightarrow> ID n = '''' \<Longrightarrow> row s = Map.empty \<Longrightarrow>
      CreateNotification ops s n = (s', n', r) \<Longrightarrow> ID n' \<noteq> ''no-such''"
begin

text \<open>What the store holds between the calls of a subtest.\<close>

definition holds :: "'s \<Rightarrow> (string \<Rightarrow> Notification option) \<Rightarrow> (devKey \<Rightarrow> Device option) \<Rightarrow> bool" where
  "holds s R D \<longleftrightarrow> inv s \<and> row s = R \<and> dev s = D"

definition fresh :: "'s \<Rightarrow> bool" where
  "fresh s \<longleftrightarrow> holds s Map.empty Map.empty \<and> new_ids s"

lemma freshD: "fresh s \<Longrightarrow> holds s Map.empty Map.empty"
  by (simp add: fresh_def)

lemma suite_args [simp]: "arg_ok ''acme''" "arg_ok ''u1''" "arg_ok ''fresh''"
  by (rule plain_arg; simp add: is_ascii_def)+

lemma create_row:
  assumes "holds s R D" "ID n = ''''" "suite_row n" "\<not> has_key R (notif_key n)"
  obtains s' i where "CreateNotification ops s n = (s', n\<lparr>ID := i\<rparr>, Inr True)" "holds s' (R(i \<mapsto> n\<lparr>ID := i\<rparr>)) D"
    "R i = None" "i \<noteq> ''''"
proof -
  have s: "inv s" "row s = R" "dev s = D" using assms(1) by (auto simp: holds_def)
  note a = id_ok_empty [OF s(1), folded assms(2)] suite_row_ok [OF assms(3)]
  have "\<And>i m. row s i = Some m \<Longrightarrow> notif_key m \<noteq> notif_key n" using assms(4) s(2) by (metis has_keyI)
  with create_new [OF s(1) a] obtain s' i where c: "CreateNotification ops s n = (s', n\<lparr>ID := i\<rparr>, Inr True)" "inv s'" "i \<noteq> ''''"
    "row s i = None" "row s' = (row s)(i \<mapsto> n\<lparr>ID := i\<rparr>)" by blast
  from create_devs [OF s(1) a c(1)] c s that show ?thesis by (simp add: holds_def)
qed

lemma create_mk:
  assumes "holds s R D" "plain_text t" "plain_text u" "plain_text i" "t \<noteq> ''''" "u \<noteq> ''''" "i \<noteq> ''''"
    and "\<not> has_key R \<lparr>nk_Tenant = t, nk_User = u, nk_NotificationID = i\<rparr>"
  shows "\<exists>s' j. CreateNotification ops s (mkNotif t u i ms) = (s', mkNotif t u i ms\<lparr>ID := j\<rparr>, Inr True) \<and>
    holds s' (R(j \<mapsto> mkNotif t u i ms\<lparr>ID := j\<rparr>)) D \<and> R j = None \<and> j \<noteq> ''''"
  by (rule create_row [OF assms(1) _ suite_mkNotif [OF assms(2-7)]]) (use assms(8) in auto)

lemma create_again:
  assumes "holds s R D" "ID n = ''''" "suite_row n" "R i = Some m" "notif_key m = notif_key n"
  obtains s' where "CreateNotification ops s n = (s', n\<lparr>ID := i\<rparr>, Inr False)" "holds s' R D"
proof -
  have s: "inv s" "row s = R" "dev s = D" using assms(1) by (auto simp: holds_def)
  note a = id_ok_empty [OF s(1), folded assms(2)] suite_row_ok [OF assms(3)]
  from create_existing [OF s(1) a, of i m] assms(4,5) s(2) obtain s' where
    c: "CreateNotification ops s n = (s', n\<lparr>ID := i\<rparr>, Inr False)" "inv s'" "row s' = row s" by auto
  from create_devs [OF s(1) a c(1)] c s that show ?thesis by (simp add: holds_def)
qed

lemma get_row: "holds s R D \<Longrightarrow> R i = Some n \<Longrightarrow> GetNotification ops s t u i = (if owned_by t u n then Inr n else Inl ErrNotFound)"
  by (auto simp: holds_def get_spec row_id_arg)

lemma get_no_such: "holds s R D \<Longrightarrow> R ''no-such'' = None \<Longrightarrow> GetNotification ops s t u ''no-such'' = Inl ErrNotFound"
  by (auto simp: holds_def get_spec no_such)

lemma update_row:
  assumes "holds s R D" "R i = Some n" "st \<in> {StatusPending, StatusDelivered, StatusAcked, StatusRead, StatusFailed}"
  shows "\<exists>s'. UpdateStatus ops s (TenantID n) i st ms = (s', None) \<and> holds s' (R(i \<mapsto> stamp_status st ms n)) D"
proof -
  have s: "inv s" "row s = R" "dev s = D" using assms(1) by (auto simp: holds_def)
  from update_found [OF s(1) own_status_ok [OF assms(3)], of i n] assms(2) s(2) obtain s' where
    u: "UpdateStatus ops s (TenantID n) i st ms = (s', None)" "inv s'" "row s' = (row s)(i \<mapsto> stamp_status st ms n)" by blast
  have "dev s' = dev s" using update_devs [OF s(1) _ _ u(1)] own_status_ok [OF assms(3)] row_id_arg [OF s(1)] assms(2) s(2) by blast
  with u s show ?thesis by (simp add: holds_def)
qed

lemma query_rows:
  assumes "holds s R D" "distinct ns" "ran R = set ns" "arg_ok (q_TenantID q)" "arg_ok (q_UserID q)"
    and "xs = sort_Slice newest_first (filter (query_match q) ns)" "lim = nat (ClampLimit (q_Limit q))"
  shows "QueryUserNotifications ops s q = Inr (take lim xs, cursor_of xs lim,
    int (length (filter (\<lambda>n. owned_by (q_TenantID q) (q_UserID q) n \<and> Status n \<noteq> StatusRead) ns)))"
proof -
  have s: "inv s" "row s = R" using assms(1) by (auto simp: holds_def)
  have inj: "inj_on ID (ran R)" using inj_on_ID_rows [OF s(1)] s(2) by simp
  obtain p where p: "QueryUserNotifications ops s q = Inr p" "is_page (ran R) q p"
    using query_page [OF s(1) assms(4,5)] s(2) by blast
  from is_page_sort [OF assms(2) _ _ assms(6,7) refl, of "ran R"] inj assms(3) is_page_unique [OF inj p(2)] p(1)
  show ?thesis by auto
qed

lemma upsert_row:
  assumes "holds s R D" "dev_ID d = ''''" "suite_dev d" "D (dev_key d) = None"
  shows "\<exists>s' d' i. UpsertDevice ops s d = (s', d', Inr (d\<lparr>dev_ID := i\<rparr>)) \<and> fresh_dev_id D i \<and>
    holds s' R (D(dev_key d \<mapsto> d\<lparr>dev_ID := i\<rparr>))"
proof -
  have s: "inv s" "row s = R" "dev s = D" using assms(1) by (auto simp: holds_def)
  note a = dev_id_ok_empty [OF s(1), folded assms(2)] suite_dev_ok [OF assms(3)]
  from upsert_new [OF s(1) a] assms(4) [folded s(3)] obtain s' d' i where
    u: "UpsertDevice ops s d = (s', d', Inr (d\<lparr>dev_ID := i\<rparr>))" "inv s'" "fresh_dev_id (dev s) i"
    "dev s' = (dev s)(dev_key d \<mapsto> d\<lparr>dev_ID := i\<rparr>)" by blast
  from upsert_rows [OF s(1) a u(1)] u s show ?thesis by (auto simp: holds_def)
qed

lemma upsert_again:
  assumes "holds s R D" "dev_ID d = ''''" "suite_dev d" "D (dev_key d) = Some e"
    and "e' = e\<lparr>dev_Token := dev_Token d, dev_LastActiveMS := dev_LastActiveMS d\<rparr>"
  shows "\<exists>s' d'. UpsertDevice ops s d = (s', d', Inr e') \<and> holds s' R (D(dev_key d \<mapsto> e'))"
proof -
  have s: "inv s" "row s = R" "dev s = D" using assms(1) by (auto simp: holds_def)
  note a = dev_id_ok_empty [OF s(1), folded assms(2)] suite_dev_ok [OF assms(3)]
  from upsert_existing [OF s(1) a] assms(4) [folded s(3)] assms(5) obtain s' d' where
    u: "UpsertDevice ops s d = (s', d', Inr e')" "inv s'" "dev s' = (dev s)(dev_key d \<mapsto> e')" by blast
  from upsert_rows [OF s(1) a u(1)] u s show ?thesis by (auto simp: holds_def)
qed

lemma list_rows:
  assumes "holds s R D" "arg_ok t" "arg_ok u" "{d. \<exists>dt. D \<lparr>dk_Tenant = t, dk_User = u, dk_DeviceType = dt\<rparr> = Some d} = S"
  obtains ds where "ListDevices ops s t u = Inr ds" "length ds = card S"
proof -
  from list_spec [of s t u] assms obtain ds where "ListDevices ops s t u = Inr ds" "distinct ds" "set ds = S"
    by (auto simp: holds_def)
  with distinct_card [of ds] that show ?thesis by simp
qed

subsection \<open>Single rows\<close>

lemma passes_CreateGet:
  assumes "fresh s"
  shows "t_CreateGet ops s = []"
proof -
  note h = freshD [OF assms]
  obtain s1 i where "CreateNotification ops s (mkNotif ''acme'' ''u1'' ''nid-1'' 1000) =
      (s1, mkNotif ''acme'' ''u1'' ''nid-1'' 1000\<lparr>ID := i\<rparr>, Inr True)" "i \<noteq> ''''"
    and h1: "holds s1 [i \<mapsto> mkNotif ''acme'' ''u1'' ''nid-1'' 1000\<lparr>ID := i\<rparr>] Map.empty"
    using create_mk [OF h, of "''acme''" "''u1''" "''nid-1''" 1000] by (auto simp: is_ascii_def)
  then show ?thesis by (simp add: t_CreateGet_def get_row [OF h1] owned_by_def)
qed

lemma passes_GetNotFound: "fresh s \<Longrightarrow> t_GetNotFound ops s = []"
  by (simp add: t_GetNotFound_def get_no_such [OF freshD])

lemma passes_Idempotency:
  assumes "fresh s"
  shows "t_Idempotency ops s = []"
proof -
  let ?n = "mkNotif ''acme'' ''u1'' ''dup'' 1000" and ?m = "(mkNotif ''acme'' ''u1'' ''dup'' 2000)\<lparr>Title := ''changed''\<rparr>"
  note h = freshD [OF assms]
  obtain s1 i where c: "CreateNotification ops s ?n = (s1, ?n\<lparr>ID := i\<rparr>, Inr True)" and h1: "holds s1 [i \<mapsto> ?n\<lparr>ID := i\<rparr>] Map.empty"
    using create_mk [OF h, of "''acme''" "''u1''" "''dup''" 1000] by (auto simp: is_ascii_def)
  have "suite_row ?m" by (simp add: suite_row_def mkNotif_def suite_text_def channel_defs status_defs is_ascii_def)
  then obtain s2 where "CreateNotification ops s1 ?m = (s2, ?m\<lparr>ID := i\<rparr>, Inr False)" and h2: "holds s2 [i \<mapsto> ?n\<lparr>ID := i\<rparr>] Map.empty"
    by (rule create_again [OF h1, of ?m i "?n\<lparr>ID := i\<rparr>", rotated]) simp_all
  with c show ?thesis by (simp add: t_Idempotency_def get_row [OF h2] owned_by_def)
qed

lemma passes_StatusTransitions:
  assumes "fresh s"
  shows "t_StatusTransitions ops s = []"
proof -
  let ?n = "mkNotif ''acme'' ''u1'' ''s'' 1000"
  note h = freshD [OF assms]
  obtain s1 i where c: "CreateNotification ops s ?n = (s1, ?n\<lparr>ID := i\<rparr>, Inr True)" and h1: "holds s1 [i \<mapsto> ?n\<lparr>ID := i\<rparr>] Map.empty"
    using create_mk [OF h, of "''acme''" "''u1''" "''s''" 1000] by (auto simp: is_ascii_def)
  let ?n1 = "stamp_status StatusDelivered 1100 (?n\<lparr>ID := i\<rparr>)"
  obtain s2 where u2: "UpdateStatus ops s1 ''acme'' i StatusDelivered 1100 = (s2, None)" and h2: "holds s2 [i \<mapsto> ?n1] Map.empty"
    using update_row [OF h1, of i _ StatusDelivered 1100] by auto
  obtain s3 where u3: "UpdateStatus ops s2 ''acme'' i StatusRead 1200 = (s3, None)"
    and h3: "holds s3 [i \<mapsto> stamp_status StatusRead 1200 ?n1] Map.empty"
    using update_row [OF h2, of i _ StatusRead 1200] by auto
  have "i \<noteq> ''no-such''"
    using first_id [OF _ _ _ _ _ c] assms suite_row_ok suite_mkNotif by (auto simp: fresh_def holds_def is_ascii_def)
  then have "UpdateStatus ops s3 ''acme'' ''no-such'' StatusRead 1 = (s3, Some ErrNotFound)"
    using update_missing [of s3 "''no-such''" "''acme''" StatusRead 1] h3 no_such by (auto simp: holds_def)
  with c u2 u3 show ?thesis
    by (simp add: t_StatusTransitions_def get_row [OF h2] get_row [OF h3] owned_by_def stamp_status_times)
qed


subsection \<open>Many rows\<close>

lemma create_all_rows:
  assumes "holds s R D" "list_all (\<lambda>n. ID n = '''' \<and> suite_row n \<and> \<not> has_key R (notif_key n)) ns" "distinct (map notif_key ns)"
  shows "\<exists>s' R' is. create_all ops s ns = (s', Inr (with_ids ns is)) \<and> length is = length ns \<and> distinct is \<and>
    holds s' R' D \<and> R \<subseteq>\<^sub>m R' \<and> ran R' = ran R \<union> set (with_ids ns is) \<and>
    (\<forall>n \<in> set (with_ids ns is). R' (ID n) = Some n) \<and> (\<forall>i \<in> set is. R i = None)"
  using assms
proof (induction ns arbitrary: s R)
  case (Cons n ns)
  from Cons.prems(1,2) obtain s1 i where c: "CreateNotification ops s n = (s1, n\<lparr>ID := i\<rparr>, Inr True)"
    "holds s1 (R(i \<mapsto> n\<lparr>ID := i\<rparr>)) D" "R i = None" by (auto elim: create_row)
  have "list_all (\<lambda>m. ID m = '''' \<and> suite_row m \<and> \<not> has_key (R(i \<mapsto> n\<lparr>ID := i\<rparr>)) (notif_key m)) ns"
    using Cons.prems(2,3) c(3) by (auto simp: list_all_iff has_key_upd simp del: fun_upd_apply) (metis imageI)
  moreover have "distinct (map notif_key ns)" using Cons.prems(3) by simp
  ultimately obtain s' R' "is" where
    r: "create_all ops s1 ns = (s', Inr (with_ids ns is))" "length is = length ns" "distinct is" "holds s' R' D"
      "R(i \<mapsto> n\<lparr>ID := i\<rparr>) \<subseteq>\<^sub>m R'" "ran R' = ran (R(i \<mapsto> n\<lparr>ID := i\<rparr>)) \<union> set (with_ids ns is)"
      "\<forall>m \<in> set (with_ids ns is). R' (ID m) = Some m" "\<forall>j \<in> set is. (R(i \<mapsto> n\<lparr>ID := i\<rparr>)) j = None"
    using Cons.IH [OF c(2)] by blast
  have "i \<notin> set is" "\<forall>j \<in> set is. R j = None" using r(8) by (auto split: if_splits)
  moreover have "R' i = Some (n\<lparr>ID := i\<rparr>)" using r(5) by (auto simp: map_le_def)
  moreover have "R \<subseteq>\<^sub>m R(i \<mapsto> n\<lparr>ID := i\<rparr>)" using c(3) by (auto simp: map_le_def)
  then have "R \<subseteq>\<^sub>m R'" using r(5) by (rule map_le_trans)
  ultimately show ?case using c r by (intro exI [of _ s'] exI [of _ R'] exI [of _ "i # is"]) auto
next
  case (Nil s R)
  then show ?case by (auto intro!: exI [of _ R])
qed

lemma distinct_rows: "distinct is \<Longrightarrow> length is = length ns \<Longrightarrow> distinct (with_ids ns is)"
proof -
  assume "distinct is" "length is = length ns"
  then have "distinct (map ID (with_ids ns is))"
    by (simp add: with_ids_def comp_def case_prod_unfold map_snd_zip)
  then show ?thesis by (metis distinct_map)
qed


lemma create_all_fresh:
  assumes "fresh s" "list_all (\<lambda>n. ID n = '''' \<and> suite_row n) ns" "distinct (map notif_key ns)"
  obtains s' R' ns' "is" where "create_all ops s ns = (s', Inr ns')" "ns' = with_ids ns is" "length is = length ns"
    "distinct is" "holds s' R' Map.empty" "ran R' = set ns'" "\<forall>n \<in> set ns'. R' (ID n) = Some n" "distinct ns'"
proof -
  have "list_all (\<lambda>n. ID n = '''' \<and> suite_row n \<and> \<not> has_key Map.empty (notif_key n)) ns" using assms(2) by simp
  from create_all_rows [OF freshD [OF assms(1)] this assms(3)] obtain s' R' "is" where
    c: "create_all ops s ns = (s', Inr (with_ids ns is))" "length is = length ns" "distinct is" "holds s' R' Map.empty"
      "ran R' = set (with_ids ns is)" "\<forall>n \<in> set (with_ids ns is). R' (ID n) = Some n" by auto
  with distinct_rows [OF c(3,2)] show ?thesis by (intro that [of s' "with_ids ns is" "is" R']) simp_all
qed

lemma rows_five:
  "length is = 5 \<Longrightarrow> \<exists>a b c d e. is = [a, b, c, d, e]" "length is = 3 \<Longrightarrow> \<exists>a b c. is = [a, b, c]"
  by (auto simp: eval_nat_numeral length_Suc_conv)

lemma walk_rows_eq:
  "walk_rows = [mkNotif ''acme'' ''u1'' ''p0'' 1000, mkNotif ''acme'' ''u1'' ''p1'' 1010, mkNotif ''acme'' ''u1'' ''p2'' 1020,
     mkNotif ''acme'' ''u1'' ''p3'' 1030, mkNotif ''acme'' ''u1'' ''p4'' 1040]"
  by code_simp

lemma passes_CursorWalk:
  assumes "fresh s"
  shows "t_CursorWalk ops s = []"
proof -
  have rows: "list_all (\<lambda>n. ID n = '''' \<and> suite_row n) walk_rows" "distinct (map notif_key walk_rows)" "length walk_rows = 5"
    by (simp_all add: walk_rows_eq suite_mkNotif is_ascii_def)
  obtain s' R' ns' "is" where c: "create_all ops s walk_rows = (s', Inr ns')" "ns' = with_ids walk_rows is"
    "length is = length walk_rows" "distinct is" "holds s' R' Map.empty" "ran R' = set ns'" "\<forall>n \<in> set ns'. R' (ID n) = Some n" "distinct ns'"
    by (rule create_all_fresh [OF assms rows(1,2)])
  obtain i0 i1 i2 i3 i4 where i: "is = [i0, i1, i2, i3, i4]" using rows_five(1) c(3) rows(3) by metis
  have ns: "ns' = [mkNotif ''acme'' ''u1'' ''p0'' 1000\<lparr>ID := i0\<rparr>, mkNotif ''acme'' ''u1'' ''p1'' 1010\<lparr>ID := i1\<rparr>,
      mkNotif ''acme'' ''u1'' ''p2'' 1020\<lparr>ID := i2\<rparr>, mkNotif ''acme'' ''u1'' ''p3'' 1030\<lparr>ID := i3\<rparr>,
      mkNotif ''acme'' ''u1'' ''p4'' 1040\<lparr>ID := i4\<rparr>]"
    by (simp add: c(2) i walk_rows_eq)
  note q = query_rows [OF c(5,8,6) _ _ refl refl]
  have "ParseInt (FormatInt k) = Inr k" if "k \<in> {1010, 1030}" for k
    using that by (intro ParseInt_FormatInt) (auto simp: is_int64_def)
  then show ?thesis
    by (simp add: t_CursorWalk_def c(1) expect_page_def parse_page_cursor_def parseCursor_def conf_ids_def q ns
        query_match_def owned_by_def newest_first_def cursor_of_def ClampLimit_def MaxPageLimit_def)
qed

lemma passes_StrictLessThanCutoff:
  assumes "fresh s"
  shows "t_StrictLessThanCutoff ops s = []"
proof -
  have eq: "cutoff_rows = [mkNotif ''acme'' ''u1'' ''s0'' 1000, mkNotif ''acme'' ''u1'' ''s1'' 2000, mkNotif ''acme'' ''u1'' ''s2'' 3000]"
    by code_simp
  have rows: "list_all (\<lambda>n. ID n = '''' \<and> suite_row n) cutoff_rows" "distinct (map notif_key cutoff_rows)" "length cutoff_rows = 3"
    by (simp_all add: eq suite_mkNotif is_ascii_def)
  obtain s' R' ns' "is" where c: "create_all ops s cutoff_rows = (s', Inr ns')" "ns' = with_ids cutoff_rows is"
    "length is = length cutoff_rows" "distinct is" "holds s' R' Map.empty" "ran R' = set ns'" "\<forall>n \<in> set ns'. R' (ID n) = Some n" "distinct ns'"
    by (rule create_all_fresh [OF assms rows(1,2)])
  obtain i0 i1 i2 where i: "is = [i0, i1, i2]" using rows_five(2) c(3) rows(3) by metis
  have ns: "ns' = [mkNotif ''acme'' ''u1'' ''s0'' 1000\<lparr>ID := i0\<rparr>, mkNotif ''acme'' ''u1'' ''s1'' 2000\<lparr>ID := i1\<rparr>,
      mkNotif ''acme'' ''u1'' ''s2'' 3000\<lparr>ID := i2\<rparr>]"
    by (simp add: c(2) i eq)
  show ?thesis
    by (simp add: t_StrictLessThanCutoff_def c(1) query_rows [OF c(5,8,6) _ _ refl refl] conf_ids_def ns
        query_match_def owned_by_def ClampLimit_def DefaultPageLimit_def)
qed

lemma passes_UserIsolation:
  assumes "fresh s"
  shows "t_UserIsolation ops s = []"
proof -
  have rows: "list_all (\<lambda>n. ID n = '''' \<and> suite_row n) isolation_rows" "distinct (map notif_key isolation_rows)" "length isolation_rows = 3"
    by (simp_all add: isolation_rows_def suite_mkNotif is_ascii_def)
  obtain s' R' ns' "is" where c: "create_all ops s isolation_rows = (s', Inr ns')" "ns' = with_ids isolation_rows is"
    "length is = length isolation_rows" "distinct is" "holds s' R' Map.empty" "ran R' = set ns'" "\<forall>n \<in> set ns'. R' (ID n) = Some n" "distinct ns'"
    by (rule create_all_fresh [OF assms rows(1,2)])
  obtain i0 i1 i2 where i: "is = [i0, i1, i2]" using rows_five(2) c(3) rows(3) by metis
  have ns: "ns' = [mkNotif ''acme'' ''u1'' ''x'' 1000\<lparr>ID := i0\<rparr>, mkNotif ''acme'' ''u2'' ''x'' 1000\<lparr>ID := i1\<rparr>,
      mkNotif ''beta'' ''u1'' ''x'' 1000\<lparr>ID := i2\<rparr>]"
    by (simp add: c(2) i isolation_rows_def)
  with c(7) have "R' i0 = Some (mkNotif ''acme'' ''u1'' ''x'' 1000\<lparr>ID := i0\<rparr>)" by simp
  note g = get_row [OF c(5) this]
  show ?thesis
    by (simp add: t_UserIsolation_def c(1) query_rows [OF c(5,8,6) _ _ refl refl] misses_def g ns
        query_match_def owned_by_def ClampLimit_def DefaultPageLimit_def)
qed


subsection \<open>All pages\<close>

lemma seen_loop_new:
  "distinct (map NotificationID ns) \<Longrightarrow> set (map NotificationID ns) \<inter> set seen = {} \<Longrightarrow>
   seen_loop ns seen errs = (rev (map NotificationID ns) @ seen, errs)"
  by (induction ns arbitrary: seen) auto

lemma page_loop_walk:
  assumes "walk_pages ops s (user_query ''acme'' 100 cur False) fuel = Inr (Some xs)"
    and "distinct (map NotificationID xs)" "set (map NotificationID xs) \<inter> set seen = {}"
  shows "page_loop ops s fuel cur seen errs = Inr (rev (map NotificationID xs) @ seen, errs)"
  using assms
proof (induction fuel arbitrary: cur xs seen)
  case (Suc fuel)
  have q: "user_query ''acme'' 100 cur False\<lparr>q_CursorMS := Some v\<rparr> = user_query ''acme'' 100 (Some v) False" for v
    by (simp add: user_query_def)
  obtain items cursor unread where Q: "QueryUserNotifications ops s (user_query ''acme'' 100 cur False) = Inr (items, cursor, unread)"
    using Suc.prems(1) by (auto split: sum.splits)
  show ?case
  proof (cases "cursor = ''''")
    case True
    with Q Suc.prems show ?thesis by (simp add: seen_loop_new)
  next
    case False
    with Q Suc.prems(1) obtain v rest where v: "ParseInt cursor = Inr v" "xs = items @ rest"
      "walk_pages ops s (user_query ''acme'' 100 (Some v) False) fuel = Inr (Some rest)"
      by (auto simp: q split: sum.splits option.splits)
    have "page_loop ops s fuel (Some v) (rev (map NotificationID items) @ seen) errs =
        Inr (rev (map NotificationID rest) @ rev (map NotificationID items) @ seen, errs)"
      by (rule Suc.IH [OF v(3)]) (use Suc.prems(2,3) v(2) in auto)
    moreover have "seen_loop items seen errs = (rev (map NotificationID items) @ seen, errs)"
      by (rule seen_loop_new) (use Suc.prems(2,3) v(2) in auto)
    ultimately show ?thesis using Q False v(1,2) by simp
  qed
qed simp

lemma zero_pad_inj: "zero_pad w (format_uint m) = zero_pad w (format_uint n) \<longleftrightarrow> m = n"
proof -
  have "digits_value 0 (replicate k (CHR ''0'') @ s) = digits_value 0 s" for k s
    by (induction k) (simp_all add: digits_value_def digit_of_def)
  then have "digits_value 0 (zero_pad w (format_uint k)) = k" for k
    by (simp add: zero_pad_def digits_value_format_uint)
  then show ?thesis by metis
qed

lemma pagination_keys:
  "list_all (\<lambda>n. ID n = '''' \<and> suite_row n) pagination_rows" "distinct (map notif_key pagination_rows)"
  "distinct (map NotificationID pagination_rows)" "length pagination_rows = 250"
proof -
  have "plain_text (zero_pad 4 (format_uint n))" for n by (simp add: zero_pad_def is_ascii_def)
  then show "list_all (\<lambda>n. ID n = '''' \<and> suite_row n) pagination_rows"
    by (auto simp: pagination_rows_def list_all_iff FormatInt_nat is_ascii_def intro!: suite_mkNotif)
qed (simp_all add: pagination_rows_def paginationRows_def distinct_map inj_on_def FormatInt_nat zero_pad_inj)

lemma with_ids_nth: "length is = length ns \<Longrightarrow> k < length ns \<Longrightarrow> with_ids ns is ! k = (ns ! k)\<lparr>ID := is ! k\<rparr>"
  by (simp add: with_ids_def)

lemma length_with_ids [simp]: "length is = length ns \<Longrightarrow> length (with_ids ns is) = length ns"
  by (simp add: with_ids_def)

lemma map_with_ids: "length is = length ns \<Longrightarrow> (\<And>n i. f (n\<lparr>ID := i\<rparr>) = f n) \<Longrightarrow> map f (with_ids ns is) = map f ns"
  by (rule nth_equalityI) (simp_all add: with_ids_nth)

lemma passes_AllPages:
  assumes "fresh s"
  shows "t_AllPages ops s = []"
proof -
  obtain s' R' ns' "is" where c: "create_all ops s pagination_rows = (s', Inr ns')" "ns' = with_ids pagination_rows is"
    "length is = length pagination_rows" "distinct is" "holds s' R' Map.empty" "ran R' = set ns'" "\<forall>n \<in> set ns'. R' (ID n) = Some n" "distinct ns'"
    by (rule create_all_fresh [OF assms pagination_keys(1,2)])
  let ?q = "user_query ''acme'' 100 None False"
  have nth: "TenantID (ns' ! k) = ''acme'' \<and> UserID (ns' ! k) = ''u1'' \<and> CreatedAtMS (ns' ! k) = 1000 + int k" if "k < 250" for k
    using that c(3) pagination_keys(4) by (simp add: c(2) with_ids_nth pagination_rows_def paginationRows_def)
  have len: "length ns' = 250" using c(3) pagination_keys(4) by (simp add: c(2))
  have all: "query_match ?q n \<and> is_int64 (CreatedAtMS n)" if "n \<in> set ns'" for n
    using that nth len by (auto simp: in_set_conv_nth query_match_def owned_by_def is_int64_def)
  have inj: "inj_on CreatedAtMS (set ns')" using nth len by (auto simp: inj_on_def in_set_conv_nth)
  have srt: "sorted_wrt newest_first (rev ns')"
    unfolding sorted_wrt_iff_nth_less using nth len by (auto simp: newest_first_def rev_nth)
  have inv: "inv s'" "row s' = R'" using c(5) by (auto simp: holds_def)
  have "walk_pages ops s' ?q (paginationRows + 5) = Inr (Some (rev ns'))"
    by (rule walk_pages_all) (use inv c(6,8) srt inj all len in \<open>auto simp: paginationRows_def\<close>)
  moreover have ids: "distinct (map NotificationID ns')"
    using pagination_keys(3) c(3) by (simp add: c(2) map_with_ids)
  ultimately have "page_loop ops s' (paginationRows + 5) None [] [] = Inr (map NotificationID ns', [])"
    using page_loop_walk [of s' None "paginationRows + 5" "rev ns'" "[]" "[]"] by (simp add: rev_map [symmetric])
  then show ?thesis by (simp add: t_AllPages_def c(1) len paginationRows_def)
qed


subsection \<open>Unread rows, fresh tenants\<close>

lemma passes_UnreadFilterAndCount:
  assumes "fresh s"
  shows "t_UnreadFilterAndCount ops s = []"
proof -
  let ?n = "\<lambda>x i. mkNotif ''acme'' ''u1'' x 1000\<lparr>ID := i\<rparr>"
  obtain s1 i where c1: "CreateNotification ops s (mkNotif ''acme'' ''u1'' ''a'' 1000) = (s1, ?n ''a'' i, Inr True)"
    and h1: "holds s1 [i \<mapsto> ?n ''a'' i] Map.empty"
    using create_mk [OF freshD [OF assms], of "''acme''" "''u1''" "''a''" 1000] by (auto simp: is_ascii_def)
  let ?a = "stamp_status StatusRead 1100 (?n ''a'' i)"
  obtain s2 where u2: "UpdateStatus ops s1 ''acme'' i StatusRead 1100 = (s2, None)" and h2: "holds s2 [i \<mapsto> ?a] Map.empty"
    using update_row [OF h1, of i _ StatusRead 1100] by auto
  have k2: "\<not> has_key [i \<mapsto> ?a] \<lparr>nk_Tenant = ''acme'', nk_User = ''u1'', nk_NotificationID = ''b''\<rparr>" by (simp add: has_key_def)
  obtain s3 j where c3: "CreateNotification ops s2 (mkNotif ''acme'' ''u1'' ''b'' 1000) = (s3, ?n ''b'' j, Inr True)"
    and h3: "holds s3 [i \<mapsto> ?a, j \<mapsto> ?n ''b'' j] Map.empty" and j: "j \<noteq> i"
    using create_mk [OF h2 _ _ _ _ _ _ k2, of 1000] by (auto simp: is_ascii_def split: if_splits)
  have k3: "\<not> has_key [i \<mapsto> ?a, j \<mapsto> ?n ''b'' j] \<lparr>nk_Tenant = ''acme'', nk_User = ''u1'', nk_NotificationID = ''c''\<rparr>"
    using j by (simp add: has_key_def)
  obtain s4 k where c4: "CreateNotification ops s3 (mkNotif ''acme'' ''u1'' ''c'' 1000) = (s4, ?n ''c'' k, Inr True)"
    and h4: "holds s4 [i \<mapsto> ?a, j \<mapsto> ?n ''b'' j, k \<mapsto> ?n ''c'' k] Map.empty" and k: "k \<noteq> i" "k \<noteq> j"
    using create_mk [OF h3 _ _ _ _ _ _ k3, of 1000] by (auto simp: is_ascii_def split: if_splits)
  have r: "ran [i \<mapsto> ?a, j \<mapsto> ?n ''b'' j, k \<mapsto> ?n ''c'' k] = set [?a, ?n ''b'' j, ?n ''c'' k]" using j k by auto
  have d: "distinct [?a, ?n ''b'' j, ?n ''c'' k]"
    using j k by (auto dest: arg_cong [where f = ID])
  have q: "QueryUserNotifications ops s4 (user_query ''acme'' 0 None b) =
    Inr (let xs = sort_Slice newest_first (filter (query_match (user_query ''acme'' 0 None b)) [?a, ?n ''b'' j, ?n ''c'' k])
         in (take 20 xs, cursor_of xs 20, 2))" for b
    using query_rows [OF h4 d r, of "user_query ''acme'' 0 None b", OF _ _ refl refl]
    by (simp add: owned_by_def Let_def ClampLimit_def DefaultPageLimit_def status_defs)
  from c1 u2 c3 c4 show ?thesis
    by (simp add: t_UnreadFilterAndCount_def q Let_def query_match_def owned_by_def status_defs)
qed

lemma passes_QueryEmpty:
  assumes "fresh s"
  shows "t_QueryEmpty ops s = []"
  by (simp add: t_QueryEmpty_def query_rows [OF freshD [OF assms], of "[]", OF _ _ _ _ refl refl] cursor_of_def)

lemma passes_GetFresh: "fresh s \<Longrightarrow> t_GetFresh ops s = []"
  by (simp add: t_GetFresh_def misses_def get_no_such [OF freshD])

lemma passes_ListEmpty:
  assumes "fresh s"
  shows "t_ListEmpty ops s = []"
proof -
  obtain ds where "ListDevices ops s ''fresh'' ''u1'' = Inr ds" "length ds = card ({} :: Device set)"
    by (rule list_rows [OF freshD [OF assms], of "''fresh''" "''u1''" "{}"]) simp_all
  then show ?thesis by (simp add: t_ListEmpty_def)
qed

subsection \<open>Round trips\<close>

text \<open>The three loops create a row per case under a key with the number of the case.\<close>

definition case_key :: "string \<Rightarrow> nat \<Rightarrow> notifKey" where
  "case_key pre i = \<lparr>nk_Tenant = ''acme'', nk_User = ''u1'', nk_NotificationID = pre @ format_uint i\<rparr>"

definition cases_ok :: "string \<Rightarrow> (string \<Rightarrow> Notification option) \<Rightarrow> (nat \<times> 'v) list \<Rightarrow> bool" where
  "cases_ok pre R vs \<longleftrightarrow> distinct (map fst vs) \<and> (\<forall>i \<in> fst ` set vs. \<not> has_key R (case_key pre i))"

lemma cases_ok_Cons:
  assumes "cases_ok pre R ((i, v) # vs)"
  shows "\<not> has_key R (case_key pre i)" "R j = None \<Longrightarrow> notif_key n = case_key pre i \<Longrightarrow> cases_ok pre (R(j \<mapsto> n\<lparr>ID := j\<rparr>)) vs"
  using assms by (auto simp: cases_ok_def has_key_upd simp del: fun_upd_apply) (auto simp: case_key_def format_uint_inj rev_image_eqI)

lemma cases_ok_start: "cases_ok pre Map.empty (enumerate 0 vs)"
  by (simp add: cases_ok_def)

lemma create_case:
  assumes "holds s R D" "cases_ok pre R ((i, v) # vs)" "suite_row n" "ID n = ''''" "notif_key n = case_key pre i"
  shows "\<exists>s1 j. CreateNotification ops s n = (s1, n\<lparr>ID := j\<rparr>, Inr True) \<and> holds s1 (R(j \<mapsto> n\<lparr>ID := j\<rparr>)) D \<and>
    cases_ok pre (R(j \<mapsto> n\<lparr>ID := j\<rparr>)) vs"
proof -
  obtain s1 j where "CreateNotification ops s n = (s1, n\<lparr>ID := j\<rparr>, Inr True)" "holds s1 (R(j \<mapsto> n\<lparr>ID := j\<rparr>)) D" "R j = None"
    by (rule create_row [OF assms(1,4,3)]) (use cases_ok_Cons(1) [OF assms(2)] assms(5) in simp)
  with cases_ok_Cons(2) [OF assms(2)] assms(5) show ?thesis by blast
qed

lemma string_loop_passes:
  "holds s R Map.empty \<Longrightarrow> cases_ok ''rt-'' R vs \<Longrightarrow> \<forall>v \<in> snd ` set vs. suite_text v \<Longrightarrow> string_loop ops s vs = []"
proof (induction vs arbitrary: s R)
  case (Cons iv vs)
  obtain i v where iv: "iv = (i, v)" by fastforce
  let ?n = "string_row i v"
  have n: "suite_row ?n" "ID ?n = ''''" "notif_key ?n = case_key ''rt-'' i" "owned_by ''acme'' ''u1'' (?n\<lparr>ID := j\<rparr>)" for j
    using Cons.prems(3) by (simp_all add: iv string_row_def suite_row_def suite_text_def channel_defs status_defs is_ascii_def
        FormatInt_nat notif_key_def case_key_def owned_by_def)
  obtain s1 j where c: "CreateNotification ops s ?n = (s1, ?n\<lparr>ID := j\<rparr>, Inr True)" "holds s1 (R(j \<mapsto> ?n\<lparr>ID := j\<rparr>)) Map.empty"
    "cases_ok ''rt-'' (R(j \<mapsto> ?n\<lparr>ID := j\<rparr>)) vs"
    using create_case [OF Cons.prems(1) Cons.prems(2) [unfolded iv] n(1-3)] by blast
  have "string_loop ops s1 vs = []" by (rule Cons.IH [OF c(2,3)]) (use Cons.prems(3) in simp)
  with c(1) get_row [OF c(2), of j] n(4) show ?case by (simp add: iv assertEqualField_def) (simp add: string_row_def)
qed simp

lemma timestamp_loop_passes:
  "holds s R Map.empty \<Longrightarrow> cases_ok ''ts-'' R vs \<Longrightarrow> timestamp_loop ops s vs = []"
proof (induction vs arbitrary: s R)
  case (Cons iv vs)
  obtain i v where iv: "iv = (i, v)" by fastforce
  let ?n = "timestamp_row i v"
  have n: "suite_row ?n" "ID ?n = ''''" "notif_key ?n = case_key ''ts-'' i" "TenantID ?n = ''acme''" "UserID ?n = ''u1''" "CreatedAtMS ?n = v"
    by (simp_all add: timestamp_row_def suite_row_def suite_text_def mkNotif_def channel_defs status_defs is_ascii_def
        FormatInt_nat notif_key_def case_key_def)
  obtain s1 j where c: "CreateNotification ops s ?n = (s1, ?n\<lparr>ID := j\<rparr>, Inr True)" "holds s1 (R(j \<mapsto> ?n\<lparr>ID := j\<rparr>)) Map.empty"
    "cases_ok ''ts-'' (R(j \<mapsto> ?n\<lparr>ID := j\<rparr>)) vs"
    using create_case [OF Cons.prems(1) Cons.prems(2) [unfolded iv] n(1-3)] by blast
  let ?m = "stamp_status StatusDelivered v (?n\<lparr>ID := j\<rparr>)"
  obtain s2 where u: "UpdateStatus ops s1 ''acme'' j StatusDelivered v = (s2, None)" "holds s2 (R(j \<mapsto> ?m)) Map.empty"
    using update_row [OF c(2), of j "?n\<lparr>ID := j\<rparr>" StatusDelivered v] n(4) by auto
  have "has_key (R(j \<mapsto> ?m)) k \<longleftrightarrow> has_key (R(j \<mapsto> ?n\<lparr>ID := j\<rparr>)) k" for k
    using has_key_same [of "R(j \<mapsto> ?n\<lparr>ID := j\<rparr>)" j "?n\<lparr>ID := j\<rparr>" ?m k] by simp
  then have "timestamp_loop ops s2 vs = []" using c(3) by (intro Cons.IH [OF u(2)]) (simp add: cases_ok_def del: fun_upd_apply)
  with c(1) u(1) get_row [OF u(2), of j] n show ?case by (simp add: iv owned_by_def stamp_status_times)
qed simp

lemma large_loop_passes:
  "holds s R Map.empty \<Longrightarrow> cases_ok ''lp-'' R vs \<Longrightarrow> large_loop ops s vs = []"
proof (induction vs arbitrary: s R)
  case (Cons iv vs)
  obtain i v where iv: "iv = (i, v)" by fastforce
  let ?n = "large_row i v"
  have n: "suite_row ?n" "ID ?n = ''''" "notif_key ?n = case_key ''lp-'' i" "TenantID ?n = ''acme''" "UserID ?n = ''u1''"
    "Body ?n = replicate v (CHR ''x'')"
    by (simp_all add: large_row_def suite_row_def suite_text_def mkNotif_def channel_defs status_defs is_ascii_def
        FormatInt_nat notif_key_def case_key_def)
  obtain s1 j where c: "CreateNotification ops s ?n = (s1, ?n\<lparr>ID := j\<rparr>, Inr True)" "holds s1 (R(j \<mapsto> ?n\<lparr>ID := j\<rparr>)) Map.empty"
    "cases_ok ''lp-'' (R(j \<mapsto> ?n\<lparr>ID := j\<rparr>)) vs"
    using create_case [OF Cons.prems(1) Cons.prems(2) [unfolded iv] n(1-3)] by blast
  with Cons.IH [OF c(2,3)] get_row [OF c(2), of j] n show ?case by (simp add: iv owned_by_def)
qed simp

lemma passes_Int64Fidelity: "fresh s \<Longrightarrow> t_Int64Fidelity ops s = []"
  unfolding t_Int64Fidelity_def by (rule timestamp_loop_passes [OF freshD cases_ok_start])

lemma passes_LargePayload: "fresh s \<Longrightarrow> t_LargePayload ops s = []"
  unfolding t_LargePayload_def by (rule large_loop_passes [OF freshD cases_ok_start])

lemma passes_StringFields:
  assumes "fresh s"
  shows "t_StringFields ops s = []"
proof -
  have "suite_text v" if "v \<in> set adversarialValues" for v
    using that by (auto simp: adversarialValues_def suite_text_def quotes_value_def json_value_def is_ascii_def)
  then show ?thesis unfolding t_StringFields_def
    by (intro string_loop_passes [OF freshD [OF assms] cases_ok_start]) (auto simp: enumerate_eq_zip dest: set_zip_rightD)
qed


subsection \<open>Devices and key edges\<close>


lemma list_phones:
  assumes "holds s R D" "dom D \<subseteq> range phone_key" "ran D = S"
  shows "\<exists>ds. ListDevices ops s ''acme'' ''u1'' = Inr ds \<and> length ds = card S"
proof -
  have "\<exists>dt. k = phone_key dt" if "D k = Some d" for k d using assms(2) that by blast
  then have "{d. \<exists>dt. D \<lparr>dk_Tenant = ''acme'', dk_User = ''u1'', dk_DeviceType = dt\<rparr> = Some d} = ran D"
    by (force simp: ran_def phone_key_def)
  from list_rows [OF assms(1) suite_args(1,2) this] assms(3) show ?thesis by metis
qed

lemma passes_DeviceUpsertRotation:
  assumes "fresh s"
  shows "t_DeviceUpsertRotation ops s = []"
proof -
  let ?d1 = "mkDevice ''android'' ''tok-1'' 100 100" and ?d2 = "mkDevice ''android'' ''tok-2'' 0 200" and ?d3 = "mkDevice ''ios'' ''tok-ios'' 0 0"
  obtain s1 d1 i where c1: "UpsertDevice ops s ?d1 = (s1, d1, Inr (?d1\<lparr>dev_ID := i\<rparr>))" "i \<noteq> ''''"
    and h1: "holds s1 Map.empty [phone_key ''android'' \<mapsto> ?d1\<lparr>dev_ID := i\<rparr>]"
    using upsert_row [OF freshD [OF assms], of ?d1] by (auto simp: is_ascii_def fresh_dev_id_def)
  let ?e = "?d1\<lparr>dev_ID := i, dev_Token := ''tok-2'', dev_LastActiveMS := 200\<rparr>"
  obtain s2 d2 where c2: "UpsertDevice ops s1 ?d2 = (s2, d2, Inr ?e)" and h2: "holds s2 Map.empty [phone_key ''android'' \<mapsto> ?e]"
    using upsert_again [OF h1, of ?d2 "?d1\<lparr>dev_ID := i\<rparr>" ?e] by (auto simp: is_ascii_def)
  obtain ds where l2: "ListDevices ops s2 ''acme'' ''u1'' = Inr ds" "length ds = 1"
    using list_phones [OF h2, of "{?e}"] by auto
  obtain s3 d3 j where c3: "UpsertDevice ops s2 ?d3 = (s3, d3, Inr (?d3\<lparr>dev_ID := j\<rparr>))"
    and h3: "holds s3 Map.empty [phone_key ''android'' \<mapsto> ?e, phone_key ''ios'' \<mapsto> ?d3\<lparr>dev_ID := j\<rparr>]"
    using upsert_row [OF h2, of ?d3] by (auto simp: is_ascii_def)
  have "ran [phone_key ''android'' \<mapsto> ?e, phone_key ''ios'' \<mapsto> ?d3\<lparr>dev_ID := j\<rparr>] = {?e, ?d3\<lparr>dev_ID := j\<rparr>}"
    by auto
  moreover have "?e \<noteq> ?d3\<lparr>dev_ID := j\<rparr>" by (auto dest: arg_cong [where f = dev_Token])
  ultimately obtain es where "ListDevices ops s3 ''acme'' ''u1'' = Inr es" "length es = 2"
    using list_phones [OF h3] by auto
  with c1 c2 l2 c3 show ?thesis by (simp add: t_DeviceUpsertRotation_def)
qed

lemma passes_CaseSensitive:
  assumes "fresh s"
  shows "t_CaseSensitive ops s = []"
proof -
  let ?d1 = "mkDevice ''android'' ''t-lower'' 0 0" and ?d2 = "mkDevice ''Android'' ''t-upper'' 0 0"
  obtain s1 d1 i where c1: "UpsertDevice ops s ?d1 = (s1, d1, Inr (?d1\<lparr>dev_ID := i\<rparr>))"
    and h1: "holds s1 Map.empty [phone_key ''android'' \<mapsto> ?d1\<lparr>dev_ID := i\<rparr>]"
    using upsert_row [OF freshD [OF assms], of ?d1] by (auto simp: is_ascii_def)
  obtain s2 d2 j where c2: "UpsertDevice ops s1 ?d2 = (s2, d2, Inr (?d2\<lparr>dev_ID := j\<rparr>))" and j: "j \<noteq> i"
    and h2: "holds s2 Map.empty [phone_key ''android'' \<mapsto> ?d1\<lparr>dev_ID := i\<rparr>, phone_key ''Android'' \<mapsto> ?d2\<lparr>dev_ID := j\<rparr>]"
    using upsert_row [OF h1, of ?d2] by (auto simp: is_ascii_def fresh_dev_id_def)
  have "ran [phone_key ''android'' \<mapsto> ?d1\<lparr>dev_ID := i\<rparr>, phone_key ''Android'' \<mapsto> ?d2\<lparr>dev_ID := j\<rparr>] = {?d1\<lparr>dev_ID := i\<rparr>, ?d2\<lparr>dev_ID := j\<rparr>}"
    by auto
  moreover have "?d1\<lparr>dev_ID := i\<rparr> \<noteq> ?d2\<lparr>dev_ID := j\<rparr>" using j by (auto dest: arg_cong [where f = dev_ID])
  ultimately obtain es where "ListDevices ops s2 ''acme'' ''u1'' = Inr es" "length es = 2"
    using list_phones [OF h2] by auto
  with c1 c2 j show ?thesis by (simp add: t_CaseSensitive_def)
qed

lemma passes_LongValue:
  assumes "fresh s"
  shows "t_LongValue ops s = []"
proof -
  let ?n = "\<lambda>ms. mkNotif ''acme'' ''u1'' (replicate 256 (CHR ''a'')) ms"
  have n: "suite_row (?n ms)" for ms by (rule suite_mkNotif) (simp_all add: is_ascii_def)
  obtain s1 i where c: "CreateNotification ops s (?n 1000) = (s1, ?n 1000\<lparr>ID := i\<rparr>, Inr True)" and h1: "holds s1 [i \<mapsto> ?n 1000\<lparr>ID := i\<rparr>] Map.empty"
    using create_row [OF freshD [OF assms], of "?n 1000" thesis] n by auto
  obtain s2 where "CreateNotification ops s1 (?n 2000) = (s2, ?n 2000\<lparr>ID := i\<rparr>, Inr False)"
    using create_again [OF h1, of "?n 2000" i "?n 1000\<lparr>ID := i\<rparr>" thesis] n by auto
  with c show ?thesis by (simp add: t_LongValue_def Let_def)
qed

lemma passes_SeparatorBytes:
  assumes "fresh s"
  shows "t_SeparatorBytes ops s = []"
proof -
  let ?a = "mkNotif ''acme'' ''u1'' ''n1|n2'' 1000" and ?b = "mkNotif ''acme'' ''u1|n1'' ''n2'' 1001"
  obtain s1 i where c: "CreateNotification ops s ?a = (s1, ?a\<lparr>ID := i\<rparr>, Inr True)" and h1: "holds s1 [i \<mapsto> ?a\<lparr>ID := i\<rparr>] Map.empty"
    using create_mk [OF freshD [OF assms], of "''acme''" "''u1''" "''n1|n2''" 1000] by (auto simp: is_ascii_def)
  have "\<not> has_key [i \<mapsto> ?a\<lparr>ID := i\<rparr>] \<lparr>nk_Tenant = ''acme'', nk_User = ''u1|n1'', nk_NotificationID = ''n2''\<rparr>"
    by (simp add: has_key_def)
  from create_mk [OF h1 _ _ _ _ _ _ this, of 1001] obtain s2 j where c2: "CreateNotification ops s1 ?b = (s2, ?b\<lparr>ID := j\<rparr>, Inr True)"
    and h2: "holds s2 [i \<mapsto> ?a\<lparr>ID := i\<rparr>, j \<mapsto> ?b\<lparr>ID := j\<rparr>] Map.empty" and j: "j \<noteq> i"
    by (auto simp: is_ascii_def split: if_splits)
  with c c2 get_row [OF h2, of i] show ?thesis by (simp add: t_SeparatorBytes_def owned_by_def)
qed


subsection \<open>Concurrency\<close>

lemma create_each_all: "create_all ops s ns = (s', Inr ns') \<Longrightarrow> create_each ops s ns = (s', [])"
  by (induction ns arbitrary: s ns') (auto split: prod.splits sum.splits)

lemma passes_DistinctKeys:
  assumes "fresh s" "mset sched = mset [0..<16]"
  shows "t_DistinctKeys ops s sched = []"
proof -
  let ?rows = "map distinct_row sched"
  have d: "distinct sched" "length sched = 16" using assms(2) by (metis distinct_upt mset_eq_imp_distinct_iff) (metis assms(2) size_mset length_upt diff_zero)
  have "list_all (\<lambda>n. ID n = '''' \<and> suite_row n) ?rows"
    by (auto simp: list_all_iff distinct_row_def FormatInt_nat is_ascii_def intro!: suite_mkNotif)
  moreover have "distinct (map notif_key ?rows)"
    using d(1) by (simp add: distinct_map inj_on_def distinct_row_def FormatInt_nat format_uint_inj)
  ultimately obtain s' R' ns' "is" where c: "create_all ops s ?rows = (s', Inr ns')" "ns' = with_ids ?rows is" "length is = length ?rows"
    "distinct is" "holds s' R' Map.empty" "ran R' = set ns'" "\<forall>n \<in> set ns'. R' (ID n) = Some n" "distinct ns'"
    using create_all_fresh [OF assms(1), of ?rows thesis] by blast
  have len: "length ns' = 16" using c(3) d(2) by (simp add: c(2))
  have "query_match (user_query ''acme'' MaxPageLimit None False) n" if n: "n \<in> set ns'" for n
  proof -
    obtain k where "k < 16" "n = ns' ! k" using n len by (auto simp: in_set_conv_nth)
    then show ?thesis using c(3) d(2) by (simp add: c(2) with_ids_nth query_match_def owned_by_def distinct_row_def)
  qed
  then have "filter (query_match (user_query ''acme'' MaxPageLimit None False)) ns' = ns'" by simp
  with query_rows [OF c(5,8,6), of "user_query ''acme'' MaxPageLimit None False", OF _ _ refl refl] len show ?thesis
    by (simp add: t_DistinctKeys_def create_each_all [OF c(1)] ClampLimit_def MaxPageLimit_def)
qed

lemma race_calls_again:
  "holds s R D \<Longrightarrow> R i = Some m \<Longrightarrow> notif_key m = notif_key (mkNotif ''acme'' ''u1'' ''race'' 1000) \<Longrightarrow>
   \<exists>s'. race_calls ops s k = (s', map (\<lambda>b. (i, Inr b)) (replicate k False)) \<and> holds s' R D"
proof (induction k arbitrary: s)
  case (Suc k)
  let ?n = "mkNotif ''acme'' ''u1'' ''race'' 1000"
  have "suite_row ?n" by (rule suite_mkNotif) (simp_all add: is_ascii_def)
  then obtain s1 where c: "CreateNotification ops s ?n = (s1, ?n\<lparr>ID := i\<rparr>, Inr False)" "holds s1 R D"
    using create_again [OF Suc.prems(1), of ?n i m thesis] Suc.prems(2,3) by auto
  from Suc.IH [OF c(2) Suc.prems(2,3)] c(1) show ?case by auto
qed simp

lemma race_collect_all:
  assumes "i \<noteq> ''''"
  shows "can \<in> {'''', i} \<Longrightarrow> race_collect (map (\<lambda>b. (i, Inr b)) bs) can w l errs =
    (w + length (filter (\<lambda>b. b) bs), l + length (filter Not bs), errs)"
  using assms by (induction bs arbitrary: can w l) (auto simp: Let_def)

lemma passes_SameKey:
  assumes "fresh s" "mset received = mset [0..<16]"
  shows "t_SameKey ops s received = []"
proof -
  let ?n = "mkNotif ''acme'' ''u1'' ''race'' 1000" and ?bs = "True # replicate 15 False"
  obtain s1 i where c: "CreateNotification ops s ?n = (s1, ?n\<lparr>ID := i\<rparr>, Inr True)" "i \<noteq> ''''" and h1: "holds s1 [i \<mapsto> ?n\<lparr>ID := i\<rparr>] Map.empty"
    using create_mk [OF freshD [OF assms(1)], of "''acme''" "''u1''" "''race''" 1000] by (auto simp: is_ascii_def)
  obtain s2 where r: "race_calls ops s1 15 = (s2, map (\<lambda>b. (i, Inr b)) (replicate 15 False))" and h2: "holds s2 [i \<mapsto> ?n\<lparr>ID := i\<rparr>] Map.empty"
    using race_calls_again [OF h1, of i "?n\<lparr>ID := i\<rparr>" 15] by auto
  have "race_calls ops s 16 = race_calls ops s (Suc 15)" by simp
  also have "\<dots> = (s2, map (\<lambda>b. (i, Inr b)) ?bs)" unfolding race_calls.simps using c(1) r by simp
  finally have calls: "race_calls ops s 16 = (s2, map (\<lambda>b. (i, Inr b)) ?bs)" .
  have "k < 16" if "k \<in> set received" for k using that assms(2) by (metis atLeastLessThan_iff set_mset_mset set_upt)
  then have k: "k < length ?bs" if "k \<in> set received" for k using that by simp
  have recv: "map ((!) (map (\<lambda>b. (i, Inr b :: goerror + bool)) ?bs)) received = map (\<lambda>b. (i, Inr b)) (map ((!) ?bs) received)"
    unfolding map_map comp_def by (rule map_cong [OF refl], rule nth_map, erule k)
  have "mset (map ((!) ?bs) received) = mset (map ((!) ?bs) [0..<length ?bs])" using assms(2) by simp
  then have m: "mset (map ((!) ?bs) received) = mset ?bs" unfolding map_nth .
  have "length (filter P (map ((!) ?bs) received)) = length (filter P ?bs)" for P
    using arg_cong [OF m, of "\<lambda>M. size (filter_mset P M)"] by (simp only: mset_filter [symmetric] size_mset)
  then have "race_collect (map ((!) (map (\<lambda>b. (i, Inr b)) ?bs)) received) '''' 0 0 [] = (1, 15, [])"
    unfolding recv by (subst race_collect_all [OF c(2)]) simp_all
  moreover have "QueryUserNotifications ops s2 (user_query ''acme'' 0 None False) = Inr ([?n\<lparr>ID := i\<rparr>], '''', 1)"
    using query_rows [OF h2, of "[?n\<lparr>ID := i\<rparr>]" "user_query ''acme'' 0 None False", OF _ _ _ _ refl refl]
    by (simp add: query_match_def owned_by_def ClampLimit_def DefaultPageLimit_def cursor_of_def status_defs)
  ultimately show ?thesis unfolding t_SameKey_def calls prod.case by simp
qed


lemma upsert_each_rows:
  "holds s R [phone_key ''android'' \<mapsto> e] \<Longrightarrow> \<exists>s' e'. upsert_each ops s is = (s', []) \<and> holds s' R [phone_key ''android'' \<mapsto> e']"
proof (induction "is" arbitrary: s e)
  case (Cons i "is")
  let ?d = "mkDevice ''android'' (''tok-'' @ FormatInt (int i)) 100 (100 + int i)"
  have "suite_dev ?d" by (simp add: FormatInt_nat is_ascii_def)
  then obtain s1 d1 where u: "UpsertDevice ops s ?d = (s1, d1, Inr (e\<lparr>dev_Token := dev_Token ?d, dev_LastActiveMS := dev_LastActiveMS ?d\<rparr>))"
    "holds s1 R [phone_key ''android'' \<mapsto> e\<lparr>dev_Token := dev_Token ?d, dev_LastActiveMS := dev_LastActiveMS ?d\<rparr>]"
    using upsert_again [OF Cons.prems, of ?d e, OF _ _ _ refl] by (auto simp: fun_upd_same simp del: fun_upd_apply)
  from Cons.IH [OF u(2)] u(1) show ?case by auto
qed auto

lemma passes_UpsertRace:
  assumes "fresh s" "mset sched = mset [0..<16]"
  shows "t_UpsertRace ops s sched = []"
proof -
  obtain i "is" where sched: "sched = i # is" using mset_eq_length [OF assms(2)] by (cases sched) auto
  let ?d = "mkDevice ''android'' (''tok-'' @ FormatInt (int i)) 100 (100 + int i)"
  have "suite_dev ?d" by (simp add: FormatInt_nat is_ascii_def)
  then obtain s1 d1 j where u: "UpsertDevice ops s ?d = (s1, d1, Inr (?d\<lparr>dev_ID := j\<rparr>))"
    and h1: "holds s1 Map.empty [phone_key ''android'' \<mapsto> ?d\<lparr>dev_ID := j\<rparr>]"
    using upsert_row [OF freshD [OF assms(1)], of ?d] by auto
  obtain s2 e where e: "upsert_each ops s1 is = (s2, [])" and h2: "holds s2 Map.empty [phone_key ''android'' \<mapsto> e]"
    using upsert_each_rows [OF h1] by blast
  obtain ds where "ListDevices ops s2 ''acme'' ''u1'' = Inr ds" "length ds = 1" using list_phones [OF h2, of "{e}"] by auto
  with u e show ?thesis by (simp add: t_UpsertRace_def sched)
qed

lemma targets_status: "targets ! (i mod length targets) \<in> {StatusDelivered, StatusAcked, StatusRead}"
proof -
  have "targets ! (i mod length targets) \<in> set targets" by (rule nth_mem) (simp add: targets_def)
  then show ?thesis by (auto simp: targets_def)
qed

lemma update_each_rows:
  "holds s R D \<Longrightarrow> R i = Some n \<Longrightarrow> TenantID n = ''acme'' \<Longrightarrow>
   \<exists>s' m. update_each ops s i is = (s', []) \<and> holds s' (R(i \<mapsto> m)) D \<and> TenantID m = ''acme'' \<and> UserID m = UserID n \<and>
     (if is = [] then m = n else Status m \<in> {StatusDelivered, StatusAcked, StatusRead})"
proof (induction "is" arbitrary: s R n)
  case Nil
  moreover from Nil have "R(i \<mapsto> n) = R" by (auto simp: fun_eq_iff)
  ultimately show ?case by (auto simp del: fun_upd_apply)
next
  case (Cons k "is")
  let ?st = "targets ! (k mod length targets)" let ?m = "stamp_status ?st (2000 + int k) n"
  obtain s1 where u: "UpdateStatus ops s ''acme'' i ?st (2000 + int k) = (s1, None)" "holds s1 (R(i \<mapsto> ?m)) D"
    using update_row [OF Cons.prems(1,2), of ?st "2000 + int k"] targets_status [of k] Cons.prems(3) by auto
  from Cons.IH [OF u(2), of ?m] obtain s' m where "update_each ops s1 i is = (s', [])" "holds s' (R(i \<mapsto> m)) D" "TenantID m = ''acme''"
    "UserID m = UserID n" "if is = [] then m = ?m else Status m \<in> {StatusDelivered, StatusAcked, StatusRead}"
    using Cons.prems(3) by (auto simp: fun_upd_same simp del: fun_upd_apply)
  with u(1) targets_status [of k] show ?case by (auto simp del: fun_upd_apply split: if_splits)
qed

lemma passes_UpdateRace:
  assumes "fresh s" "mset sched = mset [0..<16]"
  shows "t_UpdateRace ops s sched = []"
proof -
  let ?n = "mkNotif ''acme'' ''u1'' ''upd'' 1000"
  obtain s1 i where c: "CreateNotification ops s ?n = (s1, ?n\<lparr>ID := i\<rparr>, Inr True)" and h1: "holds s1 [i \<mapsto> ?n\<lparr>ID := i\<rparr>] Map.empty"
    using create_mk [OF freshD [OF assms(1)], of "''acme''" "''u1''" "''upd''" 1000] by (auto simp: is_ascii_def)
  have "sched \<noteq> []" using mset_eq_length [OF assms(2)] by auto
  with update_each_rows [OF h1, of i "?n\<lparr>ID := i\<rparr>" sched] obtain s2 m where u: "update_each ops s1 i sched = (s2, [])"
    "holds s2 [i \<mapsto> m] Map.empty" "TenantID m = ''acme''" "UserID m = ''u1''" "Status m \<in> {StatusDelivered, StatusAcked, StatusRead}" by auto
  with c get_row [OF u(2), of i] show ?thesis by (simp add: t_UpdateRace_def owned_by_def)
qed


definition readers_ok :: "'s \<times> (nat \<Rightarrow> reader) \<times> string list \<Rightarrow> bool" where
  "readers_ok st \<longleftrightarrow> (case st of (s, g, errs) \<Rightarrow> errs = [] \<and>
     (\<exists>R. holds s R Map.empty \<and> (\<forall>j n. R j = Some n \<longrightarrow> ID n = j \<and> owned_by ''acme'' ''u1'' n \<and> notif_key n \<in> case_key ''ryw-'' ` {..<32}) \<and>
       (\<forall>i. g i = ToCreate \<longrightarrow> \<not> has_key R (case_key ''ryw-'' i)) \<and> (\<forall>i n. g i = ToQuery n \<longrightarrow> R (ID n) = Some n)))"

lemma reader_row_simps:
  "suite_row (reader_row i)" "ID (reader_row i) = ''''" "notif_key (reader_row i) = case_key ''ryw-'' i"
  "owned_by ''acme'' ''u1'' ((reader_row i)\<lparr>ID := j\<rparr>)"
  by (auto simp: reader_row_def FormatInt_nat case_key_def is_ascii_def owned_by_def intro!: suite_mkNotif)

text \<open>All rows of the readers fit on one page, so a reader's own row is on it.\<close>

lemma reader_page:
  assumes "holds s R Map.empty" "\<And>j n. R j = Some n \<Longrightarrow> owned_by ''acme'' ''u1'' n \<and> notif_key n \<in> case_key ''ryw-'' ` {..<32}" "R (ID n) = Some n"
  shows "\<exists>items cursor unread. QueryUserNotifications ops s (user_query ''acme'' MaxPageLimit None False) = Inr (items, cursor, unread) \<and>
    list_ex (\<lambda>it. ID it = ID n) items"
proof -
  have s: "inv s" "row s = R" using assms(1) by (auto simp: holds_def)
  have "inj_on notif_key (ran R)" using row_key [OF s(1)] s(2) by (auto simp: inj_on_def ran_def) (metis option.inject)
  then have "card (ran R) = card (notif_key ` ran R)" by (simp add: card_image)
  also have "\<dots> \<le> card (case_key ''ryw-'' ` {..<32})" by (rule card_mono) (use assms(2) in \<open>auto simp: ran_def\<close>)
  also have "\<dots> \<le> 32" using card_image_le [of "{..<32 :: nat}" "case_key ''ryw-''"] by simp
  finally have card: "card (ran R) \<le> 32" .
  obtain ns where ns: "set ns = ran R" "distinct ns"
    using finite_distinct_list [OF finite_ran_rows [OF s(1)]] s(2) by auto
  let ?q = "user_query ''acme'' MaxPageLimit None False"
  have "query_match ?q m" if "m \<in> ran R" for m using that assms(2) by (auto simp: query_match_def ran_def)
  then have "filter (query_match ?q) ns = ns" using ns(1) by simp
  moreover have "length ns \<le> 100" using card ns by (metis distinct_card le_trans numeral_le_iff semiring_norm(71,68,69,72))
  moreover have "n \<in> set ns" using assms(3) ns(1) by (auto simp: ran_def)
  ultimately show ?thesis
    using query_rows [OF assms(1) ns(2) ns(1) [symmetric], of ?q, OF _ _ refl refl]
    by (auto simp: ClampLimit_def MaxPageLimit_def list_ex_iff)
qed

lemma reader_step_ok:
  assumes "readers_ok st" "i < 32"
  shows "readers_ok (reader_step ops i st)"
proof -
  obtain s g where st: "st = (s, g, [])" using assms(1) by (auto simp: readers_ok_def)
  with assms(1) obtain R where R: "holds s R Map.empty"
    "\<And>j n. R j = Some n \<Longrightarrow> ID n = j \<and> owned_by ''acme'' ''u1'' n \<and> notif_key n \<in> case_key ''ryw-'' ` {..<32}"
    "\<And>i. g i = ToCreate \<Longrightarrow> \<not> has_key R (case_key ''ryw-'' i)" "\<And>i n. g i = ToQuery n \<Longrightarrow> R (ID n) = Some n"
    by (auto simp: readers_ok_def)
  show ?thesis
  proof (cases "g i")
    case ToCreate
    let ?n = "reader_row i"
    obtain s1 j where c: "CreateNotification ops s ?n = (s1, ?n\<lparr>ID := j\<rparr>, Inr True)" "holds s1 (R(j \<mapsto> ?n\<lparr>ID := j\<rparr>)) Map.empty" "R j = None"
      using create_row [OF R(1) reader_row_simps(2,1), of i thesis] R(3) [OF ToCreate] reader_row_simps(3) by simp
    have "\<not> has_key (R(j \<mapsto> ?n\<lparr>ID := j\<rparr>)) (case_key ''ryw-'' k)" if "(g(i := ToQuery (?n\<lparr>ID := j\<rparr>))) k = ToCreate" for k
    proof -
      have "k \<noteq> i" "g k = ToCreate" using that by (auto split: if_splits)
      with R(3) c(3) show ?thesis by (simp add: has_key_upd reader_row_simps case_key_def format_uint_inj del: fun_upd_apply)
    qed
    moreover have "(R(j \<mapsto> ?n\<lparr>ID := j\<rparr>)) (ID m) = Some m" if "(g(i := ToQuery (?n\<lparr>ID := j\<rparr>))) k = ToQuery m" for k m
      using that R(4) c(3) by (auto split: if_splits)
    moreover have "ID m = l \<and> owned_by ''acme'' ''u1'' m \<and> notif_key m \<in> case_key ''ryw-'' ` {..<32}" if "(R(j \<mapsto> ?n\<lparr>ID := j\<rparr>)) l = Some m" for l m
      using that R(2) assms(2) by (auto simp: reader_row_simps split: if_splits)
    ultimately show ?thesis using c(2)
      unfolding reader_step_def st prod.case ToCreate reader.case c(1) sum.case readers_ok_def by blast
  next
    case (ToQuery n)
    obtain items cursor unread where "QueryUserNotifications ops s (user_query ''acme'' MaxPageLimit None False) = Inr (items, cursor, unread)"
      "list_ex (\<lambda>it. ID it = ID n) items"
      using reader_page [OF R(1) _ R(4) [OF ToQuery]] R(2) by blast
    with ToQuery R show ?thesis by (auto simp: reader_step_def st readers_ok_def)
  next
    case Returned
    with assms(1) st show ?thesis by (simp add: reader_step_def)
  qed
qed

lemma passes_ReadYourWrites:
  assumes "fresh s" "mset sched = mset ([0..<32] @ [0..<32])"
  shows "t_ReadYourWrites ops s sched = []"
proof -
  have "set sched = {0..<32}" using arg_cong [OF assms(2), of set_mset] by simp
  moreover have "readers_ok st \<Longrightarrow> set is \<subseteq> {0..<32} \<Longrightarrow> readers_ok (fold (reader_step ops) is st)" for st "is"
    by (induction "is" arbitrary: st) (simp_all add: reader_step_ok)
  moreover have "readers_ok (s, (\<lambda>_. ToCreate), [])" using freshD [OF assms(1)] by (auto simp: readers_ok_def intro!: exI [of _ Map.empty])
  ultimately have "readers_ok (fold (reader_step ops) sched (s, (\<lambda>_. ToCreate), []))" by blast
  then show ?thesis by (auto simp: t_ReadYourWrites_def readers_ok_def)
qed

subsection \<open>The suite\<close>

lemmas passes = passes_CreateGet passes_GetNotFound passes_Idempotency passes_StatusTransitions passes_CursorWalk
  passes_UnreadFilterAndCount passes_DeviceUpsertRotation passes_UserIsolation passes_AllPages passes_StrictLessThanCutoff
  passes_QueryEmpty passes_GetFresh passes_ListEmpty passes_StringFields passes_Int64Fidelity passes_LargePayload
  passes_DistinctKeys passes_SameKey passes_UpsertRace passes_UpdateRace passes_ReadYourWrites passes_LongValue
  passes_SeparatorBytes passes_CaseSensitive

text \<open>A driver that hands every subtest a fresh store of its own passes the suite under every schedule.\<close>

lemma conformance_passes:
  assumes "drv_Name d \<noteq> ''''" "drv_New d = Some new" "\<And>name. \<exists>s. new name = (ops, s) \<and> fresh s" "schedules_ok sch"
  shows "RunConformance d sch = []"
proof -
  have sub: "subtest new name test = []" if "\<And>s. fresh s \<Longrightarrow> test ops s = []" for name test
    using assms(3) [of name] that by (auto simp: subtest_def)
  from assms(4) show ?thesis
    by (simp add: RunConformance_def assms(1,2) runPaginationConformance_def runFreshTenantConformance_def
        runRoundTripConformance_def runConcurrencyConformance_def runKeyEdgeConformance_def schedules_ok_def sub passes del: mset_upt)
qed


end

end
