(* ===== verification/Conformance_Drivers.thy ===== *)
theory Conformance_Drivers
  imports Memory_Store Postgres_Service EntDB_Service Conformance_Contract
begin

text \<open>
  The three drivers pass the conformance suite: the memory store as it is, the postgres driver against every
  service that answers by the meaning of SQL, the entdb driver against every service that keeps the documented
  behaviour of the SDK. The last two need the suite's non-ASCII value to be text the service stores, and
  \<open>no-such\<close> to be the id of no row.
\<close>

definition demo_schedules :: schedules where
  "demo_schedules = \<lparr>sch_distinct = [0..<16], sch_results = rev [0..<16], sch_upserts = rev [0..<16], sch_updates = [0..<16],
     sch_reads = [0..<32] @ rev [0..<32]\<rparr>"

lemma demo_schedules_ok: "schedules_ok demo_schedules"
  by (simp add: schedules_ok_def demo_schedules_def)

subsection \<open>The memory store\<close>

interpretation memconf: conformant memory_ops memory_inv "\<lambda>s. map_of (notifications s)" memory_id_ok "\<lambda>_. True" "\<lambda>_. True"
  "\<lambda>_. True" device_of memory_dev_id_ok "\<lambda>_. True" "\<lambda>s. uuid_src s (uuid_pos s) \<noteq> ''no-such''"
proof (unfold_locales, goal_cases)
  case (5 s n s' n' r)
  have "map_of (notifByKey s) k = None" for k
    using 5(1,5) by (cases "map_of (notifByKey s) k") (auto simp: memory_inv_def notif_inv_def)
  with 5 show ?case by (auto simp: memory_CreateNotification_def NewString_def Let_def)
qed simp_all

text \<open>C14. The memory store passes every subtest of the conformance suite, whatever the order in which the
  goroutines of the concurrency subtests run.\<close>

theorem memory_conformance:
  assumes "inj src" "'''' \<notin> range src" "''no-such'' \<notin> range src" "schedules_ok sch"
  shows "RunConformance \<lparr>drv_Name = ''memory'', drv_New = Some (\<lambda>name. (memory_ops, New_memory src))\<rparr> sch = []"
proof -
  have "src 0 \<noteq> ''no-such''" using assms(3) by (metis rangeI)
  then have "memconf.fresh (New_memory src)"
    using memory_inv_New [OF assms(1,2)]
    by (auto simp: memconf.fresh_def memconf.holds_def New_memory_def device_of_def fun_eq_iff)
  with assms(4) show ?thesis by (intro memconf.conformance_passes) auto
qed

theorem memory_conformance_witness:
  "RunConformance \<lparr>drv_Name = ''memory'', drv_New = Some (\<lambda>name. (memory_ops, New_memory row_ids))\<rparr> demo_schedules = []"
proof -
  have "''no-such'' \<notin> range row_ids" by (auto simp: row_ids_def)
  from memory_conformance [OF row_ids_ok this demo_schedules_ok] show ?thesis .
qed

subsection \<open>Postgres\<close>

locale sql_suite = sql_service +
  assumes unicode_text: "text_in unicode_value"
    and no_such_uuid: "uuid_in ''no-such'' = None"

context sql_suite
begin

lemma suite_text_in: "suite_text x \<Longrightarrow> text_in x"
  using ascii_text unicode_text by (auto simp: suite_text_def)

lemma row_uuid: "pg_inv db_of up text_in uuid_in s \<Longrightarrow> pg_row db_of s i = Some n \<Longrightarrow> uuid_in i = Some i"
  by (auto elim!: pg_invE simp: index_by_iff pg_tables_okD)

end

sublocale sql_suite \<subseteq> pgc: conformant "postgres_ops pool" "pg_inv db_of up text_in uuid_in" "pg_row db_of"
  "pg_id_ok db_of text_in uuid_in" "pg_row_ok text_in" text_in "pg_id_arg uuid_in" "pg_dev db_of"
  "pg_dev_id_ok db_of text_in uuid_in" "pg_dev_ok text_in" "\<lambda>_. True"
proof (unfold_locales, goal_cases)
  case (1 n) then show ?case using suite_text_in by (auto simp: suite_row_def pg_row_ok_def)
next
  case (2 d) then show ?case using ascii_text by (auto simp: suite_dev_def pg_dev_ok_def)
next
  case (3 x) then show ?case by (blast intro: ascii_text)
next
  case 4 show ?case by (simp add: pg_id_arg_def no_such_uuid)
next
  case (5 s n s' n' r)
  from pgn.create_total [OF 5(1) pgn.id_ok_empty [OF 5(1), folded 5(4)] 5(3)] obtain m where
    "pg_inv db_of up text_in uuid_in s'" "pg_row db_of s' (ID n') = Some m" using 5(6) by (metis (no_types) Notification.select_convs(1) Notification.surjective Notification.update_convs(1) prod.inject)
  with row_uuid no_such_uuid show ?case by fastforce
qed

context sql_suite
begin

lemma pg_suite:
  assumes "\<And>name. pg_inv db_of up text_in uuid_in (new name) \<and> pg_row db_of (new name) = Map.empty \<and> pg_dev db_of (new name) = Map.empty"
    and "schedules_ok sch"
  shows "RunConformance \<lparr>drv_Name = ''postgres'', drv_New = Some (\<lambda>name. (postgres_ops pool, new name))\<rparr> sch = []"
  using assms by (intro pgc.conformance_passes) (auto simp: pgc.fresh_def pgc.holds_def)

end

lemma ref_unicode: "utf8_text unicode_value" "uuid_input ''no-such'' = None"
  by code_simp+

interpretation refsuite: sql_suite ref_pool "\<lambda>db. db" "\<lambda>_. True" utf8_text uuid_input "(<)"
  by unfold_locales (rule ref_unicode)+



subsection \<open>EntDB\<close>

definition ids_free :: "'db EntClient \<Rightarrow> 'db \<Rightarrow> bool" where
  "ids_free c db \<longleftrightarrow> (\<forall>sc op db' r. sdk_Commit (ec_client c) db sc [op] = (db', Inr (Some r)) \<longrightarrow> ''no-such'' \<notin> set (cr_CreatedNodeIDs r))"

locale entdb_suite = entdb_service +
  assumes unicode_str: "str_ok unicode_value"

context entdb_suite
begin

lemma suite_str: "suite_text x \<Longrightarrow> str_ok x"
  using ascii_str unicode_str by (auto simp: suite_text_def)

lemma commitCreate_id:
  assumes "ids_free c db" "commitCreate c db systemActor m = (db', Inr i)"
  shows "i \<noteq> ''no-such''"
proof -
  obtain res where "sdk_Commit (ec_client c) db (ent_scope c actor) [PlanCreate m] = (db', Inr res)" "firstCreatedID res = Inr i"
    using assms(2) by (auto simp: commitCreate_def split: prod.splits sum.splits)
  moreover then obtain r where "res = Some r" "cr_CreatedNodeIDs r \<noteq> []" "i = cr_CreatedNodeIDs r ! 0"
    by (cases res) (auto simp: firstCreatedID_def split: if_splits list.splits)
  ultimately have "i \<in> set (cr_CreatedNodeIDs r)" "''no-such'' \<notin> set (cr_CreatedNodeIDs r)"
    using assms(1) by (auto simp: ids_free_def)
  then show ?thesis by auto
qed

end

sublocale entdb_suite \<subseteq> enc: conformant "entdb_ops c" "ent_inv ent up str_ok" "ent_row ent" "\<lambda>_ _. True" "ent_row_ok str_ok"
  "ent_arg_ok str_ok" str_ok "ent_dev ent" "\<lambda>_ _. True" "ent_dev_ok str_ok" "ids_free c"
proof (unfold_locales, goal_cases)
  case (1 n) then show ?case using suite_str by (auto simp: suite_row_def ent_row_ok_def)
next
  case (2 d) then show ?case using ascii_str by (auto simp: suite_dev_def ent_dev_ok_def)
next
  case (3 x) then show ?case using ascii_str by (auto simp: ent_arg_ok_def)
next
  case 4 show ?case by (rule ascii_str) (simp add: is_ascii_def)
next
  case (5 s n s' n' r)
  obtain db' i where "commitCreate c s systemActor (NotificationMsg (ent_notificationToProto n)) = (db', Inr i)"
    by (rule commitCreate_new [OF 5(1,3)]) (use 5(5) in auto)
  with commitCreate_id [OF 5(2)] 5(6) show ?case by (auto simp: ent_create_def notifActor_def)
qed

context entdb_suite
begin

lemma ent_suite:
  assumes "\<And>name. ent_inv ent up str_ok (new name) \<and> ent_row ent (new name) = Map.empty \<and> ent_dev ent (new name) = Map.empty \<and> ids_free c (new name)"
    and "schedules_ok sch"
  shows "RunConformance \<lparr>drv_Name = ''entdb'', drv_New = Some (\<lambda>name. (entdb_ops c, new name))\<rparr> sch = []"
  using assms by (intro enc.conformance_passes) (auto simp: enc.fresh_def enc.holds_def)

end

interpretation refentsuite: entdb_suite ref_ent systemActor "\<lambda>db. db" "\<lambda>_. True" "\<lambda>_. True" ref_query
  by unfold_locales simp


lemma ref_ids_free: "ids_free ref_ent db"
proof -
  have "ref_commit db [op] = (db', Inr (Some r)) \<Longrightarrow> ''no-such'' \<notin> set (cr_CreatedNodeIDs r)" for op db' r
    by (induction db "[op]" rule: ref_commit.induct)
       (auto simp: committed_def fresh_node_def split: if_splits option.splits)
  then show ?thesis by (auto simp: ids_free_def ent_NewClient_def ref_sdk_def)
qed


end
