(* ===== verification/Spec2Isabelle.thy ===== *)
theory Spec2Isabelle
  imports Endpoints Twilio Push_Channels Conformance_Drivers
begin

text \<open>
  A verification library for \<open>notify\<close>, a notification service in Go: callers hand it a request
  (recipients, channels, text), it stores one row per recipient, sends through the providers of the
  channels, and serves inboxes, acknowledgements, push tokens and live event streams to clients.

  \<^bold>\<open>Parts and how they interact.\<close> The internal service receives \<open>Notify\<close> calls and runs the orchestrator
  (\<open>notifier.go\<close>), which writes rows to a store (\<open>store.go\<close> is the contract; \<open>store/memory\<close>, \<open>store/postgres\<close> and \<open>store/entdb\<close> are drivers) and calls
  providers (\<open>channel.go\<close> is the contract; \<open>channels/*\<close> and \<open>internal/server/inapp.go\<close> implement it). The in-app
  provider pushes events into the bounded queues of the live registry (\<open>realtime/registry.go\<close>), from which
  the stream handlers (\<open>internal/server/stream.go\<close>) send them; the retry tracker (\<open>realtime/retry.go\<close>) repeats
  unacknowledged data changes. The client service reads and acknowledges rows and registers
  devices. Both services run under chains of interceptors (\<open>internal/server/auth.go\<close>, \<open>middleware.go\<close>) behind the
  generated handlers (\<open>notify.connect.go\<close>), which dispatch an HTTP request by its path, and
  \<open>internal/server/server.go\<close> with \<open>cmd/notifyd\<close> builds the process from its configuration: the mux and the
  HTTP server of each port, the listeners, the shutdown.

  \<^bold>\<open>Theories.\<close>
  \<^item> \<open>Prelude\<close>, \<open>GoStrings\<close>, \<open>Json\<close>, \<open>GoNet\<close>, \<open>GoHTTP\<close>: Go values (maps, errors, conversions) and the parts of the
    standard library the sources use; round trips for decimal numbers, JSON, forms and base64; \<open>http.ServeMux\<close>
    with path cleaning and redirects.
  \<^item> \<open>Model\<close> (\<open>model.go\<close>, \<open>store.go\<close>, \<open>channel.go\<close>), \<open>Store_Spec\<close> (the store contract as the locales
    \<open>notification_store\<close> and \<open>device_store\<close>), \<open>Memory_Store\<close> (\<open>store/memory/store.go\<close>, interpreting both).
  \<^item> \<open>Store_Refinement\<close>: an abstract store as a transition relation on two finite maps, and the locale \<open>full_store\<close>
    in which every sequence of calls on a driver is shown to be a run of it. \<open>Create_Race\<close>: concurrent creates of a
    driver that makes two calls per create, as a step relation (locale \<open>create_race\<close>: one winner per key).
  \<^item> \<open>Sql\<close> (abstract syntax and meaning of the SQL statements, the connection pool, locale \<open>sql_service\<close>), \<open>Postgres\<close>
    (\<open>store/postgres\<close>), \<open>Postgres_Store\<close> (its invariant and the contracts), \<open>Postgres_Service\<close> (opening the store,
    concurrent creates, a reference service on which \<open>sql_service\<close> is interpreted).
  \<^item> \<open>EntDB\<close> (\<open>store/entdb\<close>: \<open>client.go\<close>, \<open>helpers.go\<close>, \<open>store.go\<close>, over the SDK as a record of functions), \<open>EntDB_Store\<close> (what
    the SDK documents as the locale \<open>entdb_service\<close>, the driver's invariant and the contracts), \<open>EntDB_Service\<close>
    (concurrent creates, a reference service on which \<open>entdb_service\<close> is interpreted).
  \<^item> \<open>Conformance\<close> (\<open>store/conformance\<close>: every subtest as a function from a driver to the failures it reports),
    \<open>Conformance_Contract\<close> (locale \<open>conformant\<close>: the contract implies the suite), \<open>Conformance_Drivers\<close> (the three drivers
    pass it).
  \<^item> \<open>Notifier\<close> (\<open>notifier.go\<close>) and \<open>Provider_Spec\<close> (the provider contract, the orchestrator's dispatch against it).
  \<^item> \<open>Realtime\<close> (\<open>realtime/conn.go\<close>, \<open>registry.go\<close>; locale \<open>event_registry\<close>) and \<open>Retry\<close> (\<open>realtime/retry.go\<close>, goroutines as a
    step relation).
  \<^item> \<open>Wire\<close> (\<open>internal/server/mapping.go\<close> and the request translation of \<open>handlers.go\<close>), \<open>Auth\<close> (\<open>auth.go\<close>,
    \<open>middleware.go\<close>; locales \<open>guard\<close>, \<open>observer\<close>, \<open>observer_pair\<close>), \<open>Live\<close> (\<open>stream.go\<close>, \<open>inapp.go\<close>), \<open>Handlers\<close> (\<open>handlers.go\<close>).
  \<^item> \<open>Connect_Routes\<close> (\<open>gen/go/notify/v1/notifyv1connect/notify.connect.go\<close>: names, handlers, unimplemented handlers,
    clients; what the RPC library documents as \<open>connect_documented\<close>; \<open>client_dispatch\<close> and \<open>internal_dispatch\<close> say what a
    request is to do).
  \<^item> \<open>Config\<close> (\<open>config.go\<close>, \<open>internal/server/config.go\<close>), \<open>Server\<close> (\<open>server.go\<close>, \<open>observability.go\<close>, \<open>cmd/notifyd/main.go\<close>)
    and \<open>Endpoints\<close> (what a request on each port of a booted daemon does, and calls through the generated clients).
  \<^item> \<open>Twilio\<close> (\<open>channels/twilio\<close>) and \<open>Push_Channels\<close> (\<open>channels/fcm\<close>, \<open>channels/webpush\<close>, \<open>channels/email/emailservice\<close>).

  \<^bold>\<open>State and operations.\<close> A Go struct is a record with the same fields, an interface a record of functions, a
  map an association list with distinct keys, a pointer that is shared and written (the events in the queues) an
  index into a heap. Stores act on their own state \<open>'s\<close>; clocks, providers, transports and live connections act
  on a world \<open>'w\<close> threaded through the calls. Errors are values (\<open>goerror\<close>) with Go's wrapping chain. Goroutines
  and streams are explicit steps of an interleaving relation. Strings are byte strings.

  \<^bold>\<open>What the lemmas show.\<close> Store: one row per key, idempotent creates, isolation of tenants and users, exact
  pages, complete page walks. Drivers: every run of calls on memory, postgres or entdb is a run of the
  abstract store, concurrent creates have one winner per key, the migrations lose nothing, and all three
  pass the conformance suite. Orchestrator: no failure, exact counts, frame conditions, what is sent and
  recorded. Live side: registry invariant, exact fan-out, order of events, no leaked connection, retry
  budget and termination. Services: authentication of both chains, panic containment, effects of every
  handler. Ports: every HTTP request has the effect of the one procedure its path names behind the check of its
  token or none at all, nobody changes what is not theirs on any of the three drivers, the generated clients reach
  the methods they name.
  Process: complete configurations, boot, shutdown, one close of the database connection. Providers: validation before any
  request, the exact request on the wire, status and sentinel mapping. The theorems of this theory join the
  memory store, the orchestrator, the live side and the handlers.

  \<^bold>\<open>Bounds and fuel.\<close> \<open>walk_pages\<close> takes a bound on the number of calls; more than the number of matching rows is
  enough, because each page but the last is not empty (\<open>pages_complete\<close>). The JSON parser takes twice the length
  of its input plus two (\<open>parse_fuel_enough\<close>). Every other function terminates. Counts are integers; the
  conversions to \<open>int32\<close> of the wire types wrap around. Timestamps are integers, with the 64-bit range as
  a hypothesis where they are printed and parsed back.

  \<^bold>\<open>Parameters.\<close> Code outside the repository is an argument: the JWT parser, the HTTP transport, OAuth tokens, the
  webpush library, the email sender, \<open>time.ParseDuration\<close>, Unicode's case tables, the URL parser, the source
  of fresh ids, the clocks, \<open>net.Listen\<close>, the postgres connection pool, the EntDB SDK, the constructors of
  the external drivers, and the RPC library (\<open>connect\<close>, \<open>h2c\<close>) as the record \<open>connect_lib\<close>.

  \<^bold>\<open>Not modelled.\<close> The bodies of the generated protobuf messages (encoding, reflection; their fields are records),
  log output other than the interceptors' lines, contexts beyond the claims they carry (deadlines,
  \<open>ctxOrBackground\<close>), mutual exclusion inside a single operation (each locked section is one step), and the copies
  the memory store makes of its rows (values are copied by nature).
\<close>

subsection \<open>Histories of the memory store\<close>

inductive mem_reach :: "(nat \<Rightarrow> string) \<Rightarrow> Memory \<Rightarrow> bool" for src where
  mem_init: "mem_reach src (New_memory src)"
| mem_create: "mem_reach src s \<Longrightarrow> memory_id_ok s (ID n) \<Longrightarrow> memory_CreateNotification s n = (s', r) \<Longrightarrow> mem_reach src s'"
| mem_update: "mem_reach src s \<Longrightarrow> memory_UpdateStatus s t i st ms = (s', e) \<Longrightarrow> mem_reach src s'"
| mem_upsert: "mem_reach src s \<Longrightarrow> memory_dev_id_ok s (dev_ID d) \<Longrightarrow> memory_UpsertDevice s d = (s', r) \<Longrightarrow> mem_reach src s'"

lemma mem_reach_inv:
  assumes "mem_reach src s" "inj src" "'''' \<notin> range src"
  shows "memory_inv s"
  using assms(1)
proof induction
  case mem_init
  show ?case using assms(2,3) by (rule memory_inv_New)
next
  case (mem_create s n s' r)
  from mem.create_total [of s n] mem_create(2-4) show ?case by (auto simp: prod_eq_iff)
next
  case (mem_update s t i st ms s' e)
  then show ?case
    using memory_inv_update by (auto simp: memory_UpdateStatus_eq split: option.splits if_splits)
next
  case (mem_upsert s d s' r)
  from memdev.upsert_last_write_wins [of s d] mem_upsert(2-4) show ?case by (auto simp: prod_eq_iff)
qed

lemma mem_reach_created:
  "mem_reach src s \<Longrightarrow> memory_id_ok s (ID n) \<Longrightarrow> mem_reach src (fst (memory_CreateNotification s n))"
  by (rule mem_create [OF _ _ surjective_pairing])

lemma demo_store_inv: "memory_inv (New_memory row_ids)"
  using row_ids_ok by (rule memory_inv_New)




definition demo_note :: "string \<Rightarrow> int \<Rightarrow> Notification" where
  "demo_note nid ms = \<lparr>ID = '''', NotificationID = nid, TenantID = ''t'', UserID = ''u'', SubjectRef = '''',
     SubjectType = '''', Title = '''', Body = '''', Channel = ChannelInApp, Status = StatusPending, CreatedAtMS = ms,
     DeliveredAtMS = 0, AckAtMS = 0, ReadAtMS = 0\<rparr>"

definition memory_calls :: "store_call list" where
  "memory_calls = [CreateCall (demo_note ''n'' 5), CreateCall (demo_note ''n'' 9), UpdateCall ''t'' ''i'' StatusRead 7,
     GetCall ''t'' ''u'' ''i'']"


subsection \<open>Storing and sending\<close>

text \<open>C2. A second create under the same tenant, user and notification id stores nothing: it reports the id
  of the first row and \<open>false\<close>, and the row the owner reads back is the first one, whatever the
  second caller put into the other fields.\<close>

theorem create_idempotent:
  assumes "memory_inv s" "memory_id_ok s (ID n)" "notif_key n' = notif_key n"
    and "memory_CreateNotification s n = (s1, n1, r1)" "memory_CreateNotification s1 n' = (s2, n2, r2)"
  shows "s2 = s1 \<and> r2 = Inr False \<and> ID n2 = ID n1 \<and>
    (\<exists>m. memory_GetNotification s2 (TenantID n') (UserID n') (ID n2) = Inr m \<and> notif_key m = notif_key n \<and>
       (r1 = Inr True \<longrightarrow> m = n1))"
proof -
  from mem.create_total [OF assms(1,2) TrueI] obtain i b m where c: "n1 = n\<lparr>ID := i\<rparr>" "r1 = Inr b" "memory_inv s1"
    "map_of (notifications s1) i = Some m" "notif_key m = notif_key n"
    using assms(4) by (metis memory_ops_simps(1) prod.inject)
  have again: "s2 = s1 \<and> n2 = n'\<lparr>ID := i\<rparr> \<and> r2 = Inr False"
    using memory_create_existing [OF c(3,4), of n'] c(5) assms(3,5) by simp
  have "m = n1" if "r1 = Inr True"
  proof -
    have "map_of (notifications s1) (ID n1) = Some n1"
      using assms(4) that
      by (auto simp: memory_CreateNotification_def Let_def go_map split: option.splits prod.splits)
    with c show ?thesis by simp
  qed
  with again c assms(3) show ?thesis
    by (auto simp: memory_GetNotification_def notif_key_def)
qed

theorem create_idempotent_witness:
  "snd (snd (memory_CreateNotification (fst (memory_CreateNotification (New_memory row_ids) (demo_note ''n'' 5)))
     (demo_note ''n'' 9))) = Inr False"
proof -
  obtain s1 n1 r1 where a: "memory_CreateNotification (New_memory row_ids) (demo_note ''n'' 5) = (s1, n1, r1)"
    using prod_cases3 by blast
  obtain s2 n2 r2 where b: "memory_CreateNotification s1 (demo_note ''n'' 9) = (s2, n2, r2)"
    using prod_cases3 by blast
  have "memory_id_ok (New_memory row_ids) (ID (demo_note ''n'' 5))" by (simp add: memory_id_ok_def demo_note_def)
  moreover have "notif_key (demo_note ''n'' 9) = notif_key (demo_note ''n'' 5)"
    by (simp add: demo_note_def notif_key_def)
  ultimately show ?thesis
    using create_idempotent [OF demo_store_inv _ _ a b] by (simp add: a b)
qed


definition demo_notifier :: "(Memory, nat) Notifier" where
  "demo_notifier = \<lparr>nt_store = memory_ops, nt_providers = Some [], nt_now = (\<lambda>w. (int w, Suc w))\<rparr>"

definition notify_request :: NotifyRequest where
  "notify_request = \<lparr>nr_TenantID = ''t'', nr_NotificationID = ''n1'', nr_UserIDs = [''alice'', ''bob''],
     nr_Channels = [ChannelSMS, ChannelEmail, ChannelInApp], nr_SubjectRef = '''', nr_SubjectType = '''', nr_Title = ''T'',
     nr_Body = ''B'', nr_Addresses = []\<rparr>"


text \<open>Repeating a request is idempotent for the store and not for the providers: the second call adds no
  row, and hands every message to the providers once more.\<close>

theorem duplicate_request_resends:
  assumes "memory_inv s" "nt_store n = memory_ops" "observes sent n"
    and "Notify n req s w = (s1, w1, r1, e1)" "Notify n req s1 w1 = (s2, w2, r2, e2)"
    and "D = concat (map (destinations n req (notify_targets n req)) (nr_UserIDs req))"
  shows "e1 = None \<and> e2 = None \<and> dom (map_of (notifications s2)) = dom (map_of (notifications s1)) \<and>
    sent w2 = sent w @ D @ D"
proof -
  note one = mem.notify_spec [OF assms(1,2) storable_True(2,1) assms(4)]
  then have inv1: "memory_inv s1" and e1: "e1 = None" by auto
  note two = mem.notify_spec [OF inv1 assms(2) storable_True(2,1) assms(5)]
  then have inv2: "memory_inv s2" and e2: "e2 = None" by auto
  have sent: "sent w1 = sent w @ D" "sent w2 = sent w1 @ D"
    using notify_sent [OF assms(3)] assms(4-6) e1 e2 by auto
  have "map_of (notifications s1) i \<noteq> None" if i: "map_of (notifications s2) i = Some m" for i m
  proof (cases "notify_targets n req = []")
    case True
    have "notify_channels n req u [] r t v = (t, v, r, None)" for u r t v by simp
    moreover have "notify_users n req [] us r t v = (t, v, r, None)" for us r t v by (induction us arbitrary: r t v) auto
    ultimately have "s2 = s1" using assms(5) True by (simp add: Notify_def)
    with i show ?thesis by simp
  next
    case False
    show ?thesis
    proof
      assume none: "map_of (notifications s1) i = None"
      have "notif_key m \<in> request_key req ` set (nr_UserIDs req)"
        using two i none rows_extend_new [of _ "map_of (notifications s1)" "map_of (notifications s2)" i m] by blast
      then obtain u where u: "u \<in> set (nr_UserIDs req)" "notif_key m = request_key req u" by blast
      with one False obtain j k where j: "map_of (notifications s1) j = Some k" "notif_key k = request_key req u" by blast
      with two obtain k' where "map_of (notifications s2) j = Some k'" "notif_key k' = notif_key k"
        by (metis rows_extendD)
      with u j i mem.row_key [OF inv2] have "i = j" by metis
      with none j show False by simp
    qed
  qed
  moreover have "map_of (notifications s2) i \<noteq> None" if "map_of (notifications s1) i = Some m" for i m
    using two that by (metis option.distinct(1) rows_extendD)
  ultimately have "dom (map_of (notifications s2)) = dom (map_of (notifications s1))" by (auto simp: dom_def)
  with e1 e2 sent show ?thesis by simp
qed

text \<open>A provider that logs the destinations it was given.\<close>

definition log_provider :: "string list Provider" where
  "log_provider = \<lparr>Kind = ChannelSMS, Name = ''log'', Send = (\<lambda>w m. (w @ [msg_To m],
     \<lparr>rc_ProviderMessageID = '''', rc_Status = StatusDelivered\<rparr>, None))\<rparr>"

definition log_notifier :: "(Memory, string list) Notifier" where
  "log_notifier = \<lparr>nt_store = memory_ops, nt_providers = Some [(ChannelSMS, log_provider)], nt_now = (\<lambda>w. (7, w))\<rparr>"

definition sms_request :: NotifyRequest where
  "sms_request = notify_request\<lparr>nr_UserIDs := [''alice''], nr_Channels := [ChannelSMS],
     nr_Addresses := [(''alice'', [(ChannelSMS, ''+15550100'')])]\<rparr>"

lemma log_observes: "observes id log_notifier"
  by (auto simp: observes_def log_notifier_def log_provider_def registry_of_def Get_provider_def split: if_splits)

theorem duplicate_request_resends_witness:
  "\<exists>s1 w1 r1. Notify log_notifier sms_request (New_memory row_ids) [] = (s1, w1, r1, None) \<and>
     fst (snd (Notify log_notifier sms_request s1 w1)) = [''+15550100'', ''+15550100'']"
proof -
  obtain s1 w1 r1 e1 where a: "Notify log_notifier sms_request (New_memory row_ids) [] = (s1, w1, r1, e1)"
    by (metis surj_pair)
  obtain s2 w2 r2 e2 where b: "Notify log_notifier sms_request s1 w1 = (s2, w2, r2, e2)"
    by (metis surj_pair)
  have n: "nt_store log_notifier = memory_ops" by (simp add: log_notifier_def)
  have "concat (map (destinations log_notifier sms_request (notify_targets log_notifier sms_request)) (nr_UserIDs sms_request))
    = [''+15550100'']"
    by (simp add: destinations_def eligible_def notify_targets_def sms_request_def addressFor_def log_notifier_def
        registry_of_def Get_provider_def)
  with duplicate_request_resends [OF demo_store_inv n log_observes a b refl] a b show ?thesis by simp
qed

text \<open>A repeated request moves a row backwards: with a provider that reports delivered, the row a user
  has already read is delivered, and no longer read, after the sender repeats the call.\<close>

theorem repeated_request_unreads:
  assumes "memory_inv s" "nt_store n = memory_ops" "nr_UserIDs req = [u]" "nr_Channels req = [kind]"
    and "Get_provider (registry_of n) kind = Some p" "accepts_with StatusDelivered p" "addressFor req u kind \<noteq> ''''"
    and "map_of (notifications s) i = Some m" "notif_key m = request_key req u" "Status m = StatusRead"
    and "Notify n req s w = (s', w', res, e)"
  shows "e = None \<and> Delivered res = 1 \<and>
    (\<exists>m'. map_of (notifications s') i = Some m' \<and> Status m' = StatusDelivered)"
proof -
  obtain s1 w1 r1 e1 where b: "notify_body n req u kind \<lparr>Delivered = 0, Pending = 0, Failed = 0\<rparr> s w = (s1, w1, r1, e1)"
    by (metis surj_pair)
  note st = mem.notify_body_status [OF assms(1,2,5-7) b disjI2 [OF TrueI] storable_True(1)]
  with b assms(3,4,11) have r: "s' = s1" "res = r1" "e = None"
    by (auto simp: Notify_def notify_targets_def)
  note sp = mem.notify_body_spec [OF assms(1,2) storable_True(2,1) b]
  then obtain m2 where m2: "map_of (notifications s1) i = Some m2" "notif_key m2 = notif_key m"
    using assms(8) by (metis rows_extendD)
  from st obtain j m1 where m1: "map_of (notifications s1) j = Some m1" "notif_key m1 = request_key req u"
    "Status m1 = StatusDelivered" by (auto simp: StatusDelivered_def)
  have "j = i" using mem.row_key [of s1] m1(1,2) m2 assms(9) sp by metis
  with m1 st r show ?thesis by auto
qed

definition read_store :: Memory where
  "read_store = fst (memory_UpdateStatus (fst (memory_CreateNotification (New_memory row_ids)
     ((demo_note ''n1'' 5)\<lparr>UserID := ''alice''\<rparr>))) ''t'' ''i'' StatusRead 9)"

lemma read_store_eq:
  "map_of (notifications read_store) ''i'' =
     Some ((demo_note ''n1'' 5)\<lparr>UserID := ''alice'', ID := ''i'', Status := StatusRead, ReadAtMS := 9\<rparr>)"
  by (simp add: read_store_def memory_CreateNotification_def memory_UpdateStatus_def New_memory_def NewString_def
      row_ids_def demo_note_def status_defs Let_def)

lemma read_store_inv: "memory_inv read_store"
proof (rule mem_reach_inv [OF _ row_ids_ok])
  have "mem_reach row_ids (fst (memory_CreateNotification (New_memory row_ids) ((demo_note ''n1'' 5)\<lparr>UserID := ''alice''\<rparr>)))"
    by (rule mem_reach_created [OF mem_init]) (simp add: memory_id_ok_def demo_note_def)
  then show "mem_reach row_ids read_store"
    unfolding read_store_def by (rule mem_update) (rule surjective_pairing)
qed

theorem repeated_request_unreads_witness:
  "Status (the (map_of (notifications read_store) ''i'')) = StatusRead \<and>
   (\<exists>m'. map_of (notifications (fst (Notify log_notifier sms_request read_store []))) ''i'' = Some m' \<and>
      Status m' = StatusDelivered)"
proof -
  obtain s' w' res e where r: "Notify log_notifier sms_request read_store [] = (s', w', res, e)"
    by (metis surj_pair)
  have "nt_store log_notifier = memory_ops" "nr_UserIDs sms_request = [''alice'']" "nr_Channels sms_request = [ChannelSMS]"
    "Get_provider (registry_of log_notifier) ChannelSMS = Some log_provider" "accepts_with StatusDelivered log_provider"
    "addressFor sms_request ''alice'' ChannelSMS \<noteq> ''''"
    by (simp_all add: log_notifier_def sms_request_def registry_of_def Get_provider_def accepts_with_def log_provider_def
        addressFor_def)
  note u = repeated_request_unreads [OF read_store_inv this read_store_eq _ _ r]
  then show ?thesis
    by (simp add: r read_store_eq) (simp add: notif_key_def demo_note_def request_key_def sms_request_def notify_request_def)
qed

text \<open>C29. One dispatch to the in-app provider on the memory store: the row's status becomes delivered when a
  live connection of the recipient has room in its queue and pending when none has, and the call is
  counted under \<open>Delivered\<close> in both cases.\<close>

theorem inapp_dispatch:
  assumes "memory_inv s" "nt_store n = memory_ops" "registry_inv (lv_reg w)"
    and "map_of (notifications s) (ID r) = Some m" "TenantID m = nr_TenantID req"
    and "notify_dispatch n req (newInAppProvider True) to r res s w = (s', w', res', e)"
  shows "e = None \<and> memory_inv s' \<and> res' = res\<lparr>Delivered := Delivered res + 1\<rparr> \<and>
    (\<exists>m'. map_of (notifications s') = (map_of (notifications s))(ID r \<mapsto> m') \<and> same_content m m' \<and>
       Status m' = (if \<exists>c \<in> set (Connections (lv_reg w) to). has_room (conns (lv_reg w) c)
                    then StatusDelivered else StatusPending))"
proof -
  define msg where "msg = \<lparr>msg_Notification = Some r, msg_To = to, msg_Title = nr_Title req, msg_Body = nr_Body req, msg_Data = []\<rparr>"
  obtain w1 rc se where sd: "Send (newInAppProvider True) w msg = (w1, rc, se)" by (metis surj_pair)
  have "se = None \<and> rc_Status rc = (if \<exists>c \<in> set (Connections (lv_reg w) to). has_room (conns (lv_reg w) c)
      then StatusDelivered else StatusPending)"
    using sd inApp_Send_outcome [OF assms(3), of msg r w1 rc se] by (simp add: msg_def newInAppProvider_def)
  with mem_inapp.dispatch_records [OF assms(1,2,4,5) sd [unfolded msg_def] assms(6)] show ?thesis
    by (intro conjI exI [of _ "stamp_status (rc_Status rc) (fst (nt_now n w1)) m"]) simp_all
qed

definition live_notifier :: "(Memory, Live) Notifier" where
  "live_notifier = \<lparr>nt_store = memory_ops, nt_providers = Some [(ChannelInApp, newInAppProvider True)], nt_now = live_now\<rparr>"

theorem inapp_dispatch_witness:
  "\<exists>s' w' res. notify_dispatch live_notifier notify_request (newInAppProvider True) ''alice''
       ((demo_note ''n1'' 5)\<lparr>ID := ''i''\<rparr>) \<lparr>Delivered = 0, Pending = 0, Failed = 0\<rparr> read_store
       (new_live (NewRetryTracker 1 1) (\<lambda>_. 0) row_ids) = (s', w', res, None) \<and>
     Delivered res = 1 \<and> (\<exists>m'. map_of (notifications s') ''i'' = Some m' \<and> Status m' = StatusPending)"
proof -
  let ?w = "new_live (NewRetryTracker 1 1) (\<lambda>_. 0) row_ids"
  obtain s' w' res e where d: "notify_dispatch live_notifier notify_request (newInAppProvider True) ''alice''
       ((demo_note ''n1'' 5)\<lparr>ID := ''i''\<rparr>) \<lparr>Delivered = 0, Pending = 0, Failed = 0\<rparr> read_store ?w = (s', w', res, e)"
    by (metis surj_pair)
  have "registry_inv (lv_reg ?w)" by (simp add: new_live_def registry_inv_New)
  moreover have "Connections (lv_reg ?w) ''alice'' = []"
    by (simp add: new_live_def Connections_def NewRegistry_def user_conns_def)
  ultimately show ?thesis
    using inapp_dispatch [OF read_store_inv _ _ _ _ d] read_store_eq d
    by (auto simp: live_notifier_def demo_note_def notify_request_def)
qed

subsection \<open>Paging\<close>

text \<open>C19. A client that follows the cursors sees everything: when no two matching rows share a creation
  time, the loop over the pages of the memory store ends after at most one call more than there
  are rows and returns every matching row exactly once, newest first.\<close>

theorem pages_complete:
  assumes "memory_inv s" "R = {n \<in> ran (map_of (notifications s)). query_match q n}"
    and "inj_on CreatedAtMS R" "\<And>n. n \<in> R \<Longrightarrow> is_int64 (CreatedAtMS n)" "card R < fuel"
  shows "\<exists>xs. walk_pages memory_ops s q fuel = Inr (Some xs) \<and> distinct xs \<and> set xs = R \<and>
    sorted_wrt (\<lambda>a b. CreatedAtMS a > CreatedAtMS b) xs"
proof -
  obtain p where "is_page (ran (map_of (notifications s))) q p" using memory_query_page [OF assms(1)] by blast
  then obtain xs where xs: "distinct xs" "set xs = R" "sorted_wrt newest_first xs"
    by (auto simp: is_page_def assms(2))
  have "walk_pages memory_ops s q fuel = Inr (Some xs)"
  proof (rule mem.walk_pages_all [OF assms(1) xs(1) _ xs(3)])
    show "length xs < fuel" using assms(5) distinct_card [OF xs(1)] xs(2) by simp
  qed (use assms(2-4) xs(2) in simp_all)
  moreover have "sorted_wrt (\<lambda>a b. CreatedAtMS a > CreatedAtMS b) xs"
  proof (rule sorted_wrt_mono_distinct [OF _ xs(1,3)])
    fix a b assume "a \<in> set xs" "b \<in> set xs" "a \<noteq> b" "newest_first a b"
    with assms(3) xs(2) show "CreatedAtMS b < CreatedAtMS a"
      by (auto simp: newest_first_def inj_on_def split: if_splits)
  qed
  ultimately show ?thesis using xs by blast
qed

definition two_rows :: "int \<Rightarrow> int \<Rightarrow> Memory" where
  "two_rows a b = fst (memory_CreateNotification (fst (memory_CreateNotification (New_memory row_ids) (demo_note ''n1'' a)))
     (demo_note ''n2'' b))"

lemma two_rows_eq:
  "notifications (two_rows a b) = [(''i'', (demo_note ''n1'' a)\<lparr>ID := ''i''\<rparr>), (''ii'', (demo_note ''n2'' b)\<lparr>ID := ''ii''\<rparr>)]"
  by (simp add: two_rows_def memory_CreateNotification_def New_memory_def NewString_def row_ids_def demo_note_def Let_def)

lemma two_rows_inv: "memory_inv (two_rows a b)"
proof (rule mem_reach_inv [OF _ row_ids_ok])
  show "mem_reach row_ids (two_rows a b)"
    unfolding two_rows_def
    by (intro mem_reach_created mem_init) (simp_all add: memory_id_ok_def demo_note_def)
qed

definition page_query :: Query where
  "page_query = \<lparr>q_TenantID = ''t'', q_UserID = ''u'', q_CursorMS = None, q_Limit = 1, q_UnreadOnly = False\<rparr>"

lemma two_rows_match:
  "{n \<in> ran (map_of (notifications (two_rows a b))). query_match page_query n} =
    {(demo_note ''n1'' a)\<lparr>ID := ''i''\<rparr>, (demo_note ''n2'' b)\<lparr>ID := ''ii''\<rparr>}"
  by (auto simp: two_rows_eq query_match_def page_query_def owned_by_def demo_note_def)

theorem pages_complete_witness:
  "\<exists>xs. walk_pages memory_ops (two_rows 5 9) page_query 3 = Inr (Some xs) \<and>
     set xs = {(demo_note ''n1'' 5)\<lparr>ID := ''i''\<rparr>, (demo_note ''n2'' 9)\<lparr>ID := ''ii''\<rparr>}"
proof -
  have "card {(demo_note ''n1'' 5)\<lparr>ID := ''i''\<rparr>, (demo_note ''n2'' 9)\<lparr>ID := ''ii''\<rparr>} < 3"
    by (simp add: card_insert_if)
  moreover have "inj_on CreatedAtMS {(demo_note ''n1'' 5)\<lparr>ID := ''i''\<rparr>, (demo_note ''n2'' 9)\<lparr>ID := ''ii''\<rparr>}"
    by (simp add: demo_note_def)
  moreover have "is_int64 (CreatedAtMS n)"
    if "n \<in> {(demo_note ''n1'' 5)\<lparr>ID := ''i''\<rparr>, (demo_note ''n2'' 9)\<lparr>ID := ''ii''\<rparr>}" for n
    using that by (auto simp: demo_note_def is_int64_def)
  ultimately show ?thesis
    using pages_complete [OF two_rows_inv two_rows_match [symmetric], of 5 9 3] by blast
qed

text \<open>Rows that share a creation time can be lost between two pages: with two such rows and a page size
  of one, the loop over the pages returns one of them, and the other never.\<close>

theorem cursor_loses_ties:
  "\<exists>s q xs m. memory_inv s \<and> m \<in> ran (map_of (notifications s)) \<and> query_match q m \<and>
     walk_pages memory_ops s q 10 = Inr (Some xs) \<and> m \<notin> set xs"
proof -
  let ?m = "(demo_note ''n1'' 5)\<lparr>ID := ''i''\<rparr>"
  have m: "?m \<in> ran (map_of (notifications (two_rows 5 5))) \<and> query_match page_query ?m"
    using two_rows_match [of 5 5] by blast
  have "ParseInt (FormatInt 5) = Inr 5" by (rule ParseInt_FormatInt) (simp add: is_int64_def)
  then have w: "walk_pages memory_ops (two_rows 5 5) page_query (Suc (Suc k)) = Inr (Some [(demo_note ''n2'' 5)\<lparr>ID := ''ii''\<rparr>])" for k
    by (simp add: memory_query_eq rows_list_def two_rows_eq query_match_def page_query_def owned_by_def demo_note_def
        newest_first_def cursor_of_def ClampLimit_def DefaultPageLimit_def MaxPageLimit_def Let_def)
  have "?m \<notin> set [(demo_note ''n2'' 5)\<lparr>ID := ''ii''\<rparr>]" by (simp add: demo_note_def)
  moreover have "walk_pages memory_ops (two_rows 5 5) page_query 10 = Inr (Some [(demo_note ''n2'' 5)\<lparr>ID := ''ii''\<rparr>])"
    using w [of 8] by (simp del: walk_pages.simps)
  ultimately show ?thesis using m two_rows_inv [of 5 5] by blast
qed

subsection \<open>The client service on the memory store\<close>

text \<open>C21. An inbox page shows a caller only rows of the caller's own tenant and user, at most a hundred of
  them, newest first, with the unread count of the whole inbox; a bad cursor is rejected before the
  store is asked; the call changes nothing.\<close>

theorem inbox_page:
  assumes "memory_inv (bk_store b)" "ch_store h = memory_ops" "ctx = Some cl"
    and "client_GetNotifications h ctx req b = (b', res)"
  shows "b' = b \<and>
    (case notifications_query cl req of
       Inl err \<Rightarrow> res = Err err
     | Inr q \<Rightarrow> \<exists>items nxt unread.
         res = Ok \<lparr>gn_Notifications = map (\<lambda>n. notificationToProto (Some n)) items, gn_NextCursor = nxt,
                   gn_UnreadCount = to_int32 unread\<rparr> \<and>
         is_page (ran (map_of (notifications (bk_store b)))) q (items, nxt, unread) \<and> length items \<le> 100 \<and>
         (\<forall>n \<in> set items. TenantID n = cl_TenantID cl \<and> UserID n = cl_UserID cl \<and>
            n \<in> ran (map_of (notifications (bk_store b)))))"
proof (cases "notifications_query cl req")
  case (Inl err)
  with mem.get_notifications_page [OF assms(1-3) TrueI TrueI, of req] assms(4) show ?thesis by simp
next
  case (Inr q)
  with mem.get_notifications_page [OF assms(1-3) TrueI TrueI, of req] assms(4) obtain items nxt unread where
    p: "b' = b" "is_page (ran (map_of (notifications (bk_store b)))) q (items, nxt, unread)"
    "res = Ok \<lparr>gn_Notifications = map (\<lambda>n. notificationToProto (Some n)) items, gn_NextCursor = nxt,
       gn_UnreadCount = to_int32 unread\<rparr>" by auto
  have q: "q_TenantID q = cl_TenantID cl" "q_UserID q = cl_UserID cl"
    using Inr by (auto simp: notifications_query_def Let_def split: if_splits sum.splits)
  from p(2) obtain xs where xs: "set xs = {n \<in> ran (map_of (notifications (bk_store b))). query_match q n}"
    "items = take (nat (ClampLimit (q_Limit q))) xs" unfolding is_page_def by blast
  have "length items \<le> nat (ClampLimit (q_Limit q))" by (simp add: xs(2))
  then have "length items \<le> 100"
    using ClampLimit_bounds [of "q_Limit q"] unfolding MaxPageLimit_def by linarith
  moreover have "TenantID n = cl_TenantID cl \<and> UserID n = cl_UserID cl \<and> n \<in> ran (map_of (notifications (bk_store b)))"
    if "n \<in> set items" for n
    using that xs q by (auto dest!: in_set_takeD simp: query_match_def owned_by_def)
  ultimately show ?thesis using p Inr by auto
qed

definition demo_backend :: "Memory Backend" where
  "demo_backend = \<lparr>bk_store = read_store,
     bk_sys = \<lparr>sys_live = new_live (NewRetryTracker 1 1) (\<lambda>_. 42) row_ids, sys_streams = []\<rparr>\<rparr>"

definition demo_client_handler :: "Memory clientHandler" where
  "demo_client_handler = newClientHandler memory_ops None live_now"

definition demo_claims :: "string \<Rightarrow> Claims" where
  "demo_claims u = \<lparr>cl_UserID = u, cl_TenantID = ''t'', cl_Email = '''', cl_ExpiresAt = 0\<rparr>"

definition rpc_request :: "'m \<Rightarrow> 'm Request" where
  "rpc_request m = \<lparr>rq_Header = (\<lambda>_. ''''), rq_Procedure = '''', rq_Msg = Some m\<rparr>"

lemma demo_backend_inv: "memory_inv (bk_store demo_backend)"
  by (simp add: demo_backend_def read_store_inv)

lemma demo_handler_store: "ch_store demo_client_handler = memory_ops"
  by (simp add: demo_client_handler_def newClientHandler_def)

theorem inbox_page_witness:
  "\<exists>items nxt unread. snd (client_GetNotifications demo_client_handler (Some (demo_claims ''mallory''))
       (rpc_request \<lparr>gn_Cursor = '''', gn_Limit = 500, gn_UnreadOnly = False\<rparr>) demo_backend) =
     Ok \<lparr>gn_Notifications = map (\<lambda>n. notificationToProto (Some n)) items, gn_NextCursor = nxt, gn_UnreadCount = to_int32 unread\<rparr> \<and>
     (\<forall>n \<in> set items. UserID n = ''mallory'')"
proof -
  let ?req = "rpc_request \<lparr>gn_Cursor = '''', gn_Limit = 500, gn_UnreadOnly = False\<rparr>"
  obtain b' res where r: "client_GetNotifications demo_client_handler (Some (demo_claims ''mallory'')) ?req demo_backend = (b', res)"
    by fastforce
  obtain q where q: "notifications_query (demo_claims ''mallory'') ?req = Inr q"
    by (auto simp: notifications_query_def getter_def rpc_request_def Let_def)
  from inbox_page [OF demo_backend_inv demo_handler_store refl r, unfolded q sum.case] show ?thesis
    unfolding r snd_conv by (auto simp: demo_claims_def)
qed

text \<open>C20. An acknowledgement changes at most one row, and only one the caller owns: the row it names becomes
  read at the time of the call. For an id that does not exist, or is another user's or another tenant's,
  the answer is the same not-found error and nothing changes.\<close>

theorem ack_only_own:
  assumes "memory_inv (bk_store b)" "ch_store h = memory_ops" "ctx = Some cl"
    and "i = TrimSpace (getter (\<lambda>i. i) '''' req)" "i \<noteq> ''''"
    and "client_AckNotification h ctx req b = (b', res)"
  shows "case map_of (notifications (bk_store b)) i of
      None \<Rightarrow> b' = b \<and> res = Err (Connect CodeNotFound ErrNotFound)
    | Some n \<Rightarrow>
        if TenantID n = cl_TenantID cl \<and> UserID n = cl_UserID cl
        then res = Ok () \<and> memory_inv (bk_store b') \<and>
          map_of (notifications (bk_store b')) = (map_of (notifications (bk_store b)))
            (i \<mapsto> n\<lparr>Status := StatusRead, ReadAtMS := fst (ch_now h (bk_live b))\<rparr>)
        else b' = b \<and> res = Err (Connect CodeNotFound ErrNotFound)"
proof (cases "\<exists>n. map_of (notifications (bk_store b)) i = Some n \<and> owned_by (cl_TenantID cl) (cl_UserID cl) n")
  case True
  then obtain n where n: "map_of (notifications (bk_store b)) i = Some n" "owned_by (cl_TenantID cl) (cl_UserID cl) n" by blast
  from mem.ack_found [OF assms(1-5) n assms(6)] n show ?thesis
    by (simp add: owned_by_def stamp_status_def status_defs Let_def)
next
  case False
  then have "client_AckNotification h ctx req b = (b, Err (Connect CodeNotFound ErrNotFound))"
    by (intro mem.ack_not_found [OF assms(1-5) _ TrueI]) blast
  with assms(6) False show ?thesis by (auto simp: owned_by_def split: option.split)
qed

theorem ack_only_own_witness:
  "client_AckNotification demo_client_handler (Some (demo_claims ''mallory'')) (rpc_request ''i'') demo_backend =
     (demo_backend, Err (Connect CodeNotFound ErrNotFound))"
proof -
  obtain b' res where r: "client_AckNotification demo_client_handler (Some (demo_claims ''mallory'')) (rpc_request ''i'') demo_backend = (b', res)"
    by fastforce
  have t: "TrimSpace (getter (\<lambda>i. i) '''' (rpc_request ''i'')) = ''i''"
    by (simp add: getter_def rpc_request_def TrimSpace_def space_seqs_def strip_seqs.simps)
  from ack_only_own [OF demo_backend_inv demo_handler_store refl refl _ r] show ?thesis
    unfolding t r by (simp add: demo_backend_def read_store_eq demo_note_def demo_claims_def)
qed

text \<open>C22. Registering a push token leaves the caller with exactly one device of that type, with the new token,
  and touches no other device; a rotation keeps the device's id and creation time.\<close>

theorem register_push_token:
  assumes "memory_inv (bk_store b)" "ch_store h = memory_ops" "ctx = Some cl"
    and "dt = deviceTypeFromProto (getter rp_DeviceType 0 req)" "dt \<noteq> ''''"
    and "tok = TrimSpace (getter rp_Token '''' req)" "tok \<noteq> ''''"
    and "key = \<lparr>dk_Tenant = cl_TenantID cl, dk_User = cl_UserID cl, dk_DeviceType = dt\<rparr>"
    and "client_RegisterPushToken h ctx req b = (b', res)"
  shows "res = Ok () \<and> memory_inv (bk_store b') \<and>
    (\<exists>d. dev_Token d = tok \<and> device_of (bk_store b') = (device_of (bk_store b))(key \<mapsto> d) \<and>
       (\<forall>e. device_of (bk_store b) key = Some e \<longrightarrow> dev_ID d = dev_ID e \<and> dev_CreatedAtMS d = dev_CreatedAtMS e)) \<and>
    notifications (bk_store b') = notifications (bk_store b)"
proof -
  obtain ms w where now: "ch_now h (bk_live b) = (ms, w)" by fastforce
  define d where "d = \<lparr>dev_ID = '''', dev_TenantID = cl_TenantID cl, dev_UserID = cl_UserID cl,
      dev_DeviceType = dt, dev_Token = tok, dev_CreatedAtMS = 0, dev_LastActiveMS = ms\<rparr>"
  have k: "dev_key d = key" by (simp add: d_def dev_key_def assms(8))
  have "memory_dev_id_ok (bk_store b) (dev_ID d)" by (simp add: d_def memory_dev_id_ok_def)
  from memdev.upsert_last_write_wins [OF assms(1) this TrueI] obtain s' d' r where
    u: "memory_UpsertDevice (bk_store b) d = (s', d', Inr r)" "memory_inv s'" "dev_Token r = dev_Token d"
    "device_of s' = (device_of (bk_store b))(dev_key d \<mapsto> r)"
    "\<And>e. device_of (bk_store b) (dev_key d) = Some e \<Longrightarrow> dev_ID r = dev_ID e \<and> dev_CreatedAtMS r = dev_CreatedAtMS e"
    by (metis memory_ops_simps(5))
  have "b' = (set_live b w)\<lparr>bk_store := s'\<rparr> \<and> res = Ok ()"
    using u(1) now assms(2-7,9)
    by (simp add: client_RegisterPushToken_def ClaimsFromContext_def Let_def d_def)
  moreover have "notifications s' = notifications (bk_store b)"
    using u(1) by (auto simp: memory_UpsertDevice_def NewString_def Let_def split: option.splits if_splits prod.splits)
  ultimately show ?thesis using u k by (auto simp: d_def)
qed

theorem register_push_token_witness:
  "\<exists>b' d. client_RegisterPushToken demo_client_handler (Some (demo_claims ''alice''))
       (rpc_request \<lparr>rp_DeviceType = 2, rp_Token = ''tok''\<rparr>) demo_backend = (b', Ok ()) \<and>
     device_of (bk_store b') \<lparr>dk_Tenant = ''t'', dk_User = ''alice'', dk_DeviceType = deviceTypeFromProto 2\<rparr> = Some d \<and>
     dev_Token d = ''tok''"
proof -
  let ?req = "rpc_request \<lparr>rp_DeviceType = 2, rp_Token = ''tok''\<rparr>"
  obtain b' res where r: "client_RegisterPushToken demo_client_handler (Some (demo_claims ''alice'')) ?req demo_backend = (b', res)"
    by fastforce
  have t: "TrimSpace (getter rp_Token '''' ?req) = ''tok''" "getter rp_DeviceType 0 ?req = 2"
    by (simp_all add: getter_def rpc_request_def TrimSpace_def space_seqs_def strip_seqs.simps)
  have "deviceTypeFromProto 2 \<noteq> ''''" by (simp add: deviceTypeFromProto_def device_type_defs)
  with register_push_token [OF demo_backend_inv demo_handler_store refl refl _ refl _ refl r, unfolded t] show ?thesis
    unfolding r by (auto simp: demo_claims_def)
qed

subsection \<open>The client port on the database drivers\<close>

context sql_service
begin

lemmas postgres_port_entitled = pgs.port_entitled

end

context entdb_service
begin

lemmas entdb_port_entitled = ens.port_entitled

end

text \<open>The same isolation on the postgres driver, for requests whose strings the database can hold.\<close>

theorem postgres_port_isolation:
  assumes "sql_service pool db_of up text_in uuid_in coll" "connect_documented lib cs"
    and "run_daemon lib uni dur parse now mem pg c1 c2 en get = Inr s" "sv_store s = postgres_ops pool"
    and "request_accepted (pg_id_arg uuid_in) (pg_dev_ok text_in) cs (sv_auth s) r"
    and "pg_inv db_of up text_in uuid_in (bk_store (rpc_state st))" "srv_Handler (sv_clientServer s) r st = (st', resp)"
  shows "case sv_auth s (hr_Header r ''Authorization'') of
      Inl e \<Rightarrow> rpc_state st' = rpc_state st
    | Inr c \<Rightarrow> pg_inv db_of up text_in uuid_in (bk_store (rpc_state st')) \<and>
        own_changes c (pg_row db_of (bk_store (rpc_state st))) (pg_dev db_of (bk_store (rpc_state st)))
          (pg_row db_of (bk_store (rpc_state st'))) (pg_dev db_of (bk_store (rpc_state st')))"
  by (rule sql_service.postgres_port_entitled [OF assms(1,2,6) _ assms(5) assms(7) [unfolded run_daemon_servers(1) [OF assms(3)]]])
     (simp add: newClientHandler_def assms(4))

text \<open>And on the entdb driver.\<close>

theorem entdb_port_isolation:
  assumes "entdb_service c actor ent up str_ok query" "connect_documented lib cs"
    and "run_daemon lib uni dur parse now mem pg c1 c2 en get = Inr s" "sv_store s = entdb_ops c"
    and "request_accepted str_ok (ent_dev_ok str_ok) cs (sv_auth s) r"
    and "ent_inv ent up str_ok (bk_store (rpc_state st))" "srv_Handler (sv_clientServer s) r st = (st', resp)"
  shows "case sv_auth s (hr_Header r ''Authorization'') of
      Inl e \<Rightarrow> rpc_state st' = rpc_state st
    | Inr cl \<Rightarrow> ent_inv ent up str_ok (bk_store (rpc_state st')) \<and>
        own_changes cl (ent_row ent (bk_store (rpc_state st))) (ent_dev ent (bk_store (rpc_state st)))
          (ent_row ent (bk_store (rpc_state st'))) (ent_dev ent (bk_store (rpc_state st')))"
  by (rule entdb_service.entdb_port_entitled [OF assms(1,2,6) _ assms(5) assms(7) [unfolded run_daemon_servers(1) [OF assms(3)]]])
     (simp add: newClientHandler_def assms(4))

end
